(* ===== verification/Sera_Prelude.thy ===== *)
theory Sera_Prelude
  imports Complex_Main "HOL-Library.AList" "HOL-Library.Sublist"
begin

text \<open>
  Shared vocabulary of the development: the Python values every component uses
  (strings, insertion-ordered dictionaries, floats, results that may raise), the
  string methods of the standard library the sources call, and the hints the
  component theories hand to the simplifier.

  Strings are UTF-8 byte sequences. The methods used by the sources (\<open>find\<close>,
  \<open>startswith\<close>, \<open>replace\<close>, concatenation, ASCII \<open>strip\<close> and \<open>lower\<close>) give the same
  answer on the encoding as on the code points, because no UTF-8 character is a
  proper infix of another. Floats are exact reals: rounding is not modelled.
\<close>

named_theorems sera_defs "definitions the component proofs unfold together"

type_synonym py_str = string
type_synonym py_float = real
type_synonym ('k, 'v) py_dict = "('k \<times> 'v) list"
type_synonym ('e, 'a) py_result = "'e + 'a"


text \<open>The values JSON documents and tool arguments are made of.\<close>

datatype py_value =
    PyNone
  | PyBool bool
  | PyInt int
  | PyFloat py_float
  | PyStr py_str
  | PyList "py_value list"
  | PyDict "(py_str \<times> py_value) list"


text \<open>Python's truth value, and \<open>v or w\<close>.\<close>

fun py_truth :: "py_value \<Rightarrow> bool" where
  "py_truth PyNone = False"
| "py_truth (PyBool b) = b"
| "py_truth (PyInt i) = (i \<noteq> 0)"
| "py_truth (PyFloat x) = (x \<noteq> 0)"
| "py_truth (PyStr s) = (s \<noteq> [])"
| "py_truth (PyList xs) = (xs \<noteq> [])"
| "py_truth (PyDict kvs) = (kvs \<noteq> [])"

definition py_or :: "py_value \<Rightarrow> py_value \<Rightarrow> py_value" where
  "py_or v w = (if py_truth v then v else w)"

text \<open>\<open>round\<close>: to the nearest integer, halves to the even one.\<close>

definition py_round :: "py_float \<Rightarrow> int" where
  "py_round x =
     (let f = \<lfloor>x\<rfloor>; d = x - of_int f
      in if d < 1/2 then f else if 1/2 < d then f + 1 else if even f then f else f + 1)"

lemma py_round_of_nat [simp]: "py_round (of_nat n) = int n"
  by (simp add: py_round_def)


section \<open>Dictionaries\<close>

text \<open>
  A Python dict keeps insertion order: storing to a present key overwrites the value in
  place, storing to a fresh key appends it. \<open>AList.update\<close> is that operation.
\<close>

abbreviation dict_get :: "('k, 'v) py_dict \<Rightarrow> 'k \<Rightarrow> 'v option" where
  "dict_get d k \<equiv> map_of d k"

abbreviation dict_set :: "'k \<Rightarrow> 'v \<Rightarrow> ('k, 'v) py_dict \<Rightarrow> ('k, 'v) py_dict" where
  "dict_set k v d \<equiv> AList.update k v d"

abbreviation dict_del :: "'k \<Rightarrow> ('k, 'v) py_dict \<Rightarrow> ('k, 'v) py_dict" where
  "dict_del k d \<equiv> AList.delete k d"

definition dict_get_or :: "('k, 'v) py_dict \<Rightarrow> 'k \<Rightarrow> 'v \<Rightarrow> 'v" where
  "dict_get_or d k v = (case map_of d k of None \<Rightarrow> v | Some x \<Rightarrow> x)"

abbreviation dict_keys :: "('k, 'v) py_dict \<Rightarrow> 'k list" where
  "dict_keys d \<equiv> map fst d"

abbreviation dict_wf :: "('k, 'v) py_dict \<Rightarrow> bool" where
  "dict_wf d \<equiv> distinct (map fst d)"

lemma dict_get_set [simp]: "map_of (AList.update k v d) k' = (if k' = k then Some v else map_of d k')"
  by (simp add: update_conv)

lemma dict_get_del [simp]: "map_of (AList.delete k d) k' = (if k' = k then None else map_of d k')"
  by (simp add: delete_conv)

lemma dict_wf_set [simp, intro]: "dict_wf d \<Longrightarrow> dict_wf (AList.update k v d)"
  by (rule distinct_update)

lemma dict_wf_del [simp, intro]: "dict_wf d \<Longrightarrow> dict_wf (AList.delete k d)"
  by (rule distinct_delete)

lemma update_fresh: "k \<notin> fst ` set d \<Longrightarrow> AList.update k v d = d @ [(k, v)]"
  by (induction d) auto

lemma dict_get_or_set [simp]:
  "dict_get_or (AList.update k v d) k' u = (if k' = k then v else dict_get_or d k' u)"
  by (simp add: dict_get_or_def)

lemma map_of_filter_key: "map_of (filter (\<lambda>(k, _). P k) d) k = (if P k then map_of d k else None)"
  by (induction d) auto

lemma set_dict_get: "dict_wf d \<Longrightarrow> (k, v) \<in> set d \<longleftrightarrow> map_of d k = Some v"
  by (simp add: map_of_eq_Some_iff)

lemma dict_card: "dict_wf d \<Longrightarrow> card (fst ` set d) = length d"
  by (metis distinct_card length_map set_map)

lemma dict_ball: "dict_wf d \<Longrightarrow> (\<forall>(k, v)\<in>set d. P k v) \<longleftrightarrow> (\<forall>k v. dict_get d k = Some v \<longrightarrow> P k v)"
  by auto


text \<open>Membership in a list that a branch chose is membership in the chosen list.\<close>

lemma set_if [simp]: "set (if b then xs else ys) = (if b then set xs else set ys)"
  by (cases b) simp_all

lemma set_case_option [simp]:
  "set (case x of None \<Rightarrow> xs | Some y \<Rightarrow> f y) = (case x of None \<Rightarrow> set xs | Some y \<Rightarrow> set (f y))"
  by (cases x) simp_all


section \<open>String methods\<close>

text \<open>\<open>str(n)\<close>.\<close>

fun show_nat :: "nat \<Rightarrow> py_str" where
  "show_nat n = (if n < 10 then [char_of (48 + n)] else show_nat (n div 10) @ [char_of (48 + n mod 10)])"

declare show_nat.simps [simp del]

fun starts_with :: "py_str \<Rightarrow> py_str \<Rightarrow> bool" where
  "starts_with s [] = True"
| "starts_with [] (p # ps) = False"
| "starts_with (c # s) (p # ps) = (c = p \<and> starts_with s ps)"

text \<open>\<open>s.find(sub)\<close>: the least index where \<open>sub\<close> occurs; \<open>None\<close> is Python's -1.\<close>

fun str_find :: "py_str \<Rightarrow> py_str \<Rightarrow> nat option" where
  "str_find [] sub = (if sub = [] then Some 0 else None)"
| "str_find (c # s) sub =
     (if starts_with (c # s) sub then Some 0 else map_option Suc (str_find s sub))"

text \<open>\<open>len(s)\<close> counts code points: every byte but the UTF-8 continuation bytes.\<close>

definition py_len :: "py_str \<Rightarrow> nat" where
  "py_len s = length (filter (\<lambda>c. (of_char c :: nat) < 128 \<or> 192 \<le> (of_char c :: nat)) s)"

lemma py_len_le: "py_len s \<le> length s"
  by (simp add: py_len_def)

text \<open>\<open>s[:n]\<close> counts code points as well.\<close>

definition continuation_byte :: "char \<Rightarrow> bool" where
  "continuation_byte c \<longleftrightarrow> 128 \<le> (of_char c :: nat) \<and> (of_char c :: nat) < 192"

fun py_take :: "nat \<Rightarrow> py_str \<Rightarrow> py_str" where
  "py_take n [] = []"
| "py_take n (c # s) =
     (if continuation_byte c then c # py_take n s
      else case n of 0 \<Rightarrow> [] | Suc k \<Rightarrow> c # py_take k s)"

lemma py_len_take: "py_len (py_take n s) \<le> n"
  by (induction n s rule: py_take.induct) (auto simp: py_len_def continuation_byte_def split: nat.split)

definition str_contains :: "py_str \<Rightarrow> py_str \<Rightarrow> bool" where
  "str_contains s sub \<longleftrightarrow> str_find s sub \<noteq> None"

lemma starts_with_prefix: "starts_with s p \<longleftrightarrow> prefix p s"
  by (induction s p rule: starts_with.induct) auto

lemma starts_with_iff: "starts_with s p \<longleftrightarrow> (\<exists>t. s = p @ t)"
  by (simp add: starts_with_prefix prefix_def)

lemma starts_with_append [simp]: "starts_with (p @ t) p"
  by (auto simp: starts_with_iff)

lemma starts_with_append_short: "length p \<le> length b \<Longrightarrow> starts_with (b @ c) p = starts_with b p"
  by (induction b p rule: starts_with.induct) auto

lemma starts_with_drop: "starts_with s p \<Longrightarrow> p @ drop (length p) s = s"
  by (auto simp: starts_with_iff)

lemma str_find_Some:
  "str_find s sub = Some i \<Longrightarrow>
     starts_with (drop i s) sub \<and> i + length sub \<le> length s \<and> (\<forall>j<i. \<not> starts_with (drop j s) sub)"
proof (induction s sub arbitrary: i rule: str_find.induct)
  case (1 sub)
  then show ?case by (simp split: if_splits)
next
  case (2 c s sub)
  show ?case
  proof (cases "starts_with (c # s) sub")
    case True
    then have "length sub \<le> length (c # s)" by (auto simp: starts_with_prefix dest: prefix_length_le)
    with True "2.prems" show ?thesis by simp
  next
    case False
    with "2.prems" obtain k where k: "str_find s sub = Some k" "i = Suc k" by auto
    from "2.IH" [OF False k(1)] k(2) False show ?thesis
      by (auto simp: less_Suc_eq_0_disj)
  qed
qed

lemma all_le_Suc_drop: "(\<forall>j\<le>Suc n. P j) \<longleftrightarrow> P 0 \<and> (\<forall>j\<le>n. P (Suc j))"
  by (metis Suc_le_mono le0 not0_implies_Suc)

lemma str_find_None: "str_find s sub = None \<longleftrightarrow> (\<forall>j\<le>length s. \<not> starts_with (drop j s) sub)"
proof (induction s sub rule: str_find.induct)
  case (1 sub)
  then show ?case by (cases sub) auto
next
  case (2 c s sub)
  then show ?case by (simp add: all_le_Suc_drop)
qed


text \<open>\<open>s.replace(old, new)\<close> for a non-empty \<open>old\<close>: leftmost occurrences, not overlapping.\<close>

function str_replace :: "py_str \<Rightarrow> py_str \<Rightarrow> py_str \<Rightarrow> py_str" where
  "str_replace old new [] = []"
| "str_replace old new (c # s) =
     (if old \<noteq> [] \<and> starts_with (c # s) old then new @ str_replace old new (drop (length old - 1) s)
      else c # str_replace old new s)"
  by pat_completeness auto
termination by (relation "measure (\<lambda>(old, new, s). length s)") auto

text \<open>
  Replacing a text by one that starts with the same character, which occurs nowhere else in
  either, and goes on differently, leaves no occurrence of the text.
\<close>

lemma replace_prefix_clean:
  assumes "\<forall>x \<in> set q. x \<noteq> c" "starts_with (str_replace old (c # m) s) q"
  shows "starts_with s q"
  using assms
proof (induction q arbitrary: s)
  case (Cons a q)
  show ?case
  proof (cases s)
    case Nil
    then show ?thesis using Cons.prems(2) by simp
  next
    case s: (Cons b t)
    with Cons show ?thesis by (auto split: if_splits)
  qed
qed simp

lemma starts_with_Cons_neq: "c \<notin> set m \<Longrightarrow> j < length m \<Longrightarrow> \<not> starts_with (drop j m @ r) (c # q)"
  by (auto simp: starts_with_iff Cons_nth_drop_Suc [symmetric])

lemma replace_clean:
  assumes "c \<notin> set q" "c \<notin> set m" "m \<noteq> []" "q \<noteq> []" "hd q \<noteq> hd m"
  shows "\<not> starts_with (drop j (str_replace (c # q) (c # m) s)) (c # q)"
proof (induction "length s" arbitrary: s j rule: less_induct)
  case less
  show ?case
  proof (cases s)
    case Nil
    then show ?thesis by simp
  next
    case s: (Cons b t)
    show ?thesis
    proof (cases "starts_with s (c # q)")
      case True
      let ?r = "str_replace (c # q) (c # m) (drop (length q) t)"
      have r: "str_replace (c # q) (c # m) s = c # m @ ?r" using True s by simp
      have ih: "\<not> starts_with (drop k ?r) (c # q)" for k using less [of "drop (length q) t"] s by simp
      consider "j = 0" | i where "j = Suc i" "i < length m" | i where "j = Suc (length m + i)"
        by (metis add_diff_inverse_nat not0_implies_Suc)
      then show ?thesis
      proof cases
        case 1
        obtain a m' d q' where "m = a # m'" "q = d # q'" using assms(3,4) by (cases m; cases q) auto
        with 1 r assms(5) show ?thesis by simp
      next
        case (2 i)
        then show ?thesis using r starts_with_Cons_neq [OF assms(2) 2(2), of ?r q] by simp
      next
        case (3 i)
        then show ?thesis using r ih [of i] by simp
      qed
    next
      case False
      let ?r = "str_replace (c # q) (c # m) t"
      have r: "str_replace (c # q) (c # m) s = b # ?r"
        using False unfolding s by (simp only: str_replace.simps simp_thms if_False)
      show ?thesis
      proof (cases j)
        case 0
        show ?thesis
        proof
          assume "starts_with (drop j (str_replace (c # q) (c # m) s)) (c # q)"
          then have "b = c" "starts_with ?r q" using 0 r by simp_all
          then have "starts_with t q" using replace_prefix_clean [of q c "c # q" m t] assms(1) by blast
          with \<open>b = c\<close> False s show False by simp
        qed
      next
        case (Suc i)
        then show ?thesis using r less [of t i] s by simp
      qed
    qed
  qed
qed

lemma replace_removes:
  assumes "c \<notin> set q" "c \<notin> set m" "m \<noteq> []" "q \<noteq> []" "hd q \<noteq> hd m"
  shows "\<not> str_contains (str_replace (c # q) (c # m) s) (c # q)"
  using replace_clean [OF assms] by (simp add: str_contains_def str_find_None)


section \<open>Sequencing calls that may raise\<close>

definition rbind :: "('e, 'a) py_result \<Rightarrow> ('a \<Rightarrow> ('e, 'b) py_result) \<Rightarrow> ('e, 'b) py_result" where
  "rbind r f = (case r of Inl e \<Rightarrow> Inl e | Inr x \<Rightarrow> f x)"

lemma rbind_simps [simp]: "rbind (Inl e) f = Inl e" "rbind (Inr x) f = f x"
  by (simp_all add: rbind_def)

lemma rbind_eq_Inr: "rbind r f = Inr y \<longleftrightarrow> (\<exists>x. r = Inr x \<and> f x = Inr y)"
  by (cases r) auto


section \<open>Keyed stores\<close>

text \<open>
  The interface several components offer and others rely on: a state that can be read,
  written and erased by key, as long as it is \<open>ok\<close>.
\<close>

locale keyed_store =
  fixes fetch :: "'s \<Rightarrow> 'k \<Rightarrow> 'v option"
    and store :: "'k \<Rightarrow> 'v \<Rightarrow> 's \<Rightarrow> 's"
    and erase :: "'k \<Rightarrow> 's \<Rightarrow> 's"
    and ok :: "'s \<Rightarrow> bool"
  assumes store_ok: "ok s \<Longrightarrow> ok (store k v s)"
    and erase_ok: "ok s \<Longrightarrow> ok (erase k s)"
    and fetch_store: "ok s \<Longrightarrow> fetch (store k v s) k' = (if k' = k then Some v else fetch s k')"
    and fetch_erase: "ok s \<Longrightarrow> fetch (erase k s) k' = (if k' = k then None else fetch s k')"
begin

definition store_all :: "('k \<times> 'v) list \<Rightarrow> 's \<Rightarrow> 's" where
  "store_all kvs s = foldl (\<lambda>s (k, v). store k v s) s kvs"

lemma store_all_ok: "ok s \<Longrightarrow> ok (store_all kvs s)"
  by (induction kvs arbitrary: s) (auto simp: store_all_def store_ok)

lemma last_store_wins:
  "ok s \<Longrightarrow> fetch (store_all kvs s) k = (case map_of (rev kvs) k of None \<Rightarrow> fetch s k | Some v \<Rightarrow> Some v)"
proof (induction kvs rule: rev_induct)
  case (snoc kv kvs)
  obtain k1 v1 where kv: "kv = (k1, v1)" by (cases kv)
  have "store_all (kvs @ [kv]) s = store k1 v1 (store_all kvs s)" by (simp add: store_all_def kv)
  with snoc kv show ?case by (simp add: fetch_store store_all_ok)
qed (simp add: store_all_def)

lemma erase_store: "ok s \<Longrightarrow> fetch (erase k (store k v s)) k' = fetch (erase k s) k'"
  by (simp add: fetch_erase fetch_store store_ok)

lemma store_other: "ok s \<Longrightarrow> k' \<noteq> k \<Longrightarrow> fetch (store k v s) k' = fetch s k'"
  by (simp add: fetch_store)

end

end
