(* ===== verification/Crdt_Sync.thy ===== *)
theory Crdt_Sync
  imports Sera_Prelude "HOL-Library.List_Lexorder" "HOL-Library.Char_ord"
begin

text \<open>
  Replicated memory: the last-write-wins register, the observed-remove set and the document
  that combines them (\<open>sera/sync/crdt.py\<close>), and the relay that merges and rebroadcasts
  documents (\<open>sera/sync/relay.py\<close>). Clock readings and fresh uids are arguments. Documents
  are compared by what they hold (\<open>doc_view\<close>), not by the insertion order of their
  dictionaries, which merging in another order changes. \<open>join_replica\<close> is the interface
  between the two files: what a replica type must satisfy for the relay to converge.
\<close>


section \<open>Last-write-wins register\<close>

record 'v LWWEntry =
  lww_value :: 'v
  lww_ts :: py_float
  lww_node :: py_str

definition lww_wins :: "'v LWWEntry \<Rightarrow> 'v LWWEntry \<Rightarrow> 'v LWWEntry" where
  "lww_wins a b =
     (if lww_ts b < lww_ts a then a
      else if lww_ts a < lww_ts b then b
      else if lww_node b \<le> lww_node a then a else b)"

type_synonym 'v LWWRegister = "(py_str, 'v LWWEntry) py_dict"

definition lww_store :: "py_str \<Rightarrow> 'v LWWEntry \<Rightarrow> 'v LWWRegister \<Rightarrow> 'v LWWRegister" where
  "lww_store key entry reg =
     dict_set key (case dict_get reg key of Some existing \<Rightarrow> lww_wins entry existing | None \<Rightarrow> entry) reg"

definition lww_set :: "py_str \<Rightarrow> 'v \<Rightarrow> py_str \<Rightarrow> py_float \<Rightarrow> 'v LWWRegister \<Rightarrow> 'v LWWRegister" where
  "lww_set key v node ts reg = lww_store key \<lparr>lww_value = v, lww_ts = ts, lww_node = node\<rparr> reg"

definition lww_get :: "'v LWWRegister \<Rightarrow> py_str \<Rightarrow> 'v \<Rightarrow> 'v" where
  "lww_get reg key d = (case dict_get reg key of None \<Rightarrow> d | Some e \<Rightarrow> lww_value e)"

fun lww_merge :: "'v LWWRegister \<Rightarrow> 'v LWWRegister \<Rightarrow> 'v LWWRegister" where
  "lww_merge self [] = self"
| "lww_merge self ((key, entry) # other) = lww_merge (lww_store key entry self) other"


section \<open>Observed-remove set\<close>

record ORSetEntry =
  or_uid :: py_str
  or_node :: py_str
  or_ts :: py_float

record ORSet =
  adds :: "(py_str, py_str set) py_dict"
  removes :: "py_str set"
  entries :: "(py_str, ORSetEntry) py_dict"

definition orset_empty :: ORSet where
  "orset_empty = \<lparr>adds = [], removes = {}, entries = []\<rparr>"

definition uids_of :: "ORSet \<Rightarrow> py_str \<Rightarrow> py_str set" where
  "uids_of s element = dict_get_or (adds s) element {}"

definition add_uids :: "py_str \<Rightarrow> py_str set \<Rightarrow> (py_str, py_str set) py_dict \<Rightarrow> (py_str, py_str set) py_dict" where
  "add_uids element uids d = dict_set element (dict_get_or d element {} \<union> uids) d"

definition orset_add :: "py_str \<Rightarrow> py_str \<Rightarrow> py_str \<Rightarrow> py_float \<Rightarrow> ORSet \<Rightarrow> ORSet" where
  "orset_add element uid node ts s =
     s\<lparr>adds := add_uids element {uid} (adds s),
       entries := dict_set uid \<lparr>or_uid = uid, or_node = node, or_ts = ts\<rparr> (entries s)\<rparr>"

definition orset_remove :: "py_str \<Rightarrow> ORSet \<Rightarrow> ORSet" where
  "orset_remove element s = s\<lparr>removes := removes s \<union> uids_of s element\<rparr>"

definition orset_contains :: "ORSet \<Rightarrow> py_str \<Rightarrow> bool" where
  "orset_contains s element \<longleftrightarrow> uids_of s element - removes s \<noteq> {}"

definition orset_elements :: "ORSet \<Rightarrow> py_str list" where
  "orset_elements s = sort (map fst (filter (\<lambda>(e, uids). uids - removes s \<noteq> {}) (adds s)))"

fun merge_adds :: "(py_str, py_str set) py_dict \<Rightarrow> (py_str, py_str set) py_dict \<Rightarrow> (py_str, py_str set) py_dict" where
  "merge_adds self [] = self"
| "merge_adds self ((e, uids) # other) = merge_adds (add_uids e uids self) other"

fun dict_update :: "('k, 'v) py_dict \<Rightarrow> ('k, 'v) py_dict \<Rightarrow> ('k, 'v) py_dict" where
  "dict_update self [] = self"
| "dict_update self ((k, v) # other) = dict_update (dict_set k v self) other"

definition orset_merge :: "ORSet \<Rightarrow> ORSet \<Rightarrow> ORSet" where
  "orset_merge self other =
     \<lparr>adds = merge_adds (adds self) (adds other),
      removes = removes self \<union> removes other,
      entries = dict_update (entries self) (entries other)\<rparr>"


section \<open>The document\<close>

record CRDTDocument =
  chunks :: ORSet
  entities :: "py_value LWWRegister"
  relations :: "py_value LWWRegister"

definition doc_empty :: CRDTDocument where
  "doc_empty = \<lparr>chunks = orset_empty, entities = [], relations = []\<rparr>"

definition doc_merge :: "CRDTDocument \<Rightarrow> CRDTDocument \<Rightarrow> CRDTDocument" where
  "doc_merge self other =
     \<lparr>chunks = orset_merge (chunks self) (chunks other),
      entities = lww_merge (entities self) (entities other),
      relations = lww_merge (relations self) (relations other)\<rparr>"

text \<open>The module-level \<open>merge\<close>: a new document, both arguments untouched.\<close>

definition merge_docs :: "CRDTDocument \<Rightarrow> CRDTDocument \<Rightarrow> CRDTDocument" where
  "merge_docs local remote = doc_merge (doc_merge doc_empty local) remote"


section \<open>What a replica holds\<close>

definition orset_view :: "ORSet \<Rightarrow> (py_str \<Rightarrow> py_str set) \<times> py_str set \<times> (py_str \<rightharpoonup> ORSetEntry)" where
  "orset_view s = (uids_of s, removes s, map_of (entries s))"

definition doc_view ::
  "CRDTDocument \<Rightarrow> ((py_str \<Rightarrow> py_str set) \<times> py_str set \<times> (py_str \<rightharpoonup> ORSetEntry)) \<times>
     (py_str \<rightharpoonup> py_value LWWEntry) \<times> (py_str \<rightharpoonup> py_value LWWEntry)" where
  "doc_view d = (orset_view (chunks d), map_of (entities d), map_of (relations d))"

definition doc_wf :: "CRDTDocument \<Rightarrow> bool" where
  "doc_wf d \<longleftrightarrow> dict_wf (adds (chunks d)) \<and> dict_wf (entries (chunks d)) \<and>
     dict_wf (entities d) \<and> dict_wf (relations d)"

text \<open>
  Writes are identified: \<open>W\<close> gives the one value a (namespace, key, time, node) was
  written with and \<open>U\<close> the one record of a uid. This is what distinct node ids and uuids
  provide; without it a tie is settled by merge order (\<open>lww_tie_order_dependent\<close>).
\<close>

type_synonym write_oracle = "bool \<Rightarrow> py_str \<Rightarrow> py_float \<Rightarrow> py_str \<Rightarrow> py_value"

definition lww_ok :: "(py_str \<Rightarrow> py_float \<Rightarrow> py_str \<Rightarrow> 'v) \<Rightarrow> 'v LWWRegister \<Rightarrow> bool" where
  "lww_ok w reg \<longleftrightarrow> dict_wf reg \<and> (\<forall>(k, e) \<in> set reg. lww_value e = w k (lww_ts e) (lww_node e))"

definition orset_ok :: "(py_str \<Rightarrow> ORSetEntry) \<Rightarrow> ORSet \<Rightarrow> bool" where
  "orset_ok u s \<longleftrightarrow> dict_wf (adds s) \<and> dict_wf (entries s) \<and> (\<forall>(k, e) \<in> set (entries s). e = u k)"

definition doc_ok :: "write_oracle \<Rightarrow> (py_str \<Rightarrow> ORSetEntry) \<Rightarrow> CRDTDocument \<Rightarrow> bool" where
  "doc_ok W U d \<longleftrightarrow> orset_ok U (chunks d) \<and> lww_ok (W True) (entities d) \<and> lww_ok (W False) (relations d)"


section \<open>Lookups after merging\<close>

definition opt_join :: "('a \<Rightarrow> 'a \<Rightarrow> 'a) \<Rightarrow> 'a option \<Rightarrow> 'a option \<Rightarrow> 'a option" where
  "opt_join f x y = (case x of None \<Rightarrow> y | Some a \<Rightarrow> (case y of None \<Rightarrow> Some a | Some b \<Rightarrow> Some (f b a)))"

lemma lww_store_get [simp]:
  "dict_get (lww_store k e reg) k' =
     (if k' = k then opt_join lww_wins (dict_get reg k) (Some e) else dict_get reg k')"
  by (auto simp: lww_store_def opt_join_def split: option.split)

lemma lww_store_wf [simp]: "dict_wf reg \<Longrightarrow> dict_wf (lww_store k e reg)"
  by (simp add: lww_store_def)

lemma lww_merge_wf [simp]: "dict_wf reg \<Longrightarrow> dict_wf (lww_merge reg other)"
  by (induction reg other rule: lww_merge.induct) simp_all

lemma lww_merge_get:
  "dict_wf other \<Longrightarrow> dict_get (lww_merge reg other) k = opt_join lww_wins (dict_get reg k) (dict_get other k)"
proof (induction reg other rule: lww_merge.induct)
  case (1 self)
  then show ?case by (simp add: opt_join_def split: option.split)
next
  case (2 self key entry other)
  then have "dict_get other key = None" by (simp add: map_of_eq_None_iff)
  with 2 show ?case by (auto simp: opt_join_def split: option.split)
qed

lemma add_uids_get [simp]:
  "dict_get_or (add_uids e u d) e' {} = (if e' = e then dict_get_or d e {} \<union> u else dict_get_or d e' {})"
  by (simp add: add_uids_def)

lemma merge_adds_wf [simp]: "dict_wf d \<Longrightarrow> dict_wf (merge_adds d other)"
  by (induction d other rule: merge_adds.induct) (simp_all add: add_uids_def)

lemma merge_adds_get:
  "dict_wf other \<Longrightarrow> dict_get_or (merge_adds d other) e {} = dict_get_or d e {} \<union> dict_get_or other e {}"
proof (induction d other rule: merge_adds.induct)
  case (2 self k u other)
  then have "dict_get other k = None" by (simp add: map_of_eq_None_iff)
  with 2 show ?case by (auto simp: dict_get_or_def add_uids_def split: option.split)
qed (simp add: dict_get_or_def)

lemma dict_update_wf [simp]: "dict_wf d \<Longrightarrow> dict_wf (dict_update d other)"
  by (induction d other rule: dict_update.induct) simp_all

lemma dict_update_get:
  "dict_wf other \<Longrightarrow> dict_get (dict_update d other) k =
     (case dict_get other k of None \<Rightarrow> dict_get d k | Some v \<Rightarrow> Some v)"
proof (induction d other rule: dict_update.induct)
  case (2 self key v other)
  then have "dict_get other key = None" by (simp add: map_of_eq_None_iff)
  with 2 show ?case by (auto split: option.split)
qed simp

lemma uids_of_merge:
  "dict_wf (adds b) \<Longrightarrow> uids_of (orset_merge a b) e = uids_of a e \<union> uids_of b e"
  by (simp add: uids_of_def orset_merge_def merge_adds_get)

lemmas merge_lookups = lww_merge_get uids_of_merge dict_update_get


section \<open>The laws of a replica type\<close>

text \<open>
  What the relay and its clients rely on: joining keeps \<open>ok\<close> and, seen through \<open>view\<close>, is
  a semilattice join. Every convergence argument is made once, here.
\<close>

locale join_replica =
  fixes join :: "'s \<Rightarrow> 's \<Rightarrow> 's"
    and view :: "'s \<Rightarrow> 'v"
    and ok :: "'s \<Rightarrow> bool"
  assumes join_ok: "\<lbrakk>ok a; ok b\<rbrakk> \<Longrightarrow> ok (join a b)"
    and join_cong: "\<lbrakk>ok a; ok a'; ok b; ok b'; view a = view a'; view b = view b'\<rbrakk> \<Longrightarrow>
      view (join a b) = view (join a' b')"
    and join_commute: "\<lbrakk>ok a; ok b\<rbrakk> \<Longrightarrow> view (join a b) = view (join b a)"
    and join_assoc: "\<lbrakk>ok a; ok b; ok c\<rbrakk> \<Longrightarrow> view (join (join a b) c) = view (join a (join b c))"
    and join_idem: "ok a \<Longrightarrow> view (join a a) = view a"
begin

definition below :: "'s \<Rightarrow> 's \<Rightarrow> bool" where
  "below b a \<longleftrightarrow> view (join a b) = view a"

lemma below_refl: "ok a \<Longrightarrow> below a a"
  by (simp add: below_def join_idem)

lemma below_antisym: "\<lbrakk>ok a; ok b; below a b; below b a\<rbrakk> \<Longrightarrow> view a = view b"
  using join_commute by (simp add: below_def)

lemma join_cong1: "\<lbrakk>ok a; ok a'; ok b; view a = view a'\<rbrakk> \<Longrightarrow> view (join a b) = view (join a' b)"
  by (rule join_cong) auto

lemma join_cong2: "\<lbrakk>ok a; ok b; ok b'; view b = view b'\<rbrakk> \<Longrightarrow> view (join a b) = view (join a b')"
  by (rule join_cong) auto

lemma below_trans:
  assumes "ok a" "ok b" "ok c" "below a b" "below b c"
  shows "below a c"
proof -
  have "view (join c a) = view (join (join c b) a)"
    using assms by (intro join_cong1) (simp_all add: join_ok below_def)
  also have "\<dots> = view (join c (join b a))" using assms by (simp add: join_assoc)
  also have "\<dots> = view (join c b)"
    using assms by (intro join_cong2) (simp_all add: join_ok below_def)
  finally show ?thesis using assms by (simp add: below_def)
qed

lemma below_join1: "\<lbrakk>ok a; ok b\<rbrakk> \<Longrightarrow> below b (join a b)"
  using join_assoc [of a b b] join_cong2 [of a "join b b" b] by (simp add: below_def join_ok join_idem)

lemma below_join2:
  assumes "ok a" "ok b"
  shows "below a (join a b)"
proof -
  have "view (join (join a b) a) = view (join (join b a) a)"
    using assms by (intro join_cong1) (simp_all add: join_ok join_commute)
  also have "\<dots> = view (join b a)"
    using below_join1 [of b a] assms by (simp add: below_def)
  finally show ?thesis using assms by (simp add: below_def join_commute)
qed

lemma join_least:
  assumes "ok a" "ok b" "ok u" "below a u" "below b u"
  shows "below (join a b) u"
proof -
  have "view (join u (join a b)) = view (join (join u a) b)" using assms by (simp add: join_assoc)
  also have "\<dots> = view (join u b)"
    using assms by (intro join_cong1) (simp_all add: join_ok below_def)
  finally show ?thesis using assms by (simp add: below_def)
qed

lemma foldl_ok: "\<lbrakk>ok a; \<forall>d\<in>set ds. ok d\<rbrakk> \<Longrightarrow> ok (foldl join a ds)"
  by (induction ds arbitrary: a) (simp_all add: join_ok)

lemma foldl_upper:
  "\<lbrakk>ok a; \<forall>d\<in>set ds. ok d\<rbrakk> \<Longrightarrow> below a (foldl join a ds) \<and> (\<forall>d\<in>set ds. below d (foldl join a ds))"
proof (induction ds arbitrary: a)
  case Nil
  then show ?case by (simp add: below_refl)
next
  case (Cons d ds)
  then have ok: "ok d" "ok (join a d)" "ok (foldl join (join a d) ds)"
    by (simp_all add: join_ok foldl_ok)
  have up: "below (join a d) (foldl join (join a d) ds)" "\<forall>e\<in>set ds. below e (foldl join (join a d) ds)"
    using Cons.IH [of "join a d"] Cons.prems ok by simp_all
  with ok Cons.prems show ?case
    using below_trans [of a "join a d"] below_trans [of d "join a d"] below_join1 below_join2 by auto
qed

lemma foldl_least:
  "\<lbrakk>ok a; \<forall>d\<in>set ds. ok d; ok u; below a u; \<forall>d\<in>set ds. below d u\<rbrakk> \<Longrightarrow> below (foldl join a ds) u"
  by (induction ds arbitrary: a) (simp_all add: join_ok join_least)

text \<open>Strong eventual consistency: the state depends on which documents arrived, not on
  their order or multiplicity.\<close>

lemma foldl_same_set:
  assumes "ok a" "\<forall>d\<in>set ds. ok d" "set ds = set es"
  shows "view (foldl join a ds) = view (foldl join a es)"
proof -
  have ok: "ok (foldl join a ds)" "ok (foldl join a es)" using assms foldl_ok by auto
  have "below (foldl join a ds) (foldl join a es)"
    using assms ok foldl_upper [of a es] by (intro foldl_least) auto
  moreover have "below (foldl join a es) (foldl join a ds)"
    using assms ok foldl_upper [of a ds] by (intro foldl_least) auto
  ultimately show ?thesis using ok below_antisym by blast
qed

text \<open>A replica whose own state is covered by \<open>r\<close> and that merges messages covered by \<open>r\<close>,
  \<open>r\<close> among them, ends up holding \<open>r\<close>.\<close>

lemma absorbs_last:
  assumes "ok a" "\<forall>d\<in>set ds. ok d" "ok r" "below a r" "\<forall>d\<in>set ds. below d r" "r \<in> set ds"
  shows "view (foldl join a ds) = view r"
proof -
  have "below (foldl join a ds) r" using assms by (intro foldl_least) auto
  moreover have "below r (foldl join a ds)" using assms foldl_upper [of a ds] by auto
  ultimately show ?thesis using assms foldl_ok below_antisym by metis
qed

end


section \<open>Documents are such a replica type\<close>

lemma lww_wins_assoc: "lww_wins (lww_wins a b) c = lww_wins a (lww_wins b c)"
  by (auto simp: lww_wins_def)

lemma lww_wins_idem [simp]: "lww_wins a a = a"
  by (simp add: lww_wins_def)

lemma lww_wins_commute:
  assumes "lww_value a = w (lww_ts a) (lww_node a)" "lww_value b = w (lww_ts b) (lww_node b)"
  shows "lww_wins a b = lww_wins (b :: 'v LWWEntry) a"
proof (cases "lww_ts a = lww_ts b \<and> lww_node a = lww_node b")
  case True
  with assms have "a = b" by (intro LWWEntry.equality) simp_all
  then show ?thesis by simp
next
  case False
  then show ?thesis by (auto simp: lww_wins_def)
qed

lemma opt_join_assoc:
  "(\<And>x y z. f (f x y) z = f x (f y z)) \<Longrightarrow> opt_join f (opt_join f a b) c = opt_join f a (opt_join f b c)"
  by (auto simp: opt_join_def split: option.splits)

lemma opt_join_idem: "(\<And>x. f x x = x) \<Longrightarrow> opt_join f a a = a"
  by (auto simp: opt_join_def split: option.splits)

lemma lww_ok_get: "lww_ok w reg \<longleftrightarrow> dict_wf reg \<and> (\<forall>k e. dict_get reg k = Some e \<longrightarrow> lww_value e = w k (lww_ts e) (lww_node e))"
  unfolding lww_ok_def by (intro conj_cong refl dict_ball)

lemma lww_merge_ok:
  assumes "lww_ok w a" "lww_ok w b"
  shows "lww_ok w (lww_merge a b)"
proof -
  have "lww_value e = w k (lww_ts e) (lww_node e)" if g: "dict_get (lww_merge a b) k = Some e" for k e
  proof -
    have "opt_join lww_wins (dict_get a k) (dict_get b k) = Some e"
      using g assms by (simp add: lww_merge_get lww_ok_def)
    then have "dict_get a k = Some e \<or> dict_get b k = Some e"
      by (auto simp: opt_join_def lww_wins_def split: option.splits if_splits)
    with assms show ?thesis by (auto simp: lww_ok_get simp del: map_of_eq_Some_iff)
  qed
  with assms show ?thesis by (simp add: lww_ok_get lww_ok_def)
qed

lemma lww_merge_get_commute:
  assumes "lww_ok w a" "lww_ok w b"
  shows "dict_get (lww_merge a b) k = dict_get (lww_merge b a) k"
proof -
  have "opt_join lww_wins (dict_get a k) (dict_get b k) = opt_join lww_wins (dict_get b k) (dict_get a k)"
  proof (cases "dict_get a k"; cases "dict_get b k")
    fix e f assume e: "dict_get a k = Some e" and f: "dict_get b k = Some f"
    have "lww_value e = w k (lww_ts e) (lww_node e)" "lww_value f = w k (lww_ts f) (lww_node f)"
      using e f assms by (auto simp: lww_ok_get simp del: map_of_eq_Some_iff)
    then have "lww_wins f e = lww_wins e f" by (rule lww_wins_commute [of _ "w k", symmetric])
    with e f show ?thesis by (simp add: opt_join_def)
  qed (simp_all add: opt_join_def)
  with assms show ?thesis by (simp add: lww_merge_get lww_ok_def)
qed

lemma lww_merge_get_assoc:
  assumes "dict_wf b" "dict_wf c"
  shows "dict_get (lww_merge (lww_merge a b) c) k = dict_get (lww_merge a (lww_merge b c)) k"
  using assms by (simp add: lww_merge_get opt_join_assoc [where f = lww_wins] opt_join_def lww_wins_assoc split: option.splits)

lemma orset_ok_get: "orset_ok u s \<longleftrightarrow> dict_wf (adds s) \<and> dict_wf (entries s) \<and> (\<forall>k e. dict_get (entries s) k = Some e \<longrightarrow> e = u k)"
  unfolding orset_ok_def by (intro conj_cong refl dict_ball)

lemma orset_merge_simps [simp]:
  "removes (orset_merge a b) = removes a \<union> removes b"
  "entries (orset_merge a b) = dict_update (entries a) (entries b)"
  "adds (orset_merge a b) = merge_adds (adds a) (adds b)"
  by (simp_all add: orset_merge_def)

lemma orset_merge_ok: "orset_ok u a \<Longrightarrow> orset_ok u b \<Longrightarrow> orset_ok u (orset_merge a b)"
  by (auto simp: orset_ok_get dict_update_get simp del: map_of_eq_Some_iff split: option.splits)

lemma orset_view_merge:
  assumes "orset_ok u a" "orset_ok u b"
  shows "orset_view (orset_merge a b) =
    (\<lambda>e. uids_of a e \<union> uids_of b e, removes a \<union> removes b, map_of (entries a) ++ map_of (entries b))"
  using assms by (auto simp: orset_view_def orset_ok_def uids_of_merge dict_update_get map_add_def fun_eq_iff)

lemma entries_agree:
  assumes "orset_ok u a" "orset_ok u b"
  shows "map_of (entries a) ++ map_of (entries b) = map_of (entries b) ++ map_of (entries a)"
  using assms by (auto simp: orset_ok_get map_add_def fun_eq_iff simp del: map_of_eq_Some_iff split: option.splits)

lemma doc_merge_simps [simp]:
  "chunks (doc_merge a b) = orset_merge (chunks a) (chunks b)"
  "entities (doc_merge a b) = lww_merge (entities a) (entities b)"
  "relations (doc_merge a b) = lww_merge (relations a) (relations b)"
  by (simp_all add: doc_merge_def)

lemma doc_merge_ok: "doc_ok W U a \<Longrightarrow> doc_ok W U b \<Longrightarrow> doc_ok W U (doc_merge a b)"
  by (simp add: doc_ok_def orset_merge_ok lww_merge_ok)

lemma doc_empty_ok [simp]: "doc_ok W U doc_empty"
  by (simp add: doc_ok_def doc_empty_def orset_empty_def orset_ok_def lww_ok_def)

lemma lww_view_merge:
  "lww_ok w b \<Longrightarrow> map_of (lww_merge a b) = (\<lambda>k. opt_join lww_wins (map_of a k) (map_of b k))"
  by (simp add: fun_eq_iff lww_merge_get lww_ok_def)

lemma orset_view_eq:
  "orset_view a = orset_view b \<longleftrightarrow> uids_of a = uids_of b \<and> removes a = removes b \<and> map_of (entries a) = map_of (entries b)"
  by (simp add: orset_view_def)

interpretation doc: join_replica doc_merge doc_view "doc_ok W U" for W U
proof
  fix a b c assume a: "doc_ok W U a" and b: "doc_ok W U b" and c: "doc_ok W U c"
  have m: "orset_view (orset_merge (orset_merge (chunks a) (chunks b)) (chunks c)) =
    orset_view (orset_merge (chunks a) (orset_merge (chunks b) (chunks c)))"
    using a b c by (simp add: doc_ok_def orset_view_eq fun_eq_iff uids_of_merge dict_update_get orset_ok_def Un_assoc split: option.split)
  show "doc_view (doc_merge (doc_merge a b) c) = doc_view (doc_merge a (doc_merge b c))"
    using a b c m by (simp add: doc_view_def doc_ok_def fun_eq_iff lww_merge_get_assoc lww_ok_def)
next
  fix a b assume ok: "doc_ok W U a" "doc_ok W U b"
  then show "doc_ok W U (doc_merge a b)" by (rule doc_merge_ok)
  have "map_of (lww_merge (entities a) (entities b)) = map_of (lww_merge (entities b) (entities a))"
    "map_of (lww_merge (relations a) (relations b)) = map_of (lww_merge (relations b) (relations a))"
    using ok lww_merge_get_commute by (auto simp: doc_ok_def fun_eq_iff)
  with ok show "doc_view (doc_merge a b) = doc_view (doc_merge b a)"
    by (auto simp: doc_view_def doc_ok_def orset_view_merge entries_agree)
next
  fix a a' b b' assume "doc_ok W U a" "doc_ok W U a'" "doc_ok W U b" "doc_ok W U b'"
    "doc_view a = doc_view a'" "doc_view b = doc_view b'"
  then show "doc_view (doc_merge a b) = doc_view (doc_merge a' b')"
    unfolding doc_view_def doc_ok_def
    by (clarsimp simp: orset_view_merge lww_view_merge) (simp add: orset_view_def)
next
  fix a assume "doc_ok W U a"
  then show "doc_view (doc_merge a a) = doc_view a"
    unfolding doc_view_def doc_ok_def
    by (clarsimp simp: orset_view_merge lww_view_merge opt_join_idem)
      (simp add: orset_view_def map_add_def fun_eq_iff split: option.split)
qed


section \<open>What merging promises\<close>


definition phone_doc :: CRDTDocument where
  "phone_doc = doc_empty\<lparr>chunks := orset_add ''c1'' ''u1'' ''phone'' 1 orset_empty,
     entities := lww_set ''ada'' (PyStr ''engineer'') ''phone'' 5 []\<rparr>"

definition laptop_doc :: CRDTDocument where
  "laptop_doc = doc_empty\<lparr>chunks := orset_remove ''c1'' (orset_add ''c1'' ''u2'' ''laptop'' 2 orset_empty),
     entities := lww_set ''ada'' (PyStr ''founder'') ''laptop'' 5 []\<rparr>"

definition demo_writes :: write_oracle where
  "demo_writes ns k t n = (if n = ''phone'' then PyStr ''engineer'' else PyStr ''founder'')"

definition demo_uids :: "py_str \<Rightarrow> ORSetEntry" where
  "demo_uids u = (if u = ''u1'' then \<lparr>or_uid = ''u1'', or_node = ''phone'', or_ts = 1\<rparr>
     else \<lparr>or_uid = ''u2'', or_node = ''laptop'', or_ts = 2\<rparr>)"

lemmas demo_simps = phone_doc_def laptop_doc_def demo_writes_def demo_uids_def doc_empty_def
  orset_empty_def orset_add_def orset_remove_def add_uids_def uids_of_def dict_get_or_def
  lww_set_def lww_store_def lww_wins_def

lemma demo_docs_ok [simp]: "doc_ok demo_writes demo_uids phone_doc" "doc_ok demo_writes demo_uids laptop_doc"
  by (simp_all add: doc_ok_def orset_ok_def lww_ok_def demo_simps)


text \<open>
  After merging, a key holds one of the two writes the documents had for it, and that
  write is the newest: no write either side knew of has a later time, or the same time and
  a higher node id.
\<close>

theorem lww_merge_keeps_newest:
  assumes "dict_wf other" "dict_get (lww_merge self other) k = Some e"
  shows "(dict_get self k = Some e \<or> dict_get other k = Some e) \<and>
    (\<forall>e'. dict_get self k = Some e' \<or> dict_get other k = Some e' \<longrightarrow>
       lww_ts e' < lww_ts e \<or> lww_ts e' = lww_ts e \<and> lww_node e' \<le> lww_node e)"
proof -
  have "opt_join lww_wins (dict_get self k) (dict_get other k) = Some e"
    using assms by (simp add: lww_merge_get)
  then show ?thesis
    by (cases "dict_get self k"; cases "dict_get other k")
      (auto simp: opt_join_def lww_wins_def simp del: map_of_eq_Some_iff split: if_splits)
qed

theorem lww_merge_keeps_newest_witness:
  "dict_get (entities phone_doc) ''ada'' = Some \<lparr>lww_value = PyStr ''engineer'', lww_ts = 5, lww_node = ''phone''\<rparr> \<and>
   lww_node \<lparr>lww_value = PyStr ''engineer'', lww_ts = 5, lww_node = ''phone''\<rparr> = ''phone''"
proof -
  have d: "dict_wf (entities laptop_doc)" by (simp add: demo_simps)
  have g: "dict_get (lww_merge (entities phone_doc) (entities laptop_doc)) ''ada'' =
      Some \<lparr>lww_value = PyStr ''engineer'', lww_ts = 5, lww_node = ''phone''\<rparr>"
    by (simp add: demo_simps less_list_code)
  show ?thesis using lww_merge_keeps_newest [OF d g]
    by (auto simp: demo_simps)
qed

text \<open>
  An element is in the merged set exactly when one of its adds, known to either side,
  has not been removed by either side.
\<close>

theorem orset_merge_contains:
  assumes "dict_wf (adds b)"
  shows "orset_contains (orset_merge a b) e \<longleftrightarrow>
    (\<exists>uid \<in> uids_of a e \<union> uids_of b e. uid \<notin> removes a \<and> uid \<notin> removes b)"
  using assms by (auto simp: orset_contains_def uids_of_merge)

theorem orset_merge_contains_witness:
  "orset_contains (orset_merge (chunks laptop_doc) (chunks phone_doc)) ''c1''"
proof -
  have "dict_wf (adds (chunks phone_doc))" by (simp add: demo_simps)
  from orset_merge_contains [OF this] show ?thesis by (simp add: demo_simps)
qed

text \<open>
  Concurrent adds win. An add whose uid the other replica has not seen survives merging
  with that replica in either direction, even though it removes the same element.
\<close>

theorem concurrent_add_wins:
  assumes "dict_wf (adds a)" "dict_wf (adds b)"
    and "uid \<notin> removes a" "uid \<notin> removes b" "uid \<notin> uids_of b e"
  shows "orset_contains (orset_merge (orset_add e uid n t a) (orset_remove e b)) e \<and>
    orset_contains (orset_merge (orset_remove e b) (orset_add e uid n t a)) e"
proof -
  have "uid \<in> uids_of (orset_add e uid n t a) e" by (simp add: uids_of_def orset_add_def)
  moreover have "dict_wf (adds (orset_add e uid n t a))" "dict_wf (adds (orset_remove e b))"
    using assms by (simp_all add: orset_add_def orset_remove_def add_uids_def)
  ultimately show ?thesis using assms
    by (auto simp: orset_contains_def uids_of_merge orset_remove_def) (auto simp: orset_add_def)
qed

theorem concurrent_add_wins_witness:
  "orset_contains (orset_merge (orset_add ''c1'' ''u9'' ''phone'' 3 orset_empty)
     (orset_remove ''c1'' (orset_add ''c1'' ''u2'' ''laptop'' 2 orset_empty))) ''c1''"
  by (rule concurrent_add_wins [THEN conjunct1]) (simp_all add: demo_simps)

text \<open>
  A remove is final for every add it observed: merging with a replica that knows no
  further add of the element, in either direction, does not bring the element back.
\<close>

theorem observed_remove_sticks:
  assumes "dict_wf (adds a)" "dict_wf (adds b)" "uids_of b e \<subseteq> uids_of a e"
  shows "\<not> orset_contains (orset_merge (orset_remove e a) b) e \<and>
    \<not> orset_contains (orset_merge b (orset_remove e a)) e"
proof -
  have u: "uids_of (orset_remove e a) e = uids_of a e" "removes (orset_remove e a) = removes a \<union> uids_of a e"
    "dict_wf (adds (orset_remove e a))"
    using assms by (simp_all add: orset_remove_def uids_of_def)
  with assms show ?thesis by (auto simp: orset_contains_def uids_of_merge)
qed

theorem observed_remove_sticks_witness:
  "\<not> orset_contains (orset_merge (orset_remove ''c1'' (chunks phone_doc)) (chunks phone_doc)) ''c1''"
  by (rule observed_remove_sticks [THEN conjunct1]) (simp_all add: demo_simps)

lemma orset_elements_spec:
  assumes "dict_wf (adds s)"
  shows "set (orset_elements s) = {e. orset_contains s e} \<and> sorted (orset_elements s) \<and> distinct (orset_elements s)"
proof -
  let ?live = "filter (\<lambda>(e, uids). uids - removes s \<noteq> {}) (adds s)"
  have "distinct (map fst ?live)" using assms by (rule distinct_map_filter)
  moreover have "e \<in> set (map fst ?live) \<longleftrightarrow> orset_contains s e" for e
  proof -
    have "e \<in> set (map fst ?live) \<longleftrightarrow> (\<exists>u. (e, u) \<in> set (adds s) \<and> u - removes s \<noteq> {})" by force
    also have "\<dots> \<longleftrightarrow> (\<exists>u. dict_get (adds s) e = Some u \<and> u - removes s \<noteq> {})" using assms by simp
    also have "\<dots> \<longleftrightarrow> orset_contains s e"
      by (cases "dict_get (adds s) e") (simp_all add: orset_contains_def uids_of_def dict_get_or_def del: map_of_eq_Some_iff)
    finally show ?thesis .
  qed
  then have "set (map fst ?live) = {e. orset_contains s e}" by blast
  ultimately show ?thesis by (simp add: orset_elements_def del: set_map)
qed

text \<open>
  The module promises a commutative merge. With one time and one node id behind two
  different values it is not: each side keeps the other's value.
\<close>

lemma lww_tie_order_dependent:
  fixes a b :: "'v LWWEntry"
  assumes "lww_ts a = lww_ts b" "lww_node a = lww_node b"
  shows "dict_get (lww_merge [(k, a)] [(k, b)]) k = Some b \<and> dict_get (lww_merge [(k, b)] [(k, a)]) k = Some a"
  using assms by (simp add: lww_store_def lww_wins_def)

end
