(* ===== verification/Crdt_Relay.thy ===== *)
theory Crdt_Relay
  imports Crdt_Sync
begin

text \<open>
  The wire form of a document (\<open>to_dict\<close>/\<open>from_dict\<close> of \<open>sera/sync/crdt.py\<close>) and the relay
  with its clients (\<open>sera/sync/relay.py\<close>). A frame is the JSON value it parses to, or
  \<open>None\<close> for text \<open>json.loads\<close> rejects. A Python set is written in an order of its own,
  which \<open>listing\<close> stands for. Sockets are numbered; \<open>send\<close> results are the list of frames
  sent. The lock serialises handlers, so one received frame is one step.
\<close>


section \<open>Writing a document\<close>

definition lww_entry_to_dict :: "py_value LWWEntry \<Rightarrow> py_value" where
  "lww_entry_to_dict e = PyDict
     [(''value'', lww_value e), (''ts'', PyFloat (lww_ts e)), (''node_id'', PyStr (lww_node e))]"

definition lww_to_dict :: "py_value LWWRegister \<Rightarrow> py_value" where
  "lww_to_dict reg = PyDict (map (\<lambda>(k, e). (k, lww_entry_to_dict e)) reg)"

definition str_list :: "py_str list \<Rightarrow> py_value" where
  "str_list xs = PyList (map PyStr xs)"

definition orset_to_dict :: "(py_str set \<Rightarrow> py_str list) \<Rightarrow> ORSet \<Rightarrow> py_value" where
  "orset_to_dict listing s = PyDict
     [(''adds'', PyDict (map (\<lambda>(k, v). (k, str_list (listing v))) (adds s))),
      (''removes'', str_list (listing (removes s))),
      (''entries'', PyDict (map (\<lambda>(uid, e). (uid, PyDict
          [(''node_id'', PyStr (or_node e)), (''ts'', PyFloat (or_ts e))])) (entries s)))]"

definition doc_to_dict :: "(py_str set \<Rightarrow> py_str list) \<Rightarrow> CRDTDocument \<Rightarrow> py_value" where
  "doc_to_dict listing d = PyDict
     [(''chunks'', orset_to_dict listing (chunks d)),
      (''entities'', lww_to_dict (entities d)),
      (''relations'', lww_to_dict (relations d))]"

definition encode_doc :: "(py_str set \<Rightarrow> py_str list) \<Rightarrow> CRDTDocument \<Rightarrow> py_value option" where
  "encode_doc listing d = Some (PyDict [(''v'', PyInt 1), (''doc'', doc_to_dict listing d)])"


section \<open>Reading a document\<close>

text \<open>
  \<open>Unmodelled\<close> marks values Python accepts and the typed model has no room for: a \<open>ts\<close> that
  is not a float, a set element or a node id that is not a string.
\<close>

datatype decode_error = ValueError | KeyError | TypeError | AttributeError | Unmodelled

definition json_loads :: "py_value option \<Rightarrow> decode_error + py_value" where
  "json_loads payload = (case payload of None \<Rightarrow> Inl ValueError | Some v \<Rightarrow> Inr v)"

definition get_default :: "py_value \<Rightarrow> py_str \<Rightarrow> py_value \<Rightarrow> decode_error + py_value" where
  "get_default data k d =
     (case data of PyDict kvs \<Rightarrow> Inr (dict_get_or kvs k d) | _ \<Rightarrow> Inl AttributeError)"

definition items_of :: "py_value \<Rightarrow> decode_error + (py_str \<times> py_value) list" where
  "items_of data = (case data of PyDict kvs \<Rightarrow> Inr kvs | _ \<Rightarrow> Inl AttributeError)"

definition subscript :: "py_value \<Rightarrow> py_str \<Rightarrow> decode_error + py_value" where
  "subscript v k =
     (case v of
        PyDict kvs \<Rightarrow> (case dict_get kvs k of None \<Rightarrow> Inl KeyError | Some x \<Rightarrow> Inr x)
      | _ \<Rightarrow> Inl TypeError)"

fun as_float :: "py_value \<Rightarrow> decode_error + py_float" where
  "as_float (PyFloat x) = Inr x"
| "as_float _ = Inl Unmodelled"

fun as_str :: "py_value \<Rightarrow> decode_error + py_str" where
  "as_str (PyStr x) = Inr x"
| "as_str _ = Inl Unmodelled"

text \<open>\<open>set(v)\<close>: unhashable members raise \<open>TypeError\<close>, a string is the set of its
  characters, a dict the set of its keys.\<close>

fun unhashable :: "py_value \<Rightarrow> bool" where
  "unhashable (PyList _) = True"
| "unhashable (PyDict _) = True"
| "unhashable _ = False"

fun str_members :: "py_value list \<Rightarrow> decode_error + py_str set" where
  "str_members [] = Inr {}"
| "str_members (v # vs) = rbind (as_str v) (\<lambda>x. rbind (str_members vs) (\<lambda>A. Inr (insert x A)))"

fun py_set_of :: "py_value \<Rightarrow> decode_error + py_str set" where
  "py_set_of (PyList vs) = (if list_ex unhashable vs then Inl TypeError else str_members vs)"
| "py_set_of (PyStr s) =
     (if list_all (\<lambda>c. of_char c < (128::nat)) s then Inr (set (map (\<lambda>c. [c]) s)) else Inl Unmodelled)"
| "py_set_of (PyDict kvs) = Inr (set (map fst kvs))"
| "py_set_of _ = Inl TypeError"

text \<open>A dict comprehension over \<open>.items()\<close>: entries are stored one by one.\<close>

fun load_items :: "('k \<Rightarrow> 'a \<Rightarrow> 'e + 'b) \<Rightarrow> ('k, 'b) py_dict \<Rightarrow> ('k \<times> 'a) list \<Rightarrow> 'e + ('k, 'b) py_dict" where
  "load_items f acc [] = Inr acc"
| "load_items f acc ((k, v) # xs) = rbind (f k v) (\<lambda>y. load_items f (dict_set k y acc) xs)"

definition lww_load_entry :: "py_str \<Rightarrow> py_value \<Rightarrow> decode_error + py_value LWWEntry" where
  "lww_load_entry key entry =
     rbind (subscript entry ''value'') (\<lambda>v.
     rbind (subscript entry ''ts'') (\<lambda>t.
     rbind (subscript entry ''node_id'') (\<lambda>n.
     rbind (as_float t) (\<lambda>ts. rbind (as_str n) (\<lambda>node.
       Inr \<lparr>lww_value = v, lww_ts = ts, lww_node = node\<rparr>)))))"

definition lww_from_dict :: "py_value \<Rightarrow> decode_error + py_value LWWRegister" where
  "lww_from_dict data = rbind (items_of data) (\<lambda>kvs. load_items lww_load_entry [] kvs)"

definition orset_load_entry :: "py_str \<Rightarrow> py_value \<Rightarrow> decode_error + ORSetEntry" where
  "orset_load_entry uid e =
     rbind (subscript e ''node_id'') (\<lambda>n.
     rbind (subscript e ''ts'') (\<lambda>t.
     rbind (as_str n) (\<lambda>node. rbind (as_float t) (\<lambda>ts.
       Inr \<lparr>or_uid = uid, or_node = node, or_ts = ts\<rparr>))))"

definition orset_from_dict :: "py_value \<Rightarrow> decode_error + ORSet" where
  "orset_from_dict data =
     rbind (get_default data ''adds'' (PyDict [])) (\<lambda>a.
     rbind (items_of a) (\<lambda>a_items.
     rbind (load_items (\<lambda>_. py_set_of) [] a_items) (\<lambda>adds'.
     rbind (get_default data ''removes'' (PyList [])) (\<lambda>r.
     rbind (py_set_of r) (\<lambda>removes'.
     rbind (get_default data ''entries'' (PyDict [])) (\<lambda>e.
     rbind (items_of e) (\<lambda>e_items.
     rbind (load_items orset_load_entry [] e_items) (\<lambda>entries'.
       Inr \<lparr>adds = adds', removes = removes', entries = entries'\<rparr>))))))))"

definition doc_from_dict :: "py_value \<Rightarrow> decode_error + CRDTDocument" where
  "doc_from_dict data =
     rbind (get_default data ''chunks'' (PyDict [])) (\<lambda>c.
     rbind (orset_from_dict c) (\<lambda>chunks'.
     rbind (get_default data ''entities'' (PyDict [])) (\<lambda>e.
     rbind (lww_from_dict e) (\<lambda>entities'.
     rbind (get_default data ''relations'' (PyDict [])) (\<lambda>r.
     rbind (lww_from_dict r) (\<lambda>relations'.
       Inr \<lparr>chunks = chunks', entities = entities', relations = relations'\<rparr>))))))"

definition decode_doc :: "py_value option \<Rightarrow> decode_error + CRDTDocument" where
  "decode_doc payload =
     rbind (json_loads payload) (\<lambda>obj. rbind (get_default obj ''doc'' (PyDict [])) doc_from_dict)"


section \<open>Round trip\<close>

definition doc_finite :: "CRDTDocument \<Rightarrow> bool" where
  "doc_finite d \<longleftrightarrow> (\<forall>(_, A) \<in> set (adds (chunks d)). finite A) \<and> finite (removes (chunks d))"

definition uids_match :: "CRDTDocument \<Rightarrow> bool" where
  "uids_match d \<longleftrightarrow> (\<forall>(k, e) \<in> set (entries (chunks d)). or_uid e = k)"

lemma load_items_back:
  "\<lbrakk>distinct (map fst (acc @ d)); \<forall>(k, v) \<in> set d. f k (g k v) = Inr v\<rbrakk> \<Longrightarrow>
     load_items f acc (map (\<lambda>(k, v). (k, g k v)) d) = Inr (acc @ d)"
proof (induction d arbitrary: acc)
  case (Cons kv d)
  obtain k v where kv: "kv = (k, v)" by (cases kv)
  have "load_items f (acc @ [(k, v)]) (map (\<lambda>(k, v). (k, g k v)) d) = Inr ((acc @ [(k, v)]) @ d)"
    using Cons.prems kv by (intro Cons.IH) auto
  moreover have "k \<notin> fst ` set acc" using Cons.prems kv by auto
  ultimately show ?case using Cons.prems kv by (simp add: update_fresh)
qed simp

lemma str_members_back [simp]: "str_members (map PyStr xs) = Inr (set xs)"
  by (induction xs) simp_all

lemma py_set_of_back [simp]: "py_set_of (str_list xs) = Inr (set xs)"
  by (simp add: str_list_def list_ex_iff)

lemma lww_load_entry_back [simp]: "lww_load_entry k (lww_entry_to_dict e) = Inr e"
  by (simp add: lww_load_entry_def lww_entry_to_dict_def subscript_def)

lemma lww_round_trip: "dict_wf reg \<Longrightarrow> lww_from_dict (lww_to_dict reg) = Inr reg"
  using load_items_back [of "[]" reg lww_load_entry "\<lambda>_. lww_entry_to_dict"]
  by (simp add: lww_from_dict_def lww_to_dict_def items_of_def)

lemma orset_round_trip:
  assumes "\<forall>A. finite A \<longrightarrow> set (listing A) = A"
    and "dict_wf (adds s)" "dict_wf (entries s)"
    and "\<forall>(_, A) \<in> set (adds s). finite A" "finite (removes s)" "\<forall>(k, e) \<in> set (entries s). or_uid e = k"
  shows "orset_from_dict (orset_to_dict listing s) = Inr s"
proof -
  have a: "load_items (\<lambda>_. py_set_of) [] (map (\<lambda>(k, v). (k, str_list (listing v))) (adds s)) = Inr (adds s)"
    using assms load_items_back [of "[]" "adds s" "\<lambda>_. py_set_of" "\<lambda>_ v. str_list (listing v)"] by fastforce
  have "orset_load_entry k (PyDict [(''node_id'', PyStr (or_node e)), (''ts'', PyFloat (or_ts e))]) = Inr e"
    if "(k, e) \<in> set (entries s)" for k e
    using that assms by (auto simp: orset_load_entry_def subscript_def)
  then have e: "load_items orset_load_entry [] (map (\<lambda>(uid, e). (uid, PyDict
      [(''node_id'', PyStr (or_node e)), (''ts'', PyFloat (or_ts e))])) (entries s)) = Inr (entries s)"
    using assms load_items_back [of "[]" "entries s" orset_load_entry
        "\<lambda>_ e. PyDict [(''node_id'', PyStr (or_node e)), (''ts'', PyFloat (or_ts e))]"] by fastforce
  show ?thesis using assms a e
    by (simp add: orset_from_dict_def orset_to_dict_def get_default_def items_of_def dict_get_or_def)
qed

lemma decode_encode:
  assumes "\<forall>A. finite A \<longrightarrow> set (listing A) = A" "doc_wf d" "doc_finite d" "uids_match d"
  shows "decode_doc (encode_doc listing d) = Inr d"
proof -
  have "orset_from_dict (orset_to_dict listing (chunks d)) = Inr (chunks d)"
    using assms by (intro orset_round_trip) (simp_all add: doc_wf_def doc_finite_def uids_match_def)
  then show ?thesis using assms
    by (simp add: decode_doc_def encode_doc_def json_loads_def get_default_def dict_get_or_def
        doc_from_dict_def doc_to_dict_def lww_round_trip doc_wf_def)
qed

text \<open>
  C39: the wire form loses nothing. A well-formed document whose entries are filed under
  their own uids is read back from its frame exactly, whatever order the sets were
  written in.
\<close>

theorem document_round_trip:
  assumes "\<forall>A. finite A \<longrightarrow> set (listing A) = A" "doc_wf d" "doc_finite d" "uids_match d"
  shows "decode_doc (encode_doc listing d) = Inr d"
  using assms by (rule decode_encode)

definition demo_listing :: "py_str set \<Rightarrow> py_str list" where
  "demo_listing A = sorted_list_of_set A"

theorem document_round_trip_witness:
  "decode_doc (encode_doc demo_listing laptop_doc) = Inr laptop_doc"
  by (rule document_round_trip)
    (simp_all add: demo_listing_def doc_wf_def doc_finite_def uids_match_def demo_simps)


section \<open>The relay\<close>

record relay =
  relay_doc :: CRDTDocument
  relay_clients :: "nat list"

type_synonym sends = "(nat \<times> py_value option) list"

definition new_relay :: relay where
  "new_relay = \<lparr>relay_doc = doc_empty, relay_clients = []\<rparr>"

definition discard :: "nat \<Rightarrow> relay \<Rightarrow> relay" where
  "discard ws r = r\<lparr>relay_clients := removeAll ws (relay_clients r)\<rparr>"

text \<open>A client connects and is seeded with the merged state; when that first send raises,
  the \<open>finally\<close> clause drops it again.\<close>

definition on_connect :: "(py_str set \<Rightarrow> py_str list) \<Rightarrow> nat \<Rightarrow> bool \<Rightarrow> relay \<Rightarrow> relay \<times> sends" where
  "on_connect listing ws sent r =
     (let r1 = r\<lparr>relay_clients := List.insert ws (relay_clients r)\<rparr>
      in if sent then (r1, [(ws, encode_doc listing (relay_doc r1))]) else (discard ws r1, []))"

definition broadcast :: "py_value option \<Rightarrow> relay \<Rightarrow> sends" where
  "broadcast payload r = map (\<lambda>c. (c, payload)) (relay_clients r)"

definition caught :: "decode_error \<Rightarrow> bool" where
  "caught e \<longleftrightarrow> e \<in> {ValueError, KeyError, TypeError}"

text \<open>One frame of the receive loop; \<open>None\<close> is a frame outside the typed model. An
  exception the loop does not catch ends the handler of that socket.\<close>

definition on_frame :: "(py_str set \<Rightarrow> py_str list) \<Rightarrow> nat \<Rightarrow> py_value option \<Rightarrow> relay \<Rightarrow> (relay \<times> sends) option" where
  "on_frame listing ws raw r =
     (case decode_doc raw of
        Inl Unmodelled \<Rightarrow> None
      | Inl e \<Rightarrow> Some (if caught e then r else discard ws r, [])
      | Inr incoming \<Rightarrow>
          (let r1 = r\<lparr>relay_doc := doc_merge (relay_doc r) incoming\<rparr>
           in Some (r1, broadcast (encode_doc listing (relay_doc r1)) r1)))"

fun on_frames :: "(py_str set \<Rightarrow> py_str list) \<Rightarrow> (nat \<times> py_value option) list \<Rightarrow> relay \<Rightarrow> (relay \<times> sends) option" where
  "on_frames listing [] r = Some (r, [])"
| "on_frames listing ((ws, raw) # fs) r =
     (case on_frame listing ws raw r of
        None \<Rightarrow> None
      | Some (r1, out1) \<Rightarrow>
          (case on_frames listing fs r1 of None \<Rightarrow> None | Some (r2, out2) \<Rightarrow> Some (r2, out1 @ out2)))"


section \<open>A client of the relay\<close>

record relay_client =
  client_doc :: CRDTDocument
  client_first_state :: bool
  client_listening :: bool

definition new_client :: "CRDTDocument \<Rightarrow> relay_client" where
  "new_client d = \<lparr>client_doc = d, client_first_state = False, client_listening = True\<rparr>"

definition client_recv :: "py_value option \<Rightarrow> relay_client \<Rightarrow> relay_client" where
  "client_recv raw c =
     (if \<not> client_listening c then c
      else case decode_doc raw of
             Inl e \<Rightarrow> if caught e then c else c\<lparr>client_listening := False\<rparr>
           | Inr incoming \<Rightarrow> c\<lparr>client_doc := doc_merge (client_doc c) incoming, client_first_state := True\<rparr>)"

definition client_recv_all :: "py_value option list \<Rightarrow> relay_client \<Rightarrow> relay_client" where
  "client_recv_all raws c = foldl (\<lambda>c raw. client_recv raw c) c raws"

definition client_push :: "(py_str set \<Rightarrow> py_str list) \<Rightarrow> relay_client \<Rightarrow> py_value option" where
  "client_push listing c = encode_doc listing (client_doc c)"

definition sent_to :: "nat \<Rightarrow> sends \<Rightarrow> py_value option list" where
  "sent_to ws out = map snd (filter (\<lambda>(c, _). c = ws) out)"


section \<open>Convergence\<close>

text \<open>Documents that can travel: their writes follow the oracles and they fit a frame.\<close>

definition doc_sound :: "write_oracle \<Rightarrow> (py_str \<Rightarrow> ORSetEntry) \<Rightarrow> CRDTDocument \<Rightarrow> bool" where
  "doc_sound W U d \<longleftrightarrow> doc_ok W U d \<and> doc_finite d"

definition wire_ok :: "(py_str set \<Rightarrow> py_str list) \<Rightarrow> (py_str \<Rightarrow> ORSetEntry) \<Rightarrow> bool" where
  "wire_ok listing U \<longleftrightarrow> (\<forall>A. finite A \<longrightarrow> set (listing A) = A) \<and> (\<forall>k. or_uid (U k) = k)"

lemma merge_adds_finite:
  "\<forall>(_, A) \<in> set d. finite A \<Longrightarrow> \<forall>(_, A) \<in> set other. finite A \<Longrightarrow> dict_wf d \<Longrightarrow>
     \<forall>(_, A) \<in> set (merge_adds d other). finite A"
proof (induction d other rule: merge_adds.induct)
  case (2 self e uids other)
  have "finite (dict_get_or self e {})"
    using "2.prems" by (auto simp: dict_get_or_def dest: map_of_SomeD split: option.split)
  moreover have "dict_wf (add_uids e uids self)" using "2.prems" by (simp add: add_uids_def)
  moreover have "\<forall>(_, A) \<in> set (add_uids e uids self). finite A"
    using "2.prems" calculation by (auto simp: dict_ball add_uids_def simp del: map_of_eq_Some_iff)
  ultimately show ?case using "2.IH" "2.prems" by simp
qed simp

lemma doc_sound_merge: "doc_sound W U a \<Longrightarrow> doc_sound W U b \<Longrightarrow> doc_sound W U (doc_merge a b)"
  by (auto simp: doc_sound_def doc_merge_ok doc_finite_def intro: merge_adds_finite [rule_format])
    (use merge_adds_finite [of "adds (chunks a)" "adds (chunks b)"] in
      \<open>auto simp: doc_ok_def orset_ok_def\<close>)

lemma decode_sound:
  assumes "wire_ok listing U" "doc_sound W U d"
  shows "decode_doc (encode_doc listing d) = Inr d"
  using assms
  by (intro decode_encode) (auto simp: wire_ok_def doc_sound_def doc_ok_def doc_wf_def uids_match_def orset_ok_def lww_ok_def)

lemma on_frame_sound:
  assumes "wire_ok listing U" "doc_sound W U d"
  shows "on_frame listing ws (encode_doc listing d) r =
    Some (r\<lparr>relay_doc := doc_merge (relay_doc r) d\<rparr>,
      map (\<lambda>c. (c, encode_doc listing (doc_merge (relay_doc r) d))) (relay_clients r))"
  using decode_sound [OF assms] by (simp add: on_frame_def broadcast_def)

text \<open>What a run of pushes does: the relay joins the documents, and each client is sent the
  successive joins.\<close>

fun joins :: "CRDTDocument \<Rightarrow> CRDTDocument list \<Rightarrow> CRDTDocument list" where
  "joins d [] = []"
| "joins d (x # xs) = doc_merge d x # joins (doc_merge d x) xs"

lemma sent_to_append [simp]: "sent_to c (xs @ ys) = sent_to c xs @ sent_to c ys"
  by (simp add: sent_to_def)

lemma sent_to_broadcast [simp]:
  "distinct cs \<Longrightarrow> sent_to c (map (\<lambda>k. (k, p)) cs) = (if c \<in> set cs then [p] else [])"
  by (induction cs) (auto simp: sent_to_def)

lemma on_frames_pushes:
  assumes "wire_ok listing U" "\<forall>(_, d) \<in> set pushes. doc_sound W U d" "distinct (relay_clients r)"
  shows "\<exists>out. on_frames listing (map (\<lambda>(c, d). (c, encode_doc listing d)) pushes) r =
      Some (r\<lparr>relay_doc := foldl doc_merge (relay_doc r) (map snd pushes)\<rparr>, out) \<and>
    (\<forall>c \<in> set (relay_clients r). sent_to c out = map (encode_doc listing) (joins (relay_doc r) (map snd pushes)))"
  using assms
proof (induction pushes arbitrary: r)
  case Nil
  then show ?case by (simp add: sent_to_def)
next
  case (Cons p pushes)
  obtain c d where p: "p = (c, d)" by (cases p)
  let ?r = "r\<lparr>relay_doc := doc_merge (relay_doc r) d\<rparr>"
  have f: "on_frame listing c (encode_doc listing d) r = Some (?r,
      map (\<lambda>c. (c, encode_doc listing (doc_merge (relay_doc r) d))) (relay_clients r))"
    using Cons.prems p by (intro on_frame_sound) auto
  have "\<forall>(_, d) \<in> set pushes. doc_sound W U d" "distinct (relay_clients ?r)" using Cons.prems by auto
  then obtain out where out: "on_frames listing (map (\<lambda>(c, d). (c, encode_doc listing d)) pushes) ?r =
      Some (?r\<lparr>relay_doc := foldl doc_merge (relay_doc ?r) (map snd pushes)\<rparr>, out)"
    "\<forall>c \<in> set (relay_clients ?r). sent_to c out = map (encode_doc listing) (joins (relay_doc ?r) (map snd pushes))"
    using Cons.IH [of ?r] Cons.prems(1) by blast
  with f p Cons.prems(3) show ?case by simp
qed

lemma client_recv_all_sound:
  assumes "wire_ok listing U" "\<forall>d \<in> set ds. doc_sound W U d"
  shows "client_recv_all (map (encode_doc listing) ds) (new_client d0) =
    \<lparr>client_doc = foldl doc_merge d0 ds, client_first_state = (ds \<noteq> []), client_listening = True\<rparr>"
proof -
  have "foldl (\<lambda>c raw. client_recv raw c) \<lparr>client_doc = d, client_first_state = b, client_listening = True\<rparr>
      (map (encode_doc listing) ds) =
    \<lparr>client_doc = foldl doc_merge d ds, client_first_state = (b \<or> ds \<noteq> []), client_listening = True\<rparr>" for d b
    using assms by (induction ds arbitrary: d b) (auto simp: client_recv_def decode_sound)
  then show ?thesis by (simp add: client_recv_all_def new_client_def)
qed

lemma joins_sound:
  "doc_sound W U d \<Longrightarrow> \<forall>x \<in> set xs. doc_sound W U x \<Longrightarrow> \<forall>x \<in> set (joins d xs). doc_sound W U x"
  by (induction d xs rule: joins.induct) (simp_all add: doc_sound_merge)

lemma foldl_sound:
  "doc_sound W U d \<Longrightarrow> \<forall>x \<in> set xs. doc_sound W U x \<Longrightarrow> doc_sound W U (foldl doc_merge d xs)"
  by (induction xs arbitrary: d) (simp_all add: doc_sound_merge)

lemma joins_last: "xs \<noteq> [] \<Longrightarrow> foldl doc_merge d xs \<in> set (joins d xs)"
proof (induction d xs rule: joins.induct)
  case (2 d x xs)
  then show ?case by (cases xs) auto
qed simp

lemma joins_below:
  "\<lbrakk>doc_ok W U d; \<forall>x \<in> set xs. doc_ok W U x; y \<in> set (joins d xs)\<rbrakk> \<Longrightarrow> doc.below y (foldl doc_merge d xs)"
proof (induction d xs rule: joins.induct)
  case (2 d x xs)
  then have ok: "doc_ok W U (doc_merge d x)" "doc_ok W U x" "\<forall>x \<in> set xs. doc_ok W U x"
    by (simp_all add: doc_merge_ok)
  show ?case
  proof (cases "y = doc_merge d x")
    case True
    then show ?thesis using doc.foldl_upper [OF ok(1) ok(3)] by simp
  next
    case False
    then show ?thesis using 2 ok by simp
  qed
qed simp


definition demo_relay :: relay where
  "demo_relay = \<lparr>relay_doc = doc_empty, relay_clients = [1, 2]\<rparr>"

definition demo_uids2 :: "py_str \<Rightarrow> ORSetEntry" where
  "demo_uids2 u = (if u = ''u1'' then \<lparr>or_uid = u, or_node = ''phone'', or_ts = 1\<rparr>
     else \<lparr>or_uid = u, or_node = ''laptop'', or_ts = 2\<rparr>)"


text \<open>Every frame the loop does not reject only grows the relay's document.\<close>

lemma relay_monotone:
  assumes "decode_doc raw = Inr d" "doc_ok W U d" "doc_ok W U (relay_doc r)"
    and "on_frame listing ws raw r = Some (r', out)"
  shows "doc.below (relay_doc r) (relay_doc r') \<and> doc.below d (relay_doc r')"
  using assms doc.below_join1 [of W U "relay_doc r" d] doc.below_join2 [of W U "relay_doc r" d]
  by (auto simp: on_frame_def Let_def)

text \<open>
  A bad frame never reaches the document. Text that is not JSON is dropped and changes
  nothing; JSON that is not an object raises an exception the loop does not catch, so the
  sender, and only the sender, is disconnected; no broadcast is sent for either.
\<close>

theorem bad_frames_isolated:
  "on_frame listing ws None r = Some (r, []) \<and>
   on_frame listing ws (Some (PyList vs)) r = Some (discard ws r, []) \<and>
   relay_doc (discard ws r) = relay_doc r \<and>
   set (relay_clients (discard ws r)) = set (relay_clients r) - {ws}"
  by (auto simp: on_frame_def decode_doc_def json_loads_def get_default_def caught_def discard_def)

end
