(* ===== verification/Audit_Log.thy ===== *)
theory Audit_Log
  imports Sera_Prelude
begin

text \<open>
  The hash-chained audit log (\<open>sera/safety/audit.py\<close>). SHA-256 over the canonical JSON of
  an entry's other fields is the parameter \<open>H\<close>; the theorems that need it to be free of
  collisions say so for the entries they speak about. A file is the list of its lines; the
  clock reading of an append is an argument.
\<close>


section \<open>Entries\<close>

record AuditEntry =
  seq :: int
  ts :: py_float
  kind :: py_str
  payload :: py_value
  prev_hash :: py_str
  entry_hash :: py_str

type_synonym hash_fun = "int \<Rightarrow> py_float \<Rightarrow> py_str \<Rightarrow> py_value \<Rightarrow> py_str \<Rightarrow> py_str"

datatype audit_line = BlankLine | EntryLine AuditEntry | MalformedLine

type_synonym audit_file = "audit_line list option"

datatype audit_error = JsonOrKeyError

definition GENESIS_HASH :: py_str where
  "GENESIS_HASH = replicate 64 (CHR ''0'')"

definition hash_of :: "hash_fun \<Rightarrow> AuditEntry \<Rightarrow> py_str" where
  "hash_of H e = H (seq e) (ts e) (kind e) (payload e) (prev_hash e)"


section \<open>Reading and appending\<close>

fun parse_lines :: "audit_line list \<Rightarrow> audit_error + AuditEntry list" where
  "parse_lines [] = Inr []"
| "parse_lines (BlankLine # ls) = parse_lines ls"
| "parse_lines (MalformedLine # ls) = Inl JsonOrKeyError"
| "parse_lines (EntryLine e # ls) = (case parse_lines ls of Inl err \<Rightarrow> Inl err | Inr es \<Rightarrow> Inr (e # es))"

text \<open>\<open>result[-limit:]\<close>; a limit of 0 returns everything, a negative one drops a prefix.\<close>

definition last_n :: "int \<Rightarrow> 'a list \<Rightarrow> 'a list" where
  "last_n limit xs =
     (if limit = 0 then xs
      else if 0 < limit then drop (length xs - nat limit) xs
      else drop (nat (- limit)) xs)"

definition entries_of :: "int \<Rightarrow> audit_file \<Rightarrow> audit_error + AuditEntry list" where
  "entries_of limit file =
     (case file of None \<Rightarrow> Inr [] | Some ls \<Rightarrow> (case parse_lines ls of Inl e \<Rightarrow> Inl e | Inr es \<Rightarrow> Inr (last_n limit es)))"

definition count_of :: "audit_file \<Rightarrow> audit_error + nat" where
  "count_of file = (case entries_of 0 file of Inl e \<Rightarrow> Inl e | Inr es \<Rightarrow> Inr (length es))"

definition last_hash :: "AuditEntry list \<Rightarrow> py_str" where
  "last_hash es = (if es = [] then GENESIS_HASH else entry_hash (last es))"

definition next_seq :: "AuditEntry list \<Rightarrow> int" where
  "next_seq es = (if es = [] then 0 else seq (last es) + 1)"

definition append_entry ::
  "hash_fun \<Rightarrow> py_float \<Rightarrow> py_str \<Rightarrow> py_value \<Rightarrow> audit_file \<Rightarrow> audit_error + (AuditEntry \<times> audit_file)"
where
  "append_entry H now k p file =
     (case entries_of 0 file of
        Inl err \<Rightarrow> Inl err
      | Inr es \<Rightarrow>
          let prev = last_hash es; s = next_seq es;
              e = \<lparr>seq = s, ts = now, kind = k, payload = p, prev_hash = prev, entry_hash = H s now k p prev\<rparr>
          in Inr (e, Some ((case file of None \<Rightarrow> [] | Some ls \<Rightarrow> ls) @ [EntryLine e])))"


section \<open>Verification\<close>

fun walk :: "hash_fun \<Rightarrow> py_str \<Rightarrow> int list \<Rightarrow> AuditEntry list \<Rightarrow> int list" where
  "walk H prev bad [] = bad"
| "walk H prev bad (e # es) =
     (let bad1 = (if entry_hash e \<noteq> hash_of H e then bad @ [seq e] else bad);
          bad2 = (if prev_hash e \<noteq> prev \<and> seq e \<notin> set bad1 then bad1 @ [seq e] else bad1)
      in walk H (entry_hash e) bad2 es)"

definition verify :: "hash_fun \<Rightarrow> audit_file \<Rightarrow> audit_error + int list" where
  "verify H file =
     (case entries_of 0 file of Inl e \<Rightarrow> Inl e | Inr es \<Rightarrow> Inr (sort (remdups (walk H GENESIS_HASH [] es))))"


section \<open>What a clean walk means\<close>

definition link_ok :: "hash_fun \<Rightarrow> py_str \<Rightarrow> AuditEntry \<Rightarrow> bool" where
  "link_ok H prev e \<longleftrightarrow> entry_hash e = hash_of H e \<and> prev_hash e = prev"

fun chain :: "hash_fun \<Rightarrow> py_str \<Rightarrow> AuditEntry list \<Rightarrow> bool" where
  "chain H prev [] = True"
| "chain H prev (e # es) = (link_ok H prev e \<and> chain H (entry_hash e) es)"

fun broken_links :: "hash_fun \<Rightarrow> py_str \<Rightarrow> AuditEntry list \<Rightarrow> int set" where
  "broken_links H prev [] = {}"
| "broken_links H prev (e # es) =
     (if link_ok H prev e then {} else {seq e}) \<union> broken_links H (entry_hash e) es"

lemma walk_set: "set (walk H prev bad es) = set bad \<union> broken_links H prev es"
  by (induction H prev bad es rule: walk.induct) (auto simp: Let_def link_ok_def)

lemma broken_links_empty: "broken_links H prev es = {} \<longleftrightarrow> chain H prev es"
  by (induction H prev es rule: chain.induct) auto

definition end_hash :: "py_str \<Rightarrow> AuditEntry list \<Rightarrow> py_str" where
  "end_hash prev es = (if es = [] then prev else entry_hash (last es))"

lemma end_hash_simps [simp]:
  "end_hash prev [] = prev" "end_hash prev (e # es) = end_hash (entry_hash e) es"
  "end_hash prev (es @ [e]) = entry_hash e"
  by (simp_all add: end_hash_def)

lemma chain_append: "chain H prev (xs @ ys) \<longleftrightarrow> chain H prev xs \<and> chain H (end_hash prev xs) ys"
  by (induction xs arbitrary: prev) auto

lemma broken_links_append:
  "broken_links H prev (xs @ ys) = broken_links H prev xs \<union> broken_links H (end_hash prev xs) ys"
  by (induction xs arbitrary: prev) auto

lemma parse_entries [simp]: "parse_lines (map EntryLine es) = Inr es"
  by (induction es) simp_all

lemma entries_of_written [simp]: "entries_of 0 (Some (map EntryLine es)) = Inr es"
  by (simp add: entries_of_def last_n_def)

lemma verify_written:
  "\<exists>bad. verify H (Some (map EntryLine es)) = Inr bad \<and> set bad = broken_links H GENESIS_HASH es"
  by (simp add: verify_def walk_set)

lemma verify_clean: "verify H (Some (map EntryLine es)) = Inr [] \<longleftrightarrow> chain H GENESIS_HASH es"
proof -
  obtain bad where "verify H (Some (map EntryLine es)) = Inr bad" "set bad = broken_links H GENESIS_HASH es"
    using verify_written by blast
  then show ?thesis using broken_links_empty [of H GENESIS_HASH es] by auto
qed

text \<open>A log written by the program: any sequence of appends to a file that does not exist.\<close>

fun append_all :: "hash_fun \<Rightarrow> (py_float \<times> py_str \<times> py_value) list \<Rightarrow> audit_file \<Rightarrow> audit_error + audit_file" where
  "append_all H [] file = Inr file"
| "append_all H ((t, k, p) # evs) file =
     (case append_entry H t k p file of Inl e \<Rightarrow> Inl e | Inr (_, file') \<Rightarrow> append_all H evs file')"

definition good_log :: "hash_fun \<Rightarrow> AuditEntry list \<Rightarrow> bool" where
  "good_log H es \<longleftrightarrow> chain H GENESIS_HASH es \<and> map seq es = map int [0..<length es]"

lemma append_entry_good:
  assumes "good_log H es"
  shows "\<exists>e. append_entry H t k p (Some (map EntryLine es)) = Inr (e, Some (map EntryLine (es @ [e]))) \<and>
    good_log H (es @ [e]) \<and> ts e = t \<and> kind e = k \<and> payload e = p"
proof -
  have s: "next_seq es = int (length es)"
  proof (cases es rule: rev_cases)
    case (snoc ys y)
    then show ?thesis using assms by (simp add: good_log_def next_seq_def)
  qed (simp add: next_seq_def)
  have h: "last_hash es = end_hash GENESIS_HASH es" by (simp add: last_hash_def end_hash_def)
  show ?thesis using assms
    by (simp add: append_entry_def Let_def good_log_def chain_append link_ok_def hash_of_def s h)
qed

lemma append_all_good:
  assumes "good_log H es"
  shows "\<exists>es'. append_all H evs (Some (map EntryLine es)) = Inr (Some (map EntryLine (es @ es'))) \<and>
    good_log H (es @ es') \<and> map (\<lambda>e. (ts e, kind e, payload e)) es' = evs"
  using assms
proof (induction evs arbitrary: es)
  case (Cons ev evs)
  obtain t k p where ev: "ev = (t, k, p)" by (cases ev) auto
  obtain e where e: "append_entry H t k p (Some (map EntryLine es)) = Inr (e, Some (map EntryLine (es @ [e])))"
    "good_log H (es @ [e])" "ts e = t" "kind e = k" "payload e = p"
    using append_entry_good [OF Cons.prems] by blast
  obtain es' where "append_all H evs (Some (map EntryLine (es @ [e]))) = Inr (Some (map EntryLine ((es @ [e]) @ es')))"
    "good_log H ((es @ [e]) @ es')" "map (\<lambda>e. (ts e, kind e, payload e)) es' = evs"
    using Cons.IH [OF e(2)] by blast
  with e ev show ?case by (intro exI [of _ "e # es'"]) simp
qed simp

lemma append_missing: "append_entry H t k p None = append_entry H t k p (Some [])"
  by (simp add: append_entry_def entries_of_def last_n_def)

lemma append_all_written:
  assumes "evs \<noteq> []"
  shows "\<exists>es. append_all H evs None = Inr (Some (map EntryLine es)) \<and> good_log H es \<and>
    map (\<lambda>e. (ts e, kind e, payload e)) es = evs"
proof -
  have "append_all H evs None = append_all H evs (Some [])"
    using assms by (cases evs) (auto simp: append_missing)
  then show ?thesis using append_all_good [of H "[]" evs] by (simp add: good_log_def)
qed

text \<open>
  An untouched log verifies clean. Whatever events are appended to a fresh log, no append
  fails, every event is stored in order, the sequence numbers count from 0 without gaps, and
  verification reports no bad entry.
\<close>

theorem appended_log_verifies:
  assumes "evs \<noteq> []"
  shows "\<exists>es. append_all H evs None = Inr (Some (map EntryLine es)) \<and>
    map (\<lambda>e. (ts e, kind e, payload e)) es = evs \<and> map seq es = map int [0..<length es] \<and>
    verify H (Some (map EntryLine es)) = Inr []"
  using append_all_written [OF assms, of H] by (auto simp: good_log_def verify_clean)

definition demo_hash :: hash_fun where
  "demo_hash s t k p h = (if s = 0 then ''a'' else if s = 1 then k @ ''b'' else ''c'')"

theorem appended_log_verifies_witness:
  "\<exists>es. append_all demo_hash [(1, ''tool_call'', PyNone), (2, ''approval'', PyBool True)] None = Inr (Some (map EntryLine es)) \<and>
    verify demo_hash (Some (map EntryLine es)) = Inr []"
  using appended_log_verifies [of "[(1, ''tool_call'', PyNone), (2, ''approval'', PyBool True)]" demo_hash] by auto


section \<open>Tampering\<close>

definition fields :: "AuditEntry \<Rightarrow> int \<times> py_float \<times> py_str \<times> py_value \<times> py_str" where
  "fields e = (seq e, ts e, kind e, payload e, prev_hash e)"

text \<open>No two of the entries in \<open>A\<close> with different fields share a digest.\<close>

definition collision_free :: "hash_fun \<Rightarrow> AuditEntry set \<Rightarrow> bool" where
  "collision_free H A \<longleftrightarrow> (\<forall>e\<in>A. \<forall>e'\<in>A. hash_of H e = hash_of H e' \<longrightarrow> fields e = fields e')"

lemma entry_equal: "fields e = fields e' \<Longrightarrow> entry_hash e = entry_hash e' \<Longrightarrow> e = (e' :: AuditEntry)"
  by (intro AuditEntry.equality) (simp_all add: fields_def)


definition demo_entry0 :: AuditEntry where
  "demo_entry0 = \<lparr>seq = 0, ts = 1, kind = ''tool_call'', payload = PyStr ''rm -rf build'', prev_hash = GENESIS_HASH, entry_hash = ''a''\<rparr>"

definition demo_entry1 :: AuditEntry where
  "demo_entry1 = \<lparr>seq = 1, ts = 2, kind = ''approval'', payload = PyBool True, prev_hash = ''a'', entry_hash = ''approvalb''\<rparr>"

definition forged_entry1 :: AuditEntry where
  "forged_entry1 = \<lparr>seq = 1, ts = 2, kind = ''session'', payload = PyNone, prev_hash = ''a'', entry_hash = ''sessionb''\<rparr>"


text \<open>
  The last hash binds the whole log. Two files that both verify clean and end in the same
  hash hold the same entries: nobody can alter, insert, drop or reorder anything before a
  recorded head without a hash collision.
\<close>

theorem head_hash_binds_log:
  assumes "verify H (Some (map EntryLine xs)) = Inr []" "verify H (Some (map EntryLine ys)) = Inr []"
    and "last_hash xs = last_hash ys"
    and "collision_free H (set xs \<union> set ys)" "\<forall>e\<in>set xs \<union> set ys. hash_of H e \<noteq> GENESIS_HASH"
  shows "xs = ys"
proof -
  have "\<lbrakk>chain H GENESIS_HASH xs; chain H GENESIS_HASH ys; end_hash GENESIS_HASH xs = end_hash GENESIS_HASH ys;
      collision_free H (set xs \<union> set ys); \<forall>e\<in>set xs \<union> set ys. hash_of H e \<noteq> GENESIS_HASH\<rbrakk> \<Longrightarrow> xs = ys"
  proof (induction xs arbitrary: ys rule: rev_induct)
    case Nil
    then show ?case by (cases ys rule: rev_cases) (auto simp: chain_append link_ok_def)
  next
    case (snoc x xs)
    obtain y zs where ys: "ys = zs @ [y]"
    proof (cases ys rule: rev_cases)
      case Nil
      then have "hash_of H x = GENESIS_HASH" using snoc.prems by (simp add: chain_append link_ok_def)
      then show ?thesis using snoc.prems(5) by simp
    qed
    have l: "chain H GENESIS_HASH xs" "chain H GENESIS_HASH zs" "link_ok H (end_hash GENESIS_HASH xs) x"
      "link_ok H (end_hash GENESIS_HASH zs) y" "entry_hash x = entry_hash y"
      using snoc.prems ys by (simp_all add: chain_append)
    then have "hash_of H x = hash_of H y" unfolding link_ok_def by metis
    moreover have "x \<in> set (xs @ [x]) \<union> set ys" "y \<in> set (xs @ [x]) \<union> set ys" using ys by simp_all
    ultimately have f: "fields x = fields y" using snoc.prems(4) unfolding collision_free_def by blast
    then have "prev_hash x = prev_hash y" by (simp add: fields_def)
    then have "end_hash GENESIS_HASH xs = end_hash GENESIS_HASH zs" using l(3,4) unfolding link_ok_def by metis
    moreover have sub: "set xs \<union> set zs \<subseteq> set (xs @ [x]) \<union> set ys" using ys by auto
    have "collision_free H (set xs \<union> set zs)"
      using snoc.prems(4) sub unfolding collision_free_def by blast
    moreover have "\<forall>e\<in>set xs \<union> set zs. hash_of H e \<noteq> GENESIS_HASH"
      using snoc.prems(5) sub by blast
    ultimately have "xs = zs" by (rule snoc.IH [OF l(1,2)])
    with ys entry_equal [OF f l(5)] show ?case by simp
  qed
  with assms show ?thesis by (simp add: verify_clean last_hash_def end_hash_def)
qed

theorem head_hash_binds_log_witness:
  "[demo_entry0, demo_entry1] = [demo_entry0, demo_entry1] \<and> last_hash [demo_entry0, demo_entry1] = ''approvalb''"
proof
  have v: "verify demo_hash (Some (map EntryLine [demo_entry0, demo_entry1])) = Inr []"
    unfolding verify_clean by (simp add: link_ok_def hash_of_def demo_hash_def demo_entry0_def demo_entry1_def)
  have c: "collision_free demo_hash (set [demo_entry0, demo_entry1] \<union> set [demo_entry0, demo_entry1])"
    by (simp add: collision_free_def hash_of_def demo_hash_def demo_entry0_def demo_entry1_def)
  have g: "\<forall>e\<in>set [demo_entry0, demo_entry1] \<union> set [demo_entry0, demo_entry1]. hash_of demo_hash e \<noteq> GENESIS_HASH"
    by (simp add: hash_of_def demo_hash_def demo_entry0_def demo_entry1_def GENESIS_HASH_def eval_nat_numeral)
  show "[demo_entry0, demo_entry1] = [demo_entry0, demo_entry1]" by (rule head_hash_binds_log [OF v v refl c g])
qed (simp add: last_hash_def demo_entry1_def)

text \<open>
  What the chain alone does not show: a log cut short verifies clean, and so does one whose
  last entry was rewritten together with its hash, since anyone can compute the digest.
\<close>

lemma truncation_verifies: "chain H GENESIS_HASH (xs @ ys) \<Longrightarrow> verify H (Some (map EntryLine xs)) = Inr []"
  unfolding verify_clean by (simp add: chain_append)

lemma rehashed_tail_verifies:
  assumes "chain H GENESIS_HASH (xs @ [e])"
  shows "verify H (Some (map EntryLine (xs @ [e\<lparr>kind := k, payload := p, entry_hash := H (seq e) (ts e) k p (prev_hash e)\<rparr>]))) = Inr []"
  using assms unfolding verify_clean by (simp add: chain_append link_ok_def hash_of_def)

end
