(* ===== verification/Py_Regex.thy ===== *)
theory Py_Regex
  imports Sera_Prelude
begin

text \<open>
  The part of Python's \<open>re\<close> module that the sources use: character classes, groups,
  greedy and lazy quantifiers, word boundaries, line anchors, and the entry points
  \<open>search\<close>, \<open>match\<close>, \<open>fullmatch\<close>, \<open>finditer\<close> and \<open>sub\<close>. \<open>ends\<close> is the
  backtracking engine: it lists the positions where a match of the pattern can end, in the
  order the engine would try them, so the first element is the match Python reports.
  \<open>spans\<close> is the declarative meaning of a pattern, and \<open>ends_spans\<close> says that the engine
  finds exactly the declarative matches. Classes are ASCII.
\<close>


section \<open>Characters\<close>

definition code :: "char \<Rightarrow> nat" where
  "code c = of_char c"

definition is_space :: "char \<Rightarrow> bool" where
  "is_space c \<longleftrightarrow> code c \<in> {9..13} \<union> {28..32}"

definition is_digit :: "char \<Rightarrow> bool" where
  "is_digit c \<longleftrightarrow> 48 \<le> code c \<and> code c \<le> 57"

definition is_upper :: "char \<Rightarrow> bool" where
  "is_upper c \<longleftrightarrow> 65 \<le> code c \<and> code c \<le> 90"

definition is_lower :: "char \<Rightarrow> bool" where
  "is_lower c \<longleftrightarrow> 97 \<le> code c \<and> code c \<le> 122"

definition is_word :: "char \<Rightarrow> bool" where
  "is_word c \<longleftrightarrow> is_lower c \<or> is_upper c \<or> is_digit c \<or> code c = 95"

definition to_lower :: "char \<Rightarrow> char" where
  "to_lower c = (if is_upper c then char_of (code c + 32) else c)"

definition to_upper :: "char \<Rightarrow> char" where
  "to_upper c = (if is_lower c then char_of (code c - 32) else c)"

definition str_strip :: "py_str \<Rightarrow> py_str" where
  "str_strip s = rev (dropWhile is_space (rev (dropWhile is_space s)))"

definition str_lower :: "py_str \<Rightarrow> py_str" where
  "str_lower s = map to_lower s"


section \<open>Patterns\<close>

datatype cls_item = One char | Range char char | Digit | Word | Space

datatype re =
    Eps
  | Lit char
  | Dot
  | Cls bool "cls_item list"
  | Seq re re
  | Alt re re
  | Star re
  | LazyStar re
  | Grp re
  | WordBound
  | NoWordBefore
  | NoWordAfter
  | Bol
  | Eol

record re_flags =
  ignorecase :: bool
  multiline :: bool
  dotall :: bool

definition no_flags :: re_flags where
  "no_flags = \<lparr>ignorecase = False, multiline = False, dotall = False\<rparr>"

definition flag_i :: re_flags where
  "flag_i = \<lparr>ignorecase = True, multiline = False, dotall = False\<rparr>"

definition flag_mi :: re_flags where
  "flag_mi = \<lparr>ignorecase = True, multiline = True, dotall = False\<rparr>"

fun item_has :: "cls_item \<Rightarrow> char \<Rightarrow> bool" where
  "item_has (One a) c = (c = a)"
| "item_has (Range a b) c = (code a \<le> code c \<and> code c \<le> code b)"
| "item_has Digit c = is_digit c"
| "item_has Word c = is_word c"
| "item_has Space c = is_space c"

definition items_have :: "re_flags \<Rightarrow> cls_item list \<Rightarrow> char \<Rightarrow> bool" where
  "items_have f is c \<longleftrightarrow>
     list_ex (\<lambda>it. item_has it c) is \<or>
     (ignorecase f \<and> list_ex (\<lambda>it. item_has it (to_lower c) \<or> item_has it (to_upper c)) is)"

definition lit_has :: "re_flags \<Rightarrow> char \<Rightarrow> char \<Rightarrow> bool" where
  "lit_has f a c \<longleftrightarrow> c = a \<or> (ignorecase f \<and> to_lower c = to_lower a)"

text \<open>The usual spellings: \<open>r+\<close>, \<open>r?\<close>, \<open>r{m,}\<close>, \<open>r{m,n}\<close>, a literal word, a choice.\<close>

abbreviation Plus :: "re \<Rightarrow> re" where
  "Plus r \<equiv> Seq r (Star r)"

abbreviation Opt :: "re \<Rightarrow> re" where
  "Opt r \<equiv> Alt r Eps"

fun Times :: "nat \<Rightarrow> re \<Rightarrow> re" where
  "Times 0 r = Eps"
| "Times (Suc n) r = Seq r (Times n r)"

fun UpTo :: "nat \<Rightarrow> re \<Rightarrow> re" where
  "UpTo 0 r = Eps"
| "UpTo (Suc n) r = Alt (Seq r (UpTo n r)) Eps"

definition AtLeast :: "nat \<Rightarrow> re \<Rightarrow> re" where
  "AtLeast m r = Seq (Times m r) (Star r)"

definition Between :: "nat \<Rightarrow> nat \<Rightarrow> re \<Rightarrow> re" where
  "Between m n r = Seq (Times m r) (UpTo (n - m) r)"

fun Lits :: "py_str \<Rightarrow> re" where
  "Lits [] = Eps"
| "Lits [c] = Lit c"
| "Lits (c # cs) = Seq (Lit c) (Lits cs)"

fun Seqs :: "re list \<Rightarrow> re" where
  "Seqs [] = Eps"
| "Seqs [r] = r"
| "Seqs (r # rs) = Seq r (Seqs rs)"

fun Alts :: "re list \<Rightarrow> re" where
  "Alts [] = Cls False []"
| "Alts [r] = r"
| "Alts (r # rs) = Alt r (Alts rs)"

abbreviation Ch :: "cls_item list \<Rightarrow> re" where
  "Ch is \<equiv> Cls False is"

abbreviation NotCh :: "cls_item list \<Rightarrow> re" where
  "NotCh is \<equiv> Cls True is"


section \<open>The engine\<close>

text \<open>
  A state is a position and the span last captured by the group of the pattern (the
  patterns of the sources read at most one group).
\<close>

type_synonym re_state = "nat \<times> (nat \<times> nat) option"

definition char_at :: "py_str \<Rightarrow> nat \<Rightarrow> char option" where
  "char_at s i = (if i < length s then Some (s ! i) else None)"

definition word_at :: "py_str \<Rightarrow> nat \<Rightarrow> bool" where
  "word_at s i = (case char_at s i of None \<Rightarrow> False | Some c \<Rightarrow> is_word c)"

definition word_before :: "py_str \<Rightarrow> nat \<Rightarrow> bool" where
  "word_before s i = (case i of 0 \<Rightarrow> False | Suc j \<Rightarrow> word_at s j)"

definition line_start :: "re_flags \<Rightarrow> py_str \<Rightarrow> nat \<Rightarrow> bool" where
  "line_start f s i \<longleftrightarrow> i = 0 \<or> (multiline f \<and> char_at s (i - 1) = Some (CHR 0x0A))"

text \<open>Without MULTILINE, \<open>$\<close> also matches before one newline that ends the string.\<close>

definition line_end :: "re_flags \<Rightarrow> py_str \<Rightarrow> nat \<Rightarrow> bool" where
  "line_end f s i \<longleftrightarrow>
     i = length s \<or>
     (char_at s i = Some (CHR 0x0A) \<and> (multiline f \<or> Suc i = length s))"

definition step_if :: "py_str \<Rightarrow> (char \<Rightarrow> bool) \<Rightarrow> re_state \<Rightarrow> re_state list" where
  "step_if s p x =
     (case char_at s (fst x) of
        None \<Rightarrow> [] | Some c \<Rightarrow> if p c then [(Suc (fst x), snd x)] else [])"

definition assert_if :: "bool \<Rightarrow> re_state \<Rightarrow> re_state list" where
  "assert_if b x = (if b then [x] else [])"

text \<open>
  Repetition: an iteration must consume something. The fuel is the number of characters
  left, which bounds the iterations (\<open>ends_spans\<close> shows that it is enough).
\<close>

fun star :: "(re_state \<Rightarrow> re_state list) \<Rightarrow> nat \<Rightarrow> re_state \<Rightarrow> re_state list" where
  "star g 0 x = [x]"
| "star g (Suc k) x =
     concat (map (\<lambda>y. if fst x < fst y then star g k y else []) (g x)) @ [x]"

fun lazy_star :: "(re_state \<Rightarrow> re_state list) \<Rightarrow> nat \<Rightarrow> re_state \<Rightarrow> re_state list" where
  "lazy_star g 0 x = [x]"
| "lazy_star g (Suc k) x =
     x # concat (map (\<lambda>y. if fst x < fst y then lazy_star g k y else []) (g x))"

fun ends :: "re_flags \<Rightarrow> py_str \<Rightarrow> re \<Rightarrow> re_state \<Rightarrow> re_state list" where
  "ends f s Eps x = [x]"
| "ends f s (Lit a) x = step_if s (lit_has f a) x"
| "ends f s Dot x = step_if s (\<lambda>c. dotall f \<or> c \<noteq> CHR 0x0A) x"
| "ends f s (Cls neg is) x = step_if s (\<lambda>c. items_have f is c \<noteq> neg) x"
| "ends f s (Seq a b) x = concat (map (ends f s b) (ends f s a x))"
| "ends f s (Alt a b) x = ends f s a x @ ends f s b x"
| "ends f s (Star r) x = star (ends f s r) (length s - fst x) x"
| "ends f s (LazyStar r) x = lazy_star (ends f s r) (length s - fst x) x"
| "ends f s (Grp r) x = map (\<lambda>y. (fst y, Some (fst x, fst y))) (ends f s r x)"
| "ends f s WordBound x = assert_if (word_before s (fst x) \<noteq> word_at s (fst x)) x"
| "ends f s NoWordBefore x = assert_if (\<not> word_before s (fst x)) x"
| "ends f s NoWordAfter x = assert_if (\<not> word_at s (fst x)) x"
| "ends f s Bol x = assert_if (line_start f s (fst x)) x"
| "ends f s Eol x = assert_if (line_end f s (fst x)) x"

definition match_at :: "re_flags \<Rightarrow> re \<Rightarrow> py_str \<Rightarrow> nat \<Rightarrow> re_state option" where
  "match_at f r s i = (case ends f s r (i, None) of [] \<Rightarrow> None | y # _ \<Rightarrow> Some y)"

definition re_search :: "re_flags \<Rightarrow> re \<Rightarrow> py_str \<Rightarrow> bool" where
  "re_search f r s \<longleftrightarrow> list_ex (\<lambda>i. match_at f r s i \<noteq> None) [0..<Suc (length s)]"

definition re_fullmatch :: "re_flags \<Rightarrow> re \<Rightarrow> py_str \<Rightarrow> bool" where
  "re_fullmatch f r s \<longleftrightarrow> list_ex (\<lambda>y. fst y = length s) (ends f s r (0, None))"

text \<open>
  \<open>finditer\<close>: leftmost matches from position \<open>i\<close>, each one starting where the previous
  one ended; after an empty match the scan moves one character on.
\<close>

function find_from :: "re_flags \<Rightarrow> re \<Rightarrow> py_str \<Rightarrow> nat \<Rightarrow> (nat \<times> re_state) list" where
  "find_from f r s i =
     (if length s < i then []
      else (case match_at f r s i of
              None \<Rightarrow> find_from f r s (Suc i)
            | Some y \<Rightarrow> (i, y) # find_from f r s (if i < fst y then fst y else Suc i)))"
  by pat_completeness auto
termination
  by (relation "measure (\<lambda>(f, r, s, i). Suc (length s) - i)") auto

declare find_from.simps [simp del]

definition re_finditer :: "re_flags \<Rightarrow> re \<Rightarrow> py_str \<Rightarrow> (nat \<times> re_state) list" where
  "re_finditer f r s = find_from f r s 0"


section \<open>Declarative meaning\<close>

inductive spans :: "re_flags \<Rightarrow> py_str \<Rightarrow> re \<Rightarrow> nat \<Rightarrow> nat \<Rightarrow> bool" for f s where
  eps: "spans f s Eps i i"
| lit: "i < length s \<Longrightarrow> lit_has f a (s ! i) \<Longrightarrow> spans f s (Lit a) i (Suc i)"
| dot: "i < length s \<Longrightarrow> dotall f \<or> s ! i \<noteq> CHR 0x0A \<Longrightarrow> spans f s Dot i (Suc i)"
| cls: "i < length s \<Longrightarrow> items_have f is (s ! i) \<noteq> neg \<Longrightarrow> spans f s (Cls neg is) i (Suc i)"
| seq: "spans f s a i j \<Longrightarrow> spans f s b j k \<Longrightarrow> spans f s (Seq a b) i k"
| altl: "spans f s a i j \<Longrightarrow> spans f s (Alt a b) i j"
| altr: "spans f s b i j \<Longrightarrow> spans f s (Alt a b) i j"
| star0: "spans f s (Star r) i i"
| star1: "spans f s r i j \<Longrightarrow> i < j \<Longrightarrow> spans f s (Star r) j k \<Longrightarrow> spans f s (Star r) i k"
| lazy0: "spans f s (LazyStar r) i i"
| lazy1: "spans f s r i j \<Longrightarrow> i < j \<Longrightarrow> spans f s (LazyStar r) j k \<Longrightarrow> spans f s (LazyStar r) i k"
| grp: "spans f s r i j \<Longrightarrow> spans f s (Grp r) i j"
| wb: "word_before s i \<noteq> word_at s i \<Longrightarrow> spans f s WordBound i i"
| nwb: "\<not> word_before s i \<Longrightarrow> spans f s NoWordBefore i i"
| nwa: "\<not> word_at s i \<Longrightarrow> spans f s NoWordAfter i i"
| bol: "line_start f s i \<Longrightarrow> spans f s Bol i i"
| eol: "line_end f s i \<Longrightarrow> spans f s Eol i i"

inductive_simps spans_star: "spans f s (Star r) i k"
inductive_simps spans_lazy: "spans f s (LazyStar r) i k"

inductive_simps spans_simps [simp]:
  "spans f s Eps i j" "spans f s (Lit a) i j" "spans f s Dot i j" "spans f s (Cls neg is) i j"
  "spans f s (Seq a b) i j" "spans f s (Alt a b) i j" "spans f s (Grp r) i j"
  "spans f s WordBound i j" "spans f s NoWordBefore i j" "spans f s NoWordAfter i j"
  "spans f s Bol i j" "spans f s Eol i j"

lemma spans_le: "spans f s r i j \<Longrightarrow> i \<le> j \<and> (i < j \<longrightarrow> j \<le> length s)"
proof (induction rule: spans.induct)
  case (seq a i j b k)
  then show ?case by (cases "j < k") simp_all
next
  case (star1 r i j k)
  then show ?case by (cases "j < k") simp_all
next
  case (lazy1 r i j k)
  then show ?case by (cases "j < k") simp_all
qed simp_all

lemma step_if_fst [simp]:
  "fst ` set (step_if s p x) = {j. j = Suc (fst x) \<and> fst x < length s \<and> p (s ! fst x)}"
  by (simp add: step_if_def char_at_def)

lemma assert_if_fst [simp]: "fst ` set (assert_if b x) = (if b then {fst x} else {})"
  by (simp add: assert_if_def)

text \<open>
  Repetition over an engine for the body that is sound and complete. The lazy order lists
  the same states.
\<close>

lemma fst_star_Suc:
  "fst ` set (star g (Suc k) x) =
     {fst x} \<union> (\<Union>y \<in> {y \<in> set (g x). fst x < fst y}. fst ` set (star g k y))"
  by auto

lemma set_lazy_star: "set (lazy_star g k x) = set (star g k x)"
  by (induction k arbitrary: x) auto

lemma star_spans:
  assumes body: "\<And>x. fst ` set (g x) = {j. spans f s r (fst x) j}"
  shows "length s - fst x \<le> k \<Longrightarrow> fst ` set (star g k x) = {j. spans f s (Star r) (fst x) j}"
proof (induction k arbitrary: x)
  case 0
  have "\<not> (spans f s r (fst x) m \<and> fst x < m)" for m
    using 0 spans_le [of f s r "fst x" m] by auto
  then show ?case by (subst spans_star) auto
next
  case (Suc k)
  have "fst ` set (star g k y) = {j. spans f s (Star r) (fst y) j}" if "fst x < fst y" for y
    using Suc.IH [of y] Suc.prems that by auto
  then have "fst ` set (star g (Suc k) x) =
      {fst x} \<union> (\<Union>y \<in> {y \<in> set (g x). fst x < fst y}. {j. spans f s (Star r) (fst y) j})"
    unfolding fst_star_Suc by auto
  also have "\<dots> = {fst x} \<union> (\<Union>m \<in> {m \<in> fst ` set (g x). fst x < m}. {j. spans f s (Star r) m j})"
    by auto
  also have "\<dots> = {j. spans f s (Star r) (fst x) j}"
    unfolding body by (subst (2) spans_star) auto
  finally show ?case .
qed

lemma spans_lazy_star: "spans f s (LazyStar r) i k \<longleftrightarrow> spans f s (Star r) i k"
proof
  show "spans f s (LazyStar r) i k \<Longrightarrow> spans f s (Star r) i k"
    by (induction "LazyStar r" i k rule: spans.induct) (auto intro: spans.intros)
  show "spans f s (Star r) i k \<Longrightarrow> spans f s (LazyStar r) i k"
    by (induction "Star r" i k rule: spans.induct) (auto intro: spans.intros)
qed

lemma ends_spans_set: "fst ` set (ends f s r x) = {j. spans f s r (fst x) j}"
proof (induction r arbitrary: x)
  case (Seq a b)
  have "fst ` set (ends f s (Seq a b) x) = (\<Union>y \<in> set (ends f s a x). {k. spans f s b (fst y) k})"
    by (simp add: image_UN Seq.IH(2))
  also have "\<dots> = (\<Union>j \<in> fst ` set (ends f s a x). {k. spans f s b j k})"
    by simp
  finally show ?case unfolding Seq.IH(1) by auto
next
  case (Star r)
  then show ?case by (simp add: star_spans)
next
  case (LazyStar r)
  then show ?case by (simp add: set_lazy_star spans_lazy_star star_spans)
next
  case (Grp r)
  then show ?case by (simp add: image_image)
qed (auto simp: image_Un)

lemma spans_ends: "spans f s r i j \<longleftrightarrow> (\<exists>y \<in> set (ends f s r (i, c)). fst y = j)"
proof -
  have "j \<in> fst ` set (ends f s r (i, c)) \<longleftrightarrow> spans f s r i j"
    by (simp add: ends_spans_set)
  then show ?thesis by auto
qed

text \<open>
  The backtracking engine is sound and complete for the declarative meaning of
  patterns: a pattern ends a match started at i exactly at the positions the inductive
  definition allows, repetitions included, so its fuel is always enough.
\<close>

theorem ends_spans: "(\<exists>g. (j, g) \<in> set (ends f s r (i, c))) \<longleftrightarrow> spans f s r i j"
  by (force simp: spans_ends [of f s r i j c])


section \<open>Entry points\<close>

lemma match_at_iff: "match_at f r s i \<noteq> None \<longleftrightarrow> (\<exists>j. spans f s r i j)"
  by (auto simp: match_at_def spans_ends [of f s r i _ None] split: list.splits)

lemma re_search_iff: "re_search f r s \<longleftrightarrow> (\<exists>i j. i \<le> length s \<and> spans f s r i j)"
  unfolding re_search_def list_ex_iff match_at_iff by (auto simp: less_Suc_eq_le simp del: upt_Suc)

lemma re_fullmatch_iff: "re_fullmatch f r s \<longleftrightarrow> spans f s r 0 (length s)"
  by (auto simp: re_fullmatch_def list_ex_iff spans_ends [of f s r 0 _ None])

lemma re_searchI: "spans f s r i j \<Longrightarrow> i \<le> length s \<Longrightarrow> re_search f r s"
  by (auto simp: re_search_iff)

text \<open>A string that contains a literal word matches it, whatever the flags.\<close>

lemma spans_LitsI: "starts_with (drop i s) w \<Longrightarrow> i \<le> length s \<Longrightarrow> spans f s (Lits w) i (i + length w)"
proof (induction w arbitrary: i rule: Lits.induct)
  case (2 c)
  then show ?case
    by (cases "i < length s") (auto simp: lit_has_def Cons_nth_drop_Suc [symmetric])
next
  case (3 c d cs)
  then have i: "i < length s" by (cases "i < length s") auto
  with 3 have "s ! i = c" "starts_with (drop (Suc i) s) (d # cs)"
    by (auto simp: Cons_nth_drop_Suc [symmetric])
  with 3(1) [of "Suc i"] i have "spans f s (Lits (d # cs)) (Suc i) (i + length (c # d # cs))" by simp
  with i \<open>s ! i = c\<close> show ?case by (auto simp: lit_has_def)
qed simp

lemma str_contains_iff: "str_contains s w \<longleftrightarrow> (\<exists>i\<le>length s. starts_with (drop i s) w)"
  using str_find_None [of s w] by (auto simp: str_contains_def)

lemma re_search_Lits: "str_contains s w \<Longrightarrow> re_search f (Lits w) s"
  by (auto simp: str_contains_iff intro: re_searchI spans_LitsI)


text \<open>A run of characters of a class is a match of the repeated class.\<close>

lemma spans_run:
  assumes "i \<le> k" "k \<le> length s" "\<forall>m. i \<le> m \<longrightarrow> m < k \<longrightarrow> items_have f is (s ! m) \<noteq> neg"
  shows "spans f s (Star (Cls neg is)) i k"
  using assms
proof (induction "k - i" arbitrary: i)
  case 0
  then show ?case by (simp add: star0)
next
  case (Suc n)
  then have "i < k" by simp
  with Suc have "spans f s (Star (Cls neg is)) (Suc i) k" by simp
  moreover from \<open>i < k\<close> Suc have "spans f s (Cls neg is) i (Suc i)" by auto
  ultimately show ?case by (blast intro: star1)
qed

lemma spans_run1:
  assumes "i < k" "k \<le> length s" "\<forall>m. i \<le> m \<longrightarrow> m < k \<longrightarrow> items_have f is (s ! m) \<noteq> neg"
  shows "spans f s (Plus (Cls neg is)) i k"
proof -
  from assms have "spans f s (Cls neg is) i (Suc i)" by auto
  moreover from assms have "spans f s (Star (Cls neg is)) (Suc i) k" by (intro spans_run) auto
  ultimately show ?thesis by (blast intro: seq)
qed

text \<open>The end of the longest run of characters with a property, from position \<open>i\<close>.\<close>

lemma run_ex:
  "i \<le> length s \<Longrightarrow> \<exists>k. i \<le> k \<and> k \<le> length s \<and> (\<forall>m. i \<le> m \<longrightarrow> m < k \<longrightarrow> P (s ! m)) \<and>
     (k < length s \<longrightarrow> \<not> P (s ! k))"
proof (induction "length s - i" arbitrary: i)
  case 0
  then show ?case by (intro exI [of _ i]) simp
next
  case (Suc n)
  show ?case
  proof (cases "P (s ! i)")
    case True
    from Suc.hyps(2) have "n = length s - Suc i" "Suc i \<le> length s" by simp_all
    from Suc.hyps(1) [OF this] obtain k where k: "Suc i \<le> k" "k \<le> length s"
      "\<forall>m. Suc i \<le> m \<longrightarrow> m < k \<longrightarrow> P (s ! m)" "k < length s \<longrightarrow> \<not> P (s ! k)" by blast
    have "P (s ! m)" if "i \<le> m" "m < k" for m
      using that True k(3) by (cases "m = i") auto
    with k show ?thesis by (intro exI [of _ k]) simp
  next
    case False
    with Suc.prems show ?thesis by (intro exI [of _ i]) simp
  qed
qed

lemma run_end:
  assumes "i \<le> length s"
  obtains k where "i \<le> k" "k \<le> length s" "\<forall>m. i \<le> m \<longrightarrow> m < k \<longrightarrow> P (s ! m)"
    "k < length s \<longrightarrow> \<not> P (s ! k)"
  using run_ex [OF assms, of P] by blast


section \<open>Iteration and substitution\<close>

text \<open>
  A replacement template: literal text and references to group 1. \<open>re_sub\<close> rewrites every
  match \<open>re_finditer\<close> reports and copies the text between them.
\<close>

datatype repl_part = Text py_str | Group1

fun expand :: "py_str \<Rightarrow> (nat \<times> nat) option \<Rightarrow> repl_part list \<Rightarrow> py_str" where
  "expand s g [] = []"
| "expand s g (Text t # ps) = t @ expand s g ps"
| "expand s g (Group1 # ps) =
     (case g of None \<Rightarrow> [] | Some (a, b) \<Rightarrow> take (b - a) (drop a s)) @ expand s g ps"

fun sub_from :: "py_str \<Rightarrow> repl_part list \<Rightarrow> nat \<Rightarrow> (nat \<times> re_state) list \<Rightarrow> py_str" where
  "sub_from s rp cur [] = drop cur s"
| "sub_from s rp cur ((i, j, g) # ms) =
     take (i - cur) (drop cur s) @ expand s g rp @ sub_from s rp j ms"

definition re_sub :: "re_flags \<Rightarrow> re \<Rightarrow> repl_part list \<Rightarrow> py_str \<Rightarrow> py_str" where
  "re_sub f r rp s = sub_from s rp 0 (re_finditer f r s)"

text \<open>\<open>findall\<close> of a pattern with one group: the texts it captured.\<close>

definition re_findall1 :: "re_flags \<Rightarrow> re \<Rightarrow> py_str \<Rightarrow> py_str list" where
  "re_findall1 f r s =
     map (\<lambda>(i, j, g). case g of None \<Rightarrow> [] | Some (a, b) \<Rightarrow> take (b - a) (drop a s)) (re_finditer f r s)"

lemma match_at_spans: "match_at f r s i = Some (j, g) \<Longrightarrow> spans f s r i j"
  by (auto simp: match_at_def spans_ends [of f s r i _ None] split: list.splits)

lemma find_from_Nil_iff:
  "find_from f r s i = [] \<longleftrightarrow> (\<forall>k. i \<le> k \<longrightarrow> k \<le> length s \<longrightarrow> match_at f r s k = None)"
proof (induction f r s i rule: find_from.induct)
  case (1 f r s i)
  show ?case
  proof (cases "length s < i")
    case False
    then have "find_from f r s i = [] \<longleftrightarrow> match_at f r s i = None \<and> find_from f r s (Suc i) = []"
      by (subst find_from.simps) (auto split: option.split)
    also have "\<dots> \<longleftrightarrow> (\<forall>k. i \<le> k \<longrightarrow> k \<le> length s \<longrightarrow> match_at f r s k = None)"
    proof (cases "match_at f r s i")
      case None
      have "(\<forall>k. i \<le> k \<longrightarrow> k \<le> length s \<longrightarrow> match_at f r s k = None) \<longleftrightarrow>
            (\<forall>k. Suc i \<le> k \<longrightarrow> k \<le> length s \<longrightarrow> match_at f r s k = None)"
        using None by (auto simp: Suc_le_eq le_eq_less_or_eq [of i])
      with "1.IH"(1) [OF False None] None show ?thesis by simp
    next
      case (Some y)
      with False show ?thesis by (auto simp: not_less)
    qed
    finally show ?thesis .
  qed (auto simp: find_from.simps)
qed

lemma finditer_Nil_iff: "re_finditer f r s = [] \<longleftrightarrow> \<not> re_search f r s"
  by (auto simp: re_finditer_def find_from_Nil_iff re_search_def list_ex_iff less_Suc_eq_le
      simp del: upt_Suc not_None_eq split_paired_All)

text \<open>The reported matches are matches, lie in order and do not overlap.\<close>

fun ordered_from :: "nat \<Rightarrow> nat \<Rightarrow> (nat \<times> re_state) list \<Rightarrow> bool" where
  "ordered_from n cur [] = True"
| "ordered_from n cur ((i, j, g) # ms) = (cur \<le> i \<and> i \<le> j \<and> j \<le> n \<and> ordered_from n j ms)"

lemma ordered_from_mono: "ordered_from n b ms \<Longrightarrow> a \<le> b \<Longrightarrow> ordered_from n a ms"
  by (cases ms) auto

lemma match_at_bounds: "match_at f r s i = Some (j, g) \<Longrightarrow> i \<le> length s \<Longrightarrow> i \<le> j \<and> j \<le> length s"
  by (drule match_at_spans) (auto dest!: spans_le simp: le_eq_less_or_eq)

lemma find_from_ordered: "ordered_from (length s) i (find_from f r s i)"
proof (induction f r s i rule: find_from.induct)
  case (1 f r s i)
  then show ?case
    by (subst find_from.simps)
      (auto split: option.split dest: match_at_bounds intro: ordered_from_mono)
qed

lemma re_sub_clean: "\<not> re_search f r s \<Longrightarrow> re_sub f r rp s = s"
  by (simp add: re_sub_def finditer_Nil_iff [THEN iffD2])

end
