(* ===== verification/Secret_Redaction.thy ===== *)
theory Secret_Redaction
  imports Py_Regex
begin

text \<open>
  Secret masking (\<open>sera/safety/redact.py\<close>): the pattern table \<open>_PATTERNS\<close> in source
  order, \<open>redact\<close> (every pattern substituted in turn) and \<open>has_secret\<close>.
\<close>


section \<open>The pattern table\<close>

abbreviation alnum :: "cls_item list" where
  "alnum \<equiv> [Range (CHR ''A'') (CHR ''Z''), Range (CHR ''a'') (CHR ''z''), Range (CHR ''0'') (CHR ''9'')]"

abbreviation SP :: re where "SP \<equiv> Ch [Space]"

definition key_chars :: re where
  "key_chars = Ch (alnum @ [One (CHR ''_''), One (CHR ''-'')])"

definition upper_digit :: re where
  "upper_digit = Ch [Range (CHR ''0'') (CHR ''9''), Range (CHR ''A'') (CHR ''Z'')]"

definition SENSITIVE_NAMES :: "py_str list" where
  "SENSITIVE_NAMES =
     [''OPENAI_API_KEY'', ''ANTHROPIC_API_KEY'', ''AWS_SECRET_ACCESS_KEY'',
      ''GITHUB_TOKEN'', ''TAVILY_API_KEY'', ''HUGGINGFACE_TOKEN'']"

definition key_kind :: re where
  "key_kind = Opt (Alts (map Lits [''RSA '', ''OPENSSH '', ''EC '', ''DSA '', ''ENCRYPTED '']))"

definition flag_s :: re_flags where
  "flag_s = \<lparr>ignorecase = False, multiline = False, dotall = True\<rparr>"

definition mask :: "py_str \<Rightarrow> repl_part list" where
  "mask kind = [Text (''<redacted:'' @ kind @ ''>'')]"

definition PATTERNS :: "(re_flags \<times> re \<times> repl_part list) list" where
  "PATTERNS =
    [(no_flags, Seqs [Lits ''sk-ant-'', Alts [Lits ''api'', Lits ''oat''], Star (Ch [Digit]), Lit (CHR ''-''),
        AtLeast 20 key_chars], mask ''anthropic-key''),
     (no_flags, Seq (Lits ''sk-proj-'') (AtLeast 20 key_chars), mask ''openai-key''),
     (no_flags, Seq (Lits ''sk-'') (AtLeast 20 (Ch alnum)), mask ''openai-key''),
     (no_flags, Seq (Lits ''ghp_'') (AtLeast 20 (Ch alnum)), mask ''github-pat''),
     (no_flags, Seq (Lits ''gho_'') (AtLeast 20 (Ch alnum)), mask ''github-oauth''),
     (no_flags, Seq (Lits ''ghs_'') (AtLeast 20 (Ch alnum)), mask ''github-server''),
     (no_flags, Seq (Lits ''github_pat_'') (AtLeast 40 (Ch (alnum @ [One (CHR ''_'')]))),
        mask ''github-pat-finegrained''),
     (no_flags, Seqs [Lits ''xox'', Ch (map One ''abprs''), Lit (CHR ''-''),
        AtLeast 10 (Ch (alnum @ [One (CHR ''-'')]))], mask ''slack-token''),
     (no_flags, Seq (Lits ''AKIA'') (Times 16 upper_digit), mask ''aws-access-key''),
     (no_flags, Seq (Lits ''ASIA'') (Times 16 upper_digit), mask ''aws-session-key''),
     (flag_i, Seqs [Lits ''bearer'', Plus SP, AtLeast 20 (Ch (alnum @ map One ''_-.''))],
        [Text ''Bearer <redacted>'']),
     (flag_i, Seqs [Lits ''authorization:'', Star SP,
        AtLeast 20 (Ch (alnum @ map One ''_-.'' @ [Space]))], [Text ''Authorization: <redacted>'']),
     (flag_i, Seqs [Grp (Alts (map Lits SENSITIVE_NAMES)), Star SP, Ch (map One ''=:''), Star SP,
        Plus (NotCh [Space])], [Group1, Text ''=<redacted>'']),
     (flag_s, Seqs [Lits ''-----BEGIN '', key_kind, Lits ''PRIVATE KEY-----'', LazyStar Dot,
        Lits ''-----END '', key_kind, Lits ''PRIVATE KEY-----''], mask ''private-key''),
     (no_flags, Seqs [WordBound, Lits ''eyJ'', AtLeast 10 key_chars, Lit (CHR ''.''),
        AtLeast 10 key_chars, Lit (CHR ''.''), AtLeast 10 key_chars, WordBound], mask ''jwt'')]"


section \<open>Masking\<close>

fun apply_patterns :: "(re_flags \<times> re \<times> repl_part list) list \<Rightarrow> py_str \<Rightarrow> py_str" where
  "apply_patterns [] s = s"
| "apply_patterns ((f, p, rp) # ps) s = apply_patterns ps (re_sub f p rp s)"

definition redact :: "py_str \<Rightarrow> py_str" where
  "redact text = (if text = [] then text else apply_patterns PATTERNS text)"

definition has_secret :: "py_str \<Rightarrow> bool" where
  "has_secret text \<longleftrightarrow> text \<noteq> [] \<and> list_ex (\<lambda>(f, p, _). re_search f p text) PATTERNS"

lemma apply_patterns_clean:
  "\<forall>(f, p, rp) \<in> set ps. \<not> re_search f p s \<Longrightarrow> apply_patterns ps s = s"
  by (induction ps) (auto simp: re_sub_clean)

lemma redact_clean: "\<not> has_secret text \<Longrightarrow> redact text = text"
  by (cases "text = []") (auto simp: has_secret_def redact_def list_ex_iff intro!: apply_patterns_clean)

end
