(* ===== verification/Tool_Layer.thy ===== *)
theory Tool_Layer
  imports Secret_Redaction
begin

text \<open>
  The tool layer: permission tiers and tool records (\<open>sera/tools/base.py\<close>), the
  process-wide registry with lazy discovery (\<open>sera/tools/registry.py\<close>) and the dispatcher
  that turns every outcome of a handler into a result (\<open>sera/tools/dispatcher.py\<close>). A
  handler is a parameter: a function from the call's arguments to a text or an exception.
\<close>


section \<open>Permission tiers\<close>

datatype Permission = NONE | READ_ONLY | WRITE | EXECUTE | DANGEROUS

fun perm_value :: "Permission \<Rightarrow> int" where
  "perm_value NONE = 0"
| "perm_value READ_ONLY = 1"
| "perm_value WRITE = 2"
| "perm_value EXECUTE = 3"
| "perm_value DANGEROUS = 4"

lemma perm_value_inj [simp]: "perm_value p = perm_value q \<longleftrightarrow> p = q"
  by (cases p; cases q) simp_all

instantiation Permission :: linorder
begin

definition less_eq_Permission :: "Permission \<Rightarrow> Permission \<Rightarrow> bool" where
  "p \<le> q \<longleftrightarrow> perm_value p \<le> perm_value q"

definition less_Permission :: "Permission \<Rightarrow> Permission \<Rightarrow> bool" where
  "p < q \<longleftrightarrow> perm_value p < perm_value q"

instance
  by standard (auto simp: less_eq_Permission_def less_Permission_def order_antisym)

end

lemma DANGEROUS_top [simp]: "DANGEROUS \<le> p \<longleftrightarrow> p = DANGEROUS" "p \<le> DANGEROUS"
  by (cases p; simp add: less_eq_Permission_def)+

text \<open>\<open>Permission.parse\<close>: a member, an integer value, or a member name in any case.\<close>

datatype perm_spec = Member Permission | IntValue int | NameText py_str

datatype tool_error = BadPermissionValue int | UnknownTier py_str

fun perm_of_int :: "int \<Rightarrow> Permission option" where
  "perm_of_int i =
     (if i = 0 then Some NONE else if i = 1 then Some READ_ONLY else if i = 2 then Some WRITE
      else if i = 3 then Some EXECUTE else if i = 4 then Some DANGEROUS else None)"

definition perm_members :: "(py_str, Permission) py_dict" where
  "perm_members = [(''NONE'', NONE), (''READ_ONLY'', READ_ONLY), (''WRITE'', WRITE),
                   (''EXECUTE'', EXECUTE), (''DANGEROUS'', DANGEROUS)]"

fun parse_permission :: "perm_spec \<Rightarrow> (tool_error, Permission) py_result" where
  "parse_permission (Member p) = Inr p"
| "parse_permission (IntValue i) =
     (case perm_of_int i of None \<Rightarrow> Inl (BadPermissionValue i) | Some p \<Rightarrow> Inr p)"
| "parse_permission (NameText t) =
     (case dict_get perm_members (map to_upper (str_strip t)) of
        None \<Rightarrow> Inl (UnknownTier t) | Some p \<Rightarrow> Inr p)"


section \<open>Tools, calls and results\<close>

datatype ToolScope = SYSTEM | SKILL | INTEGRATION

type_synonym arguments = "(py_str, py_value) py_dict"

record ToolContext =
  ctx_session :: py_str
  ctx_workspace :: py_str

text \<open>An exception a handler raises: the name of its type and its text.\<close>

record py_exc =
  exc_type :: py_str
  exc_text :: py_str

type_synonym tool_handler = "arguments \<Rightarrow> ToolContext \<Rightarrow> (py_exc, py_str) py_result"

record Tool =
  tool_name :: py_str
  description :: py_str
  parameters :: py_value
  tool_permission :: Permission
  tool_scope :: ToolScope
  handler :: tool_handler

record ToolCall =
  call_id :: py_str
  call_name :: py_str
  call_args :: arguments

record ToolResult =
  result_id :: py_str
  result_name :: py_str
  content :: py_str
  is_error :: bool

definition to_openai_schema :: "Tool \<Rightarrow> py_value" where
  "to_openai_schema t =
     PyDict [(''type'', PyStr ''function''),
             (''function'', PyDict [(''name'', PyStr (tool_name t)),
                                    (''description'', PyStr (description t)),
                                    (''parameters'', parameters t)])]"

definition to_anthropic_schema :: "Tool \<Rightarrow> py_value" where
  "to_anthropic_schema t =
     PyDict [(''name'', PyStr (tool_name t)), (''description'', PyStr (description t)),
             (''input_schema'', parameters t)]"


section \<open>The registry\<close>

text \<open>
  \<open>_registry\<close> and \<open>_discovered\<close> are module globals. The first lookup imports the modules
  of \<open>sera.tools.impl\<close>, each of which registers its tool: \<open>builtins\<close> is the list they
  register, in import order.
\<close>

record registry =
  reg_tools :: "(py_str, Tool) py_dict"
  discovered :: bool

definition empty_registry :: registry where
  "empty_registry = \<lparr>reg_tools = [], discovered = False\<rparr>"

definition register :: "Tool \<Rightarrow> registry \<Rightarrow> registry" where
  "register t r = r\<lparr>reg_tools := dict_set (tool_name t) t (reg_tools r)\<rparr>"

definition unregister :: "py_str \<Rightarrow> registry \<Rightarrow> bool \<times> registry" where
  "unregister n r =
     (dict_get (reg_tools r) n \<noteq> None, r\<lparr>reg_tools := dict_del n (reg_tools r)\<rparr>)"

definition ensure_discovered :: "Tool list \<Rightarrow> registry \<Rightarrow> registry" where
  "ensure_discovered builtins r =
     (if discovered r then r else (fold register builtins r)\<lparr>discovered := True\<rparr>)"

definition get_tool :: "Tool list \<Rightarrow> py_str \<Rightarrow> registry \<Rightarrow> Tool option \<times> registry" where
  "get_tool builtins n r =
     (let r' = ensure_discovered builtins r in (dict_get (reg_tools r') n, r'))"

definition all_tools :: "Tool list \<Rightarrow> Permission \<Rightarrow> registry \<Rightarrow> Tool list \<times> registry" where
  "all_tools builtins max_permission r =
     (let r' = ensure_discovered builtins r
      in (filter (\<lambda>t. tool_permission t \<le> max_permission) (map snd (reg_tools r')), r'))"

definition tool_names :: "Tool list \<Rightarrow> registry \<Rightarrow> py_str list \<times> registry" where
  "tool_names builtins r =
     (let r' = ensure_discovered builtins r in (dict_keys (reg_tools r'), r'))"

definition reset_registry :: "registry \<Rightarrow> registry" where
  "reset_registry r = r\<lparr>reg_tools := [], discovered := False\<rparr>"

lemmas registry_defs [sera_defs] =
  register_def unregister_def ensure_discovered_def get_tool_def all_tools_def tool_names_def
  reset_registry_def empty_registry_def

text \<open>The registry invariant: unique names, and every tool stored under its own name.\<close>

definition registry_ok :: "registry \<Rightarrow> bool" where
  "registry_ok r \<longleftrightarrow> dict_wf (reg_tools r) \<and> (\<forall>(n, t) \<in> set (reg_tools r). tool_name t = n)"

lemma set_update_subset: "set (AList.update k v d) \<subseteq> insert (k, v) (set d)"
  by (induction d) auto

lemma set_delete_subset: "set (AList.delete k d) \<subseteq> set d"
  by (induction d) auto

lemma registry_ok_empty: "registry_ok empty_registry"
  by (simp add: registry_ok_def empty_registry_def)

lemma registry_ok_register: "registry_ok r \<Longrightarrow> registry_ok (register t r)"
  using set_update_subset [of "tool_name t" t "reg_tools r"]
  by (fastforce simp: registry_ok_def register_def)

lemma registry_ok_unregister: "registry_ok r \<Longrightarrow> registry_ok (snd (unregister n r))"
  using set_delete_subset [of n "reg_tools r"]
  by (auto simp: registry_ok_def unregister_def)

lemma registry_ok_fold: "registry_ok r \<Longrightarrow> registry_ok (fold register ts r)"
  by (induction ts arbitrary: r) (auto intro: registry_ok_register)

lemma registry_ok_discovered: "registry_ok (r\<lparr>discovered := b\<rparr>) = registry_ok r"
  by (simp add: registry_ok_def)

lemma registry_ok_ensure: "registry_ok r \<Longrightarrow> registry_ok (ensure_discovered bs r)"
  by (simp add: ensure_discovered_def registry_ok_fold registry_ok_discovered)

lemma registry_lookup_name: "registry_ok r \<Longrightarrow> dict_get (reg_tools r) n = Some t \<Longrightarrow> tool_name t = n"
  by (auto simp: registry_ok_def dest: map_of_SomeD)

lemma register_get [simp]:
  "dict_get (reg_tools (register t r)) n = (if n = tool_name t then Some t else dict_get (reg_tools r) n)"
  by (simp add: register_def)

lemma fold_register_other:
  "n \<notin> tool_name ` set ts \<Longrightarrow> dict_get (reg_tools (fold register ts r)) n = dict_get (reg_tools r) n"
  by (induction ts arbitrary: r) auto

lemma fold_register_cong:
  "n \<in> tool_name ` set ts \<or> dict_get (reg_tools q) n = dict_get (reg_tools q') n \<Longrightarrow>
     dict_get (reg_tools (fold register ts q)) n = dict_get (reg_tools (fold register ts q')) n"
proof (induction ts arbitrary: q q')
  case (Cons b bs)
  have "n \<in> tool_name ` set bs \<or>
        dict_get (reg_tools (register b q)) n = dict_get (reg_tools (register b q')) n"
    using Cons.prems by auto
  from Cons.IH [OF this] show ?case by simp
qed simp

text \<open>
  What a registration means to a later lookup. Once discovery has happened, the tool
  just registered is the one found under its name and no other name changes. Before
  discovery, the first lookup imports the built-in modules after the registration, so a
  built-in of the same name replaces it; under any other name the registration stands.
\<close>

theorem register_then_get:
  "fst (get_tool builtins n (register t r)) =
     (if n = tool_name t
      then (if \<not> discovered r \<and> n \<in> tool_name ` set builtins
            then fst (get_tool builtins n r) else Some t)
      else fst (get_tool builtins n r))"
proof (cases "discovered r")
  case True
  then show ?thesis by (simp add: get_tool_def ensure_discovered_def register_def Let_def)
next
  case False
  then have "\<not> discovered (register t r)" by (simp add: register_def)
  with False show ?thesis
    using fold_register_cong [of n builtins "register t r" r]
    by (auto simp: get_tool_def ensure_discovered_def Let_def fold_register_other)
qed

text \<open>
  Exposing tools is bounded by the requested tier: every tool in the list has at most
  that permission, the list is in registration order without repeated names, and the
  default tier hides nothing.
\<close>

theorem all_tools_bounded:
  assumes "registry_ok r"
  shows "(\<forall>t \<in> set (fst (all_tools bs p r)). tool_permission t \<le> p) \<and>
         distinct (map tool_name (fst (all_tools bs p r))) \<and>
         fst (all_tools bs DANGEROUS r) = map snd (reg_tools (ensure_discovered bs r))"
proof -
  let ?d = "reg_tools (ensure_discovered bs r)"
  have ok: "registry_ok (ensure_discovered bs r)" using assms by (rule registry_ok_ensure)
  then have "map tool_name (map snd ?d) = map fst ?d"
    by (auto simp: registry_ok_def)
  with ok have "distinct (map tool_name (map snd ?d))"
    unfolding registry_ok_def by metis
  then have "distinct (map tool_name (filter P (map snd ?d)))" for P
    by (rule distinct_map_filter)
  then show ?thesis by (simp add: all_tools_def Let_def)
qed

theorem all_tools_bounded_witness:
  "fst (all_tools [] READ_ONLY empty_registry) = [] \<and> fst (all_tools [] DANGEROUS empty_registry) = []"
  using all_tools_bounded [OF registry_ok_empty, of "[]" READ_ONLY]
  by (simp add: all_tools_def ensure_discovered_def empty_registry_def Let_def)


section \<open>The dispatcher\<close>

text \<open>
  One row of \<open>sera/tools/stats.py\<close> is written for every call that reached a handler. The
  latency and the recording time are clock readings, given as arguments.
\<close>

record tool_call_row =
  tc_name :: py_str
  tc_latency_ms :: int
  tc_success :: bool
  tc_error :: "py_str option"
  tc_cost_usd :: py_float
  tc_recorded_at :: py_float

record dispatcher =
  disp_registry :: registry
  tool_calls :: "tool_call_row list"

definition record_tool_call ::
  "py_str \<Rightarrow> int \<Rightarrow> bool \<Rightarrow> py_str option \<Rightarrow> py_float \<Rightarrow> py_float \<Rightarrow> tool_call_row list \<Rightarrow> tool_call_row list"
where
  "record_tool_call n latency ok err cost now rows =
     rows @ [\<lparr>tc_name = n, tc_latency_ms = latency, tc_success = ok, tc_error = err,
              tc_cost_usd = cost, tc_recorded_at = now\<rparr>]"

definition short_error :: "py_exc \<Rightarrow> py_str" where
  "short_error e = redact (exc_type e @ '': '' @ exc_text e)"

definition execute ::
  "Tool list \<Rightarrow> int \<Rightarrow> py_float \<Rightarrow> ToolCall \<Rightarrow> ToolContext \<Rightarrow> dispatcher \<Rightarrow> ToolResult \<times> dispatcher"
where
  "execute builtins latency now call ctx d =
     (case get_tool builtins (call_name call) (disp_registry d) of
        (None, r) \<Rightarrow>
          (\<lparr>result_id = call_id call, result_name = call_name call,
            content = ''Unknown tool: '' @ call_name call, is_error = True\<rparr>,
           d\<lparr>disp_registry := r\<rparr>)
      | (Some t, r) \<Rightarrow>
          (case handler t (call_args call) ctx of
             Inr text \<Rightarrow>
               (\<lparr>result_id = call_id call, result_name = call_name call,
                 content = text, is_error = False\<rparr>,
                d\<lparr>disp_registry := r,
                  tool_calls := record_tool_call (call_name call) latency True None 0 now (tool_calls d)\<rparr>)
           | Inl e \<Rightarrow>
               (\<lparr>result_id = call_id call, result_name = call_name call,
                 content = short_error e, is_error = True\<rparr>,
                d\<lparr>disp_registry := r,
                  tool_calls := record_tool_call (call_name call) latency False (Some (short_error e)) 0 now
                                  (tool_calls d)\<rparr>)))"

text \<open>
  The dispatcher never lets a handler's exception out: every call yields a result that
  carries the call's id and name; the error flag is set exactly when the tool is unknown or
  its handler raised; an exception reaches the caller only as its redacted one-line form;
  and a call that found its tool leaves exactly one statistics row, flagged as the result.
\<close>

theorem execute_total:
  "case execute bs lat now call ctx d of (res, d') \<Rightarrow>
     result_id res = call_id call \<and> result_name res = call_name call \<and>
     (case fst (get_tool bs (call_name call) (disp_registry d)) of
        None \<Rightarrow> is_error res \<and> tool_calls d' = tool_calls d
      | Some t \<Rightarrow>
          (case handler t (call_args call) ctx of
             Inl e \<Rightarrow> is_error res \<and> content res = short_error e
           | Inr text \<Rightarrow> \<not> is_error res \<and> content res = text) \<and>
          (\<exists>row. tool_calls d' = tool_calls d @ [row] \<and> tc_name row = call_name call \<and>
                 tc_success row = (\<not> is_error res)))"
  by (auto simp: execute_def record_tool_call_def split: prod.splits option.splits sum.splits)

end
