(* ===== verification/Skill_Lifecycle.thy ===== *)
theory Skill_Lifecycle
  imports Sera_Prelude "HOL-Library.List_Lexorder" "HOL-Library.Char_ord"
begin

text \<open>
  The life of a skill: its state machine with time-based decay (\<open>sera/skills/lifecycle.py\<close>)
  and its quality score (\<open>sera/skills/scoring.py\<close>). Each SQLite table with the skill name as
  primary key is a dict; the clock is an argument.
\<close>


section \<open>Lifecycle\<close>

datatype LifecycleState = PINNED | ACTIVE | STALE | ARCHIVED

definition STALE_AFTER_SECONDS :: py_float where
  "STALE_AFTER_SECONDS = 90 * 24 * 60 * 60"

definition ARCHIVE_AFTER_SECONDS :: py_float where
  "ARCHIVE_AFTER_SECONDS = 180 * 24 * 60 * 60"

record LifecycleRow =
  lc_state :: LifecycleState
  last_used_at :: py_float
  archived_at :: "py_float option"
  pinned :: bool
  verified :: bool

type_synonym lifecycle_db = "(py_str, LifecycleRow) py_dict"

record SweepSummary =
  transitions_to_stale :: "py_str list"
  proposed_archives :: "py_str list"

definition active_row :: "py_float \<Rightarrow> LifecycleRow" where
  "active_row now = \<lparr>lc_state = ACTIVE, last_used_at = now, archived_at = None, pinned = False, verified = True\<rparr>"

text \<open>\<open>INSERT ... ON CONFLICT DO UPDATE\<close>.\<close>

definition upsert_row :: "py_str \<Rightarrow> LifecycleRow \<Rightarrow> (LifecycleRow \<Rightarrow> LifecycleRow) \<Rightarrow> lifecycle_db \<Rightarrow> lifecycle_db" where
  "upsert_row n fresh upd db = dict_set n (case dict_get db n of None \<Rightarrow> fresh | Some r \<Rightarrow> upd r) db"

definition update_row :: "py_str \<Rightarrow> (LifecycleRow \<Rightarrow> LifecycleRow) \<Rightarrow> lifecycle_db \<Rightarrow> lifecycle_db" where
  "update_row n upd db = (case dict_get db n of None \<Rightarrow> db | Some r \<Rightarrow> dict_set n (upd r) db)"

definition upsert :: "py_float \<Rightarrow> py_str \<Rightarrow> lifecycle_db \<Rightarrow> lifecycle_db" where
  "upsert now n db = upsert_row n (active_row now) (\<lambda>r. r) db"

definition touch :: "py_float \<Rightarrow> py_str \<Rightarrow> lifecycle_db \<Rightarrow> lifecycle_db" where
  "touch now n db =
     upsert_row n (active_row now)
       (\<lambda>r. r\<lparr>last_used_at := now, lc_state := (if lc_state r = ARCHIVED then lc_state r else ACTIVE)\<rparr>) db"

definition archive :: "py_float \<Rightarrow> py_str \<Rightarrow> lifecycle_db \<Rightarrow> lifecycle_db" where
  "archive now n db =
     upsert_row n ((active_row now)\<lparr>lc_state := ARCHIVED, archived_at := Some now\<rparr>)
       (\<lambda>r. r\<lparr>lc_state := ARCHIVED, archived_at := Some now, pinned := False\<rparr>) db"

definition mark_candidate :: "py_float \<Rightarrow> py_str \<Rightarrow> lifecycle_db \<Rightarrow> lifecycle_db" where
  "mark_candidate now n db = upsert_row n ((active_row now)\<lparr>verified := False\<rparr>) (\<lambda>r. r\<lparr>verified := False\<rparr>) db"

definition verify_skill :: "py_float \<Rightarrow> py_str \<Rightarrow> lifecycle_db \<Rightarrow> lifecycle_db" where
  "verify_skill now n db = upsert_row n (active_row now) (\<lambda>r. r\<lparr>verified := True\<rparr>) db"

definition is_verified :: "py_str \<Rightarrow> lifecycle_db \<Rightarrow> bool" where
  "is_verified n db = (case dict_get db n of None \<Rightarrow> True | Some r \<Rightarrow> verified r)"

definition revive :: "py_float \<Rightarrow> py_str \<Rightarrow> lifecycle_db \<Rightarrow> lifecycle_db" where
  "revive now n db = update_row n (\<lambda>r. r\<lparr>lc_state := ACTIVE, archived_at := None, last_used_at := now\<rparr>) db"

definition pin :: "py_float \<Rightarrow> py_str \<Rightarrow> lifecycle_db \<Rightarrow> lifecycle_db" where
  "pin now n db = upsert_row n ((active_row now)\<lparr>pinned := True\<rparr>) (\<lambda>r. r\<lparr>pinned := True\<rparr>) db"

definition unpin :: "py_str \<Rightarrow> lifecycle_db \<Rightarrow> lifecycle_db" where
  "unpin n db = update_row n (\<lambda>r. r\<lparr>pinned := False\<rparr>) db"

definition effective_state :: "py_float \<Rightarrow> LifecycleRow \<Rightarrow> LifecycleState" where
  "effective_state now r =
     (if pinned r then PINNED
      else if lc_state r = ARCHIVED then ARCHIVED
      else if STALE_AFTER_SECONDS \<le> now - last_used_at r then STALE
      else ACTIVE)"

definition state_of :: "py_float \<Rightarrow> py_str \<Rightarrow> lifecycle_db \<Rightarrow> LifecycleState" where
  "state_of now n db = (case dict_get db n of None \<Rightarrow> ACTIVE | Some r \<Rightarrow> effective_state now r)"

definition goes_stale :: "py_float \<Rightarrow> LifecycleRow \<Rightarrow> bool" where
  "goes_stale now r \<longleftrightarrow> \<not> pinned r \<and> lc_state r = ACTIVE \<and> last_used_at r \<le> now - STALE_AFTER_SECONDS"

definition proposes_archive :: "py_float \<Rightarrow> LifecycleRow \<Rightarrow> bool" where
  "proposes_archive now r \<longleftrightarrow> \<not> pinned r \<and> lc_state r \<noteq> ARCHIVED \<and> last_used_at r \<le> now - ARCHIVE_AFTER_SECONDS"

definition sweep :: "py_float \<Rightarrow> lifecycle_db \<Rightarrow> SweepSummary \<times> lifecycle_db" where
  "sweep now db =
     (let stale = map fst (filter (\<lambda>(_, r). goes_stale now r) db);
          db1 = map (\<lambda>(n, r). (n, if n \<in> set stale then r\<lparr>lc_state := STALE\<rparr> else r)) db
      in (\<lparr>transitions_to_stale = stale,
           proposed_archives = map fst (filter (\<lambda>(_, r). proposes_archive now r) db1)\<rparr>, db1))"

lemma upsert_row_get [simp]:
  "dict_get (upsert_row n fresh upd db) k =
     (if k = n then Some (case dict_get db n of None \<Rightarrow> fresh | Some r \<Rightarrow> upd r) else dict_get db k)"
  by (simp add: upsert_row_def)

lemma update_row_get [simp]:
  "dict_get (update_row n upd db) k = (if k = n then map_option upd (dict_get db n) else dict_get db k)"
  by (simp add: update_row_def split: option.split)

lemma upsert_row_wf [simp]: "dict_wf db \<Longrightarrow> dict_wf (upsert_row n fresh upd db)"
  by (simp add: upsert_row_def)

lemma update_row_wf [simp]: "dict_wf db \<Longrightarrow> dict_wf (update_row n upd db)"
  by (simp add: update_row_def split: option.split)

lemma sweep_keys [simp]: "map fst (snd (sweep now db)) = map fst db"
  by (simp add: sweep_def Let_def case_prod_beta comp_def)

lemma sweep_get:
  assumes "dict_wf db"
  shows "dict_get (snd (sweep now db)) n =
    map_option (\<lambda>r. if goes_stale now r then r\<lparr>lc_state := STALE\<rparr> else r) (dict_get db n)"
proof -
  have m: "n \<in> set (map fst (filter (\<lambda>(_, r). goes_stale now r) db)) \<longleftrightarrow> goes_stale now r" if "(n, r) \<in> set db" for n r
    using that assms by (force dest: eq_key_imp_eq_value)
  have "snd (sweep now db) = map (\<lambda>(n, r). (n, if goes_stale now r then r\<lparr>lc_state := STALE\<rparr> else r)) db"
    using m by (auto simp: sweep_def Let_def simp del: set_map)
  then show ?thesis by (simp add: map_of_map)
qed

datatype lifecycle_op =
    Upsert py_float py_str | Touch py_float py_str | Archive py_float py_str | Candidate py_float py_str
  | Verify py_float py_str | Revive py_float py_str | Pin py_float py_str | Unpin py_str | Sweep py_float

fun run_op :: "lifecycle_op \<Rightarrow> lifecycle_db \<Rightarrow> lifecycle_db" where
  "run_op (Upsert t n) = upsert t n"
| "run_op (Touch t n) = touch t n"
| "run_op (Archive t n) = archive t n"
| "run_op (Candidate t n) = mark_candidate t n"
| "run_op (Verify t n) = verify_skill t n"
| "run_op (Revive t n) = revive t n"
| "run_op (Pin t n) = pin t n"
| "run_op (Unpin n) = unpin n"
| "run_op (Sweep t) = (\<lambda>db. snd (sweep t db))"

lemmas lifecycle_ops = upsert_def touch_def archive_def mark_candidate_def verify_skill_def revive_def pin_def unpin_def

lemma run_op_wf: "dict_wf db \<Longrightarrow> dict_wf (run_op op db)"
  by (cases op) (simp_all add: lifecycle_ops)

definition archived_row :: "py_str \<Rightarrow> lifecycle_db \<Rightarrow> bool" where
  "archived_row n db \<longleftrightarrow> dict_wf db \<and> (\<exists>r. dict_get db n = Some r \<and> lc_state r = ARCHIVED \<and> \<not> pinned r)"

fun brings_back :: "py_str \<Rightarrow> lifecycle_op \<Rightarrow> bool" where
  "brings_back n (Revive t m) = (m = n)"
| "brings_back n (Pin t m) = (m = n)"
| "brings_back n _ = False"

lemma archived_row_step: "archived_row n db \<Longrightarrow> \<not> brings_back n op \<Longrightarrow> archived_row n (run_op op db)"
proof (cases op)
  case (Sweep t)
  moreover assume "archived_row n db"
  ultimately show ?thesis
    by (force simp: archived_row_def sweep_get goes_stale_def simp del: map_of_eq_Some_iff)
qed (auto simp: archived_row_def lifecycle_ops simp del: map_of_eq_Some_iff)

text \<open>
  Archiving is sticky. Once a skill is archived it reads as archived at every later time,
  whatever else happens to it or to other skills, uses and sweeps included, until it is
  explicitly revived or pinned.
\<close>

theorem archive_sticky:
  assumes "dict_wf db" "list_all (\<lambda>op. \<not> brings_back n op) ops"
  shows "state_of later n (fold run_op ops (archive now n db)) = ARCHIVED"
proof -
  have "archived_row n (archive now n db)"
    using assms(1) by (auto simp: archived_row_def archive_def active_row_def split: option.split)
  then have "archived_row n (fold run_op ops (archive now n db))"
    using assms(2) by (induction ops arbitrary: now db rule: rev_induct) (simp_all add: archived_row_step)
  then show ?thesis by (auto simp: archived_row_def state_of_def effective_state_def)
qed

theorem archive_sticky_witness:
  "state_of 99 ''pdf'' (fold run_op [Touch 5 ''pdf'', Sweep 6, Pin 7 ''csv''] (archive 1 ''pdf'' [])) = ARCHIVED"
  by (rule archive_sticky) simp_all

text \<open>
  Sweeping is safe. It never archives a skill and never touches a pinned one, the state
  any reader sees at the sweep time or later is the same before and after it, and a second
  sweep at the same time has nothing left to do.
\<close>

theorem sweep_safe:
  assumes "dict_wf db" "now \<le> later"
  shows "state_of later n (snd (sweep now db)) = state_of later n db \<and>
    (\<forall>r. dict_get db n = Some r \<and> pinned r \<longrightarrow> dict_get (snd (sweep now db)) n = Some r) \<and>
    (\<forall>r'. dict_get (snd (sweep now db)) n = Some r' \<and> lc_state r' = ARCHIVED \<longrightarrow> dict_get db n = Some r') \<and>
    transitions_to_stale (fst (sweep now (snd (sweep now db)))) = []"
proof -
  have wf: "dict_wf (snd (sweep now db))" using assms(1) by simp
  have "\<not> goes_stale now r" if "(m, r) \<in> set (snd (sweep now db))" for m r
  proof -
    from that wf have "dict_get (snd (sweep now db)) m = Some r" by simp
    then obtain r0 where "r = (if goes_stale now r0 then r0\<lparr>lc_state := STALE\<rparr> else r0)"
      by (auto simp: sweep_get [OF assms(1)] simp del: map_of_eq_Some_iff)
    then show ?thesis by (cases "goes_stale now r0") (simp_all add: goes_stale_def)
  qed
  then have "transitions_to_stale (fst (sweep now (snd (sweep now db)))) = []"
    by (auto simp: sweep_def [of now "snd (sweep now db)"] Let_def filter_empty_conv)
  then show ?thesis using assms
    by (auto simp: sweep_get state_of_def effective_state_def goes_stale_def simp del: map_of_eq_Some_iff
        split: option.split if_splits)
qed

theorem sweep_safe_witness:
  "state_of 9000000 ''pdf'' (snd (sweep 8000000 (touch 0 ''pdf'' []))) = state_of 9000000 ''pdf'' (touch 0 ''pdf'' [])"
  by (rule sweep_safe [THEN conjunct1]) (simp_all add: touch_def upsert_row_def)

text \<open>The comment on the archive branch says an archived skill stays so until \<open>revive\<close>; pinning
  it also brings it back into view.\<close>

lemma pin_unarchives: "state_of t n (pin now' n (archive now n db)) = PINNED"
  by (simp add: state_of_def pin_def effective_state_def active_row_def split: option.split)


section \<open>Quality score\<close>

record SkillScore =
  invocations :: nat
  successes :: nat
  failures :: nat
  total_cost :: py_float
  thumbs_up :: nat
  thumbs_down :: nat

definition empty_score :: SkillScore where
  "empty_score = \<lparr>invocations = 0, successes = 0, failures = 0, total_cost = 0, thumbs_up = 0, thumbs_down = 0\<rparr>"

definition success_rate :: "SkillScore \<Rightarrow> py_float" where
  "success_rate s = (if invocations s = 0 then 1 else of_nat (successes s) / of_nat (invocations s))"

definition thumb_factor :: "SkillScore \<Rightarrow> py_float" where
  "thumb_factor s =
     (if thumbs_up s + thumbs_down s = 0 then 1/2
      else ((of_nat (thumbs_up s) - of_nat (thumbs_down s)) / of_nat (thumbs_up s + thumbs_down s) + 1) / 2)"

definition quality_score :: "SkillScore \<Rightarrow> py_float" where
  "quality_score s = max 0 (min 1 (7/10 * success_rate s + 3/10 * thumb_factor s))"

definition DEFAULT_SUGGEST_THRESHOLD :: py_float where
  "DEFAULT_SUGGEST_THRESHOLD = 35/100"

type_synonym score_db = "(py_str, SkillScore) py_dict"

definition add_score :: "SkillScore \<Rightarrow> SkillScore \<Rightarrow> SkillScore" where
  "add_score a b = \<lparr>invocations = invocations a + invocations b, successes = successes a + successes b,
     failures = failures a + failures b, total_cost = total_cost a + total_cost b,
     thumbs_up = thumbs_up a + thumbs_up b, thumbs_down = thumbs_down a + thumbs_down b\<rparr>"

definition score_upsert :: "py_str \<Rightarrow> SkillScore \<Rightarrow> score_db \<Rightarrow> score_db" where
  "score_upsert n delta db = dict_set n (case dict_get db n of None \<Rightarrow> delta | Some s \<Rightarrow> add_score s delta) db"

definition score_get :: "py_str \<Rightarrow> score_db \<Rightarrow> SkillScore" where
  "score_get n db = dict_get_or db n empty_score"

definition should_suggest :: "py_float \<Rightarrow> py_str \<Rightarrow> score_db \<Rightarrow> bool" where
  "should_suggest threshold n db \<longleftrightarrow> threshold \<le> quality_score (score_get n db)"

definition demoted_skills :: "py_float \<Rightarrow> score_db \<Rightarrow> py_str list" where
  "demoted_skills threshold db = filter (\<lambda>n. quality_score (score_get n db) < threshold) (dict_keys db)"

text \<open>Ordered by descending score, ties by name.\<close>

definition all_scores :: "score_db \<Rightarrow> (py_str \<times> py_float \<times> SkillScore) list" where
  "all_scores db =
     sort_key (\<lambda>t. - fst (snd t))
       (map (\<lambda>n. (n, quality_score (score_get n db), score_get n db)) (sort (dict_keys db)))"

lemma add_score_comm: "add_score a b = add_score b a"
  by (simp add: add_score_def)

lemma half_ratio: "(x::real) + y \<noteq> 0 \<Longrightarrow> ((x - y) / (x + y) + 1) / 2 = x / (x + y)"
  by (simp add: field_simps)

lemma thumb_factor_ratio:
  "0 < thumbs_up s + thumbs_down s \<Longrightarrow> thumb_factor s = of_nat (thumbs_up s) / of_nat (thumbs_up s + thumbs_down s)"
proof -
  assume a: "0 < thumbs_up s + thumbs_down s"
  then have "real (thumbs_up s) + real (thumbs_down s) \<noteq> 0" by linarith
  with a show ?thesis by (simp add: thumb_factor_def half_ratio del: add_is_0)
qed

lemma thumb_factor_bounds: "0 \<le> thumb_factor s \<and> thumb_factor s \<le> 1"
proof (cases "thumbs_up s + thumbs_down s = 0")
  case False
  then have "thumb_factor s = of_nat (thumbs_up s) / of_nat (thumbs_up s + thumbs_down s)"
    by (intro thumb_factor_ratio) simp
  moreover have "0 < real (thumbs_up s) + real (thumbs_down s)" using False by linarith
  ultimately show ?thesis by simp
qed (simp add: thumb_factor_def)

lemma success_rate_nonneg: "0 \<le> success_rate s"
  by (simp add: success_rate_def)

lemma ratio_step: "(0::real) \<le> a \<Longrightarrow> a \<le> b \<Longrightarrow> 0 < b \<Longrightarrow> a / b \<le> (a + 1) / (b + 1)"
  by (simp add: divide_le_eq frac_le_eq) (simp add: field_simps)

lemma thumbs_up_step: "thumb_factor s \<le> thumb_factor (s\<lparr>thumbs_up := thumbs_up s + 1\<rparr>)"
proof (cases "thumbs_up s + thumbs_down s = 0")
  case True
  then show ?thesis by (simp add: thumb_factor_def)
next
  case False
  have "of_nat (thumbs_up s) / of_nat (thumbs_up s + thumbs_down s) \<le>
      (of_nat (thumbs_up s) + 1) / (of_nat (thumbs_up s + thumbs_down s) + (1::real))"
    using False by (intro ratio_step) auto
  then show ?thesis using False by (simp add: thumb_factor_ratio algebra_simps)
qed

lemma success_step:
  "successes s \<le> invocations s \<Longrightarrow>
     success_rate s \<le> success_rate (s\<lparr>invocations := invocations s + 1, successes := successes s + 1\<rparr>) \<or> invocations s = 0"
  using ratio_step [of "of_nat (successes s)" "of_nat (invocations s)"]
  by (auto simp: success_rate_def algebra_simps)

text \<open>
  The score is a fair measure in [0, 1]. It never leaves the interval, a thumbs-up or a
  recorded success never lowers it, and without thumbs a skill is demoted from suggestions
  exactly when it was used and fewer than two of seven uses succeeded.
\<close>

theorem quality_score_fair:
  assumes "successes s \<le> invocations s"
  shows "0 \<le> quality_score s \<and> quality_score s \<le> 1 \<and>
    quality_score s \<le> quality_score (add_score s (empty_score\<lparr>thumbs_up := 1\<rparr>)) \<and>
    (0 < invocations s \<longrightarrow> quality_score s \<le> quality_score (add_score s (empty_score\<lparr>invocations := 1, successes := 1\<rparr>))) \<and>
    (thumbs_up s = 0 \<and> thumbs_down s = 0 \<longrightarrow>
       (quality_score s < DEFAULT_SUGGEST_THRESHOLD \<longleftrightarrow> 0 < invocations s \<and> 7 * successes s < 2 * invocations s))"
proof -
  have up: "add_score s (empty_score\<lparr>thumbs_up := 1\<rparr>) = s\<lparr>thumbs_up := thumbs_up s + 1\<rparr>"
    and su: "add_score s (empty_score\<lparr>invocations := 1, successes := 1\<rparr>) = s\<lparr>invocations := invocations s + 1, successes := successes s + 1\<rparr>"
    by (simp_all add: add_score_def empty_score_def)
  have "quality_score s \<le> quality_score (s\<lparr>thumbs_up := thumbs_up s + 1\<rparr>)"
    using thumbs_up_step [of s] by (auto simp: quality_score_def success_rate_def)
  moreover have "quality_score s \<le> quality_score (s\<lparr>invocations := invocations s + 1, successes := successes s + 1\<rparr>)"
    if "0 < invocations s"
    using success_step [OF assms] that by (auto simp: quality_score_def thumb_factor_def)
  moreover have "quality_score s < DEFAULT_SUGGEST_THRESHOLD \<longleftrightarrow> 0 < invocations s \<and> 7 * successes s < 2 * invocations s"
    if "thumbs_up s = 0" "thumbs_down s = 0"
  proof (cases "invocations s = 0")
    case True
    with that show ?thesis by (simp add: quality_score_def thumb_factor_def success_rate_def DEFAULT_SUGGEST_THRESHOLD_def)
  next
    case False
    have "quality_score s < 35/100 \<longleftrightarrow> 7/10 * success_rate s < 2/10"
      using that success_rate_nonneg [of s] by (auto simp: quality_score_def thumb_factor_def min_def split: if_splits)
    also have "\<dots> \<longleftrightarrow> (7 * real (successes s) < 2 * real (invocations s))"
      using False by (simp add: success_rate_def field_simps)
    also have "\<dots> \<longleftrightarrow> 7 * successes s < 2 * invocations s" by linarith
    finally show ?thesis using False by (simp add: DEFAULT_SUGGEST_THRESHOLD_def)
  qed
  moreover have "0 \<le> quality_score s \<and> quality_score s \<le> 1" by (simp add: quality_score_def)
  ultimately show ?thesis unfolding up su by blast
qed

theorem quality_score_fair_witness:
  "quality_score \<lparr>invocations = 10, successes = 2, failures = 8, total_cost = 0, thumbs_up = 0, thumbs_down = 0\<rparr> < DEFAULT_SUGGEST_THRESHOLD"
  using quality_score_fair [of "\<lparr>invocations = 10, successes = 2, failures = 8, total_cost = 0, thumbs_up = 0, thumbs_down = 0\<rparr>"] by simp

text \<open>The docstring promises 1.0 for a skill that was never invoked; it scores 0.85.\<close>

lemma unused_score: "quality_score empty_score = 85/100"
  by (simp add: quality_score_def success_rate_def thumb_factor_def empty_score_def)

end
