(* ===== verification/Skill_Registry.thy ===== *)
theory Skill_Registry
  imports Tool_Layer Skill_Lifecycle Py_Regex
begin

text \<open>
  From a \<open>SKILL.md\<close> on disk to a tool the model may call: the manifest loader and the
  hot-reloading registry (\<open>sera/skills/loader.py\<close>), replay verification
  (\<open>sera/skills/verify.py\<close>) and the A/B harness (\<open>sera/skills/ab.py\<close>). The directory, the
  YAML parser and \<open>str()\<close> of values other than strings are arguments; the clock is read once
  per skill. Reasons given to the user are constructors instead of formatted texts.
\<close>


section \<open>Manifests\<close>

record Skill =
  sk_name :: py_str
  sk_trigger :: py_str
  sk_permission :: py_value
  sk_version :: py_str
  sk_body :: py_str
  sk_path :: py_str
  sk_description :: py_str
  args_schema :: "(py_str, py_value) py_dict option"
  lineage :: "py_str list"
  sk_council :: bool

datatype skill_error =
    MissingFrontmatter py_str
  | YamlRaised py_exc
  | NotAMapping py_str
  | MissingFields py_str "py_str list"
  | BadLineage py_str
  | BadSchema py_str
  | BadPermission tool_error

definition REQUIRED_FIELDS :: "py_str list" where
  "REQUIRED_FIELDS = [''name'', ''trigger'', ''permission'', ''version'']"

definition dashes :: re where
  "dashes = Lits ''---''"

abbreviation newline :: re where
  "newline \<equiv> Lit (CHR 0x0A)"

definition FRONTMATTER_RE :: re where
  "FRONTMATTER_RE =
     Seqs [Bol, dashes, Star (Ch [Space]), newline, Grp (LazyStar Dot), newline, dashes, Star (Ch [Space]), Opt newline]"

definition flag_s :: re_flags where
  "flag_s = \<lparr>ignorecase = False, multiline = False, dotall = True\<rparr>"

text \<open>\<open>str(v)\<close>.\<close>

fun py_text :: "(py_value \<Rightarrow> py_str) \<Rightarrow> py_value \<Rightarrow> py_str" where
  "py_text render (PyStr s) = s"
| "py_text render PyNone = ''None''"
| "py_text render (PyBool b) = (if b then ''True'' else ''False'')"
| "py_text render v = render v"

definition meta_get :: "(py_str, py_value) py_dict \<Rightarrow> py_str \<Rightarrow> py_value" where
  "meta_get meta k = dict_get_or meta k PyNone"

definition missing_fields :: "(py_str, py_value) py_dict \<Rightarrow> py_str list" where
  "missing_fields meta = filter (\<lambda>f. \<not> py_truth (meta_get meta f)) REQUIRED_FIELDS"

fun parse_lineage :: "(py_value \<Rightarrow> py_str) \<Rightarrow> py_value \<Rightarrow> py_str list option" where
  "parse_lineage render PyNone = Some []"
| "parse_lineage render (PyStr s) = Some [s]"
| "parse_lineage render (PyList vs) = Some (map (py_text render) vs)"
| "parse_lineage render _ = None"

fun parse_schema :: "py_value \<Rightarrow> (py_str, py_value) py_dict option option" where
  "parse_schema PyNone = Some None"
| "parse_schema (PyDict kvs) = Some (Some kvs)"
| "parse_schema _ = None"

definition skill_of_meta ::
  "(py_value \<Rightarrow> py_str) \<Rightarrow> py_str \<Rightarrow> py_str \<Rightarrow> (py_str, py_value) py_dict \<Rightarrow> (skill_error, Skill) py_result"
where
  "skill_of_meta render path body meta =
     (if missing_fields meta \<noteq> [] then Inl (MissingFields path (missing_fields meta))
      else case parse_lineage render (meta_get meta ''lineage'') of
        None \<Rightarrow> Inl (BadLineage path)
      | Some lin \<Rightarrow>
          (case parse_schema (meta_get meta ''args_schema'') of
             None \<Rightarrow> Inl (BadSchema path)
           | Some schema \<Rightarrow>
               Inr \<lparr>sk_name = py_text render (meta_get meta ''name''),
                    sk_trigger = py_text render (meta_get meta ''trigger''),
                    sk_permission = meta_get meta ''permission'',
                    sk_version = py_text render (meta_get meta ''version''),
                    sk_body = body, sk_path = path,
                    sk_description = (let d = meta_get meta ''description''
                                      in if py_truth d then py_text render d else []),
                    args_schema = schema, lineage = lin,
                    sk_council = py_truth (meta_get meta ''council'')\<rparr>))"

definition load_skill ::
  "(py_str \<Rightarrow> (py_exc, py_value) py_result) \<Rightarrow> (py_value \<Rightarrow> py_str) \<Rightarrow> py_str \<Rightarrow> py_str \<Rightarrow> (skill_error, Skill) py_result"
where
  "load_skill yaml render path text =
     (case match_at flag_s FRONTMATTER_RE text 0 of
        None \<Rightarrow> Inl (MissingFrontmatter path)
      | Some (end_pos, grp) \<Rightarrow>
          (case yaml (case grp of None \<Rightarrow> [] | Some (a, b) \<Rightarrow> take (b - a) (drop a text)) of
             Inl e \<Rightarrow> Inl (YamlRaised e)
           | Inr v \<Rightarrow>
               (case (if py_truth v then v else PyDict []) of
                  PyDict meta \<Rightarrow> skill_of_meta render path (str_strip (drop end_pos text)) meta
                | _ \<Rightarrow> Inl (NotAMapping path))))"

definition SKILL_TOOL_PREFIX :: py_str where
  "SKILL_TOOL_PREFIX = ''skill.''"

definition skill_tool_name :: "py_str \<Rightarrow> py_str" where
  "skill_tool_name n = SKILL_TOOL_PREFIX @ n"

fun permission_spec :: "(py_value \<Rightarrow> py_str) \<Rightarrow> py_value \<Rightarrow> perm_spec" where
  "permission_spec render (PyInt i) = IntValue i"
| "permission_spec render (PyBool b) = IntValue (if b then 1 else 0)"
| "permission_spec render v = NameText (py_text render v)"

definition skill_to_tool :: "(py_value \<Rightarrow> py_str) \<Rightarrow> Skill \<Rightarrow> (skill_error, Tool) py_result" where
  "skill_to_tool render sk =
     (case parse_permission (permission_spec render (sk_permission sk)) of
        Inl e \<Rightarrow> Inl (BadPermission e)
      | Inr p \<Rightarrow>
          Inr \<lparr>tool_name = skill_tool_name (sk_name sk),
               description =
                 (if sk_description sk \<noteq> [] then sk_description sk
                  else case str_find (sk_body sk) [CHR 0x0A, CHR 0x0A] of
                         None \<Rightarrow> sk_body sk | Some i \<Rightarrow> take i (sk_body sk)),
               parameters =
                 (case args_schema sk of
                    Some (kv # kvs) \<Rightarrow> PyDict (kv # kvs)
                  | _ \<Rightarrow> PyDict [(''type'', PyStr ''object''), (''properties'', PyDict [])]),
               tool_permission = p, tool_scope = SKILL,
               handler = (\<lambda>args ctx. Inr (sk_body sk))\<rparr>)"

lemma skill_tool_name_inj [simp]: "skill_tool_name m = skill_tool_name n \<longleftrightarrow> m = n"
  by (simp add: skill_tool_name_def)

lemma skill_to_tool_name: "skill_to_tool render sk = Inr t \<Longrightarrow> tool_name t = skill_tool_name (sk_name sk)"
  by (auto simp: skill_to_tool_def split: sum.splits)


section \<open>Discovery\<close>

text \<open>A child of the skills root: its name and, if it is a directory with a \<open>SKILL.md\<close>,
  that file's text and modification time.\<close>

record manifest_file =
  mf_text :: py_str
  mf_mtime :: py_float

type_synonym skills_dir = "(py_str \<times> manifest_file option) list"

definition manifest_path :: "py_str \<Rightarrow> py_str" where
  "manifest_path child = child @ ''/SKILL.md''"

fun load_children ::
  "(py_str \<Rightarrow> (py_exc, py_value) py_result) \<Rightarrow> (py_value \<Rightarrow> py_str) \<Rightarrow> skills_dir \<Rightarrow>
     (skill_error, (Skill \<times> py_float) list) py_result"
where
  "load_children yaml render [] = Inr []"
| "load_children yaml render ((n, None) # cs) = load_children yaml render cs"
| "load_children yaml render ((n, Some f) # cs) =
     rbind (load_skill yaml render (manifest_path n) (mf_text f)) (\<lambda>sk.
     rbind (load_children yaml render cs) (\<lambda>sks. Inr ((sk, mf_mtime f) # sks)))"

definition discover_skills ::
  "(py_str \<Rightarrow> (py_exc, py_value) py_result) \<Rightarrow> (py_value \<Rightarrow> py_str) \<Rightarrow> skills_dir option \<Rightarrow>
     (skill_error, (Skill \<times> py_float) list) py_result"
where
  "discover_skills yaml render dir =
     (case dir of None \<Rightarrow> Inr [] | Some cs \<Rightarrow> load_children yaml render (sort_key fst cs))"


section \<open>The hot-reloading registry\<close>

record skill_registry =
  tracked :: "(py_str, py_str \<times> py_float) py_dict"
  tool_registry :: registry
  lifecycle :: "lifecycle_db option"

record RefreshSummary =
  added :: "py_str list"
  removed :: "py_str list"
  updated :: "py_str list"

definition is_archived :: "py_float \<Rightarrow> py_str \<Rightarrow> skill_registry \<Rightarrow> bool" where
  "is_archived now n reg =
     (case lifecycle reg of None \<Rightarrow> False | Some db \<Rightarrow> state_of now n db = ARCHIVED)"

definition runtime_eligible :: "py_float \<Rightarrow> py_str \<Rightarrow> skill_registry \<Rightarrow> bool" where
  "runtime_eligible now n reg =
     (case lifecycle reg of
        None \<Rightarrow> True
      | Some db \<Rightarrow>
          if is_archived now n reg then False
          else if is_verified n db then True
          else (case dict_get db n of None \<Rightarrow> False | Some row \<Rightarrow> pinned row))"

definition install_tool :: "py_float \<Rightarrow> py_float \<Rightarrow> Skill \<Rightarrow> Tool \<Rightarrow> skill_registry \<Rightarrow> skill_registry" where
  "install_tool now mtime sk t reg =
     reg\<lparr>tracked := dict_set (sk_name sk) (tool_name t, mtime) (tracked reg),
         tool_registry := register t (tool_registry reg),
         lifecycle := map_option (touch now (sk_name sk)) (lifecycle reg)\<rparr>"

record refresh_run =
  run_reg :: skill_registry
  run_added :: "py_str list"
  run_updated :: "py_str list"
  seen_live :: "py_str list"

text \<open>One turn of the scan: the exception of a bad permission leaves what was done in place.\<close>

definition refresh_one ::
  "(py_value \<Rightarrow> py_str) \<Rightarrow> (py_str \<Rightarrow> py_float) \<Rightarrow> Skill \<times> py_float \<Rightarrow> refresh_run \<Rightarrow> skill_error option \<times> refresh_run"
where
  "refresh_one render clock = (\<lambda>(sk, mtime) run.
     (let n = sk_name sk in
      if \<not> runtime_eligible (clock (sk_path sk)) n (run_reg run) then (None, run)
      else let run1 = run\<lparr>seen_live := n # seen_live run\<rparr> in
        case dict_get (tracked (run_reg run)) n of
          None \<Rightarrow>
            (case skill_to_tool render sk of
               Inl e \<Rightarrow> (Some e, run1)
             | Inr t \<Rightarrow> (None, run1\<lparr>run_reg := install_tool (clock (sk_path sk)) mtime sk t (run_reg run),
                                    run_added := run_added run @ [n]\<rparr>))
        | Some (tn, last_mtime) \<Rightarrow>
            if mtime \<noteq> last_mtime then
              (case skill_to_tool render sk of
                 Inl e \<Rightarrow> (Some e, run1)
               | Inr t \<Rightarrow> (None, run1\<lparr>run_reg := install_tool (clock (sk_path sk)) mtime sk t (run_reg run),
                                      run_updated := run_updated run @ [n]\<rparr>))
            else (None, run1)))"

fun refresh_scan ::
  "(py_value \<Rightarrow> py_str) \<Rightarrow> (py_str \<Rightarrow> py_float) \<Rightarrow> (Skill \<times> py_float) list \<Rightarrow> refresh_run \<Rightarrow> skill_error option \<times> refresh_run"
where
  "refresh_scan render clock [] run = (None, run)"
| "refresh_scan render clock (s # ss) run =
     (case refresh_one render clock s run of
        (Some e, run') \<Rightarrow> (Some e, run')
      | (None, run') \<Rightarrow> refresh_scan render clock ss run')"

definition drop_tracked :: "py_str \<Rightarrow> skill_registry \<Rightarrow> skill_registry" where
  "drop_tracked n reg =
     (case dict_get (tracked reg) n of
        None \<Rightarrow> reg
      | Some (tn, m) \<Rightarrow>
          reg\<lparr>tracked := dict_del n (tracked reg),
              tool_registry := snd (unregister tn (tool_registry reg))\<rparr>)"

definition refresh ::
  "(py_str \<Rightarrow> (py_exc, py_value) py_result) \<Rightarrow> (py_value \<Rightarrow> py_str) \<Rightarrow> (py_str \<Rightarrow> py_float) \<Rightarrow> skills_dir option \<Rightarrow>
     skill_registry \<Rightarrow> (skill_error, RefreshSummary) py_result \<times> skill_registry"
where
  "refresh yaml render clock dir reg =
     (case discover_skills yaml render dir of
        Inl e \<Rightarrow> (Inl e, reg)
      | Inr skills \<Rightarrow>
          (case refresh_scan render clock skills
                  \<lparr>run_reg = reg, run_added = [], run_updated = [], seen_live = []\<rparr> of
             (Some e, run) \<Rightarrow> (Inl e, run_reg run)
           | (None, run) \<Rightarrow>
               (let gone = filter (\<lambda>n. n \<notin> set (seen_live run)) (dict_keys (tracked (run_reg run)))
                in (Inr \<lparr>added = run_added run, removed = gone, updated = run_updated run\<rparr>,
                    fold drop_tracked gone (run_reg run)))))"

definition registry_tools :: "Tool list \<Rightarrow> skill_registry \<Rightarrow> Tool list" where
  "registry_tools builtins reg =
     List.map_filter (\<lambda>(n, tn, m). fst (get_tool builtins tn (tool_registry reg))) (tracked reg)"

definition clear_registry :: "skill_registry \<Rightarrow> skill_registry" where
  "clear_registry reg =
     reg\<lparr>tracked := [],
         tool_registry := fold (\<lambda>(n, tn, m) r. snd (unregister tn r)) (tracked reg) (tool_registry reg)\<rparr>"



section \<open>What the model can call\<close>

text \<open>Eligibility does not depend on the clock, and a use does not change it.\<close>

definition exposable :: "py_str \<Rightarrow> lifecycle_db option \<Rightarrow> bool" where
  "exposable n lc =
     (case lc of None \<Rightarrow> True
      | Some db \<Rightarrow> (case dict_get db n of
            None \<Rightarrow> True | Some r \<Rightarrow> pinned r \<or> (lc_state r \<noteq> ARCHIVED \<and> verified r)))"

lemma runtime_eligible_iff: "runtime_eligible now n reg = exposable n (lifecycle reg)"
  by (auto simp: runtime_eligible_def is_archived_def exposable_def state_of_def effective_state_def
      is_verified_def split: option.split)

lemma exposable_touch [simp]: "exposable n (map_option (touch now m) lc) = exposable n lc"
  by (auto simp: exposable_def touch_def active_row_def split: option.split)

lemma install_tool_simps [simp]:
  "lifecycle (install_tool now m sk t reg) = map_option (touch now (sk_name sk)) (lifecycle reg)"
  "tracked (install_tool now m sk t reg) = dict_set (sk_name sk) (tool_name t, m) (tracked reg)"
  "tool_registry (install_tool now m sk t reg) = register t (tool_registry reg)"
  by (simp_all add: install_tool_def)

abbreviation tool_at :: "skill_registry \<Rightarrow> py_str \<Rightarrow> Tool option" where
  "tool_at reg x \<equiv> dict_get (reg_tools (tool_registry reg)) x"

text \<open>
  A registry is in sync with a history of manifests (\<open>version n m\<close> is the skill named \<open>n\<close> as of
  modification time \<open>m\<close>) when every tracked skill is registered as the tool of its version.
\<close>

definition in_sync :: "(py_value \<Rightarrow> py_str) \<Rightarrow> (py_str \<Rightarrow> py_float \<Rightarrow> Skill) \<Rightarrow> skill_registry \<Rightarrow> bool" where
  "in_sync render version reg \<longleftrightarrow> dict_wf (tracked reg) \<and>
     (\<forall>n tn m. dict_get (tracked reg) n = Some (tn, m) \<longrightarrow>
        tn = skill_tool_name n \<and> sk_name (version n m) = n \<and>
        (\<exists>t. skill_to_tool render (version n m) = Inr t \<and> tool_at reg tn = Some t))"

lemma in_syncD:
  assumes "in_sync render version reg" "dict_get (tracked reg) n = Some (tn, m)"
  shows "tn = skill_tool_name n" "\<exists>t. skill_to_tool render (version n m) = Inr t \<and> tool_at reg (skill_tool_name n) = Some t"
  using assms by (auto simp: in_sync_def)

lemma refresh_one_ineligible:
  "\<not> exposable (sk_name sk) (lifecycle (run_reg run)) \<Longrightarrow> refresh_one render clock (sk, m) run = (None, run)"
  by (simp add: refresh_one_def runtime_eligible_iff)

text \<open>The effect of a turn of the scan on a live skill.\<close>

definition made_live ::
  "(py_value \<Rightarrow> py_str) \<Rightarrow> Skill \<Rightarrow> py_float \<Rightarrow> skill_registry \<Rightarrow> skill_registry \<Rightarrow> bool"
where
  "made_live render sk m reg reg' \<longleftrightarrow>
     (\<exists>t. skill_to_tool render sk = Inr t \<and>
        (\<forall>x. tool_at reg' x = (if x = skill_tool_name (sk_name sk) then Some t else tool_at reg x))) \<and>
     (\<forall>k. dict_get (tracked reg') k = (if k = sk_name sk then Some (skill_tool_name k, m) else dict_get (tracked reg) k)) \<and>
     dict_wf (tracked reg') \<and>
     (\<forall>n. exposable n (lifecycle reg') = exposable n (lifecycle reg))"

lemma made_live_install:
  "dict_wf (tracked reg) \<Longrightarrow> skill_to_tool render sk = Inr t \<Longrightarrow> made_live render sk m reg (install_tool now m sk t reg)"
  by (simp add: made_live_def skill_to_tool_name)

lemma made_live_same:
  assumes "in_sync render version reg" "dict_get (tracked reg) (sk_name sk) = Some (tn, m)" "version (sk_name sk) m = sk"
  shows "made_live render sk m reg reg"
proof -
  from in_syncD [OF assms(1,2)] assms(3)
  obtain t where "tn = skill_tool_name (sk_name sk)" "skill_to_tool render sk = Inr t"
    "tool_at reg (skill_tool_name (sk_name sk)) = Some t"
    by auto
  moreover have "dict_wf (tracked reg)" using assms(1) by (simp add: in_sync_def)
  ultimately show ?thesis using assms(2) by (simp add: made_live_def del: map_of_eq_Some_iff)
qed

lemma refresh_one_eligible:
  assumes "refresh_one render clock (sk, m) run = (None, run')" "exposable (sk_name sk) (lifecycle (run_reg run))"
    and sync: "in_sync render version (run_reg run)" and v: "version (sk_name sk) m = sk"
  shows "made_live render sk m (run_reg run) (run_reg run') \<and> seen_live run' = sk_name sk # seen_live run"
proof -
  have wf: "dict_wf (tracked (run_reg run))" using sync by (simp add: in_sync_def)
  show ?thesis
  proof (cases "dict_get (tracked (run_reg run)) (sk_name sk)")
    case None
    with assms(1,2) wf show ?thesis
      by (auto simp: refresh_one_def runtime_eligible_iff Let_def made_live_install split: sum.splits)
  next
    case (Some e)
    then obtain tn last_mtime where e: "dict_get (tracked (run_reg run)) (sk_name sk) = Some (tn, last_mtime)"
      by (cases e) simp
    show ?thesis
    proof (cases "m = last_mtime")
      case True
      with made_live_same [OF sync _ v] e assms(1,2) show ?thesis
        by (auto simp: refresh_one_def runtime_eligible_iff Let_def)
    next
      case False
      with e assms(1,2) wf show ?thesis
        by (auto simp: refresh_one_def runtime_eligible_iff Let_def made_live_install split: sum.splits)
    qed
  qed
qed

lemma made_live_sync:
  assumes "made_live render sk m reg reg'" "in_sync render version reg" "version (sk_name sk) m = sk"
  shows "in_sync render version reg'"
  unfolding in_sync_def
proof (intro conjI allI impI)
  show "dict_wf (tracked reg')" using assms(1) by (simp add: made_live_def)
  fix n tn m' assume a: "dict_get (tracked reg') n = Some (tn, m')"
  have old: "tn = skill_tool_name n \<and> sk_name (version n m') = n \<and>
      (\<exists>t. skill_to_tool render (version n m') = Inr t \<and> tool_at reg tn = Some t)" if "n \<noteq> sk_name sk"
    using assms(1,2) a that by (simp add: made_live_def in_sync_def)
  show "tn = skill_tool_name n" "sk_name (version n m') = n"
    "\<exists>t. skill_to_tool render (version n m') = Inr t \<and> tool_at reg' tn = Some t"
    using old assms(1,3) a by (cases "n = sk_name sk"; force simp: made_live_def)+
qed

text \<open>The manifests on disk by name, the whole scan, and the removal of what was not seen.\<close>

definition on_disk :: "(Skill \<times> py_float) list \<Rightarrow> py_str \<Rightarrow> (Skill \<times> py_float) option" where
  "on_disk skills n = dict_get (map (\<lambda>(sk, m). (sk_name sk, sk, m)) skills) n"

abbreviation disk_names :: "(Skill \<times> py_float) list \<Rightarrow> py_str list" where
  "disk_names skills \<equiv> map (\<lambda>(sk, m). sk_name sk) skills"

lemma on_disk_simps [simp]:
  "on_disk [] n = None"
  "on_disk ((sk, m) # skills) n = (if n = sk_name sk then Some (sk, m) else on_disk skills n)"
  by (simp_all add: on_disk_def)

lemma on_disk_fresh: "n \<notin> set (disk_names skills) \<Longrightarrow> on_disk skills n = None"
  by (induction skills) auto

lemma on_disk_mem: "on_disk skills n = Some (sk, m) \<Longrightarrow> (sk, m) \<in> set skills \<and> sk_name sk = n"
  by (induction skills) (auto split: if_splits)

lemma on_disk_in: "(sk, m) \<in> set skills \<Longrightarrow> distinct (disk_names skills) \<Longrightarrow> on_disk skills (sk_name sk) = Some (sk, m)"
proof (induction skills)
  case (Cons s skills)
  show ?case
  proof (cases "(sk, m) = s")
    case False
    then have "(sk, m) \<in> set skills" using Cons.prems(1) by simp
    then have "sk_name sk \<in> set (disk_names skills)" by force
    with False Cons show ?thesis by (cases s) auto
  qed (use Cons.prems in auto)
qed simp

definition live_on_disk :: "(Skill \<times> py_float) list \<Rightarrow> lifecycle_db option \<Rightarrow> py_str \<Rightarrow> bool" where
  "live_on_disk skills lc n \<longleftrightarrow> on_disk skills n \<noteq> None \<and> exposable n lc"

definition consistent :: "(py_str \<Rightarrow> py_float \<Rightarrow> Skill) \<Rightarrow> (Skill \<times> py_float) list \<Rightarrow> bool" where
  "consistent version skills \<longleftrightarrow> list_all (\<lambda>(sk, m). version (sk_name sk) m = sk) skills"

lemma refresh_scan_ok:
  assumes "refresh_scan render clock skills run = (None, run')" "in_sync render version (run_reg run)"
    "consistent version skills" "distinct (disk_names skills)"
  shows "in_sync render version (run_reg run') \<and>
    (\<forall>n. exposable n (lifecycle (run_reg run')) = exposable n (lifecycle (run_reg run))) \<and>
    set (seen_live run') = set (seen_live run) \<union> {n. live_on_disk skills (lifecycle (run_reg run)) n} \<and>
    (\<forall>n. dict_get (tracked (run_reg run')) n =
       (if live_on_disk skills (lifecycle (run_reg run)) n
        then Some (skill_tool_name n, snd (the (on_disk skills n))) else dict_get (tracked (run_reg run)) n)) \<and>
    (\<forall>n. \<not> live_on_disk skills (lifecycle (run_reg run)) n \<longrightarrow>
       tool_at (run_reg run') (skill_tool_name n) = tool_at (run_reg run) (skill_tool_name n))"
  using assms
proof (induction skills arbitrary: run)
  case Nil
  then show ?case by (simp add: live_on_disk_def)
next
  case (Cons s skills)
  obtain sk m where s: "s = (sk, m)" by (cases s)
  obtain run1 where one: "refresh_one render clock (sk, m) run = (None, run1)"
    and rest: "refresh_scan render clock skills run1 = (None, run')"
    using Cons.prems(1) s by (auto split: prod.splits option.splits)
  have v: "version (sk_name sk) m = sk" and vs: "consistent version skills" and d: "distinct (disk_names skills)"
    and fresh: "on_disk skills (sk_name sk) = None"
    using Cons.prems(3,4) s by (auto simp: consistent_def intro: on_disk_fresh)
  show ?case
  proof (cases "exposable (sk_name sk) (lifecycle (run_reg run))")
    case False
    then have r1: "run1 = run" using one refresh_one_ineligible by simp
    have "live_on_disk (s # skills) (lifecycle (run_reg run)) n = live_on_disk skills (lifecycle (run_reg run)) n" for n
      using False fresh s by (auto simp: live_on_disk_def)
    moreover have "live_on_disk skills (lifecycle (run_reg run)) n \<Longrightarrow> on_disk (s # skills) n = on_disk skills n" for n
      using False s by (auto simp: live_on_disk_def)
    ultimately show ?thesis using Cons.IH [OF rest] Cons.prems(2) vs d r1 by simp
  next
    case True
    have made: "made_live render sk m (run_reg run) (run_reg run1)" and seen: "seen_live run1 = sk_name sk # seen_live run"
      using refresh_one_eligible [OF one True Cons.prems(2) v] by simp_all
    have lc: "exposable n (lifecycle (run_reg run1)) = exposable n (lifecycle (run_reg run))" for n
      using made by (simp add: made_live_def)
    have live: "live_on_disk (s # skills) (lifecycle (run_reg run)) n \<longleftrightarrow>
        n = sk_name sk \<or> live_on_disk skills (lifecycle (run_reg run1)) n" for n
      using True lc s by (auto simp: live_on_disk_def)
    have not_sk: "\<not> live_on_disk skills (lifecycle (run_reg run1)) (sk_name sk)"
      using fresh by (simp add: live_on_disk_def)
    have tr: "dict_get (tracked (run_reg run1)) n =
        (if n = sk_name sk then Some (skill_tool_name n, m) else dict_get (tracked (run_reg run)) n)" for n
      using made unfolding made_live_def by metis
    have ta: "n \<noteq> sk_name sk \<Longrightarrow> tool_at (run_reg run1) (skill_tool_name n) = tool_at (run_reg run) (skill_tool_name n)" for n
      using made by (auto simp: made_live_def)
    note ih = Cons.IH [OF rest made_live_sync [OF made Cons.prems(2) v] vs d]
    show ?thesis
    proof (intro conjI allI impI)
      show "in_sync render version (run_reg run')" using ih by blast
      show "set (seen_live run') = set (seen_live run) \<union> {n. live_on_disk (s # skills) (lifecycle (run_reg run)) n}"
        using ih seen live by auto
      fix n
      show "exposable n (lifecycle (run_reg run')) = exposable n (lifecycle (run_reg run))" using ih lc by simp
      show "dict_get (tracked (run_reg run')) n =
       (if live_on_disk (s # skills) (lifecycle (run_reg run)) n
        then Some (skill_tool_name n, snd (the (on_disk (s # skills) n))) else dict_get (tracked (run_reg run)) n)"
        using ih tr [of n] live [of n] not_sk s by (cases "n = sk_name sk") (simp_all del: map_of_eq_Some_iff)
      assume "\<not> live_on_disk (s # skills) (lifecycle (run_reg run)) n"
      then show "tool_at (run_reg run') (skill_tool_name n) = tool_at (run_reg run) (skill_tool_name n)"
        using ih live [of n] ta [of n] by auto
    qed
  qed
qed

text \<open>Dropping the names that were not seen.\<close>

lemma drop_tracked_ok:
  assumes "in_sync render version reg"
  shows "in_sync render version (drop_tracked k reg) \<and> lifecycle (drop_tracked k reg) = lifecycle reg \<and>
    dict_get (tracked (drop_tracked k reg)) n = (if n = k then None else dict_get (tracked reg) n) \<and>
    tool_at (drop_tracked k reg) (skill_tool_name n) =
      (if n = k \<and> dict_get (tracked reg) n \<noteq> None then None else tool_at reg (skill_tool_name n))"
proof (cases "dict_get (tracked reg) k")
  case None
  then show ?thesis using assms by (simp add: drop_tracked_def)
next
  case (Some e)
  then obtain m where e: "dict_get (tracked reg) k = Some (skill_tool_name k, m)"
    using in_syncD(1) [OF assms] by (cases e) auto
  then have f: "tracked (drop_tracked k reg) = dict_del k (tracked reg)" "lifecycle (drop_tracked k reg) = lifecycle reg"
    "tool_at (drop_tracked k reg) x = (if x = skill_tool_name k then None else tool_at reg x)" for x
    by (simp_all add: drop_tracked_def unregister_def)
  have "in_sync render version (drop_tracked k reg)"
    unfolding in_sync_def
  proof (intro conjI allI impI)
    show "dict_wf (tracked (drop_tracked k reg))" using assms by (simp add: f in_sync_def)
    fix n tn m assume "dict_get (tracked (drop_tracked k reg)) n = Some (tn, m)"
    then have n: "n \<noteq> k" "dict_get (tracked reg) n = Some (tn, m)" by (simp_all add: f split: if_splits)
    have "tn = skill_tool_name n \<and> sk_name (version n m) = n \<and>
        (\<exists>t. skill_to_tool render (version n m) = Inr t \<and> tool_at reg tn = Some t)"
      using assms n(2) unfolding in_sync_def by blast
    then show "tn = skill_tool_name n" "sk_name (version n m) = n"
      "\<exists>t. skill_to_tool render (version n m) = Inr t \<and> tool_at (drop_tracked k reg) tn = Some t"
      using n(1) by (auto simp: f)
  qed
  with f e show ?thesis by (cases "n = k") (simp_all del: map_of_eq_Some_iff)
qed

lemma drop_all_ok:
  assumes "in_sync render version reg"
  shows "in_sync render version (fold drop_tracked ks reg) \<and> lifecycle (fold drop_tracked ks reg) = lifecycle reg \<and>
    dict_get (tracked (fold drop_tracked ks reg)) n = (if n \<in> set ks then None else dict_get (tracked reg) n) \<and>
    tool_at (fold drop_tracked ks reg) (skill_tool_name n) =
      (if n \<in> set ks \<and> dict_get (tracked reg) n \<noteq> None then None else tool_at reg (skill_tool_name n))"
  using assms
proof (induction ks arbitrary: reg)
  case (Cons k ks)
  note one = drop_tracked_ok [OF Cons.prems]
  then have "in_sync render version (drop_tracked k reg)" by blast
  from Cons.IH [OF this] one [of k n] show ?case
    by (cases "n = k"; cases "n \<in> set ks"; cases "dict_get (tracked reg) n") (simp_all del: map_of_eq_Some_iff)
qed simp

lemma refresh_facts:
  assumes "discover_skills yaml render dir = Inr skills"
    and "refresh yaml render clock dir reg = (Inr summary, reg')"
    and "in_sync render version reg" "consistent version skills" "distinct (disk_names skills)"
  shows "in_sync render version reg' \<and> exposable n (lifecycle reg') = exposable n (lifecycle reg) \<and>
    dict_get (tracked reg') n =
      (if live_on_disk skills (lifecycle reg) n
       then Some (skill_tool_name n, snd (the (on_disk skills n))) else None) \<and>
    (if live_on_disk skills (lifecycle reg) n
     then \<exists>t. skill_to_tool render (fst (the (on_disk skills n))) = Inr t \<and> tool_at reg' (skill_tool_name n) = Some t
     else tool_at reg' (skill_tool_name n) =
       (if dict_get (tracked reg) n = None then tool_at reg (skill_tool_name n) else None))"
proof -
  let ?run = "\<lparr>run_reg = reg, run_added = [], run_updated = [], seen_live = []\<rparr>"
  obtain run where scan: "refresh_scan render clock skills ?run = (None, run)"
    and reg': "reg' = fold drop_tracked (filter (\<lambda>n. n \<notin> set (seen_live run)) (dict_keys (tracked (run_reg run)))) (run_reg run)"
    using assms(1,2) by (auto simp: refresh_def Let_def split: prod.splits option.splits)
  have sync: "in_sync render version (run_reg ?run)" using assms(3) by simp
  note ok = refresh_scan_ok [OF scan sync assms(4,5)]
  let ?ks = "filter (\<lambda>n. n \<notin> set (seen_live run)) (dict_keys (tracked (run_reg run)))"
  have sync': "in_sync render version (run_reg run)" using ok by blast
  note drop = drop_all_ok [OF sync', of ?ks n]
  have gone: "n \<in> set ?ks \<longleftrightarrow> \<not> live_on_disk skills (lifecycle reg) n \<and> dict_get (tracked reg) n \<noteq> None"
  proof -
    have "n \<in> set (dict_keys (tracked (run_reg run))) \<longleftrightarrow> dict_get (tracked (run_reg run)) n \<noteq> None"
      by (simp add: dom_map_of_conv_image_fst [symmetric] domIff)
    then show ?thesis using ok by (auto simp del: map_of_eq_Some_iff)
  qed
  have tr: "dict_get (tracked reg') n = (if live_on_disk skills (lifecycle reg) n
      then Some (skill_tool_name n, snd (the (on_disk skills n))) else None)"
    using drop gone ok unfolding reg' by (auto simp del: map_of_eq_Some_iff)
  have sync2: "in_sync render version reg'" using drop unfolding reg' by blast
  have lc: "exposable n (lifecycle reg') = exposable n (lifecycle reg)" using drop ok unfolding reg' by simp
  show ?thesis
  proof (cases "live_on_disk skills (lifecycle reg) n")
    case True
    then obtain sk m where d: "on_disk skills n = Some (sk, m)" by (auto simp: live_on_disk_def)
    then have v: "version n m = sk"
      using on_disk_mem [OF d] assms(4) by (auto simp: consistent_def list_all_iff)
    from tr True d have "dict_get (tracked reg') n = Some (skill_tool_name n, m)" by simp
    from in_syncD(2) [OF sync2 this] v d True tr sync2 lc show ?thesis by simp
  next
    case False
    then have "tool_at reg' (skill_tool_name n) =
       (if dict_get (tracked reg) n = None then tool_at reg (skill_tool_name n) else None)"
      using drop gone ok unfolding reg' by (auto simp del: map_of_eq_Some_iff)
    with False tr sync2 lc show ?thesis by simp
  qed
qed


definition demo_text :: py_str where
  "demo_text = concat [''---'', [CHR 0x0A], ''name: pdf'', [CHR 0x0A], ''---'', [CHR 0x0A], ''Use it.'']"

definition demo_yaml :: "py_str \<Rightarrow> (py_exc, py_value) py_result" where
  "demo_yaml s = Inr (PyDict [(''name'', PyStr ''pdf''), (''trigger'', PyStr ''pdf''),
     (''permission'', PyStr ''read_only''), (''version'', PyStr ''1'')])"

definition demo_skill :: Skill where
  "demo_skill = \<lparr>sk_name = ''pdf'', sk_trigger = ''pdf'', sk_permission = PyStr ''read_only'', sk_version = ''1'',
     sk_body = ''Use it.'', sk_path = ''pdf/SKILL.md'', sk_description = [], args_schema = None, lineage = [],
     sk_council = False\<rparr>"

definition demo_dir :: "skills_dir option" where
  "demo_dir = Some [(''pdf'', Some \<lparr>mf_text = demo_text, mf_mtime = 1\<rparr>)]"

definition demo_registry :: skill_registry where
  "demo_registry = \<lparr>tracked = [], tool_registry = empty_registry, lifecycle = Some []\<rparr>"

lemma demo_match: "match_at flag_s FRONTMATTER_RE demo_text 0 = Some (18, Some (4, 13))"
  by code_simp

lemma demo_body: "str_strip (drop 18 demo_text) = ''Use it.''"
  by code_simp

lemma demo_loads: "load_skill demo_yaml (\<lambda>v. []) (manifest_path ''pdf'') demo_text = Inr demo_skill"
  by (simp add: load_skill_def demo_match demo_body demo_yaml_def skill_of_meta_def missing_fields_def
      REQUIRED_FIELDS_def meta_get_def dict_get_or_def demo_skill_def manifest_path_def)

lemma demo_discover: "discover_skills demo_yaml (\<lambda>v. []) demo_dir = Inr [(demo_skill, 1)]"
  by (simp add: discover_skills_def demo_dir_def demo_loads)

lemma demo_tool: "\<exists>t. skill_to_tool (\<lambda>v. []) demo_skill = Inr t"
proof -
  have "parse_permission (NameText ''read_only'') = Inr READ_ONLY" by code_simp
  then show ?thesis by (simp add: skill_to_tool_def demo_skill_def)
qed

lemma demo_refresh:
  "fst (refresh demo_yaml (\<lambda>v. []) (\<lambda>_. 5) demo_dir demo_registry) = Inr \<lparr>added = [''pdf''], removed = [], updated = []\<rparr>"
proof -
  obtain t where "skill_to_tool (\<lambda>v. []) demo_skill = Inr t" using demo_tool by blast
  then show ?thesis
    by (simp add: refresh_def demo_discover refresh_one_def runtime_eligible_iff exposable_def demo_registry_def
        Let_def) (simp add: demo_skill_def)
qed


text \<open>A second scan of an unchanged directory has nothing to do.\<close>

lemma refresh_scan_quiet:
  assumes "\<forall>(sk, m) \<in> set skills. exposable (sk_name sk) (lifecycle (run_reg run)) \<longrightarrow>
      dict_get (tracked (run_reg run)) (sk_name sk) = Some (skill_tool_name (sk_name sk), m)"
  shows "\<exists>seen. refresh_scan render clock skills run = (None, run\<lparr>seen_live := seen\<rparr>) \<and>
    set seen = set (seen_live run) \<union> {n. live_on_disk skills (lifecycle (run_reg run)) n}"
  using assms
proof (induction skills arbitrary: run)
  case Nil
  then show ?case by (intro exI [of _ "seen_live run"]) (simp add: live_on_disk_def)
next
  case (Cons s skills)
  obtain sk m where s: "s = (sk, m)" by (cases s)
  let ?run = "if exposable (sk_name sk) (lifecycle (run_reg run)) then run\<lparr>seen_live := sk_name sk # seen_live run\<rparr> else run"
  have one: "refresh_one render clock (sk, m) run = (None, ?run)"
    using Cons.prems s by (auto simp: refresh_one_def runtime_eligible_iff Let_def)
  have "\<exists>seen. refresh_scan render clock skills ?run = (None, ?run\<lparr>seen_live := seen\<rparr>) \<and>
      set seen = set (seen_live ?run) \<union> {n. live_on_disk skills (lifecycle (run_reg ?run)) n}"
    using Cons.prems by (intro Cons.IH) simp
  then obtain seen where seen: "refresh_scan render clock skills ?run = (None, ?run\<lparr>seen_live := seen\<rparr>)"
    "set seen = set (seen_live ?run) \<union> {n. live_on_disk skills (lifecycle (run_reg ?run)) n}" by blast
  have "set seen = set (seen_live run) \<union> {n. live_on_disk (s # skills) (lifecycle (run_reg run)) n}"
    using seen(2) s by (auto simp: live_on_disk_def split: if_splits)
  moreover have "refresh_scan render clock (s # skills) run = (None, run\<lparr>seen_live := seen\<rparr>)"
    using seen(1) one s by simp
  ultimately show ?case by blast
qed

text \<open>
  Refreshing is idempotent. A second refresh of the same directory, at whatever time,
  reports no skill added, removed or updated and changes neither the registry, nor the tools,
  nor the lifecycle.
\<close>

theorem refresh_idempotent:
  assumes "discover_skills yaml render dir = Inr skills"
    and "refresh yaml render clock dir reg = (Inr summary, reg')"
    and "in_sync render version reg" "consistent version skills" "distinct (disk_names skills)"
  shows "refresh yaml render clock2 dir reg' = (Inr \<lparr>added = [], removed = [], updated = []\<rparr>, reg')"
proof -
  note facts = refresh_facts [OF assms]
  let ?run = "\<lparr>run_reg = reg', run_added = [], run_updated = [], seen_live = []\<rparr>"
  have live: "live_on_disk skills (lifecycle reg') n = live_on_disk skills (lifecycle reg) n" for n
    using facts [of n] by (simp add: live_on_disk_def)
  have tr: "dict_get (tracked reg') n = (if live_on_disk skills (lifecycle reg) n
      then Some (skill_tool_name n, snd (the (on_disk skills n))) else None)" for n
    using facts [of n] by blast
  have "\<forall>(sk, m) \<in> set skills. exposable (sk_name sk) (lifecycle (run_reg ?run)) \<longrightarrow>
      dict_get (tracked (run_reg ?run)) (sk_name sk) = Some (skill_tool_name (sk_name sk), m)"
    using on_disk_in [OF _ assms(5)] tr live by (fastforce simp: live_on_disk_def)
  from refresh_scan_quiet [OF this, of render clock2] obtain seen where
    seen: "refresh_scan render clock2 skills ?run = (None, ?run\<lparr>seen_live := seen\<rparr>)"
    "set seen = {n. live_on_disk skills (lifecycle reg') n}" by auto
  have "n \<in> set seen" if "n \<in> set (dict_keys (tracked reg'))" for n
  proof -
    have "dict_get (tracked reg') n \<noteq> None"
      using that by (simp add: dom_map_of_conv_image_fst [symmetric] domIff)
    then show ?thesis using tr [of n] seen(2) live by (auto split: if_splits)
  qed
  then have "filter (\<lambda>n. n \<notin> set seen) (dict_keys (tracked reg')) = []" by (simp add: filter_empty_conv)
  then show ?thesis using assms(1) seen(1) by (simp add: refresh_def Let_def)
qed

theorem refresh_idempotent_witness:
  "fst (refresh demo_yaml (\<lambda>v. []) (\<lambda>_. 9) demo_dir (snd (refresh demo_yaml (\<lambda>v. []) (\<lambda>_. 5) demo_dir demo_registry))) =
     Inr \<lparr>added = [], removed = [], updated = []\<rparr>"
proof -
  obtain reg' where r: "refresh demo_yaml (\<lambda>v. []) (\<lambda>_. 5) demo_dir demo_registry =
      (Inr \<lparr>added = [''pdf''], removed = [], updated = []\<rparr>, reg')"
    using demo_refresh by (metis prod.collapse)
  show ?thesis
    using refresh_idempotent [OF demo_discover r, of "\<lambda>n m. demo_skill" "\<lambda>_. 9"] r
    by (simp add: in_sync_def demo_registry_def consistent_def demo_skill_def)
qed

text \<open>One malformed manifest makes every refresh raise before anything is synchronised.\<close>

lemma load_children_fails:
  "(n, Some f) \<in> set cs \<Longrightarrow> load_skill yaml render (manifest_path n) (mf_text f) = Inl e \<Longrightarrow>
     \<exists>e'. load_children yaml render cs = Inl e'"
proof (induction yaml render cs rule: load_children.induct)
  case (3 yaml render m g cs)
  then show ?case
    by (cases "load_skill yaml render (manifest_path m) (mf_text g)"; cases "load_children yaml render cs") auto
qed auto

lemma bad_manifest_blocks_refresh:
  assumes "(n, Some f) \<in> set cs" "load_skill yaml render (manifest_path n) (mf_text f) = Inl e"
  shows "\<exists>e'. refresh yaml render clock (Some cs) reg = (Inl e', reg)"
proof -
  obtain e' where "load_children yaml render (sort_key fst cs) = Inl e'"
    using load_children_fails [of n f "sort_key fst cs" yaml render e] assms by auto
  then show ?thesis by (simp add: refresh_def discover_skills_def)
qed

end
