(* ===== verification/Skill_Verification.thy ===== *)
theory Skill_Verification
  imports Skill_Registry
begin

text \<open>
  Promotion by correctness: replay verification (\<open>sera/skills/verify.py\<close>) and the A/B harness
  (\<open>sera/skills/ab.py\<close>) over the lifecycle store. The reason of a result or verdict is a
  constructor instead of a formatted text; \<open>str()\<close> of a value of the YAML file that is not a
  string is the argument \<open>render\<close>.
\<close>


section \<open>Replay\<close>

record ReplayCase =
  case_id :: py_str
  case_input :: arguments
  expect_substring :: py_str
  expect_equals :: py_str

datatype replay_reason =
    Fine
  | HandlerRaised py_exc
  | NoExpectations
  | NotEqual py_str
  | MissingSubstring py_str

record ReplayResult =
  res_case_id :: py_str
  passed :: bool
  reason :: replay_reason
  res_output :: py_str

record VerificationReport =
  report_skill :: py_str
  results :: "ReplayResult list"

definition report_passed :: "VerificationReport \<Rightarrow> bool" where
  "report_passed rep \<longleftrightarrow> results rep \<noteq> [] \<and> list_all passed (results rep)"

definition n_passed :: "ReplayResult list \<Rightarrow> nat" where
  "n_passed rs = length (filter passed rs)"

definition score_case :: "ReplayCase \<Rightarrow> py_str \<Rightarrow> ReplayResult" where
  "score_case c out =
     (let why =
        (if expect_substring c = [] \<and> expect_equals c = [] then NoExpectations
         else if expect_equals c \<noteq> [] \<and> out \<noteq> expect_equals c then NotEqual (expect_equals c)
         else if expect_substring c \<noteq> [] \<and> \<not> str_contains out (expect_substring c)
              then MissingSubstring (expect_substring c)
         else Fine)
      in \<lparr>res_case_id = case_id c, passed = (why = Fine), reason = why, res_output = out\<rparr>)"

definition replay_context :: ToolContext where
  "replay_context = \<lparr>ctx_session = ''replay'', ctx_workspace = ''/tmp''\<rparr>"

definition replay_tool :: "Tool \<Rightarrow> ReplayCase \<Rightarrow> ReplayResult" where
  "replay_tool t c =
     (case handler t (case_input c) replay_context of
        Inl e \<Rightarrow> \<lparr>res_case_id = case_id c, passed = False, reason = HandlerRaised e, res_output = []\<rparr>
      | Inr out \<Rightarrow> score_case c out)"

definition replay_skill :: "(py_value \<Rightarrow> py_str) \<Rightarrow> Skill \<Rightarrow> ReplayCase \<Rightarrow> (skill_error, ReplayResult) py_result" where
  "replay_skill render sk c = rbind (skill_to_tool render sk) (\<lambda>t. Inr (replay_tool t c))"

fun replay_all :: "(py_value \<Rightarrow> py_str) \<Rightarrow> Skill \<Rightarrow> ReplayCase list \<Rightarrow> (skill_error, ReplayResult list) py_result" where
  "replay_all render sk [] = Inr []"
| "replay_all render sk (c # cs) =
     rbind (replay_skill render sk c) (\<lambda>r. rbind (replay_all render sk cs) (\<lambda>rs. Inr (r # rs)))"

definition verify_via_replay ::
  "(py_value \<Rightarrow> py_str) \<Rightarrow> py_float \<Rightarrow> Skill \<Rightarrow> ReplayCase list \<Rightarrow> lifecycle_db \<Rightarrow>
     (skill_error, VerificationReport \<times> lifecycle_db) py_result"
where
  "verify_via_replay render now sk cases db =
     rbind (replay_all render sk cases) (\<lambda>rs.
       (let rep = \<lparr>report_skill = sk_name sk, results = rs\<rparr>
        in Inr (rep, if report_passed rep then verify_skill now (sk_name sk) db else db)))"

text \<open>The replay file: a mapping with a list of case mappings; entries of other shapes are skipped.\<close>

definition field_text :: "(py_value \<Rightarrow> py_str) \<Rightarrow> (py_str, py_value) py_dict \<Rightarrow> py_str \<Rightarrow> py_str \<Rightarrow> py_str" where
  "field_text render d k dflt = py_text render (py_or (meta_get d k) (PyStr dflt))"

fun as_dict :: "py_value \<Rightarrow> (py_str, py_value) py_dict option" where
  "as_dict (PyDict kvs) = Some kvs"
| "as_dict _ = None"

definition parse_case :: "(py_value \<Rightarrow> py_str) \<Rightarrow> (py_str, py_value) py_dict \<Rightarrow> ReplayCase option" where
  "parse_case render c =
     (case (as_dict (py_or (meta_get c ''expect'') (PyDict [])), as_dict (py_or (meta_get c ''input'') (PyDict []))) of
        (Some expect, Some inp) \<Rightarrow>
          Some \<lparr>case_id = field_text render c ''id'' ''?'', case_input = inp,
                expect_substring = field_text render expect ''substring'' [],
                expect_equals = field_text render expect ''equals'' []\<rparr>
      | _ \<Rightarrow> None)"

fun parse_cases :: "(py_value \<Rightarrow> py_str) \<Rightarrow> py_value list \<Rightarrow> ReplayCase list option" where
  "parse_cases render [] = Some []"
| "parse_cases render (PyDict c # vs) =
     (case (parse_case render c, parse_cases render vs) of (Some x, Some xs) \<Rightarrow> Some (x # xs) | _ \<Rightarrow> None)"
| "parse_cases render (v # vs) = parse_cases render vs"

text \<open>\<open>None\<close> is the exception of a value that is not of the documented shape (an \<open>input\<close> given
  as a list of pairs, which \<open>dict\<close> would accept, counts as one).\<close>

definition load_replay_cases :: "(py_value \<Rightarrow> py_str) \<Rightarrow> py_value \<Rightarrow> ReplayCase list option" where
  "load_replay_cases render doc =
     (case as_dict (py_or doc (PyDict [])) of
        None \<Rightarrow> None
      | Some raw \<Rightarrow>
          (case py_or (meta_get raw ''cases'') (PyList []) of
             PyList vs \<Rightarrow> parse_cases render vs
           | PyDict kvs \<Rightarrow> Some []
           | PyStr s \<Rightarrow> Some []
           | _ \<Rightarrow> None))"


section \<open>A/B\<close>

record ABResult =
  ab_name :: py_str
  ab_passed :: nat
  total_cases :: nat
  ab_cost :: py_float

definition ab_success_rate :: "ABResult \<Rightarrow> py_float" where
  "ab_success_rate r = (if total_cases r = 0 then 0 else real (ab_passed r) / real (total_cases r))"

datatype verdict_reason = HigherSuccess | Cheaper | ExactTie

record Verdict =
  winner :: py_str
  loser :: py_str
  verdict_reason :: verdict_reason

definition compute_verdict :: "ABResult \<Rightarrow> ABResult \<Rightarrow> Verdict" where
  "compute_verdict a b =
     (let a_wins = (\<lambda>why. \<lparr>winner = ab_name a, loser = ab_name b, verdict_reason = why\<rparr>);
          b_wins = (\<lambda>why. \<lparr>winner = ab_name b, loser = ab_name a, verdict_reason = why\<rparr>)
      in if ab_success_rate b < ab_success_rate a then a_wins HigherSuccess
         else if ab_success_rate a < ab_success_rate b then b_wins HigherSuccess
         else if ab_cost a < ab_cost b then a_wins Cheaper
         else if ab_cost b < ab_cost a then b_wins Cheaper
         else a_wins ExactTie)"

record Variant =
  v_skill :: Skill
  v_cost :: py_float

definition replay_variant :: "(py_value \<Rightarrow> py_str) \<Rightarrow> Variant \<Rightarrow> ReplayCase list \<Rightarrow> (skill_error, ABResult) py_result" where
  "replay_variant render v cases =
     rbind (replay_all render (v_skill v) cases) (\<lambda>rs.
       Inr \<lparr>ab_name = sk_name (v_skill v), ab_passed = n_passed rs, total_cases = length cases,
            ab_cost = v_cost v * real (length cases)\<rparr>)"

definition run_ab ::
  "(py_value \<Rightarrow> py_str) \<Rightarrow> Variant \<Rightarrow> Variant \<Rightarrow> ReplayCase list \<Rightarrow>
     (skill_error, ABResult \<times> ABResult \<times> Verdict) py_result"
where
  "run_ab render a b cases =
     rbind (replay_variant render a cases) (\<lambda>ra.
     rbind (replay_variant render b cases) (\<lambda>rb. Inr (ra, rb, compute_verdict ra rb)))"

definition decide_and_persist ::
  "(py_value \<Rightarrow> py_str) \<Rightarrow> py_float \<Rightarrow> Variant \<Rightarrow> Variant \<Rightarrow> ReplayCase list \<Rightarrow> lifecycle_db \<Rightarrow>
     (skill_error, Verdict \<times> lifecycle_db) py_result"
where
  "decide_and_persist render now a b cases db =
     rbind (run_ab render a b cases) (\<lambda>(ra, rb, v).
       Inr (v, if ab_passed ra = 0 \<and> ab_passed rb = 0 then db
               else archive now (loser v) (verify_skill now (winner v) db)))"



section \<open>Promotion by correctness\<close>

text \<open>The handler of a skill's tool returns its body, so a case asks something of the body.\<close>

definition case_holds :: "py_str \<Rightarrow> ReplayCase \<Rightarrow> bool" where
  "case_holds body c \<longleftrightarrow> (expect_equals c \<noteq> [] \<or> expect_substring c \<noteq> []) \<and>
     (expect_equals c = [] \<or> body = expect_equals c) \<and>
     (expect_substring c = [] \<or> str_contains body (expect_substring c))"

lemma score_case_passed: "passed (score_case c out) = case_holds out c"
  by (auto simp: score_case_def case_holds_def Let_def)

lemma replay_skill_passed: "replay_skill render sk c = Inr r \<Longrightarrow> passed r = case_holds (sk_body sk) c"
  by (auto simp: replay_skill_def replay_tool_def skill_to_tool_def rbind_eq_Inr score_case_passed split: sum.splits)

lemma replay_all_passed:
  "replay_all render sk cases = Inr rs \<Longrightarrow> map passed rs = map (case_holds (sk_body sk)) cases"
  by (induction cases arbitrary: rs) (auto simp: rbind_eq_Inr dest: replay_skill_passed)

lemma replay_all_summary:
  assumes "replay_all render sk cases = Inr rs"
  shows "rs = [] \<longleftrightarrow> cases = []" "list_all passed rs = list_all (case_holds (sk_body sk)) cases"
    "n_passed rs = length (filter (case_holds (sk_body sk)) cases)"
proof -
  note m = replay_all_passed [OF assms]
  from arg_cong [OF m, of length] show "rs = [] \<longleftrightarrow> cases = []" by auto
  from arg_cong [OF m, of "list_all id"] show "list_all passed rs = list_all (case_holds (sk_body sk)) cases"
    by (simp add: list.pred_map comp_def)
  from arg_cong [OF m, of "\<lambda>bs. length (filter id bs)"] show "n_passed rs = length (filter (case_holds (sk_body sk)) cases)"
    by (simp add: n_passed_def filter_map comp_def)
qed

lemma verify_via_replay_db:
  assumes "verify_via_replay render now sk cases db = Inr (rep, db')"
  shows "db' = (if cases \<noteq> [] \<and> list_all (case_holds (sk_body sk)) cases then verify_skill now (sk_name sk) db else db)"
proof -
  obtain rs where rs: "replay_all render sk cases = Inr rs"
    and "rep = \<lparr>report_skill = sk_name sk, results = rs\<rparr>"
    "db' = (if report_passed rep then verify_skill now (sk_name sk) db else db)"
    using assms by (auto simp: verify_via_replay_def rbind_eq_Inr Let_def)
  with replay_all_summary [OF rs] show ?thesis by (simp add: report_passed_def)
qed

text \<open>
  Skills are promoted by correctness only. A new skill marked as a candidate, neither
  pinned nor archived, becomes visible to the registry through replay exactly when at least one
  case was captured, every case states an expectation, and the skill's output meets all of
  them; with no cases or one failing case it stays hidden.
\<close>

theorem promotion_by_correctness:
  assumes "verify_via_replay render now sk cases (mark_candidate t (sk_name sk) db) = Inr (rep, db')"
    and "case dict_get db (sk_name sk) of None \<Rightarrow> True | Some r \<Rightarrow> \<not> pinned r \<and> lc_state r \<noteq> ARCHIVED"
  shows "exposable (sk_name sk) (Some db') \<longleftrightarrow> cases \<noteq> [] \<and> list_all (case_holds (sk_body sk)) cases"
  using verify_via_replay_db [OF assms(1)] assms(2)
  by (auto simp: exposable_def mark_candidate_def verify_skill_def active_row_def split: option.splits)

definition demo_case :: "py_str \<Rightarrow> ReplayCase" where
  "demo_case s = \<lparr>case_id = ''c'', case_input = [], expect_substring = s, expect_equals = []\<rparr>"

theorem promotion_by_correctness_witness:
  "\<exists>rep db'. verify_via_replay (\<lambda>v. []) 2 demo_skill [demo_case ''Use''] (mark_candidate 1 ''pdf'' []) = Inr (rep, db') \<and>
     exposable ''pdf'' (Some db')"
proof -
  have n: "sk_name demo_skill = ''pdf''" by (simp add: demo_skill_def)
  obtain rep db' where v: "verify_via_replay (\<lambda>v. []) 2 demo_skill [demo_case ''Use''] (mark_candidate 1 ''pdf'' []) = Inr (rep, db')"
    using demo_tool by (auto simp: verify_via_replay_def replay_skill_def Let_def)
  have "exposable (sk_name demo_skill) (Some db')"
    using promotion_by_correctness [of "\<lambda>v. []" 2 demo_skill "[demo_case ''Use'']" 1 "[]" rep db'] v n
    by (simp add: case_holds_def demo_case_def demo_skill_def str_contains_def)
  with v n show ?thesis by auto
qed


section \<open>The A/B verdict\<close>

lemma verify_archive_get:
  assumes "w \<noteq> l"
  shows "dict_get (archive now l (verify_skill now w db)) n =
    (if n = l then Some (case dict_get db l of
        None \<Rightarrow> (active_row now)\<lparr>lc_state := ARCHIVED, archived_at := Some now\<rparr>
      | Some r \<Rightarrow> r\<lparr>lc_state := ARCHIVED, archived_at := Some now, pinned := False\<rparr>)
     else if n = w then Some (case dict_get db w of None \<Rightarrow> active_row now | Some r \<Rightarrow> r\<lparr>verified := True\<rparr>)
     else dict_get db n)"
  using assms by (simp add: archive_def verify_skill_def)

lemma run_ab_counts:
  assumes "run_ab render a b cases = Inr (ra, rb, v)"
  shows "ra = \<lparr>ab_name = sk_name (v_skill a), ab_passed = length (filter (case_holds (sk_body (v_skill a))) cases),
        total_cases = length cases, ab_cost = v_cost a * real (length cases)\<rparr>"
    and "rb = \<lparr>ab_name = sk_name (v_skill b), ab_passed = length (filter (case_holds (sk_body (v_skill b))) cases),
        total_cases = length cases, ab_cost = v_cost b * real (length cases)\<rparr>"
    and "v = compute_verdict ra rb"
  using assms by (auto simp: run_ab_def replay_variant_def rbind_eq_Inr replay_all_summary)

text \<open>The verdict between two results over the same cases: more passes, then less cost, then order.\<close>

lemma verdict_same_cases:
  assumes "total_cases ra = total_cases rb" "ab_passed ra \<le> total_cases ra" "ab_passed rb \<le> total_cases rb"
  shows "winner (compute_verdict ra rb) =
      (if ab_passed ra < ab_passed rb \<or> (ab_passed ra = ab_passed rb \<and> ab_cost rb < ab_cost ra) then ab_name rb else ab_name ra)"
    and "loser (compute_verdict ra rb) =
      (if ab_passed ra < ab_passed rb \<or> (ab_passed ra = ab_passed rb \<and> ab_cost rb < ab_cost ra) then ab_name ra else ab_name rb)"
proof -
  have "ab_success_rate x < ab_success_rate y \<longleftrightarrow> ab_passed x < ab_passed y"
    if "total_cases x = total_cases y" "ab_passed y \<le> total_cases y" for x y
    using that by (auto simp: ab_success_rate_def divide_less_cancel)
  with assms show "winner (compute_verdict ra rb) =
      (if ab_passed ra < ab_passed rb \<or> (ab_passed ra = ab_passed rb \<and> ab_cost rb < ab_cost ra) then ab_name rb else ab_name ra)"
    "loser (compute_verdict ra rb) =
      (if ab_passed ra < ab_passed rb \<or> (ab_passed ra = ab_passed rb \<and> ab_cost rb < ab_cost ra) then ab_name ra else ab_name rb)"
    by (auto simp: compute_verdict_def Let_def)
qed

text \<open>
  An A/B match keeps the better skill and loses nothing. Over the same cases the winner
  passes at least as many as the loser and, when they pass equally many, costs no more. If
  neither passes any case the lifecycle is untouched; otherwise the winner passed one, is
  verified, the loser reads as archived at every later time and one revival makes it readable
  as active again, and no other skill's row changes.
\<close>

theorem ab_keeps_better:
  assumes "decide_and_persist render now a b cases db = Inr (v, db')" "sk_name (v_skill a) \<noteq> sk_name (v_skill b)"
  shows "\<exists>w l. {w, l} = {a, b} \<and> winner v = sk_name (v_skill w) \<and> loser v = sk_name (v_skill l) \<and>
    (let passes = \<lambda>x. length (filter (case_holds (sk_body (v_skill x))) cases)
     in passes l \<le> passes w \<and> (passes l = passes w \<longrightarrow> cases = [] \<or> v_cost w \<le> v_cost l) \<and>
        (if passes w = 0 then db' = db
         else is_verified (winner v) db' \<and> state_of later (loser v) db' = ARCHIVED \<and>
              state_of t (loser v) (revive t (loser v) db') = ACTIVE \<and>
              (\<forall>n. n \<noteq> winner v \<and> n \<noteq> loser v \<longrightarrow> dict_get db' n = dict_get db n)))"
proof -
  let ?p = "\<lambda>x. length (filter (case_holds (sk_body (v_skill x))) cases)"
  obtain ra rb where run: "run_ab render a b cases = Inr (ra, rb, v)"
    and db': "db' = (if ab_passed ra = 0 \<and> ab_passed rb = 0 then db else archive now (loser v) (verify_skill now (winner v) db))"
    using assms(1) by (auto simp: decide_and_persist_def rbind_eq_Inr)
  note c = run_ab_counts [OF run]
  have le: "?p x \<le> length cases" for x by simp
  let ?bwins = "?p a < ?p b \<or> (?p a = ?p b \<and> v_cost b * real (length cases) < v_cost a * real (length cases))"
  define w l where "w = (if ?bwins then b else a)" and "l = (if ?bwins then a else b)"
  have wl: "winner v = sk_name (v_skill w)" "loser v = sk_name (v_skill l)"
    using verdict_same_cases [of ra rb] c le by (simp_all add: w_def l_def)
  have ne: "winner v \<noteq> loser v" using assms(2) wl by (auto simp: w_def l_def split: if_splits)
  have better: "?p l \<le> ?p w" "?p l = ?p w \<longrightarrow> cases = [] \<or> v_cost w \<le> v_cost l"
    by (auto simp: w_def l_def mult_less_cancel_right)
  have none: "ab_passed ra = 0 \<and> ab_passed rb = 0 \<longleftrightarrow> ?p w = 0"
    using c better(1) by (auto simp: w_def l_def split: if_splits)
  note get = verify_archive_get [OF ne, of now db]
  have "is_verified (winner v) db' \<and> state_of later (loser v) db' = ARCHIVED \<and>
      state_of t (loser v) (revive t (loser v) db') = ACTIVE \<and>
      (\<forall>n. n \<noteq> winner v \<and> n \<noteq> loser v \<longrightarrow> dict_get db' n = dict_get db n)" if "?p w \<noteq> 0"
    using that none ne db' get
    by (auto simp: is_verified_def state_of_def effective_state_def revive_def active_row_def STALE_AFTER_SECONDS_def
        split: option.split)
  moreover have "?p w = 0 \<longrightarrow> db' = db" using none db' by simp
  moreover have "{w, l} = {a, b}" by (auto simp: w_def l_def)
  ultimately show ?thesis
    using wl better by (intro exI [of _ w] exI [of _ l]) (simp add: Let_def)
qed

definition demo_a :: Variant where
  "demo_a = \<lparr>v_skill = demo_skill, v_cost = 1\<rparr>"

definition demo_b :: Variant where
  "demo_b = \<lparr>v_skill = demo_skill\<lparr>sk_name := ''csv'', sk_body := ''No.''\<rparr>, v_cost = 0\<rparr>"

lemma demo_match_runs: "\<exists>v db'. decide_and_persist (\<lambda>v. []) 2 demo_a demo_b [demo_case ''Use''] [] = Inr (v, db')"
proof -
  have "\<exists>t. skill_to_tool (\<lambda>v. []) (demo_skill\<lparr>sk_name := ''csv'', sk_body := ''No.''\<rparr>) = Inr t"
    using demo_tool by (auto simp: skill_to_tool_def split: sum.splits)
  then show ?thesis using demo_tool
    by (auto simp: decide_and_persist_def run_ab_def replay_variant_def replay_skill_def demo_a_def demo_b_def)
qed

theorem ab_keeps_better_witness:
  "\<exists>v db'. decide_and_persist (\<lambda>v. []) 2 demo_a demo_b [demo_case ''Use''] [] = Inr (v, db') \<and>
     winner v = ''pdf'' \<and> state_of 100 ''csv'' db' = ARCHIVED"
proof -
  obtain v db' where d: "decide_and_persist (\<lambda>v. []) 2 demo_a demo_b [demo_case ''Use''] [] = Inr (v, db')"
    using demo_match_runs by blast
  have n: "sk_name (v_skill demo_a) = ''pdf''" "sk_name (v_skill demo_b) = ''csv''"
    and p: "case_holds (sk_body (v_skill demo_a)) (demo_case ''Use'')" "\<not> case_holds (sk_body (v_skill demo_b)) (demo_case ''Use'')"
    by (simp_all add: demo_a_def demo_b_def demo_skill_def case_holds_def demo_case_def str_contains_def)
  obtain w l where wl: "{w, l} = {demo_a, demo_b}" "winner v = sk_name (v_skill w)" "loser v = sk_name (v_skill l)"
    and le: "length (filter (case_holds (sk_body (v_skill l))) [demo_case ''Use'']) \<le>
        length (filter (case_holds (sk_body (v_skill w))) [demo_case ''Use''])"
    and res: "length (filter (case_holds (sk_body (v_skill w))) [demo_case ''Use'']) \<noteq> 0 \<longrightarrow> state_of 100 (loser v) db' = ARCHIVED"
    using ab_keeps_better [OF d, of 100 0] n by (auto simp: Let_def split: if_splits)
  have "w = demo_a \<and> l = demo_b" using wl(1) le p by (auto simp: doubleton_eq_iff)
  with wl res n p d show ?thesis by auto
qed

text \<open>A winner that an earlier match archived stays hidden: promotion does not revive it.\<close>

lemma archived_winner_stays_hidden:
  "\<not> exposable n (Some (verify_skill t n (archive now n db)))"
  by (simp add: exposable_def verify_skill_def archive_def active_row_def split: option.split)

end
