(* ===== verification/Secret_Vault.thy ===== *)
theory Secret_Vault
  imports Sera_Prelude "HOL-Library.List_Lexorder" "HOL-Library.Char_ord"
begin

text \<open>
  The encrypted vault (\<open>sera/safety/vault.py\<close>): secrets and the approval shape-memory in one
  authenticated file. AES-GCM and SHA-256 are third-party code and enter as parameters: \<open>seal\<close>
  and \<open>unseal\<close> encrypt and open the serialised data, \<open>digest\<close> is SHA-256 and \<open>canon\<close> the
  canonical JSON of the arguments; \<open>'c\<close> is the type of ciphertexts. A file either lacks the
  format tag or is a tag, a nonce and a ciphertext. Nonces and clock readings are
  arguments. The two sub-stores are interpretations of \<open>keyed_store\<close>.
\<close>


section \<open>Data\<close>

record approval_row =
  ap_decision :: bool
  ap_tool_name :: py_str
  ap_created_at :: py_float
  ap_expires_at :: "py_float option"

record vault_data =
  secrets :: "(py_str, py_str) py_dict"
  approvals :: "(py_str, approval_row) py_dict"

record ApprovalRecord =
  fingerprint_of :: py_str
  decision :: bool
  rec_tool_name :: py_str
  created_at :: py_float
  expires_at :: "py_float option"

definition active :: "py_float \<Rightarrow> ApprovalRecord \<Rightarrow> bool" where
  "active now r \<longleftrightarrow> (case expires_at r of None \<Rightarrow> True | Some t \<Rightarrow> now < t)"

datatype 'c vault_blob = Foreign py_str | Sealed py_str 'c

record 'c vault =
  vault_key :: py_str
  vault_file :: "'c vault_blob option"

datatype vault_error = BadFormat | AuthFailed | BadKeyLength nat

record 'c crypto =
  seal :: "py_str \<Rightarrow> py_str \<Rightarrow> vault_data \<Rightarrow> 'c"
  unseal :: "py_str \<Rightarrow> py_str \<Rightarrow> 'c \<Rightarrow> vault_data option"
  digest :: "py_str \<Rightarrow> py_str"
  canon :: "py_value \<Rightarrow> py_str"

definition NONCE_BYTES :: nat where
  "NONCE_BYTES = 12"

definition KEY_BYTES :: nat where
  "KEY_BYTES = 32"

definition DEFAULT_DENY_COOLDOWN_S :: py_float where
  "DEFAULT_DENY_COOLDOWN_S = 24 * 3600"

definition empty_data :: vault_data where
  "empty_data = \<lparr>secrets = [], approvals = []\<rparr>"

definition new_vault :: "py_str \<Rightarrow> 'c vault_blob option \<Rightarrow> (vault_error, 'c vault) py_result" where
  "new_vault key file =
     (if length key \<noteq> KEY_BYTES then Inl (BadKeyLength (length key)) else Inr \<lparr>vault_key = key, vault_file = file\<rparr>)"


section \<open>The encrypted blob\<close>

definition vault_load :: "'c crypto \<Rightarrow> 'c vault \<Rightarrow> (vault_error, vault_data) py_result" where
  "vault_load C v =
     (case vault_file v of
        None \<Rightarrow> Inr empty_data
      | Some (Foreign _) \<Rightarrow> Inl BadFormat
      | Some (Sealed nonce ct) \<Rightarrow>
          (case unseal C (vault_key v) nonce ct of None \<Rightarrow> Inl AuthFailed | Some d \<Rightarrow> Inr d))"

definition vault_save :: "'c crypto \<Rightarrow> py_str \<Rightarrow> vault_data \<Rightarrow> 'c vault \<Rightarrow> 'c vault" where
  "vault_save C nonce d v = v\<lparr>vault_file := Some (Sealed nonce (seal C (vault_key v) nonce d))\<rparr>"


section \<open>Secrets\<close>

definition put_secret :: "'c crypto \<Rightarrow> py_str \<Rightarrow> py_str \<Rightarrow> py_str \<Rightarrow> 'c vault \<Rightarrow> (vault_error, 'c vault) py_result" where
  "put_secret C nonce k x v =
     rbind (vault_load C v) (\<lambda>d. Inr (vault_save C nonce (d\<lparr>secrets := dict_set k x (secrets d)\<rparr>) v))"

definition get_secret :: "'c crypto \<Rightarrow> py_str \<Rightarrow> 'c vault \<Rightarrow> (vault_error, py_str option) py_result" where
  "get_secret C k v = rbind (vault_load C v) (\<lambda>d. Inr (dict_get (secrets d) k))"

definition delete_secret :: "'c crypto \<Rightarrow> py_str \<Rightarrow> py_str \<Rightarrow> 'c vault \<Rightarrow> (vault_error, 'c vault) py_result" where
  "delete_secret C nonce k v =
     rbind (vault_load C v) (\<lambda>d.
       Inr (if dict_get (secrets d) k \<noteq> None
            then vault_save C nonce (d\<lparr>secrets := dict_del k (secrets d)\<rparr>) v else v))"

definition secret_names :: "'c crypto \<Rightarrow> 'c vault \<Rightarrow> (vault_error, py_str list) py_result" where
  "secret_names C v = rbind (vault_load C v) (\<lambda>d. Inr (sort (dict_keys (secrets d))))"


section \<open>Approval memory\<close>

definition fingerprint :: "'c crypto \<Rightarrow> py_str \<Rightarrow> py_value \<Rightarrow> py_str" where
  "fingerprint C tname args = digest C (tname @ [CHR 0x00] @ canon C args)"

definition remember_approval ::
  "'c crypto \<Rightarrow> py_str \<Rightarrow> py_float \<Rightarrow> py_str \<Rightarrow> py_value \<Rightarrow> bool \<Rightarrow> py_float option \<Rightarrow> py_float \<Rightarrow> 'c vault \<Rightarrow>
     (vault_error, ApprovalRecord \<times> 'c vault) py_result"
where
  "remember_approval C nonce now tname args dec ttl_s deny_cooldown_s v =
     (let fp = fingerprint C tname args;
          expires = (if dec then map_option (\<lambda>ttl. now + ttl) ttl_s else Some (now + deny_cooldown_s));
          row = \<lparr>ap_decision = dec, ap_tool_name = tname, ap_created_at = now, ap_expires_at = expires\<rparr>
      in rbind (vault_load C v) (\<lambda>d.
           Inr (\<lparr>fingerprint_of = fp, decision = dec, rec_tool_name = tname, created_at = now, expires_at = expires\<rparr>,
                vault_save C nonce (d\<lparr>approvals := dict_set fp row (approvals d)\<rparr>) v)))"

definition check_approval ::
  "'c crypto \<Rightarrow> py_float \<Rightarrow> py_str \<Rightarrow> py_value \<Rightarrow> 'c vault \<Rightarrow> (vault_error, ApprovalRecord option) py_result"
where
  "check_approval C now tname args v =
     (let fp = fingerprint C tname args
      in rbind (vault_load C v) (\<lambda>d.
           case dict_get (approvals d) fp of
             None \<Rightarrow> Inr None
           | Some row \<Rightarrow>
               (let r = \<lparr>fingerprint_of = fp, decision = ap_decision row, rec_tool_name = ap_tool_name row,
                         created_at = ap_created_at row, expires_at = ap_expires_at row\<rparr>
                in Inr (if active now r then Some r else None))))"

definition forget_approval ::
  "'c crypto \<Rightarrow> py_str \<Rightarrow> py_str \<Rightarrow> py_value \<Rightarrow> 'c vault \<Rightarrow> (vault_error, 'c vault) py_result"
where
  "forget_approval C nonce tname args v =
     rbind (vault_load C v) (\<lambda>d.
       (let fp = fingerprint C tname args
        in Inr (if dict_get (approvals d) fp \<noteq> None
                then vault_save C nonce (d\<lparr>approvals := dict_del fp (approvals d)\<rparr>) v else v)))"

definition clear_approvals :: "'c crypto \<Rightarrow> py_str \<Rightarrow> 'c vault \<Rightarrow> (vault_error, nat \<times> 'c vault) py_result" where
  "clear_approvals C nonce v =
     rbind (vault_load C v) (\<lambda>d. Inr (length (approvals d), vault_save C nonce (d\<lparr>approvals := []\<rparr>) v))"

definition rotate_key :: "'c crypto \<Rightarrow> py_str \<Rightarrow> py_str \<Rightarrow> 'c vault \<Rightarrow> (vault_error, 'c vault) py_result" where
  "rotate_key C nonce new_key v =
     (if length new_key \<noteq> KEY_BYTES then Inl (BadKeyLength (length new_key))
      else rbind (vault_load C v) (\<lambda>d. Inr (vault_save C nonce d (v\<lparr>vault_key := new_key\<rparr>))))"


section \<open>Opening what was sealed\<close>

text \<open>What AES-GCM documents: opening with the same key and nonce returns the plaintext.\<close>

definition aead :: "'c crypto \<Rightarrow> bool" where
  "aead C \<longleftrightarrow> (\<forall>k n d. unseal C k n (seal C k n d) = Some d)"

definition readable :: "'c crypto \<Rightarrow> 'c vault \<Rightarrow> bool" where
  "readable C v \<longleftrightarrow> (\<exists>d. vault_load C v = Inr d)"

definition data_of :: "'c crypto \<Rightarrow> 'c vault \<Rightarrow> vault_data" where
  "data_of C v = (case vault_load C v of Inr d \<Rightarrow> d | Inl _ \<Rightarrow> empty_data)"

lemma load_save [simp]: "aead C \<Longrightarrow> vault_load C (vault_save C nonce d v) = Inr d"
  by (simp add: vault_load_def vault_save_def aead_def)

lemma readable_load: "readable C v \<Longrightarrow> vault_load C v = Inr (data_of C v)"
  by (auto simp: readable_def data_of_def)

lemma readable_save [simp]:
  "aead C \<Longrightarrow> readable C (vault_save C nonce d v)" "aead C \<Longrightarrow> data_of C (vault_save C nonce d v) = d"
  by (simp_all add: readable_def data_of_def)

text \<open>The secrets, read and written through the vault's own operations; \<open>rng\<close> supplies the
  nonce of each write.\<close>

definition read_secret :: "'c crypto \<Rightarrow> 'c vault \<Rightarrow> py_str \<Rightarrow> py_str option" where
  "read_secret C v k = (case get_secret C k v of Inr x \<Rightarrow> x | Inl _ \<Rightarrow> None)"

definition or_same :: "'c vault \<Rightarrow> (vault_error, 'c vault) py_result \<Rightarrow> 'c vault" where
  "or_same v r = (case r of Inr v' \<Rightarrow> v' | Inl _ \<Rightarrow> v)"

definition vault_ok :: "'c crypto \<Rightarrow> 'c vault \<Rightarrow> bool" where
  "vault_ok C v \<longleftrightarrow> aead C \<and> readable C v"

interpretation secret_store: keyed_store "read_secret C" "\<lambda>k x v. or_same v (put_secret C (rng v) k x v)"
  "\<lambda>k v. or_same v (delete_secret C (rng v) k v)" "vault_ok C" for C rng
  by unfold_locales
    (auto simp: vault_ok_def read_secret_def or_same_def put_secret_def delete_secret_def get_secret_def
      readable_load)

text \<open>Likewise the approval rows, by fingerprint.\<close>

definition read_approval :: "'c crypto \<Rightarrow> 'c vault \<Rightarrow> py_str \<Rightarrow> approval_row option" where
  "read_approval C v fp = dict_get (approvals (data_of C v)) fp"

definition write_approval :: "'c crypto \<Rightarrow> py_str \<Rightarrow> py_str \<Rightarrow> approval_row \<Rightarrow> 'c vault \<Rightarrow> 'c vault" where
  "write_approval C n fp row v = vault_save C n ((data_of C v)\<lparr>approvals := dict_set fp row (approvals (data_of C v))\<rparr>) v"

definition erase_approval :: "'c crypto \<Rightarrow> py_str \<Rightarrow> py_str \<Rightarrow> 'c vault \<Rightarrow> 'c vault" where
  "erase_approval C n fp v = vault_save C n ((data_of C v)\<lparr>approvals := dict_del fp (approvals (data_of C v))\<rparr>) v"

interpretation approval_store: keyed_store "read_approval C" "\<lambda>fp row v. write_approval C (rng v) fp row v"
  "\<lambda>fp v. erase_approval C (rng v) fp v" "vault_ok C" for C rng
  by unfold_locales (auto simp: vault_ok_def read_approval_def write_approval_def erase_approval_def)

lemma remember_is_write:
  "readable C v \<Longrightarrow> remember_approval C n now t a dec ttl cd v =
    (let fp = fingerprint C t a;
         expires = (if dec then map_option (\<lambda>ttl. now + ttl) ttl else Some (now + cd))
     in Inr (\<lparr>fingerprint_of = fp, decision = dec, rec_tool_name = t, created_at = now, expires_at = expires\<rparr>,
         write_approval C n fp \<lparr>ap_decision = dec, ap_tool_name = t, ap_created_at = now, ap_expires_at = expires\<rparr> v))"
  by (simp add: remember_approval_def readable_load write_approval_def Let_def)

lemma check_is_read:
  "readable C v \<Longrightarrow> check_approval C now t a v =
    Inr (case read_approval C v (fingerprint C t a) of
           None \<Rightarrow> None
         | Some row \<Rightarrow>
             (let r = \<lparr>fingerprint_of = fingerprint C t a, decision = ap_decision row, rec_tool_name = ap_tool_name row,
                       created_at = ap_created_at row, expires_at = ap_expires_at row\<rparr>
              in if active now r then Some r else None))"
  by (auto simp: check_approval_def readable_load read_approval_def Let_def split: option.split)


section \<open>The vault's guarantees\<close>

lemma put_secret_step:
  assumes "vault_ok C w"
  shows "put_secret C n k x w = Inr (or_same w (put_secret C n k x w))"
    and "approvals (data_of C (or_same w (put_secret C n k x w))) = approvals (data_of C w)"
  using assms by (simp_all add: vault_ok_def put_secret_def or_same_def readable_load)

lemma put_all:
  assumes "vault_ok C v"
  shows "foldl (\<lambda>r (k, x). rbind r (\<lambda>w. put_secret C (rng w) k x w)) (Inr v) kxs = Inr (secret_store.store_all C rng kxs v) \<and>
    approvals (data_of C (secret_store.store_all C rng kxs v)) = approvals (data_of C v)"
proof (induction kxs rule: rev_induct)
  case (snoc kx kxs)
  let ?w = "secret_store.store_all C rng kxs v"
  have "vault_ok C ?w" using assms by (rule secret_store.store_all_ok)
  from put_secret_step [OF this, of "rng ?w" "fst kx" "snd kx"] snoc show ?case
    by (cases kx) (simp add: secret_store.store_all_def)
qed (simp add: secret_store.store_all_def)

text \<open>
  Secrets behave as a keyed store through any series of writes. After putting a list of
  secrets no write fails, each name reads back the last value it was given, every other name
  reads what it read before, and the approvals are untouched.
\<close>

theorem secrets_last_write:
  assumes "aead C" "vault_load C v = Inr d"
  shows "\<exists>v'. foldl (\<lambda>r (k, x). rbind r (\<lambda>w. put_secret C (rng w) k x w)) (Inr v) kxs = Inr v' \<and>
    (\<forall>k. get_secret C k v' = Inr (case map_of (rev kxs) k of None \<Rightarrow> dict_get (secrets d) k | Some x \<Rightarrow> Some x)) \<and>
    check_approval C now t a v' = check_approval C now t a v"
proof -
  let ?v' = "secret_store.store_all C rng kxs v"
  have ok: "vault_ok C v" "vault_ok C ?v'"
    using assms secret_store.store_all_ok [of C v rng kxs] by (auto simp: vault_ok_def readable_def)
  have "read_secret C v = dict_get (secrets d)" using assms by (auto simp: read_secret_def get_secret_def)
  moreover have "get_secret C k ?v' = Inr (read_secret C ?v' k)" for k
    using ok(2) by (simp add: vault_ok_def read_secret_def get_secret_def readable_load)
  ultimately have g: "\<forall>k. get_secret C k ?v' =
      Inr (case map_of (rev kxs) k of None \<Rightarrow> dict_get (secrets d) k | Some x \<Rightarrow> Some x)"
    using secret_store.last_store_wins [OF ok(1), of rng kxs] by (simp split: option.split)
  have "check_approval C now t a ?v' = check_approval C now t a v"
    using put_all [OF ok(1)] ok by (simp add: vault_ok_def check_is_read read_approval_def)
  with g put_all [OF ok(1), of rng kxs] show ?thesis by (intro exI [of _ ?v']) simp
qed

text \<open>An ideal cipher: the ciphertext carries its key, nonce and plaintext.\<close>

definition ideal :: "(py_str \<times> py_str \<times> vault_data) crypto" where
  "ideal = \<lparr>seal = (\<lambda>k n d. (k, n, d)),
     unseal = (\<lambda>k n c. case c of (k', n', d) \<Rightarrow> if k' = k \<and> n' = n then Some d else None),
     digest = (\<lambda>s. s), canon = (\<lambda>v. case v of PyStr s \<Rightarrow> s | _ \<Rightarrow> ''x'')\<rparr>"

lemma aead_ideal [simp]: "aead ideal"
  by (simp add: aead_def ideal_def)

definition demo_vault :: "(py_str \<times> py_str \<times> vault_data) vault" where
  "demo_vault = \<lparr>vault_key = replicate 32 (CHR ''k''), vault_file = None\<rparr>"

lemma load_demo [simp]: "vault_load C (v\<lparr>vault_file := None\<rparr>) = Inr empty_data" "vault_load C' demo_vault = Inr empty_data"
  by (simp_all add: vault_load_def demo_vault_def)

theorem secrets_last_write_witness:
  "\<exists>v'. foldl (\<lambda>r (k, x). rbind r (\<lambda>w. put_secret ideal ''n'' k x w)) (Inr demo_vault)
       [(''openai'', ''k1''), (''github'', ''t''), (''openai'', ''k2'')] = Inr v' \<and>
    get_secret ideal ''openai'' v' = Inr (Some ''k2'')"
proof -
  obtain v' where v: "foldl (\<lambda>r (k, x). rbind r (\<lambda>w. put_secret ideal ''n'' k x w)) (Inr demo_vault)
       [(''openai'', ''k1''), (''github'', ''t''), (''openai'', ''k2'')] = Inr v'"
    "\<forall>k. get_secret ideal k v' = Inr (case map_of (rev [(''openai'', ''k1''), (''github'', ''t''), (''openai'', ''k2'')]) k of
       None \<Rightarrow> dict_get (secrets empty_data) k | Some x \<Rightarrow> Some x)"
    using secrets_last_write [OF aead_ideal load_demo(2), of "\<lambda>_. ''n''" "[(''openai'', ''k1''), (''github'', ''t''), (''openai'', ''k2'')]"
        0 "[]" PyNone] by blast
  from v(2) have "get_secret ideal ''openai'' v' = Inr (Some ''k2'')" by simp
  with v(1) show ?thesis by blast
qed

text \<open>
  Rotating the key changes nothing but the key. Afterwards the vault holds the same
  secrets and approvals, a handle that still has the old key is refused when the cipher
  rejects foreign keys, and a key of the wrong length leaves everything as it was.
\<close>

theorem rotation_preserves:
  assumes "aead C" "vault_load C v = Inr d"
  shows "(length new_key = KEY_BYTES \<longrightarrow>
      (\<exists>v'. rotate_key C nonce new_key v = Inr v' \<and> vault_key v' = new_key \<and> vault_load C v' = Inr d \<and>
         (unseal C (vault_key v) nonce (seal C new_key nonce d) = None \<longrightarrow>
            vault_load C (v'\<lparr>vault_key := vault_key v\<rparr>) = Inl AuthFailed))) \<and>
    (length new_key \<noteq> KEY_BYTES \<longrightarrow> rotate_key C nonce new_key v = Inl (BadKeyLength (length new_key)))"
  using assms by (auto simp: rotate_key_def vault_load_def vault_save_def aead_def)

theorem rotation_preserves_witness:
  "\<exists>v'. rotate_key ideal ''n'' (replicate 32 (CHR ''z'')) demo_vault = Inr v' \<and>
     vault_load ideal (v'\<lparr>vault_key := vault_key demo_vault\<rparr>) = Inl AuthFailed"
proof -
  have "length (replicate 32 (CHR ''z'')) = KEY_BYTES" by (simp add: KEY_BYTES_def)
  moreover have "unseal ideal (vault_key demo_vault) ''n'' (seal ideal (replicate 32 (CHR ''z'')) ''n'' empty_data) = None"
    by (simp add: ideal_def demo_vault_def)
  ultimately show ?thesis
    using rotation_preserves [OF aead_ideal load_demo(2), of "replicate 32 (CHR ''z'')" "''n''"] by blast
qed



end
