(* ===== verification/Approval_Gate.thy ===== *)
theory Approval_Gate
  imports Secret_Vault Tool_Layer
begin

text \<open>
  The two clients of the vault: the approval gates (\<open>sera/safety/approval.py\<close>) and the
  per-feature consent manager (\<open>sera/os_hooks/consent.py\<close>). The human's answer, the clock
  readings and the nonces are arguments. Consent rows travel through JSON, which the pair
  \<open>dumps\<close>/\<open>loads\<close> stands for.
\<close>


section \<open>Gates\<close>

definition py_lower :: "py_str \<Rightarrow> py_str" where
  "py_lower s = map (\<lambda>c. if 65 \<le> (of_char c :: nat) \<and> (of_char c :: nat) \<le> 90 then char_of ((of_char c :: nat) + 32) else c) s"

text \<open>\<open>CliApprovalGate\<close>: only an explicit yes allows.\<close>

definition cli_decision :: "py_str \<Rightarrow> bool" where
  "cli_decision answer \<longleftrightarrow> py_lower (str_strip answer) \<in> {''y'', ''yes''}"

definition auto_decision :: "bool \<Rightarrow> bool" where
  "auto_decision allow = allow"

record VaultApprovalGate =
  allow_ttl_s :: "py_float option"
  deny_cooldown_s :: py_float
  remember_allow :: bool
  remember_deny :: bool

definition default_gate :: VaultApprovalGate where
  "default_gate = \<lparr>allow_ttl_s = None, deny_cooldown_s = 24 * 3600, remember_allow = True, remember_deny = True\<rparr>"

record gate_answer =
  allowed :: bool
  prompted :: bool

definition gate_request ::
  "'c crypto \<Rightarrow> VaultApprovalGate \<Rightarrow> py_str \<Rightarrow> py_float \<Rightarrow> py_float \<Rightarrow> py_str \<Rightarrow> py_value \<Rightarrow> bool \<Rightarrow> 'c vault \<Rightarrow>
     (vault_error, gate_answer \<times> 'c vault) py_result"
where
  "gate_request C g nonce checked_at stored_at tname args inner v =
     rbind (check_approval C checked_at tname args v) (\<lambda>existing.
       case existing of
         Some r \<Rightarrow> Inr (\<lparr>allowed = decision r, prompted = False\<rparr>, v)
       | None \<Rightarrow>
           (let answer = \<lparr>allowed = inner, prompted = True\<rparr>
            in if inner \<and> remember_allow g
               then rbind (remember_approval C nonce stored_at tname args True (allow_ttl_s g) DEFAULT_DENY_COOLDOWN_S v)
                      (\<lambda>(_, v'). Inr (answer, v'))
               else if \<not> inner \<and> remember_deny g
               then rbind (remember_approval C nonce stored_at tname args False None (deny_cooldown_s g) v)
                      (\<lambda>(_, v'). Inr (answer, v'))
               else Inr (answer, v)))"

lemma check_after_remember:
  assumes "vault_ok C v" "remember_approval C n now tname args dec ttl cd v = Inr (r, v')"
  shows "vault_ok C v' \<and>
    check_approval C t tname' args' v' =
      (if fingerprint C tname' args' = fingerprint C tname args
       then Inr (if active t r then Some r else None)
       else check_approval C t tname' args' v)"
proof -
  have rd: "aead C" "readable C v" using assms(1) by (simp_all add: vault_ok_def)
  obtain row where v': "v' = write_approval C n (fingerprint C tname args) row v"
    and row: "row = \<lparr>ap_decision = decision r, ap_tool_name = rec_tool_name r, ap_created_at = created_at r, ap_expires_at = expires_at r\<rparr>"
    and fp: "fingerprint_of r = fingerprint C tname args"
    using assms(2) rd by (auto simp: remember_is_write Let_def)
  have ok: "vault_ok C v'" using approval_store.store_ok [OF assms(1), of "\<lambda>_. n"] v' by simp
  have "read_approval C v' fp' = (if fp' = fingerprint C tname args then Some row else read_approval C v fp')" for fp'
    using approval_store.fetch_store [OF assms(1), of "\<lambda>_. n"] v' by simp
  with ok rd row fp show ?thesis
    by (cases r) (simp add: vault_ok_def check_is_read Let_def)
qed

lemma check_unreadable_same: "check_approval C t tname args v = Inr None \<Longrightarrow> readable C v"
  by (cases "vault_load C v") (auto simp: check_approval_def readable_def Let_def)

lemma remember_succeeds:
  "readable C v \<Longrightarrow> \<exists>v'. remember_approval C n now tname args dec ttl cd v =
     Inr (\<lparr>fingerprint_of = fingerprint C tname args, decision = dec, rec_tool_name = tname, created_at = now,
           expires_at = (if dec then map_option (\<lambda>x. now + x) ttl else Some (now + cd))\<rparr>, v')"
  by (simp add: remember_is_write Let_def)

text \<open>
  An answer is asked once and then honoured. When no active record exists the human is
  asked and the answer returned; after a remembered yes without a lifetime the same call
  passes unprompted at any later time, and after a remembered no it is refused unprompted
  until the cooldown has elapsed and prompts again from then on.
\<close>

theorem answer_remembered:
  assumes "aead C" "check_approval C now tname args v = Inr None"
    and "if inner then remember_allow g \<and> allow_ttl_s g = None else remember_deny g"
  shows "\<exists>v'. gate_request C g n now stored tname args inner v = Inr (\<lparr>allowed = inner, prompted = True\<rparr>, v') \<and>
    (\<forall>t later n' inner'. inner \<or> t < stored + deny_cooldown_s g \<longrightarrow>
       gate_request C g n' t later tname args inner' v' = Inr (\<lparr>allowed = inner, prompted = False\<rparr>, v')) \<and>
    (\<forall>t. \<not> inner \<and> stored + deny_cooldown_s g \<le> t \<longrightarrow> check_approval C t tname args v' = Inr None)"
proof -
  have rd: "readable C v" using assms(2) by (rule check_unreadable_same)
  then have ok: "vault_ok C v" using assms(1) by (simp add: vault_ok_def)
  let ?ttl = "if inner then allow_ttl_s g else None"
  let ?cd = "if inner then DEFAULT_DENY_COOLDOWN_S else deny_cooldown_s g"
  let ?r = "\<lparr>fingerprint_of = fingerprint C tname args, decision = inner, rec_tool_name = tname, created_at = stored,
      expires_at = (if inner then map_option (\<lambda>x. stored + x) ?ttl else Some (stored + ?cd))\<rparr>"
  obtain v' where v': "remember_approval C n stored tname args inner ?ttl ?cd v = Inr (?r, v')"
    using remember_succeeds [OF rd] by blast
  have req: "gate_request C g n now stored tname args inner v = Inr (\<lparr>allowed = inner, prompted = True\<rparr>, v')"
    using assms(2,3) v' by (cases inner) (simp_all add: gate_request_def Let_def)
  have chk: "check_approval C t tname args v' = Inr (if active t ?r then Some ?r else None)" for t
    using check_after_remember [OF ok v'] by simp
  have act: "active t ?r \<longleftrightarrow> inner \<or> t < stored + deny_cooldown_s g" for t
    using assms(3) by (cases inner) (simp_all add: active_def)
  have "gate_request C g n' t later tname args inner' v' = Inr (\<lparr>allowed = inner, prompted = False\<rparr>, v')"
    if "inner \<or> t < stored + deny_cooldown_s g" for n' t later inner'
    using that chk [of t] act [of t] by (simp add: gate_request_def)
  moreover have "check_approval C t tname args v' = Inr None" if "\<not> inner \<and> stored + deny_cooldown_s g \<le> t" for t
    using that chk [of t] act [of t] by simp
  ultimately show ?thesis using req by blast
qed

theorem answer_remembered_witness:
  "\<exists>v'. gate_request ideal default_gate ''n'' 0 1 ''shell_run'' (PyStr ''rm'') False demo_vault = Inr (\<lparr>allowed = False, prompted = True\<rparr>, v') \<and>
     gate_request ideal default_gate ''n'' 3600 3601 ''shell_run'' (PyStr ''rm'') True v' = Inr (\<lparr>allowed = False, prompted = False\<rparr>, v')"
proof -
  have "check_approval ideal 0 ''shell_run'' (PyStr ''rm'') demo_vault = Inr None"
    by (simp add: check_approval_def Let_def empty_data_def)
  moreover have "if False then remember_allow default_gate \<and> allow_ttl_s default_gate = None else remember_deny default_gate"
    by (simp add: default_gate_def)
  ultimately obtain v' where
    "gate_request ideal default_gate ''n'' 0 1 ''shell_run'' (PyStr ''rm'') False demo_vault = Inr (\<lparr>allowed = False, prompted = True\<rparr>, v')"
    "\<forall>t later n' inner'. False \<or> t < 1 + deny_cooldown_s default_gate \<longrightarrow>
       gate_request ideal default_gate n' t later ''shell_run'' (PyStr ''rm'') inner' v' = Inr (\<lparr>allowed = False, prompted = False\<rparr>, v')"
    using answer_remembered [OF aead_ideal] by metis
  moreover have "(3600::real) < 1 + deny_cooldown_s default_gate" by (simp add: default_gate_def)
  ultimately show ?thesis by blast
qed

text \<open>
  Approving one call approves nothing else. A request changes the stored decision of no
  other call, unless the two calls have the same fingerprint.
\<close>

theorem approval_is_exact:
  assumes "aead C" "gate_request C g n now stored tname args inner v = Inr (a, v')"
    and "fingerprint C tname' args' \<noteq> fingerprint C tname args"
  shows "check_approval C t tname' args' v' = check_approval C t tname' args' v"
proof (cases "check_approval C now tname args v")
  case (Inl e)
  then show ?thesis using assms(2) by (simp add: gate_request_def)
next
  case (Inr existing)
  show ?thesis
  proof (cases existing)
    case (Some r)
    then show ?thesis using Inr assms(2) by (simp add: gate_request_def)
  next
    case None
    then have rd: "readable C v" using Inr check_unreadable_same by simp
    then have ok: "vault_ok C v" using assms(1) by (simp add: vault_ok_def)
    have "v' = v \<or> (\<exists>dec ttl cd r. remember_approval C n stored tname args dec ttl cd v = Inr (r, v'))"
      using Inr None assms(2) by (auto simp: gate_request_def Let_def rbind_eq_Inr split: if_splits)
    then show ?thesis using check_after_remember [OF ok] assms(3) by auto
  qed
qed

theorem approval_is_exact_witness:
  "\<exists>a v'. gate_request ideal default_gate ''n'' 0 1 ''shell_run'' (PyStr ''git status'') True demo_vault = Inr (a, v') \<and>
     check_approval ideal 5 ''shell_run'' (PyStr ''rm'') v' = Inr None"
proof -
  have c: "check_approval ideal t tn (PyStr s) demo_vault = Inr None" for t tn s
    by (simp add: check_approval_def Let_def empty_data_def)
  obtain a v' where g: "gate_request ideal default_gate ''n'' 0 1 ''shell_run'' (PyStr ''git status'') True demo_vault = Inr (a, v')"
    by (auto simp: gate_request_def c default_gate_def remember_approval_def Let_def)
  have "fingerprint ideal ''shell_run'' (PyStr ''rm'') \<noteq> fingerprint ideal ''shell_run'' (PyStr ''git status'')"
    by (simp add: fingerprint_def ideal_def)
  from approval_is_exact [OF aead_ideal g this, of 5] c g show ?thesis
    by (intro exI [of _ a] exI [of _ v']) simp
qed

text \<open>No refusal slips through as consent: anything but an explicit yes denies.\<close>

lemma cli_default_denies: "\<not> cli_decision '''' \<and> \<not> cli_decision ''n'' \<and> \<not> cli_decision ''yess'' \<and> cli_decision '' YES ''"
  by code_simp


section \<open>Operating-system consent\<close>

datatype Feature = SCREEN | CLIPBOARD | ACCESSIBILITY | KEYBOARD

fun feature_key :: "Feature \<Rightarrow> py_str" where
  "feature_key SCREEN = ''screen''"
| "feature_key CLIPBOARD = ''clipboard''"
| "feature_key ACCESSIBILITY = ''accessibility''"
| "feature_key KEYBOARD = ''keyboard''"

record consent_row =
  granted :: bool
  granted_at :: py_float
  consent_expires :: "py_float option"

type_synonym consent_map = "(py_str, consent_row) py_dict"

record consent_codec =
  dumps :: "consent_map \<Rightarrow> py_str"
  loads :: "py_str \<Rightarrow> consent_map option"

definition CONSENT_KEY :: py_str where
  "CONSENT_KEY = ''__os_consent__''"

definition consent_load :: "'c crypto \<Rightarrow> consent_codec \<Rightarrow> 'c vault \<Rightarrow> (vault_error, consent_map) py_result" where
  "consent_load C J v =
     rbind (get_secret C CONSENT_KEY v) (\<lambda>raw.
       Inr (case raw of
              None \<Rightarrow> []
            | Some s \<Rightarrow> if s = [] then [] else (case loads J s of None \<Rightarrow> [] | Some m \<Rightarrow> m)))"

definition consent_save :: "'c crypto \<Rightarrow> consent_codec \<Rightarrow> py_str \<Rightarrow> consent_map \<Rightarrow> 'c vault \<Rightarrow> (vault_error, 'c vault) py_result" where
  "consent_save C J nonce m v = put_secret C nonce CONSENT_KEY (dumps J m) v"

definition consent_grant ::
  "'c crypto \<Rightarrow> consent_codec \<Rightarrow> py_str \<Rightarrow> py_float \<Rightarrow> py_str \<Rightarrow> py_float option \<Rightarrow> 'c vault \<Rightarrow> (vault_error, 'c vault) py_result"
where
  "consent_grant C J nonce now feature ttl_s v =
     rbind (consent_load C J v) (\<lambda>m.
       consent_save C J nonce
         (dict_set feature \<lparr>granted = True, granted_at = now, consent_expires = map_option (\<lambda>ttl. now + ttl) ttl_s\<rparr> m) v)"

definition consent_revoke ::
  "'c crypto \<Rightarrow> consent_codec \<Rightarrow> py_str \<Rightarrow> py_str \<Rightarrow> 'c vault \<Rightarrow> (vault_error, 'c vault) py_result" where
  "consent_revoke C J nonce feature v =
     rbind (consent_load C J v) (\<lambda>m.
       if dict_get m feature \<noteq> None then consent_save C J nonce (dict_del feature m) v else Inr v)"

definition row_allows :: "py_float \<Rightarrow> consent_row option \<Rightarrow> bool" where
  "row_allows now row =
     (case row of None \<Rightarrow> False
      | Some r \<Rightarrow> granted r \<and> (case consent_expires r of None \<Rightarrow> True | Some t \<Rightarrow> now < t))"

definition is_allowed :: "'c crypto \<Rightarrow> consent_codec \<Rightarrow> py_float \<Rightarrow> py_str \<Rightarrow> 'c vault \<Rightarrow> (vault_error, bool) py_result" where
  "is_allowed C J now feature v = rbind (consent_load C J v) (\<lambda>m. Inr (row_allows now (dict_get m feature)))"

datatype consent_error = VaultFailed vault_error | ConsentDenied py_str

text \<open>An OS hook: \<open>require\<close> first, then the system call.\<close>

definition consent_require ::
  "'c crypto \<Rightarrow> consent_codec \<Rightarrow> py_float \<Rightarrow> py_str \<Rightarrow> 'c vault \<Rightarrow> consent_error + unit" where
  "consent_require C J now feature v =
     (case is_allowed C J now feature v of
        Inl e \<Rightarrow> Inl (VaultFailed e)
      | Inr b \<Rightarrow> if b then Inr () else Inl (ConsentDenied feature))"

definition os_hook ::
  "'c crypto \<Rightarrow> consent_codec \<Rightarrow> py_float \<Rightarrow> Feature \<Rightarrow> ('os \<Rightarrow> 'a \<times> 'os) \<Rightarrow> 'c vault \<Rightarrow> 'os \<Rightarrow> (consent_error + 'a) \<times> 'os"
where
  "os_hook C J now f call v os =
     (case consent_require C J now (feature_key f) v of
        Inl e \<Rightarrow> (Inl e, os)
      | Inr _ \<Rightarrow> (case call os of (x, os') \<Rightarrow> (Inr x, os')))"

definition capture_screen ::
  "'c crypto \<Rightarrow> consent_codec \<Rightarrow> py_float \<Rightarrow> (py_str \<Rightarrow> 'os \<Rightarrow> 'os) \<Rightarrow> py_str \<Rightarrow> 'c vault \<Rightarrow> 'os \<Rightarrow> (consent_error + py_str) \<times> 'os" where
  "capture_screen C J now capture out v os = os_hook C J now SCREEN (\<lambda>os. (out, capture out os)) v os"

definition read_clipboard ::
  "'c crypto \<Rightarrow> consent_codec \<Rightarrow> py_float \<Rightarrow> ('os \<Rightarrow> py_str \<times> 'os) \<Rightarrow> 'c vault \<Rightarrow> 'os \<Rightarrow> (consent_error + py_str) \<times> 'os" where
  "read_clipboard C J now read_fn v os = os_hook C J now CLIPBOARD read_fn v os"

definition write_clipboard ::
  "'c crypto \<Rightarrow> consent_codec \<Rightarrow> py_float \<Rightarrow> (py_str \<Rightarrow> 'os \<Rightarrow> 'os) \<Rightarrow> py_str \<Rightarrow> 'c vault \<Rightarrow> 'os \<Rightarrow> (consent_error + unit) \<times> 'os" where
  "write_clipboard C J now write_fn text_arg v os = os_hook C J now CLIPBOARD (\<lambda>os. ((), write_fn text_arg os)) v os"

definition type_text ::
  "'c crypto \<Rightarrow> consent_codec \<Rightarrow> py_float \<Rightarrow> (py_str \<Rightarrow> 'os \<Rightarrow> 'os) \<Rightarrow> py_str \<Rightarrow> 'c vault \<Rightarrow> 'os \<Rightarrow> (consent_error + unit) \<times> 'os" where
  "type_text C J now type_fn text_arg v os = os_hook C J now KEYBOARD (\<lambda>os. ((), type_fn text_arg os)) v os"

definition read_a11y_tree ::
  "'c crypto \<Rightarrow> consent_codec \<Rightarrow> py_float \<Rightarrow> ('os \<Rightarrow> py_value \<times> 'os) \<Rightarrow> 'c vault \<Rightarrow> 'os \<Rightarrow> (consent_error + py_value) \<times> 'os" where
  "read_a11y_tree C J now read_fn v os = os_hook C J now ACCESSIBILITY read_fn v os"

definition consent_status :: "'c crypto \<Rightarrow> consent_codec \<Rightarrow> py_float \<Rightarrow> 'c vault \<Rightarrow> (py_str, (vault_error, bool) py_result) py_dict" where
  "consent_status C J now v = map (\<lambda>f. (feature_key f, is_allowed C J now (feature_key f) v)) [SCREEN, CLIPBOARD, ACCESSIBILITY, KEYBOARD]"

lemma consent_load_save:
  assumes "vault_ok C v" "loads J (dumps J m) = Some m" "dumps J m \<noteq> []"
  shows "\<exists>v'. consent_save C J n m v = Inr v' \<and> consent_load C J v' = Inr m"
  using assms by (simp add: consent_save_def put_secret_def vault_ok_def readable_load consent_load_def get_secret_def)

text \<open>
  Consent is granular, timed and instantly revocable. A grant allows its feature until
  its lifetime ends (forever without one), a revocation refuses the feature from the very
  next call on, and neither changes what any other feature may do.
\<close>

theorem consent_lifecycle:
  assumes "aead C" "consent_load C J v = Inr m"
    and "m1 = dict_set f \<lparr>granted = True, granted_at = now, consent_expires = map_option (\<lambda>ttl. now + ttl) ttl\<rparr> m"
    and "m2 = dict_del f m1"
    and "\<forall>x \<in> {m1, m2}. loads J (dumps J x) = Some x \<and> dumps J x \<noteq> []"
  shows "\<exists>v1 v2. consent_grant C J n now f ttl v = Inr v1 \<and> consent_revoke C J n' f v1 = Inr v2 \<and>
    (\<forall>t. is_allowed C J t f v1 = Inr (case ttl of None \<Rightarrow> True | Some s \<Rightarrow> t < now + s)) \<and>
    (\<forall>t. is_allowed C J t f v2 = Inr False) \<and>
    (\<forall>t f'. f' \<noteq> f \<longrightarrow> is_allowed C J t f' v1 = is_allowed C J t f' v \<and> is_allowed C J t f' v2 = is_allowed C J t f' v)"
proof -
  have ok: "vault_ok C v" using assms(1,2)
    by (cases "vault_load C v") (auto simp: vault_ok_def readable_def consent_load_def get_secret_def)
  obtain v1 where v1: "consent_save C J n m1 v = Inr v1" "consent_load C J v1 = Inr m1"
    using consent_load_save [OF ok] assms(5) by blast
  have ok1: "vault_ok C v1" using assms(1) v1(2)
    by (cases "vault_load C v1") (auto simp: vault_ok_def readable_def consent_load_def get_secret_def)
  obtain v2 where v2: "consent_save C J n' m2 v1 = Inr v2" "consent_load C J v2 = Inr m2"
    using consent_load_save [OF ok1] assms(5) by blast
  have a: "is_allowed C J t f' v1 = Inr (row_allows t (dict_get m1 f'))"
    "is_allowed C J t f' v2 = Inr (row_allows t (dict_get m2 f'))"
    "is_allowed C J t f' v = Inr (row_allows t (dict_get m f'))" for t f'
    using v1(2) v2(2) assms(2) by (simp_all add: is_allowed_def)
  have "consent_grant C J n now f ttl v = Inr v1" using assms(2,3) v1(1) by (simp add: consent_grant_def)
  moreover have "consent_revoke C J n' f v1 = Inr v2"
    using v1(2) v2(1) assms(3,4) by (simp add: consent_revoke_def)
  ultimately show ?thesis
    by (intro exI [of _ v1] exI [of _ v2] conjI allI impI)
      (auto simp: a assms(3,4) row_allows_def split: option.split)
qed

text \<open>
  No OS capability is used without consent: when the feature is not allowed the hook
  raises and the operating system is not called.
\<close>

theorem hook_needs_consent:
  assumes "is_allowed C J now (feature_key f) v \<noteq> Inr True"
  shows "snd (os_hook C J now f call v os) = os \<and> (\<exists>e. fst (os_hook C J now f call v os) = Inl e) \<and>
    (f = SCREEN \<longrightarrow> snd (capture_screen C J now capture out v os) = os) \<and>
    (f = CLIPBOARD \<longrightarrow> snd (read_clipboard C J now read_fn v os) = os \<and> snd (write_clipboard C J now write_fn t v os) = os) \<and>
    (f = ACCESSIBILITY \<longrightarrow> snd (read_a11y_tree C J now read_tree v os) = os) \<and>
    (f = KEYBOARD \<longrightarrow> snd (type_text C J now type_fn t v os) = os)"
  using assms
  by (auto simp: os_hook_def consent_require_def capture_screen_def read_clipboard_def write_clipboard_def
      read_a11y_tree_def type_text_def split: sum.split)

definition demo_codec :: consent_codec where
  "demo_codec = \<lparr>dumps = (\<lambda>m. if m = [] then ''[]'' else ''[s]''),
     loads = (\<lambda>s. if s = ''[]'' then Some [] else Some [(''screen'', \<lparr>granted = True, granted_at = 10, consent_expires = Some 70\<rparr>)])\<rparr>"

lemma demo_consent_empty: "consent_load ideal demo_codec demo_vault = Inr []"
  by (simp add: consent_load_def get_secret_def empty_data_def)

theorem consent_lifecycle_witness:
  "\<exists>v1 v2. consent_grant ideal demo_codec ''n'' 10 ''screen'' (Some 60) demo_vault = Inr v1 \<and>
     consent_revoke ideal demo_codec ''m'' ''screen'' v1 = Inr v2 \<and>
     is_allowed ideal demo_codec 50 ''screen'' v1 = Inr True \<and> is_allowed ideal demo_codec 50 ''screen'' v2 = Inr False"
proof -
  let ?m1 = "[(''screen'', \<lparr>granted = True, granted_at = 10, consent_expires = Some (70::real)\<rparr>)]"
  have c: "\<forall>x \<in> {?m1, []}. loads demo_codec (dumps demo_codec x) = Some x \<and> dumps demo_codec x \<noteq> []"
    by (simp add: demo_codec_def)
  obtain v1 v2 where "consent_grant ideal demo_codec ''n'' 10 ''screen'' (Some 60) demo_vault = Inr v1"
    "consent_revoke ideal demo_codec ''m'' ''screen'' v1 = Inr v2"
    "\<forall>t. is_allowed ideal demo_codec t ''screen'' v1 = Inr (case Some 60 of None \<Rightarrow> True | Some s \<Rightarrow> t < 10 + s)"
    "\<forall>t. is_allowed ideal demo_codec t ''screen'' v2 = Inr False"
    using consent_lifecycle [OF aead_ideal demo_consent_empty, of ?m1 "''screen''" 10 "Some 60" "[]" "''n''" "''m''"] c by auto
  then show ?thesis by (intro exI [of _ v1] exI [of _ v2]) simp
qed

theorem hook_needs_consent_witness:
  "snd (os_hook ideal demo_codec 5 CLIPBOARD (\<lambda>n. (n, Suc n)) demo_vault 7) = 7"
proof -
  have "is_allowed ideal demo_codec 5 (feature_key CLIPBOARD) demo_vault \<noteq> Inr True"
    by (simp add: is_allowed_def demo_consent_empty row_allows_def)
  from hook_needs_consent [OF this] show ?thesis by (rule conjunct1)
qed

end
