(* ===== verification/Council.thy ===== *)
theory Council
  imports Tool_Layer Py_Regex "HOL-Library.List_Lexorder" "HOL-Library.Product_Lexorder" "HOL-Library.Char_ord"
    "HOL-Library.Multiset"
begin

text \<open>
  The council that answers a skill call by several models: anonymous answers
  (\<open>sera/council/runner.py\<close>), the parser of peer rankings (\<open>sera/council/rank.py\<close>), the
  agreement measure (\<open>sera/council/confidence.py\<close>), the Borda count and synthesis
  (\<open>sera/council/chairman.py\<close>) and the pipeline of the four (\<open>sera/skills/manifest.py\<close>). Models
  are functions from prompts to texts or exceptions; the shuffle and the clock are arguments.
  Concurrent calls are independent, so their results are listed in the order of the tasks.
\<close>


section \<open>Parsing a ranking\<close>

record RankingResult =
  ranking :: "py_str list"
  raw_section :: py_str
  is_complete :: bool
  missing :: "py_str set"
  parse_method :: py_str

definition str_upper :: "py_str \<Rightarrow> py_str" where
  "str_upper s = map to_upper s"

abbreviation ws :: re where
  "ws \<equiv> Star (Ch [Space])"

abbreviation stars :: re where
  "stars \<equiv> UpTo 2 (Lit (CHR ''*''))"

definition HEADER_RE :: re where
  "HEADER_RE = Seqs [Lits ''FINAL'', Plus (Ch [Space]), Lits ''RANKING'', ws, Lit (CHR '':'')]"

definition NUM_PREFIX :: re where
  "NUM_PREFIX =
     Seqs [Bol, ws,
           Alt (Seqs [Plus (Ch [Digit]), Ch (map One ''.:)''), ws])
               (Seqs [Lit (CHR ''(''), Plus (Ch [Digit]), Lit (CHR '')''), ws])]"

definition LABEL :: re where
  "LABEL = Grp (Ch [Range (CHR ''A'') (CHR ''E''), Range (CHR ''a'') (CHR ''e'')])"

definition STRATEGIES :: "(py_str \<times> re) list" where
  "STRATEGIES =
     [(''numbered_full'', Seqs [NUM_PREFIX, stars, Lits ''Response'', Plus (Ch [Space]), stars, LABEL, WordBound]),
      (''numbered_bare'', Seqs [NUM_PREFIX, stars, LABEL, stars, WordBound]),
      (''bare_sequence'', Seqs [Alt Bol (Lits ''**''), ws, LABEL, ws, Alt (Lits ''**'') Eol])]"

fun dedupe :: "'a set \<Rightarrow> 'a list \<Rightarrow> 'a list" where
  "dedupe seen [] = []"
| "dedupe seen (x # xs) = (if x \<in> seen then dedupe seen xs else x # dedupe (insert x seen) xs)"

definition extract_ordered :: "re \<Rightarrow> py_str \<Rightarrow> py_str set \<Rightarrow> py_str list" where
  "extract_ordered pattern text labels =
     dedupe {} (filter (\<lambda>l. l \<in> labels) (map str_upper (re_findall1 flag_mi pattern text)))"

definition raw_section_of :: "py_str \<Rightarrow> py_str" where
  "raw_section_of text =
     (case re_finditer flag_i HEADER_RE text of [] \<Rightarrow> [] | (i, j, g) # ms \<Rightarrow> drop j text)"

fun try_strategies :: "(py_str \<times> re) list \<Rightarrow> py_str \<Rightarrow> py_str set \<Rightarrow> (py_str \<times> py_str list) option" where
  "try_strategies [] text labels = None"
| "try_strategies ((m, p) # rest) text labels =
     (let ordered = extract_ordered p text labels
      in if set ordered = labels then Some (m, ordered) else try_strategies rest text labels)"

definition parse_ranking :: "py_str \<Rightarrow> py_str list \<Rightarrow> RankingResult" where
  "parse_ranking text valid_labels =
     (let labels = set (map str_upper valid_labels);
          raw = raw_section_of text;
          search_text = (if raw \<noteq> [] then raw else text)
      in case try_strategies STRATEGIES search_text labels of
           Some (m, ordered) \<Rightarrow>
             \<lparr>ranking = ordered, raw_section = raw, is_complete = True, missing = {}, parse_method = m\<rparr>
         | None \<Rightarrow>
             \<lparr>ranking = [], raw_section = raw, is_complete = False, missing = labels, parse_method = ''none''\<rparr>)"

lemma set_dedupe: "set (dedupe seen xs) = set xs - seen"
  by (induction seen xs rule: dedupe.induct) auto

lemma distinct_dedupe: "distinct (dedupe seen xs)"
  by (induction seen xs rule: dedupe.induct) (auto simp: set_dedupe)

lemma distinct_extract: "distinct (extract_ordered p text labels)"
  by (simp add: extract_ordered_def distinct_dedupe)

lemma try_strategies_Some:
  "try_strategies ss text labels = Some (m, ordered) \<Longrightarrow> distinct ordered \<and> set ordered = labels"
proof (induction ss)
  case (Cons s ss)
  then show ?case
    using distinct_extract [of "snd s" "text" labels] by (cases s) (simp add: Let_def split: if_splits)
qed simp

lemma parse_ranking_complete:
  "is_complete (parse_ranking text labels) \<Longrightarrow>
     distinct (ranking (parse_ranking text labels)) \<and> set (ranking (parse_ranking text labels)) = set (map str_upper labels)"
  by (auto simp: parse_ranking_def Let_def dest: try_strategies_Some split: option.splits)

text \<open>A complete ranking is a ballot: a permutation of the labels.\<close>

definition ballot :: "py_str list \<Rightarrow> py_str list \<Rightarrow> bool" where
  "ballot labels r \<longleftrightarrow> distinct r \<and> set r = set labels"

definition ballots :: "py_str list \<Rightarrow> RankingResult list \<Rightarrow> bool" where
  "ballots labels rs \<longleftrightarrow> list_all (\<lambda>r. is_complete r \<longrightarrow> ballot labels (ranking r)) rs"


section \<open>Agreement\<close>

record ConfidenceResult =
  tau :: py_float
  should_escalate :: bool
  threshold :: py_float
  pairs_evaluated :: nat
  complete_rankings :: nat

text \<open>\<open>{label: i for i, label in enumerate(r)}\<close>.\<close>

definition positions :: "py_str list \<Rightarrow> (py_str, int) py_dict" where
  "positions r = fold (\<lambda>(i, l). dict_set l (int i)) (enumerate 0 r) []"

fun pairs_of :: "'a list \<Rightarrow> ('a \<times> 'a) list" where
  "pairs_of [] = []"
| "pairs_of (x # xs) = map (Pair x) xs @ pairs_of xs"

definition order_sign :: "(py_str, int) py_dict \<Rightarrow> (py_str, int) py_dict \<Rightarrow> py_str \<times> py_str \<Rightarrow> int" where
  "order_sign pos1 pos2 = (\<lambda>(a, b).
     (let product = (the (dict_get pos1 a) - the (dict_get pos1 b)) * (the (dict_get pos2 a) - the (dict_get pos2 b))
      in if product > 0 then 1 else if product < 0 then - 1 else 0))"

text \<open>\<open>None\<close> is the \<open>KeyError\<close> of a label the second ranking lacks.\<close>

definition kendall_tau :: "py_str list \<Rightarrow> py_str list \<Rightarrow> py_float option" where
  "kendall_tau r1 r2 =
     (let pos1 = positions r1; pos2 = positions r2; labels = dict_keys pos1; n = length labels
      in if n < 2 then Some 1
         else if list_ex (\<lambda>l. dict_get pos2 l = None) labels then None
         else Some (of_int (sum_list (map (order_sign pos1 pos2) (pairs_of labels))) / real (n * (n - 1) div 2)))"

fun taus_of :: "(RankingResult \<times> RankingResult) list \<Rightarrow> py_float list option" where
  "taus_of [] = Some []"
| "taus_of ((r1, r2) # ps) =
     (case (kendall_tau (ranking r1) (ranking r2), taus_of ps) of (Some t, Some ts) \<Rightarrow> Some (t # ts) | _ \<Rightarrow> None)"

definition compute_confidence :: "RankingResult list \<Rightarrow> py_float \<Rightarrow> ConfidenceResult option" where
  "compute_confidence rs thr =
     (let complete = filter is_complete rs; n = length complete
      in if n < 2
         then Some \<lparr>tau = 1, should_escalate = False, threshold = thr, pairs_evaluated = 0, complete_rankings = n\<rparr>
         else case taus_of (pairs_of complete) of
                None \<Rightarrow> None
              | Some taus \<Rightarrow>
                  (let mean = sum_list taus / real (length taus)
                   in Some \<lparr>tau = mean, should_escalate = (mean < thr), threshold = thr,
                            pairs_evaluated = length taus, complete_rankings = n\<rparr>))"

text \<open>The position of a label in a ballot, and sums over pairs of a list.\<close>

definition pos_of :: "py_str list \<Rightarrow> py_str \<Rightarrow> int" where
  "pos_of r l = int (length (takeWhile (\<lambda>x. x \<noteq> l) r))"

lemma positions_fold:
  "distinct r \<Longrightarrow> set r \<inter> fst ` set d = {} \<Longrightarrow>
     fold (\<lambda>(i, l). dict_set l (int i)) (enumerate k r) d = d @ map (\<lambda>(i, l). (l, int i)) (enumerate k r)"
  by (induction r arbitrary: k d) (auto simp: update_fresh)

lemma positions_distinct: "distinct r \<Longrightarrow> positions r = map (\<lambda>(i, l). (l, int i)) (enumerate 0 r)"
  by (simp add: positions_def positions_fold)

lemma positions_keys: "distinct r \<Longrightarrow> dict_keys (positions r) = r"
  by (simp add: positions_distinct comp_def case_prod_beta)

lemma positions_length: "distinct r \<Longrightarrow> length (positions r) = length r"
  by (simp add: positions_distinct)

lemma positions_get_from:
  "l \<in> set r \<Longrightarrow> dict_get (map (\<lambda>(i, l). (l, int i)) (enumerate k r)) l = Some (int k + pos_of r l)"
  by (induction r arbitrary: k) (auto simp: pos_of_def)

lemma positions_get: "distinct r \<Longrightarrow> l \<in> set r \<Longrightarrow> dict_get (positions r) l = Some (pos_of r l)"
  by (simp add: positions_distinct positions_get_from)

lemma pos_of_nth: "l \<in> set r \<Longrightarrow> r ! nat (pos_of r l) = l"
  by (induction r) (auto simp: pos_of_def)

lemma pos_of_inj: "a \<in> set r \<Longrightarrow> b \<in> set r \<Longrightarrow> pos_of r a = pos_of r b \<longleftrightarrow> a = b"
  by (metis pos_of_nth)

lemma length_pairs_of: "length (pairs_of xs) = length xs * (length xs - 1) div 2"
proof -
  have "2 * length (pairs_of xs) = length xs * (length xs - 1)"
  proof (induction xs)
    case (Cons x xs)
    then show ?case by (cases xs) simp_all
  qed simp
  then show ?thesis by simp
qed

lemma pairs_of_mem: "distinct xs \<Longrightarrow> (a, b) \<in> set (pairs_of xs) \<Longrightarrow> a \<in> set xs \<and> b \<in> set xs \<and> a \<noteq> b"
  by (induction xs) auto

text \<open>For a symmetric function the sum over pairs only depends on the elements.\<close>

lemma pairs_sum:
  fixes f :: "'a \<times> 'a \<Rightarrow> 'b::comm_ring_1"
  assumes "\<And>a b. a \<in> set xs \<Longrightarrow> b \<in> set xs \<Longrightarrow> f (a, b) = f (b, a)"
  shows "2 * sum_list (map f (pairs_of xs)) = (\<Sum>x\<leftarrow>xs. \<Sum>y\<leftarrow>xs. f (x, y)) - (\<Sum>x\<leftarrow>xs. f (x, x))"
  using assms
proof (induction xs)
  case (Cons x xs)
  have "(\<Sum>a\<leftarrow>xs. f (a, x)) = (\<Sum>y\<leftarrow>xs. f (x, y))"
    by (rule arg_cong [of _ _ sum_list], rule map_cong) (simp_all add: Cons.prems)
  moreover have "2 * sum_list (map f (pairs_of xs)) = (\<Sum>x\<leftarrow>xs. \<Sum>y\<leftarrow>xs. f (x, y)) - (\<Sum>x\<leftarrow>xs. f (x, x))"
    using Cons.prems by (intro Cons.IH) simp
  ultimately show ?case by (simp add: sum_list_addf algebra_simps comp_def)
qed simp

lemma sum_list_mset:
  fixes g :: "'a \<Rightarrow> 'b::comm_monoid_add"
  assumes "mset xs = mset ys"
  shows "sum_list (map g xs) = sum_list (map g ys)"
proof -
  have "sum_mset (mset (map g xs)) = sum_mset (mset (map g ys))" using assms by simp
  then show ?thesis by (simp only: sum_mset_sum_list)
qed

lemma pairs_sum_mset:
  fixes f :: "'a \<times> 'a \<Rightarrow> 'b::{idom, ring_char_0}"
  assumes "mset xs = mset ys" "\<And>a b. a \<in> set xs \<Longrightarrow> b \<in> set xs \<Longrightarrow> f (a, b) = f (b, a)"
  shows "sum_list (map f (pairs_of xs)) = sum_list (map f (pairs_of ys))"
proof -
  have set: "set ys = set xs" using assms(1) by (metis set_mset_mset)
  have inner: "(\<Sum>y\<leftarrow>xs. f (x, y)) = (\<Sum>y\<leftarrow>ys. f (x, y))" for x by (rule sum_list_mset [OF assms(1)])
  have "2 * sum_list (map f (pairs_of xs)) = 2 * sum_list (map f (pairs_of ys))"
    using pairs_sum [of xs f] pairs_sum [of ys f] assms(2)
      sum_list_mset [OF assms(1), of "\<lambda>x. \<Sum>y\<leftarrow>ys. f (x, y)"] sum_list_mset [OF assms(1), of "\<lambda>x. f (x, x)"]
    by (simp add: set inner)
  then show ?thesis by simp
qed

lemma order_sign_swap: "order_sign p q (a, b) = order_sign p q (b, a)"
proof -
  have "(x - y) * (u - v) = (y - x) * (v - u)" for x y u v :: int by (simp add: algebra_simps)
  then show ?thesis by (simp add: order_sign_def Let_def)
qed

lemma order_sign_commute: "order_sign p q = order_sign q p"
  by (rule ext) (auto simp: order_sign_def Let_def mult.commute)

lemma order_sign_bounds: "- 1 \<le> order_sign p q x" "order_sign p q x \<le> 1"
  by (auto simp: order_sign_def Let_def split: prod.split)

lemma sum_signs_bounds: "\<bar>sum_list (map (order_sign p q) xs)\<bar> \<le> int (length xs)"
proof (induction xs)
  case (Cons x xs)
  then show ?case using order_sign_bounds [of p q x] by simp
qed simp

lemma ballot_mset: "ballot labels r1 \<Longrightarrow> ballot labels r2 \<Longrightarrow> mset r1 = mset r2"
  using set_eq_iff_mset_eq_distinct [of r1 r2] by (simp add: ballot_def)

lemma ballot_length: "ballot labels r1 \<Longrightarrow> ballot labels r2 \<Longrightarrow> length r1 = length r2"
  by (metis ballot_mset size_mset)

lemma kendall_ballots:
  assumes "ballot labels r1" "ballot labels r2"
  shows "kendall_tau r1 r2 = Some (if length r1 < 2 then 1
     else of_int (sum_list (map (order_sign (positions r1) (positions r2)) (pairs_of r1))) / real (length (pairs_of r1)))"
proof -
  have "list_ex (\<lambda>l. dict_get (positions r2) l = None) r1 \<longleftrightarrow> False"
    using assms positions_get [of r2] by (auto simp: list_ex_iff ballot_def)
  then show ?thesis using assms
    by (simp add: kendall_tau_def Let_def positions_keys positions_length ballot_def length_pairs_of)
qed

lemma kendall_commute:
  assumes "ballot labels r1" "ballot labels r2"
  shows "kendall_tau r1 r2 = kendall_tau r2 r1"
proof -
  have "sum_list (map (order_sign (positions r1) (positions r2)) (pairs_of r1)) =
      sum_list (map (order_sign (positions r2) (positions r1)) (pairs_of r2))"
    unfolding order_sign_commute [of "positions r2"]
    by (rule pairs_sum_mset [OF ballot_mset [OF assms]]) (rule order_sign_swap)
  then show ?thesis
    by (simp add: kendall_ballots [OF assms] kendall_ballots [OF assms(2,1)] ballot_length [OF assms] length_pairs_of)
qed

lemma kendall_bounds:
  assumes "ballot labels r1" "ballot labels r2" "kendall_tau r1 r2 = Some t"
  shows "- 1 \<le> t \<and> t \<le> 1"
proof (cases "length r1 < 2")
  case False
  let ?s = "sum_list (map (order_sign (positions r1) (positions r2)) (pairs_of r1))" and ?n = "length (pairs_of r1)"
  have "0 < ?n" using False by (cases r1) auto
  moreover have "\<bar>real_of_int ?s\<bar> \<le> real ?n"
    using sum_signs_bounds [of "positions r1" "positions r2" "pairs_of r1"] by linarith
  ultimately have "- 1 \<le> real_of_int ?s / real ?n \<and> real_of_int ?s / real ?n \<le> 1"
    by (simp add: divide_le_eq le_divide_eq abs_le_iff)
  with False assms show ?thesis by (simp add: kendall_ballots)
qed (use assms in \<open>simp add: kendall_ballots\<close>)

lemma kendall_self: "ballot labels r \<Longrightarrow> kendall_tau r r = Some 1"
proof -
  assume b: "ballot labels r"
  have "order_sign (positions r) (positions r) x = 1" if "x \<in> set (pairs_of r)" for x
  proof -
    obtain a c where x: "x = (a, c)" by (cases x)
    then have m: "a \<in> set r" "c \<in> set r" "a \<noteq> c" using that b pairs_of_mem [of r a c] by (auto simp: ballot_def)
    then have "pos_of r a - pos_of r c \<noteq> 0" using pos_of_inj by simp
    then have "0 < (pos_of r a - pos_of r c) * (pos_of r a - pos_of r c)"
      by (metis not_square_less_zero linorder_neqE_linordered_idom no_zero_divisors)
    with m b x show ?thesis by (simp add: order_sign_def positions_get ballot_def)
  qed
  then have "map (order_sign (positions r) (positions r)) (pairs_of r) = map (\<lambda>x. 1) (pairs_of r)" by simp
  then have "sum_list (map (order_sign (positions r) (positions r)) (pairs_of r)) = int (length (pairs_of r))"
    by (simp add: sum_list_triv del: map_eq_conv)
  moreover have "pairs_of r \<noteq> []" if "\<not> length r < 2" using that by (cases r rule: pairs_of.cases; cases "tl r") auto
  ultimately show ?thesis by (simp add: kendall_ballots [OF b b])
qed

lemma kendall_defined: "ballot labels r1 \<Longrightarrow> ballot labels r2 \<Longrightarrow> \<exists>t. kendall_tau r1 r2 = Some t"
  using kendall_ballots by blast

lemma taus_of_ballots:
  "list_all (\<lambda>(r1, r2). ballot labels (ranking r1) \<and> ballot labels (ranking r2)) ps \<Longrightarrow>
     taus_of ps = Some (map (\<lambda>(r1, r2). the (kendall_tau (ranking r1) (ranking r2))) ps)"
  by (induction ps rule: taus_of.induct) (auto dest: kendall_defined)

lemma pairs_of_set: "(a, b) \<in> set (pairs_of xs) \<Longrightarrow> a \<in> set xs \<and> b \<in> set xs"
  by (induction xs) auto

lemma mean_bounds:
  fixes xs :: "real list"
  assumes "\<forall>x \<in> set xs. - 1 \<le> x \<and> x \<le> 1" "xs \<noteq> []"
  shows "- 1 \<le> sum_list xs / real (length xs) \<and> sum_list xs / real (length xs) \<le> 1"
proof -
  have "\<bar>sum_list xs\<bar> \<le> real (length xs)"
    using assms(1) by (induction xs) auto
  then show ?thesis using assms(2) by (simp add: divide_le_eq le_divide_eq abs_le_iff)
qed

lemma confidence_ballots:
  assumes "ballots labels rs" "2 \<le> length (filter is_complete rs)"
  defines "taus \<equiv> map (\<lambda>(r1, r2). the (kendall_tau (ranking r1) (ranking r2))) (pairs_of (filter is_complete rs))"
  shows "compute_confidence rs thr = Some
    \<lparr>tau = sum_list taus / real (length taus), should_escalate = (sum_list taus / real (length taus) < thr),
     threshold = thr, pairs_evaluated = length taus, complete_rankings = length (filter is_complete rs)\<rparr>"
proof -
  have "list_all (\<lambda>(r1, r2). ballot labels (ranking r1) \<and> ballot labels (ranking r2)) (pairs_of (filter is_complete rs))"
    using assms(1) by (auto simp: list_all_iff ballots_def dest!: pairs_of_set)
  from taus_of_ballots [OF this] assms(2) show ?thesis
    by (simp add: compute_confidence_def Let_def taus_def)
qed

lemma confidence_core:
  assumes "ballots labels rs" "mset rs = mset rs'" "thr \<le> 1"
  shows "\<exists>c. compute_confidence rs thr = Some c \<and> compute_confidence rs' thr = Some c \<and>
    - 1 \<le> tau c \<and> tau c \<le> 1 \<and> should_escalate c = (tau c < thr) \<and>
    pairs_evaluated c = complete_rankings c * (complete_rankings c - 1) div 2 \<and>
    complete_rankings c = length (filter is_complete rs) \<and>
    (list_all (\<lambda>r. \<not> is_complete r \<or> ranking r = common) rs \<longrightarrow> tau c = 1)"
proof -
  let ?k = "length (filter is_complete rs)" and ?f = "\<lambda>(r1, r2). the (kendall_tau (ranking r1) (ranking r2))"
  have m: "mset (filter is_complete rs) = mset (filter is_complete rs')" using assms(2) by simp
  then have k: "length (filter is_complete rs') = ?k" by (metis size_mset)
  show ?thesis
  proof (cases "?k < 2")
    case True
    moreover from True have "?k * (?k - 1) div 2 = 0" by (cases ?k) auto
    ultimately show ?thesis using k assms(3) by (simp add: compute_confidence_def Let_def)
  next
    case False
    let ?taus = "map ?f (pairs_of (filter is_complete rs))"
    have b': "ballots labels rs'" using assms(1,2) unfolding ballots_def list_all_iff by (metis set_mset_mset)
    have bal: "ballot labels (ranking r)" if "r \<in> set (filter is_complete rs)" for r
      using that assms(1) by (auto simp: ballots_def list_all_iff)
    have same: "sum_list (map ?f (pairs_of (filter is_complete rs'))) = sum_list ?taus"
    proof (rule pairs_sum_mset [OF m, symmetric])
      fix a b assume "a \<in> set (filter is_complete rs)" "b \<in> set (filter is_complete rs)"
      then show "?f (a, b) = ?f (b, a)" by (simp only: prod.case kendall_commute [OF bal bal])
    qed
    have len: "length ?taus = ?k * (?k - 1) div 2" by (simp only: length_map length_pairs_of)
    have "?taus \<noteq> []" using False by (cases "filter is_complete rs" rule: pairs_of.cases; cases "tl (filter is_complete rs)") auto
    moreover have "- 1 \<le> t \<and> t \<le> 1" if t: "t \<in> set ?taus" for t
    proof -
      obtain r1 r2 where r: "(r1, r2) \<in> set (pairs_of (filter is_complete rs))" "t = the (kendall_tau (ranking r1) (ranking r2))"
        using t by auto
      have b: "ballot labels (ranking r1)" "ballot labels (ranking r2)"
        by (rule bal, use pairs_of_set [OF r(1)] in simp)+
      obtain u where "kendall_tau (ranking r1) (ranking r2) = Some u" using kendall_defined [OF b] by blast
      with r(2) kendall_bounds [OF b this] show ?thesis by simp
    qed
    ultimately have bounds: "- 1 \<le> sum_list ?taus / real (length ?taus) \<and> sum_list ?taus / real (length ?taus) \<le> 1"
      by (intro mean_bounds) auto
    have one: "sum_list ?taus / real (length ?taus) = 1" if c: "list_all (\<lambda>r. \<not> is_complete r \<or> ranking r = common) rs"
    proof -
      have "?f p = 1" if p: "p \<in> set (pairs_of (filter is_complete rs))" for p
      proof -
        obtain r1 r2 where r: "p = (r1, r2)" by (cases p)
        have "r1 \<in> set (filter is_complete rs)" "r2 \<in> set (filter is_complete rs)"
          using pairs_of_set [OF p [unfolded r]] by simp_all
        then have "ranking r1 = common" "ranking r2 = common" "ballot labels common" using c bal by (auto simp: list_all_iff)
        then show ?thesis using kendall_self r by simp
      qed
      then have "?taus = map (\<lambda>p. 1) (pairs_of (filter is_complete rs))" by (intro map_cong refl)
      then have "sum_list ?taus = real (length ?taus)" by (simp only: sum_list_triv length_map)
      with \<open>?taus \<noteq> []\<close> show ?thesis by simp
    qed
    have k2: "2 \<le> ?k" "2 \<le> length (filter is_complete rs')" using False k by simp_all
    have len': "length (map ?f (pairs_of (filter is_complete rs'))) = length ?taus"
      by (simp only: length_map length_pairs_of k)
    let ?t = "sum_list ?taus / real (length ?taus)"
    let ?c = "\<lparr>tau = ?t, should_escalate = (?t < thr), threshold = thr, pairs_evaluated = length ?taus, complete_rankings = ?k\<rparr>"
    have "compute_confidence rs thr = Some ?c" by (rule confidence_ballots [OF assms(1) k2(1)])
    moreover have "compute_confidence rs' thr = Some ?c"
      unfolding confidence_ballots [OF b' k2(2)] same len' k by (rule refl)
    moreover have "- 1 \<le> tau ?c \<and> tau ?c \<le> 1 \<and> should_escalate ?c = (tau ?c < thr) \<and>
        pairs_evaluated ?c = complete_rankings ?c * (complete_rankings ?c - 1) div 2 \<and> complete_rankings ?c = ?k \<and>
        (list_all (\<lambda>r. \<not> is_complete r \<or> ranking r = common) rs \<longrightarrow> tau ?c = 1)"
      unfolding ConfidenceResult.simps using bounds one len by blast
    ultimately show ?thesis by blast
  qed
qed

lemma parsed_ballots: "ballots (map str_upper labels) (map (\<lambda>t. parse_ranking t labels) texts)"
  using parse_ranking_complete by (auto simp: ballots_def list_all_iff ballot_def)

text \<open>
  The confidence of a council is a fair measure of agreement. Whatever texts the models
  wrote, it is defined, lies between -1 and 1, counts every pair of complete rankings once,
  does not depend on the order in which the texts arrived, is 1 when the complete rankings are
  all the same, and escalation is exactly the mean falling below the threshold.
\<close>

theorem confidence_fair:
  assumes "mset texts = mset texts'" "thr \<le> 1"
  shows "\<exists>c. compute_confidence (map (\<lambda>t. parse_ranking t labels) texts) thr = Some c \<and>
    compute_confidence (map (\<lambda>t. parse_ranking t labels) texts') thr = Some c \<and>
    - 1 \<le> tau c \<and> tau c \<le> 1 \<and> should_escalate c = (tau c < thr) \<and>
    pairs_evaluated c = complete_rankings c * (complete_rankings c - 1) div 2 \<and>
    complete_rankings c = length (filter (\<lambda>t. is_complete (parse_ranking t labels)) texts) \<and>
    (list_all (\<lambda>t. \<not> is_complete (parse_ranking t labels) \<or> ranking (parse_ranking t labels) = common) texts \<longrightarrow> tau c = 1)"
proof -
  have "mset (map (\<lambda>t. parse_ranking t labels) texts) = mset (map (\<lambda>t. parse_ranking t labels) texts')"
    using assms(1) by simp
  from confidence_core [OF parsed_ballots this assms(2), of common] show ?thesis
    by (simp only: filter_map comp_def list.pred_map length_map)
qed

text \<open>The text of a member's ranking in the documented format.\<close>

definition demo_ranking :: "py_str \<Rightarrow> py_str" where
  "demo_ranking order = concat (''FINAL RANKING:'' # map (\<lambda>c. [CHR 0x0A] @ ''1. '' @ [c]) order)"

lemma demo_parse:
  "ranking (parse_ranking (demo_ranking ''BA'') [''A'', ''B'']) = [''B'', ''A'']"
  "is_complete (parse_ranking (demo_ranking ''BA'') [''A'', ''B''])"
  by code_simp+

theorem confidence_fair_witness:
  "\<exists>c. compute_confidence (map (\<lambda>t. parse_ranking t [''A'', ''B'']) [demo_ranking ''BA'', demo_ranking ''BA'']) (3/10) = Some c \<and>
     tau c = 1 \<and> \<not> should_escalate c \<and> pairs_evaluated c = 1"
  using confidence_fair [of "[demo_ranking ''BA'', demo_ranking ''BA'']" _ "3/10" "[''A'', ''B'']" "[''B'', ''A'']", OF refl]
  by (auto simp: demo_parse)


section \<open>The runner\<close>

definition COUNCIL_LABELS :: "py_str list" where
  "COUNCIL_LABELS = [''A'', ''B'', ''C'', ''D'', ''E'']"

definition nl :: py_str where
  "nl = [CHR 0x0A]"

record CouncilAnswer =
  ans_label :: py_str
  ans_content :: py_str
  ans_error :: "py_str option"

record CouncilRun =
  question :: py_str
  answers :: "CouncilAnswer list"
  label_map :: "(py_str, py_str) py_dict"

text \<open>\<open>llm_factory(model_id)\<close> may raise, and so may each call of what it returns.\<close>

type_synonym council_llm = "py_str \<Rightarrow> (py_exc, py_str) py_result"

type_synonym llm_factory = "py_str \<Rightarrow> (py_exc, council_llm) py_result"

definition member_prompt :: "py_str \<Rightarrow> py_str \<Rightarrow> py_str" where
  "member_prompt label q =
     concat [''You are council member '', label, ''. Answer the question below concisely '',
             ''and completely. Do not identify yourself by any model name or provider.'', nl, nl, ''Question: '', q]"

definition call_member :: "llm_factory \<Rightarrow> py_str \<Rightarrow> py_str \<Rightarrow> py_str \<Rightarrow> CouncilAnswer" where
  "call_member F q model label =
     (case rbind (F model) (\<lambda>llm. llm (member_prompt label q)) of
        Inr text \<Rightarrow> \<lparr>ans_label = label, ans_content = text, ans_error = None\<rparr>
      | Inl e \<Rightarrow> \<lparr>ans_label = label, ans_content = [], ans_error = Some (exc_text e)\<rparr>)"

text \<open>\<open>shuffled\<close> is the shuffle of the first \<open>len(models)\<close> labels; \<open>zip\<close> drops models beyond it.\<close>

definition assign_labels :: "py_str list \<Rightarrow> py_str list \<Rightarrow> (py_str, py_str) py_dict" where
  "assign_labels models shuffled = fold (\<lambda>(m, l). dict_set m l) (zip models shuffled) []"

definition run_council :: "llm_factory \<Rightarrow> py_str list \<Rightarrow> py_str \<Rightarrow> py_str list \<Rightarrow> CouncilRun" where
  "run_council F shuffled q models =
     (let lm = assign_labels models shuffled
      in \<lparr>question = q, answers = map (\<lambda>(m, l). call_member F q m l) lm, label_map = lm\<rparr>)"


section \<open>The Borda count and the chairman\<close>

record ChairmanResult =
  winner_label :: py_str
  winner_model :: "py_str option"
  synthesis :: py_str
  borda_scores :: "(py_str, int) py_dict"
  rankings_used :: nat
  synthesis_model :: py_str

fun borda_add :: "int \<Rightarrow> py_str list \<Rightarrow> (py_str, int) py_dict \<Rightarrow> (py_str, int) py_dict" where
  "borda_add pts [] scores = scores"
| "borda_add pts (l # ls) scores =
     borda_add (pts - 1) ls (case dict_get scores l of None \<Rightarrow> scores | Some s \<Rightarrow> dict_set l (s + pts) scores)"

definition borda_count :: "RankingResult list \<Rightarrow> py_str list \<Rightarrow> (py_str, int) py_dict" where
  "borda_count rankings labels =
     foldl (\<lambda>scores r. if is_complete r then borda_add (int (length labels) - 1) (ranking r) scores else scores)
       (fold (\<lambda>l. dict_set l 0) labels []) rankings"

text \<open>\<open>min(xs, key=...)\<close>: the first element of least key; \<open>None\<close> is the error on an empty list.\<close>

fun min_by :: "('a \<Rightarrow> 'b::linorder) \<Rightarrow> 'a list \<Rightarrow> 'a option" where
  "min_by key [] = None"
| "min_by key (x # xs) = (case min_by key xs of None \<Rightarrow> Some x | Some y \<Rightarrow> Some (if key x \<le> key y then x else y))"

definition score_key :: "(py_str, int) py_dict \<Rightarrow> py_str \<Rightarrow> int \<times> py_str" where
  "score_key scores l = (- dict_get_or scores l 0, l)"

definition pick_winner :: "(py_str, int) py_dict \<Rightarrow> py_str option" where
  "pick_winner scores = min_by (score_key scores) (dict_keys scores)"

fun join_with :: "py_str \<Rightarrow> py_str list \<Rightarrow> py_str" where
  "join_with sep [] = []"
| "join_with sep [s] = s"
| "join_with sep (s # ss) = s @ sep @ join_with sep ss"

definition answer_by_label :: "CouncilRun \<Rightarrow> (py_str, py_str) py_dict" where
  "answer_by_label run = fold (\<lambda>a. dict_set (ans_label a) (ans_content a)) (answers run) []"

definition ranked_answers :: "CouncilRun \<Rightarrow> (py_str, int) py_dict \<Rightarrow> py_str" where
  "ranked_answers run scores =
     join_with (nl @ nl)
       (map (\<lambda>(i, l). concat [''['', show_nat (i + 1), ''] '', dict_get_or (answer_by_label run) l []])
          (filter (\<lambda>(i, l). dict_get_or (answer_by_label run) l [] \<noteq> [])
             (enumerate 0 (sort_key (score_key scores) (dict_keys scores)))))"

definition synthesis_prompt :: "py_str \<Rightarrow> py_str \<Rightarrow> py_str" where
  "synthesis_prompt q ranked =
     concat [''Council evaluated: '', [CHR 0x22], q, [CHR 0x22], nl, nl,
             ''Answers ranked by peer consensus (best first):'', nl, nl, ranked, nl, nl,
             ''Synthesize a final answer that incorporates the best insights, '',
             ''prioritising the top-ranked content.'']"

definition labels_to_models :: "(py_str, py_str) py_dict \<Rightarrow> (py_str, py_str) py_dict" where
  "labels_to_models lm = fold (\<lambda>(m, l). dict_set l m) lm []"

definition run_chairman ::
  "CouncilRun \<Rightarrow> RankingResult list \<Rightarrow> council_llm \<Rightarrow> py_str \<Rightarrow> ChairmanResult option"
where
  "run_chairman run rankings llm model_id =
     (let scores = borda_count rankings (map ans_label (answers run)) in
      case pick_winner scores of
        None \<Rightarrow> None
      | Some w \<Rightarrow>
          Some \<lparr>winner_label = w, winner_model = dict_get (labels_to_models (label_map run)) w,
                synthesis = (case llm (synthesis_prompt (question run) (ranked_answers run scores)) of
                   Inr text \<Rightarrow> text | Inl e \<Rightarrow> dict_get_or (answer_by_label run) w []),
                borda_scores = scores, rankings_used = length (filter is_complete rankings),
                synthesis_model = model_id\<rparr>)"


section \<open>The pipeline\<close>

record CouncilConfig =
  models :: "py_str list"
  council_factory :: llm_factory
  synthesis_model_id :: py_str
  escalation_threshold :: py_float

definition make_config :: "py_str list \<Rightarrow> llm_factory \<Rightarrow> py_str \<Rightarrow> py_float \<Rightarrow> CouncilConfig" where
  "make_config ms F synth thr =
     \<lparr>models = ms, council_factory = F,
      synthesis_model_id = (case ms of m # _ \<Rightarrow> if synth = [] then m else synth | [] \<Rightarrow> synth),
      escalation_threshold = thr\<rparr>"

definition ranking_prompt :: "py_str \<Rightarrow> py_str \<Rightarrow> nat \<Rightarrow> py_str" where
  "ranking_prompt q block n =
     concat [''Question: '', q, nl, nl, ''Evaluate these responses and rank them from best to worst.'', nl, nl,
             block, nl, nl, ''End your response with the ranking in this exact format:'', nl, ''FINAL RANKING:'', nl,
             ''1. [label]'', nl, ''2. [label]'', nl,
             join_with nl (map (\<lambda>i. show_nat (i + 1) @ ''. [label]'') [2..<n])]"

definition failed_ranking :: "py_str list \<Rightarrow> RankingResult" where
  "failed_ranking valid =
     \<lparr>ranking = [], raw_section = [], is_complete = False, missing = set valid, parse_method = ''none''\<rparr>"

definition rank_one :: "llm_factory \<Rightarrow> py_str \<Rightarrow> py_str \<Rightarrow> py_str list \<Rightarrow> RankingResult" where
  "rank_one F model prompt valid =
     (case rbind (F model) (\<lambda>llm. llm prompt) of
        Inl e \<Rightarrow> failed_ranking valid | Inr text \<Rightarrow> parse_ranking text valid)"

definition collect_rankings :: "llm_factory \<Rightarrow> CouncilRun \<Rightarrow> py_str list \<Rightarrow> RankingResult list" where
  "collect_rankings F run valid =
     (let shown = fold (\<lambda>a. if ans_error a = None \<or> ans_error a = Some []
                            then dict_set (ans_label a) (ans_content a) else (\<lambda>d. d)) (answers run) []
      in if length shown < 2 then []
         else (let block = join_with (nl @ nl) (map (\<lambda>(l, c). concat [''['', l, '']: '', c]) (sort_key (\<lambda>x. x) shown));
                   prompt = ranking_prompt (question run) block (length valid);
                   by_label = labels_to_models (label_map run)
               in List.map_filter (\<lambda>l. map_option (\<lambda>m. rank_one F m prompt valid) (dict_get by_label l)) valid))"

text \<open>\<open>None\<close> of the confidence and of the chairman are the exceptions they let out.\<close>

datatype council_error = CouncilKeyError | EmptyCouncil | FactoryRaised py_exc

definition council_skill_dispatch :: "py_str list \<Rightarrow> py_str \<Rightarrow> CouncilConfig \<Rightarrow> (council_error, py_str) py_result" where
  "council_skill_dispatch shuffled q cfg =
     (let run = run_council (council_factory cfg) shuffled q (models cfg);
          valid = map ans_label (answers run);
          rankings = collect_rankings (council_factory cfg) run valid
      in case compute_confidence rankings (escalation_threshold cfg) of
           None \<Rightarrow> Inl CouncilKeyError
         | Some c \<Rightarrow>
             (case council_factory cfg (synthesis_model_id cfg) of
                Inl e \<Rightarrow> Inl (FactoryRaised e)
              | Inr llm \<Rightarrow>
                  (case run_chairman run rankings llm (synthesis_model_id cfg) of
                     None \<Rightarrow> Inl EmptyCouncil | Some res \<Rightarrow> Inr (synthesis res))))"


section \<open>What the count means\<close>

lemma update_keys_present: "k \<in> fst ` set d \<Longrightarrow> dict_keys (AList.update k v d) = dict_keys d"
  by (induction d) auto

lemma borda_add_keys: "dict_keys (borda_add p r scores) = dict_keys scores"
proof (induction p r scores rule: borda_add.induct)
  case (2 p l ls scores)
  have "dict_keys (AList.update l v scores) = dict_keys scores" if "dict_get scores l = Some s" for v s
    using that by (intro update_keys_present) (metis domI dom_map_of_conv_image_fst)
  with 2 show ?case by (simp split: option.split)
qed simp

lemma pos_of_Cons: "pos_of (x # xs) l = (if l = x then 0 else 1 + pos_of xs l)"
  by (simp add: pos_of_def)

lemma borda_add_get:
  "distinct r \<Longrightarrow> dict_get (borda_add p r scores) l =
     (if l \<in> set r then map_option (\<lambda>s. s + p - pos_of r l) (dict_get scores l) else dict_get scores l)"
proof (induction p r scores rule: borda_add.induct)
  case (2 p x xs scores)
  then show ?case
    by (cases "dict_get scores x"; cases "dict_get scores l") (auto simp: pos_of_Cons simp del: map_of_eq_Some_iff)
qed simp

abbreviation add_ranking :: "int \<Rightarrow> (py_str, int) py_dict \<Rightarrow> RankingResult \<Rightarrow> (py_str, int) py_dict" where
  "add_ranking n scores r \<equiv> (if is_complete r then borda_add (n - 1) (ranking r) scores else scores)"

definition borda_score :: "py_str list \<Rightarrow> RankingResult list \<Rightarrow> py_str \<Rightarrow> int" where
  "borda_score labels rs l = (\<Sum>r\<leftarrow>filter is_complete rs. int (length labels) - 1 - pos_of (ranking r) l)"

lemma add_rankings:
  assumes "ballots labels rs" "l \<in> set labels"
  shows "dict_get (foldl (add_ranking n) scores rs) l =
      map_option (\<lambda>s. s + (\<Sum>r\<leftarrow>filter is_complete rs. n - 1 - pos_of (ranking r) l)) (dict_get scores l)"
    and "dict_keys (foldl (add_ranking n) scores rs) = dict_keys scores"
proof -
  show "dict_get (foldl (add_ranking n) scores rs) l =
      map_option (\<lambda>s. s + (\<Sum>r\<leftarrow>filter is_complete rs. n - 1 - pos_of (ranking r) l)) (dict_get scores l)"
    using assms(1)
  proof (induction rs arbitrary: scores)
    case (Cons r rs)
    then have "ballots labels rs" "is_complete r \<Longrightarrow> distinct (ranking r) \<and> l \<in> set (ranking r)"
      using assms(2) by (auto simp: ballots_def ballot_def)
    with Cons.IH show ?case
      by (cases "dict_get scores l") (auto simp: borda_add_get simp del: map_of_eq_Some_iff)
  qed (simp add: option.map_ident)
  show "dict_keys (foldl (add_ranking n) scores rs) = dict_keys scores"
    by (induction rs arbitrary: scores) (auto simp: borda_add_keys)
qed

lemma zero_scores:
  "distinct ls \<Longrightarrow> set ls \<inter> fst ` set d = {} \<Longrightarrow> fold (\<lambda>l. dict_set l 0) ls d = d @ map (\<lambda>l. (l, 0)) ls"
  by (induction ls arbitrary: d) (auto simp: update_fresh)

lemma borda_count_keys: "distinct labels \<Longrightarrow> dict_keys (borda_count rs labels) = labels"
proof -
  assume "distinct labels"
  then have "fold (\<lambda>l. dict_set l (0::int)) labels [] = map (\<lambda>l. (l, 0)) labels" by (simp add: zero_scores)
  moreover have "dict_keys (foldl (add_ranking n) scores rs) = dict_keys scores" for n scores
    by (induction rs arbitrary: scores) (auto simp: borda_add_keys)
  ultimately show ?thesis by (simp add: borda_count_def comp_def)
qed

lemma borda_count_get:
  assumes "distinct labels" "ballots labels rs" "l \<in> set labels"
  shows "dict_get (borda_count rs labels) l = Some (borda_score labels rs l)"
proof -
  have "dict_get (fold (\<lambda>l. dict_set l 0) labels []) l = Some (0::int)"
    using assms(1,3) by (simp add: zero_scores map_of_map_restrict)
  with add_rankings(1) [OF assms(2,3)] show ?thesis
    by (simp add: borda_count_def borda_score_def del: map_of_eq_Some_iff)
qed

lemma borda_count_eq:
  assumes "distinct labels" "ballots labels rs"
  shows "borda_count rs labels = map (\<lambda>l. (l, borda_score labels rs l)) labels"
proof (rule nth_equalityI)
  have k: "dict_keys (borda_count rs labels) = labels" by (rule borda_count_keys [OF assms(1)])
  then show len: "length (borda_count rs labels) = length (map (\<lambda>l. (l, borda_score labels rs l)) labels)"
    by (metis length_map)
  fix i assume i: "i < length (borda_count rs labels)"
  let ?e = "borda_count rs labels ! i"
  have f: "fst ?e = labels ! i" using k i by (metis nth_map)
  have "?e \<in> set (borda_count rs labels)" using i by simp
  then have "(fst ?e, snd ?e) \<in> set (borda_count rs labels)" by simp
  then have "dict_get (borda_count rs labels) (fst ?e) = Some (snd ?e)"
    using assms(1) k by (metis map_of_is_SomeI)
  moreover have "labels ! i \<in> set labels" using len i by simp
  ultimately have "snd ?e = borda_score labels rs (labels ! i)"
    using borda_count_get [OF assms] f by simp
  with f len i show "?e = map (\<lambda>l. (l, borda_score labels rs l)) labels ! i"
    by (metis (no_types, lifting) length_map nth_map prod.collapse)
qed

lemma pos_of_ballot: "distinct r \<Longrightarrow> map (pos_of r) r = map int [0..<length r]"
proof (induction r)
  case (Cons x xs)
  then have "map (pos_of (x # xs)) xs = map (\<lambda>l. 1 + pos_of xs l) xs" by (auto simp: pos_of_Cons)
  also have "\<dots> = map (\<lambda>i. 1 + int i) [0..<length xs]" using Cons by (metis (no_types, lifting) distinct.simps(2) list.map_comp map_eq_conv comp_def)
  finally have "map (pos_of (x # xs)) xs = map (\<lambda>i. 1 + int i) [0..<length xs]" .
  moreover have "pos_of (x # xs) x = 0" by (simp add: pos_of_def)
  ultimately show ?case by (simp add: map_upt_Suc del: upt_Suc)
qed simp

lemma half_int: "2 * (x::int) = int m \<Longrightarrow> x = int (m div 2)"
  by presburger

lemma ballot_points:
  assumes "ballot labels r" "distinct labels"
  shows "(\<Sum>l\<leftarrow>labels. int (length labels) - 1 - pos_of r l) = int (length labels * (length labels - 1) div 2)"
proof -
  let ?n = "length r"
  have m: "mset labels = mset r" using assms set_eq_iff_mset_eq_distinct by (auto simp: ballot_def)
  then have n: "length labels = ?n" by (metis size_mset)
  have "(\<Sum>l\<leftarrow>labels. int ?n - 1 - pos_of r l) = (\<Sum>l\<leftarrow>r. int ?n - 1 - pos_of r l)" by (rule sum_list_mset [OF m])
  also have "\<dots> = (\<Sum>p\<leftarrow>map (pos_of r) r. int ?n - 1 - p)" by (simp add: comp_def)
  also have "\<dots> = (\<Sum>i\<leftarrow>[0..<?n]. int ?n - 1 - int i)"
    using assms(1) by (simp add: pos_of_ballot ballot_def comp_def)
  also have "\<dots> = int (?n * (?n - 1) div 2)"
  proof -
    have "2 * (\<Sum>i\<leftarrow>[0..<k]. c - int i) = int k * (2 * c - int k + 1)" for k and c :: int
      by (induction k) (auto simp: algebra_simps)
    from this [where k = ?n and c = "int ?n - 1"] have "2 * (\<Sum>i\<leftarrow>[0..<?n]. int ?n - 1 - int i) = int (?n * (?n - 1))"
      by (cases ?n) (simp_all add: algebra_simps)
    then show ?thesis by (rule half_int)
  qed
  finally show ?thesis by (simp add: n)
qed

lemma borda_total:
  assumes "ballots labels rs" "distinct labels"
  shows "(\<Sum>l\<leftarrow>labels. borda_score labels rs l) =
    int (length (filter is_complete rs)) * int (length labels * (length labels - 1) div 2)"
  using assms(1)
proof (induction rs)
  case (Cons r rs)
  then show ?case using ballot_points [OF _ assms(2), of "ranking r"]
    by (auto simp: borda_score_def ballots_def sum_list_addf distrib_right)
next
  case Nil
  have "borda_score labels [] = (\<lambda>l. 0)" by (rule ext) (simp add: borda_score_def)
  then show ?case by (simp add: sum_list_triv)
qed

lemma min_by_Some:
  "min_by key xs = Some w \<Longrightarrow> w \<in> set xs \<and> (\<forall>x \<in> set xs. key w \<le> key x)"
proof (induction xs arbitrary: w)
  case (Cons x xs)
  show ?case
  proof (cases "min_by key xs")
    case None
    then have "xs = []" by (cases xs) (auto split: option.splits)
    with Cons.prems show ?thesis by simp
  next
    case (Some y)
    from Cons.IH [OF Some] Cons.prems Some show ?thesis by (auto split: if_splits intro: order_trans)
  qed
qed simp

lemma min_by_None: "min_by key xs = None \<longleftrightarrow> xs = []"
  by (cases xs) (auto split: option.split)

lemma borda_score_mset: "mset rs = mset rs' \<Longrightarrow> borda_score labels rs l = borda_score labels rs' l"
  unfolding borda_score_def by (rule sum_list_mset) simp

lemma borda_pareto:
  assumes "filter is_complete rs \<noteq> []" "\<forall>r \<in> set rs. is_complete r \<longrightarrow> pos_of (ranking r) l < pos_of (ranking r) w"
  shows "borda_score labels rs w < borda_score labels rs l"
proof -
  show ?thesis unfolding borda_score_def
    by (rule sum_list_strict_mono [OF assms(1)]) (use assms(2) in auto)
qed

text \<open>The labels of a run, its rankings, and the final theorems.\<close>

lemma update_values_sub: "snd ` set (AList.update k v d) \<subseteq> insert v (snd ` set d)"
  by (induction d) auto

lemma update_values_distinct:
  "distinct (map snd d) \<Longrightarrow> v \<notin> snd ` set d \<Longrightarrow> distinct (map snd (AList.update k v d))"
proof (induction d)
  case (Cons e d)
  then show ?case using update_values_sub [of k v d] by (cases e) auto
qed simp

lemma fold_update_keys:
  "fst ` set (fold (\<lambda>(m, l). dict_set m l) ps d) = fst ` set d \<union> fst ` set ps"
proof (induction ps arbitrary: d)
  case (Cons p ps)
  have "fst ` set (AList.update k v d) = insert k (fst ` set d)" for k v
    using dom_update [of k v d] by (simp add: dom_map_of_conv_image_fst)
  with Cons show ?case by (cases p) simp
qed simp

lemma assign_labels_values:
  "distinct (map snd (ps @ rest)) \<Longrightarrow> distinct (map snd (fold (\<lambda>(m, l). dict_set m l) ps [])) \<and>
     snd ` set (fold (\<lambda>(m, l). dict_set m l) ps []) \<subseteq> snd ` set ps"
proof (induction ps arbitrary: rest rule: rev_induct)
  case (snoc p ps)
  obtain m l where p: "p = (m, l)" by (cases p)
  let ?d = "fold (\<lambda>(m, l). dict_set m l) ps []"
  have ih: "distinct (map snd ?d) \<and> snd ` set ?d \<subseteq> snd ` set ps"
    using snoc.prems by (intro snoc.IH [of "p # rest"]) simp
  moreover have "l \<notin> snd ` set ps" using snoc.prems p by auto
  moreover from calculation have "l \<notin> snd ` set ?d" by blast
  moreover have "snd ` set (dict_set m l ?d) \<subseteq> insert l (snd ` set ps)"
    using update_values_sub [of m l ?d] ih by blast
  ultimately show ?case using p update_values_distinct [of ?d l m] by simp
qed simp

definition is_shuffle :: "py_str list \<Rightarrow> py_str list \<Rightarrow> bool" where
  "is_shuffle shuffled ms \<longleftrightarrow> mset shuffled = mset (take (length ms) COUNCIL_LABELS)"

lemma run_labels:
  assumes "is_shuffle shuffled ms"
  shows "distinct (map ans_label (answers (run_council F shuffled q ms)))"
    and "map str_upper (map ans_label (answers (run_council F shuffled q ms))) = map ans_label (answers (run_council F shuffled q ms))"
    and "answers (run_council F shuffled q ms) = [] \<longleftrightarrow> ms = []"
proof -
  have lab: "ans_label (call_member F q m l) = l" for m l
    by (simp add: call_member_def split: sum.split)
  then have eq: "map ans_label (answers (run_council F shuffled q ms)) = map snd (assign_labels ms shuffled)"
    by (simp add: run_council_def Let_def comp_def case_prod_beta)
  have d: "distinct COUNCIL_LABELS" by (simp add: COUNCIL_LABELS_def)
  have "distinct (take (length ms) COUNCIL_LABELS)" using d by (rule distinct_take)
  then have ds: "distinct shuffled" using assms unfolding is_shuffle_def by (metis mset_eq_imp_distinct_iff)
  have "set shuffled \<subseteq> set COUNCIL_LABELS"
    using assms unfolding is_shuffle_def by (metis set_mset_mset set_take_subset)
  moreover have "distinct (map snd (zip ms shuffled))" using ds by (metis distinct_take map_snd_zip_take)
  then have v: "distinct (map snd (assign_labels ms shuffled))"
      "snd ` set (assign_labels ms shuffled) \<subseteq> snd ` set (zip ms shuffled)"
    using assign_labels_values [of "zip ms shuffled" "[]"] by (simp_all add: assign_labels_def)
  moreover have "snd ` set (zip ms shuffled) \<subseteq> set shuffled" by (auto dest: set_zip_rightD)
  ultimately have "snd ` set (assign_labels ms shuffled) \<subseteq> set COUNCIL_LABELS" by blast
  then have "map str_upper (map snd (assign_labels ms shuffled)) = map snd (assign_labels ms shuffled)"
    by (intro map_idI) (auto simp: COUNCIL_LABELS_def str_upper_def to_upper_def is_lower_def code_def)
  with v eq show "distinct (map ans_label (answers (run_council F shuffled q ms)))"
    "map str_upper (map ans_label (answers (run_council F shuffled q ms))) = map ans_label (answers (run_council F shuffled q ms))"
    by simp_all
  have "length shuffled = length (take (length ms) COUNCIL_LABELS)"
    using assms unfolding is_shuffle_def by (rule mset_eq_length)
  then have "zip ms shuffled = [] \<longleftrightarrow> ms = []" by (cases ms) (auto simp: COUNCIL_LABELS_def)
  moreover have "assign_labels ms shuffled = [] \<longleftrightarrow> zip ms shuffled = []"
    using fold_update_keys [of "zip ms shuffled" "[]"] unfolding assign_labels_def
    by (metis image_is_empty list.set(1) set_empty sup_bot_left)
  ultimately show "answers (run_council F shuffled q ms) = [] \<longleftrightarrow> ms = []"
    using eq by (metis map_is_Nil_conv)
qed

lemma chairman_facts:
  assumes "distinct labels" "labels \<noteq> []" "ballots labels rs" "labels = map ans_label (answers run)"
  shows "\<exists>res. run_chairman run rs llm synth = Some res \<and> winner_label res \<in> set labels \<and>
    borda_scores res = map (\<lambda>l. (l, borda_score labels rs l)) labels \<and>
    rankings_used res = length (filter is_complete rs) \<and>
    pick_winner (map (\<lambda>l. (l, borda_score labels rs l)) labels) = Some (winner_label res) \<and>
    (\<forall>l \<in> set labels. borda_score labels rs l \<le> borda_score labels rs (winner_label res))"
proof -
  let ?s = "map (\<lambda>l. (l, borda_score labels rs l)) labels"
  have keys: "dict_keys ?s = labels" by (simp add: comp_def)
  obtain w where w: "min_by (score_key ?s) labels = Some w"
    using min_by_None [of "score_key ?s" labels] assms(2) by auto
  have key: "score_key ?s l = (- borda_score labels rs l, l)" if "l \<in> set labels" for l
    using that by (simp add: score_key_def dict_get_or_def map_of_map_restrict)
  have "w \<in> set labels" "\<forall>l \<in> set labels. score_key ?s w \<le> score_key ?s l" using min_by_Some [OF w] by simp_all
  then have "w \<in> set labels \<and> (\<forall>l \<in> set labels. borda_score labels rs l \<le> borda_score labels rs w)"
    using key by (auto simp: less_eq_prod_def)
  then show ?thesis
    using w keys by (simp add: run_chairman_def Let_def assms(4) [symmetric] borda_count_eq [OF assms(1,3)] pick_winner_def)
qed

text \<open>
  The council's choice is fair. For any run over at least one model and whatever texts
  the members wrote as rankings, the chairman names one of the run's labels with the highest
  Borda score; the scores add up to n(n-1)/2 points per complete ranking, so every ranking
  weighs the same; no label that every complete ranking puts before another loses to it; and
  the scores and the choice do not depend on the order in which the texts arrived.
\<close>

theorem council_winner:
  assumes "is_shuffle shuffled ms" "ms \<noteq> []" "mset texts = mset texts'"
  shows "let run = run_council F shuffled q ms; labels = map ans_label (answers run);
      rs = map (\<lambda>t. parse_ranking t labels) texts; rs' = map (\<lambda>t. parse_ranking t labels) texts'
    in \<exists>res res'. run_chairman run rs llm synth = Some res \<and> run_chairman run rs' llm synth = Some res' \<and>
       winner_label res \<in> set labels \<and> winner_label res' = winner_label res \<and> borda_scores res' = borda_scores res \<and>
       (\<forall>l \<in> set labels. dict_get_or (borda_scores res) l 0 \<le> dict_get_or (borda_scores res) (winner_label res) 0) \<and>
       sum_list (map snd (borda_scores res)) = int (rankings_used res) * int (length labels * (length labels - 1) div 2) \<and>
       (rankings_used res = 0 \<or> (\<forall>l \<in> set labels. \<exists>r \<in> set rs. is_complete r \<and>
          pos_of (ranking r) (winner_label res) \<le> pos_of (ranking r) l))"
proof -
  define run where "run = run_council F shuffled q ms"
  define labels where "labels = map ans_label (answers run)"
  define rs where "rs = map (\<lambda>t. parse_ranking t labels) texts"
  define rs' where "rs' = map (\<lambda>t. parse_ranking t labels) texts'"
  have l: "distinct labels" "map str_upper labels = labels" "labels \<noteq> []"
    using run_labels [OF assms(1), of F q] assms(2) by (simp_all add: labels_def run_def)
  have b: "ballots labels rs" "ballots labels rs'"
    using parsed_ballots [of labels texts] parsed_ballots [of labels texts'] l(2) by (simp_all add: rs_def rs'_def)
  have score: "borda_score labels rs' = borda_score labels rs"
    by (rule ext, rule borda_score_mset) (simp add: rs_def rs'_def assms(3))
  obtain res where res: "run_chairman run rs llm synth = Some res" "winner_label res \<in> set labels"
    "borda_scores res = map (\<lambda>l. (l, borda_score labels rs l)) labels" "rankings_used res = length (filter is_complete rs)"
    "pick_winner (map (\<lambda>l. (l, borda_score labels rs l)) labels) = Some (winner_label res)"
    "\<forall>l \<in> set labels. borda_score labels rs l \<le> borda_score labels rs (winner_label res)"
    using chairman_facts [OF l(1,3) b(1) labels_def] by blast
  obtain res' where res': "run_chairman run rs' llm synth = Some res'"
    "borda_scores res' = map (\<lambda>l. (l, borda_score labels rs l)) labels"
    "pick_winner (map (\<lambda>l. (l, borda_score labels rs l)) labels) = Some (winner_label res')"
    using chairman_facts [OF l(1,3) b(2) labels_def, unfolded score] by blast
  have get: "dict_get_or (borda_scores res) l 0 = borda_score labels rs l" if "l \<in> set labels" for l
    using that by (simp add: res(3) dict_get_or_def map_of_map_restrict)
  have total: "sum_list (map snd (borda_scores res)) = int (rankings_used res) * int (length labels * (length labels - 1) div 2)"
    using borda_total [OF b(1) l(1)] by (simp add: res(3,4) comp_def)
  have pareto: "rankings_used res = 0 \<or> (\<forall>l \<in> set labels. \<exists>r \<in> set rs. is_complete r \<and>
      pos_of (ranking r) (winner_label res) \<le> pos_of (ranking r) l)"
  proof (cases "rankings_used res = 0")
    case False
    have "\<exists>r \<in> set rs. is_complete r \<and> pos_of (ranking r) (winner_label res) \<le> pos_of (ranking r) l"
      if m: "l \<in> set labels" for l
    proof (rule ccontr)
      assume "\<not> (\<exists>r \<in> set rs. is_complete r \<and> pos_of (ranking r) (winner_label res) \<le> pos_of (ranking r) l)"
      with False have "borda_score labels rs (winner_label res) < borda_score labels rs l"
        by (intro borda_pareto) (auto simp: res(4) not_le)
      then show False using res(6) m by fastforce
    qed
    then show ?thesis by blast
  qed simp
  show ?thesis
    unfolding Let_def run_def [symmetric] labels_def [symmetric] rs_def [symmetric] rs'_def [symmetric]
    using res res' get total pareto by (intro exI [of _ res] exI [of _ res']) simp
qed

definition demo_factory :: llm_factory where
  "demo_factory m = Inr (\<lambda>prompt. if m = ''m1'' then Inl \<lparr>exc_type = ''Timeout'', exc_text = ''down''\<rparr> else Inr ''ok'')"

theorem council_winner_witness:
  "\<exists>res. run_chairman (run_council demo_factory [''A'', ''B''] [] [''m1'', ''m2''])
       [parse_ranking (demo_ranking ''BA'') [''A'', ''B'']] (\<lambda>p. Inr p) [] = Some res \<and>
     winner_label res \<in> {''A'', ''B''}"
proof -
  have "is_shuffle [''A'', ''B''] [''m1'', ''m2'']" by (simp add: is_shuffle_def COUNCIL_LABELS_def)
  moreover have "map ans_label (answers (run_council demo_factory [''A'', ''B''] [] [''m1'', ''m2''])) = [''A'', ''B'']"
    by (simp add: run_council_def assign_labels_def call_member_def demo_factory_def)
  ultimately show ?thesis
    using council_winner [of "[''A'', ''B'']" "[''m1'', ''m2'']" "[demo_ranking ''BA'']" _ demo_factory "[]" "\<lambda>p. Inr p" "[]", OF _ _ refl]
    by (auto simp: Let_def)
qed

lemma collected_ballots:
  assumes "map str_upper valid = valid"
  shows "ballots valid (collect_rankings F run valid)"
proof -
  have "is_complete (rank_one F m prompt valid) \<Longrightarrow> ballot valid (ranking (rank_one F m prompt valid))" for m prompt
    using parse_ranking_complete [of _ valid] assms
    by (auto simp: rank_one_def failed_ranking_def ballot_def split: sum.splits)
  then show ?thesis
    by (auto simp: collect_rankings_def Let_def ballots_def list_all_iff List.map_filter_def)
qed

text \<open>
  The council never fails on its members. With at least one model and a synthesis model
  the factory can make, a council call returns a text whatever the members, the rankers and
  the synthesiser do: exceptions, garbage rankings and incomplete ones included.
\<close>

theorem council_total:
  assumes "is_shuffle shuffled (models cfg)" "models cfg \<noteq> []"
    and "council_factory cfg (synthesis_model_id cfg) = Inr llm"
  shows "\<exists>answer. council_skill_dispatch shuffled q cfg = Inr answer"
proof -
  define run where "run = run_council (council_factory cfg) shuffled q (models cfg)"
  define valid where "valid = map ans_label (answers run)"
  define rankings where "rankings = collect_rankings (council_factory cfg) run valid"
  have l: "distinct valid" "map str_upper valid = valid" "valid \<noteq> []"
    using run_labels [OF assms(1), of "council_factory cfg" q] assms(2) by (simp_all add: valid_def run_def)
  have b: "ballots valid rankings" using collected_ballots [OF l(2)] by (simp add: rankings_def)
  obtain c where "compute_confidence rankings (escalation_threshold cfg) = Some c"
    using confidence_ballots [OF b] by (cases "length (filter is_complete rankings) < 2") (auto simp: compute_confidence_def Let_def)
  moreover obtain res where "run_chairman run rankings llm (synthesis_model_id cfg) = Some res"
    using chairman_facts [OF l(1,3) b valid_def] by blast
  ultimately show ?thesis
    using assms(3) by (simp add: council_skill_dispatch_def Let_def rankings_def valid_def run_def)
qed

definition demo_config :: CouncilConfig where
  "demo_config = make_config [''m1'', ''m2''] demo_factory [] (3/10)"

theorem council_total_witness: "\<exists>answer. council_skill_dispatch [''A'', ''B''] ''why?'' demo_config = Inr answer"
  by (rule council_total) (simp_all add: is_shuffle_def COUNCIL_LABELS_def demo_config_def make_config_def demo_factory_def)

text \<open>A failed member can still win: with one answer left no rankings are collected, every
  score is 0, the least label wins, and when the synthesiser fails as well the council answers
  with the failed member's empty text although another member answered.\<close>

lemma failed_member_wins: "council_skill_dispatch [''A'', ''B''] ''why?'' demo_config = Inr []"
  by (simp add: council_skill_dispatch_def demo_config_def make_config_def demo_factory_def run_council_def
      assign_labels_def call_member_def collect_rankings_def compute_confidence_def run_chairman_def borda_count_def
      pick_winner_def score_key_def dict_get_or_def answer_by_label_def Let_def)

text \<open>A ranking of the answers that were shown is discarded when some member failed: it lacks the
  failed member's label, which the parser still expects.\<close>

lemma shown_ranking_incomplete:
  "\<not> is_complete (parse_ranking (demo_ranking ''BA'') [''A'', ''B'', ''C''])"
  by code_simp

end
