(* ===== verification/Memory_Privacy.thy ===== *)
theory Memory_Privacy
  imports Secret_Redaction "HOL-Library.Product_Lexorder"
begin

text \<open>
  Personal data in stored text (\<open>sera/memory/privacy.py\<close>): the detector table, the Luhn
  filter, the choice of non-overlapping spans, the tag list and the rewriting of detected
  spans. Positions count the bytes of the encoding. The optional Presidio backend is not
  modelled; a custom marker is the function of the kind that its format string denotes.
\<close>


section \<open>Detectors\<close>

record PIIMatch =
  pii_kind :: py_str
  pii_start :: nat
  pii_end :: nat
  pii_text :: py_str

abbreviation digit :: re where "digit \<equiv> Ch [Digit]"

abbreviation phone_sep :: re where "phone_sep \<equiv> Ch (map One '' .-'')"

definition phone_re :: re where
  "phone_re =
     Seqs [NoWordBefore,
       Opt (Seqs [Opt (Lit (CHR ''+'')), Between 1 3 digit, Opt phone_sep]),
       Alt (Seqs [Lit (CHR ''(''), Between 2 4 digit, Lit (CHR '')''), Opt phone_sep])
           (Seq (Between 2 4 digit) phone_sep),
       Between 3 4 digit, Opt phone_sep, Between 3 4 digit, NoWordAfter]"

definition email_re :: re where
  "email_re =
     Seqs [WordBound, Plus (Ch (alnum @ map One ''._%+-'')), Lit (CHR ''@''), Plus (Ch (alnum @ map One ''.-'')),
       Lit (CHR ''.''), AtLeast 2 (Ch [Range (CHR ''A'') (CHR ''Z''), Range (CHR ''a'') (CHR ''z'')]), WordBound]"

definition DETECTORS :: "(py_str \<times> re) list" where
  "DETECTORS =
    [(''anthropic_key'', Seqs [Lits ''sk-ant-'', Alts [Lits ''api'', Lits ''oat''], Star digit, Lit (CHR ''-''),
        AtLeast 20 key_chars]),
     (''openai_key'', Seq (Lits ''sk-proj-'') (AtLeast 20 key_chars)),
     (''openai_key'', Seq (Lits ''sk-'') (AtLeast 20 (Ch alnum))),
     (''github_pat'', Seq (Lits ''ghp_'') (AtLeast 20 (Ch alnum))),
     (''github_oauth'', Seq (Lits ''gho_'') (AtLeast 20 (Ch alnum))),
     (''github_server'', Seq (Lits ''ghs_'') (AtLeast 20 (Ch alnum))),
     (''github_pat'', Seq (Lits ''github_pat_'') (AtLeast 40 (Ch (alnum @ [One (CHR ''_'')])))),
     (''slack_token'', Seqs [Lits ''xox'', Ch (map One ''abprs''), Lit (CHR ''-''),
        AtLeast 10 (Ch (alnum @ [One (CHR ''-'')]))]),
     (''aws_access_key'', Seq (Lits ''AKIA'') (Times 16 upper_digit)),
     (''aws_session_key'', Seq (Lits ''ASIA'') (Times 16 upper_digit)),
     (''ssn'', Seqs [WordBound, Times 3 digit, Lit (CHR ''-''), Times 2 digit, Lit (CHR ''-''), Times 4 digit, WordBound]),
     (''credit_card'', Seqs [WordBound, Between 13 19 (Seq digit (Opt (Ch (map One '' -'')))), WordBound]),
     (''email'', email_re),
     (''phone'', phone_re),
     (''ipv4'', Seqs [WordBound, Times 3 (Seq (Between 1 3 digit) (Lit (CHR ''.''))), Between 1 3 digit, WordBound])]"


section \<open>The Luhn checksum\<close>

definition digit_value :: "char \<Rightarrow> nat" where
  "digit_value c = code c - 48"

definition luhn_term :: "nat \<Rightarrow> nat \<Rightarrow> nat" where
  "luhn_term i n = (if odd i then (if 9 < n * 2 then n * 2 - 9 else n * 2) else n)"

definition luhn_total :: "py_str \<Rightarrow> nat" where
  "luhn_total digits = sum_list (map (\<lambda>(i, c). luhn_term i (digit_value c)) (enumerate 0 (rev digits)))"

definition luhn_ok :: "py_str \<Rightarrow> bool" where
  "luhn_ok digits \<longleftrightarrow>
     digits \<noteq> [] \<and> list_all is_digit digits \<and> 13 \<le> length digits \<and> length digits \<le> 19 \<and>
     luhn_total digits mod 10 = 0"


section \<open>Detection\<close>

definition py_slice :: "nat \<Rightarrow> nat \<Rightarrow> py_str \<Rightarrow> py_str" where
  "py_slice i j s = take (j - i) (drop i s)"

definition accepted :: "py_str \<Rightarrow> py_str \<Rightarrow> bool" where
  "accepted kind s \<longleftrightarrow> (kind = ''credit_card'' \<longrightarrow> luhn_ok (filter is_digit s))"

definition detector_hits :: "py_str \<Rightarrow> py_str \<times> re \<Rightarrow> PIIMatch list" where
  "detector_hits t d =
     (case d of (kind, p) \<Rightarrow>
        filter (\<lambda>m. accepted kind (pii_text m))
          (map (\<lambda>(i, j, g). \<lparr>pii_kind = kind, pii_start = i, pii_end = j, pii_text = py_slice i j t\<rparr>)
             (re_finditer no_flags p t)))"

definition raw_hits :: "py_str \<Rightarrow> PIIMatch list" where
  "raw_hits t = concat (map (detector_hits t) DETECTORS)"

text \<open>Walk the sorted matches and drop each one that starts before the end of the last kept.\<close>

fun keep_free :: "int \<Rightarrow> PIIMatch list \<Rightarrow> PIIMatch list" where
  "keep_free last_end [] = []"
| "keep_free last_end (m # ms) =
     (if int (pii_start m) < last_end then keep_free last_end ms
      else m # keep_free (int (pii_end m)) ms)"

definition detect :: "py_str \<Rightarrow> PIIMatch list" where
  "detect t =
     (if t = [] then []
      else keep_free (- 1) (sort_key (\<lambda>m. (pii_start m, - (int (pii_end m) - int (pii_start m)))) (raw_hits t)))"

definition has_pii :: "py_str \<Rightarrow> bool" where
  "has_pii t \<longleftrightarrow> t \<noteq> [] \<and>
     list_ex (\<lambda>(kind, p). list_ex (\<lambda>(i, j, g). accepted kind (py_slice i j t)) (re_finditer no_flags p t)) DETECTORS"

definition add_kind :: "PIIMatch \<Rightarrow> py_str list \<Rightarrow> py_str list" where
  "add_kind m seen = (if pii_kind m \<in> set seen then seen else seen @ [pii_kind m])"

definition pii_kinds :: "py_str \<Rightarrow> py_str list" where
  "pii_kinds t = fold add_kind (detect t) []"

definition known_kinds :: "py_str set" where
  "known_kinds = fst ` set DETECTORS"


section \<open>Rewriting\<close>

fun redact_from :: "(py_str \<Rightarrow> py_str) \<Rightarrow> py_str \<Rightarrow> nat \<Rightarrow> PIIMatch list \<Rightarrow> py_str" where
  "redact_from mark t cursor [] = drop cursor t"
| "redact_from mark t cursor (m # ms) =
     py_slice cursor (pii_start m) t @ mark (pii_kind m) @ redact_from mark t (pii_end m) ms"

definition redact_pii :: "(py_str \<Rightarrow> py_str) \<Rightarrow> py_str \<Rightarrow> py_str" where
  "redact_pii mark t = (let ms = detect t in if ms = [] then t else redact_from mark t 0 ms)"

definition default_marker :: "py_str \<Rightarrow> py_str" where
  "default_marker kind = ''<redacted:'' @ kind @ ''>''"


section \<open>What a match is\<close>

text \<open>Every pattern of the table consumes at least one character.\<close>

fun min_len :: "re \<Rightarrow> nat" where
  "min_len (Lit a) = 1"
| "min_len Dot = 1"
| "min_len (Cls neg is) = 1"
| "min_len (Seq a b) = min_len a + min_len b"
| "min_len (Alt a b) = min (min_len a) (min_len b)"
| "min_len (Grp r) = min_len r"
| "min_len _ = 0"

lemma spans_min_len: "spans f s r i j \<Longrightarrow> i + min_len r \<le> j"
  by (induction rule: spans.induct) auto

lemma detectors_consume: "list_all (\<lambda>(kind, p). 0 < min_len p) DETECTORS"
  by code_simp

lemma finditer_mem:
  assumes "(i, j, g) \<in> set (find_from f r s k)"
  shows "spans f s r i j \<and> k \<le> i \<and> i \<le> length s \<and> j \<le> length s"
  using assms
proof (induction f r s k rule: find_from.induct)
  case (1 f r s k)
  have "\<not> length s < k" using "1.prems" by (cases "length s < k") (simp_all add: find_from.simps)
  show ?case
  proof (cases "match_at f r s k")
    case None
    with "1.prems" \<open>\<not> length s < k\<close> have "(i, j, g) \<in> set (find_from f r s (Suc k))"
      by (subst (asm) find_from.simps) simp
    with "1.IH"(1) None \<open>\<not> length s < k\<close> show ?thesis by force
  next
    case (Some y)
    obtain e h where y: "y = (e, h)" by (cases y)
    from "1.prems" Some \<open>\<not> length s < k\<close> y have
      "(i, j, g) = (k, e, h) \<or> (i, j, g) \<in> set (find_from f r s (if k < e then e else Suc k))"
      by (subst (asm) find_from.simps) (auto split: if_splits)
    then show ?thesis
    proof
      assume "(i, j, g) = (k, e, h)"
      with Some y \<open>\<not> length s < k\<close> match_at_spans [of f r s k e h] match_at_bounds [of f r s k e h]
      show ?thesis by simp
    next
      assume "(i, j, g) \<in> set (find_from f r s (if k < e then e else Suc k))"
      with "1.IH"(2) [OF \<open>\<not> length s < k\<close> Some, unfolded y fst_conv]
      have "spans f s r i j \<and> (if k < e then e else Suc k) \<le> i \<and> i \<le> length s \<and> j \<le> length s" by simp
      then show ?thesis by (auto split: if_splits)
    qed
  qed
qed

definition real_hit :: "py_str \<Rightarrow> PIIMatch \<Rightarrow> bool" where
  "real_hit t m \<longleftrightarrow>
     (\<exists>p. (pii_kind m, p) \<in> set DETECTORS \<and> spans no_flags t p (pii_start m) (pii_end m)) \<and>
     pii_start m < pii_end m \<and> pii_end m \<le> length t \<and> pii_text m = py_slice (pii_start m) (pii_end m) t \<and>
     accepted (pii_kind m) (pii_text m)"

lemma raw_hits_real: "m \<in> set (raw_hits t) \<Longrightarrow> real_hit t m"
proof -
  assume "m \<in> set (raw_hits t)"
  then obtain kind p where d: "(kind, p) \<in> set DETECTORS" and m: "m \<in> set (detector_hits t (kind, p))"
    by (auto simp: raw_hits_def)
  from m obtain i j g where f: "(i, j, g) \<in> set (find_from no_flags p t 0)" and acc: "accepted kind (pii_text m)"
    and mm: "m = \<lparr>pii_kind = kind, pii_start = i, pii_end = j, pii_text = py_slice i j t\<rparr>"
    by (auto simp: detector_hits_def re_finditer_def)
  from finditer_mem [OF f] have s: "spans no_flags t p i j" "j \<le> length t" by simp_all
  from d detectors_consume have "0 < min_len p" by (auto simp: list_all_iff)
  with spans_min_len [OF s(1)] have "i < j" by simp
  with s d acc mm show ?thesis by (auto simp: real_hit_def)
qed


text \<open>The kept matches lie in order and do not overlap, and every hit starts inside one of them.\<close>

fun laid_out :: "nat \<Rightarrow> PIIMatch list \<Rightarrow> bool" where
  "laid_out cur [] = True"
| "laid_out cur (m # ms) = (cur \<le> pii_start m \<and> pii_start m < pii_end m \<and> laid_out (pii_end m) ms)"

lemma keep_free_sub: "set (keep_free b ms) \<subseteq> set ms"
  by (induction b ms rule: keep_free.induct) auto

lemma keep_free_laid_out:
  "\<forall>m\<in>set ms. pii_start m < pii_end m \<Longrightarrow> b \<le> int cur \<Longrightarrow> cur = nat b \<Longrightarrow> laid_out cur (keep_free b ms)"
  by (induction b ms arbitrary: cur rule: keep_free.induct) auto

lemma keep_free_covers:
  assumes "sorted (map pii_start ms)" "\<forall>m\<in>set ms. pii_start m < pii_end m" "m \<in> set ms"
  shows "(\<exists>k\<in>set (keep_free b ms). pii_start k \<le> pii_start m \<and> pii_start m < pii_end k) \<or> int (pii_start m) < b"
  using assms
proof (induction b ms rule: keep_free.induct)
  case (2 b x ms)
  show ?case
  proof (cases "int (pii_start x) < b")
    case True
    with 2 show ?thesis by (cases "m = x") auto
  next
    case False
    with 2 show ?thesis by (cases "m = x") force+
  qed
qed simp

lemma keep_free_ne: "\<forall>m\<in>set ms. b \<le> int (pii_start m) \<Longrightarrow> keep_free b ms = [] \<longleftrightarrow> ms = []"
  by (cases ms) auto

lemma sorted_first: "sorted (map (\<lambda>x. (f x, g x)) xs) \<Longrightarrow> sorted (map f xs)"
  by (induction xs) (auto simp: less_eq_prod_def)

lemma sorted_hits:
  "sorted (map pii_start (sort_key (\<lambda>m. (pii_start m, - (int (pii_end m) - int (pii_start m)))) ms))"
proof -
  have "sorted (map (\<lambda>m. (pii_start m, - (int (pii_end m) - int (pii_start m))))
      (sort_key (\<lambda>m. (pii_start m, - (int (pii_end m) - int (pii_start m)))) ms))" by (rule sorted_sort_key)
  then show ?thesis by (rule sorted_first)
qed

lemma raw_nil: "raw_hits [] = []"
proof -
  have "m \<notin> set (raw_hits [])" for m using raw_hits_real [of m "[]"] by (auto simp: real_hit_def)
  then show ?thesis by (cases "raw_hits []") auto
qed

lemma detect_facts:
  "laid_out 0 (detect t)" "set (detect t) \<subseteq> set (raw_hits t)"
  "m \<in> set (raw_hits t) \<Longrightarrow> \<exists>k\<in>set (detect t). pii_start k \<le> pii_start m \<and> pii_start m < pii_end k"
  "detect t = [] \<longleftrightarrow> raw_hits t = []"
proof -
  let ?ms = "sort_key (\<lambda>m. (pii_start m, - (int (pii_end m) - int (pii_start m)))) (raw_hits t)"
  have d: "detect t = keep_free (- 1) ?ms" by (simp add: detect_def raw_nil)
  have r: "\<forall>m\<in>set ?ms. pii_start m < pii_end m" using raw_hits_real by (auto simp: real_hit_def)
  show "laid_out 0 (detect t)" using r unfolding d by (rule keep_free_laid_out) simp_all
  show "set (detect t) \<subseteq> set (raw_hits t)" using keep_free_sub [of "- 1" ?ms] by (simp add: d)
  show "m \<in> set (raw_hits t) \<Longrightarrow> \<exists>k\<in>set (detect t). pii_start k \<le> pii_start m \<and> pii_start m < pii_end k"
    using keep_free_covers [OF sorted_hits r, of m "- 1"] by (simp add: d)
  have "detect t = [] \<longleftrightarrow> ?ms = []" unfolding d by (rule keep_free_ne) simp
  then show "detect t = [] \<longleftrightarrow> raw_hits t = []" by (metis length_0_conv length_sort)
qed

lemma has_pii_iff: "has_pii t \<longleftrightarrow> detect t \<noteq> []"
proof -
  have hit: "detector_hits t d \<noteq> [] \<longleftrightarrow> (case d of (kind, p) \<Rightarrow>
      list_ex (\<lambda>(i, j, g). accepted kind (py_slice i j t)) (re_finditer no_flags p t))" for d
    by (cases d) (force simp: detector_hits_def list_ex_iff filter_empty_conv case_prod_beta)
  have "raw_hits t \<noteq> [] \<longleftrightarrow> list_ex (\<lambda>d. detector_hits t d \<noteq> []) DETECTORS"
    by (auto simp: raw_hits_def list_ex_iff)
  with raw_nil show ?thesis by (auto simp: has_pii_def detect_facts(4) hit)
qed

lemma fold_add_kind: "distinct seen \<Longrightarrow> distinct (fold add_kind ms seen) \<and> set (fold add_kind ms seen) = set seen \<union> pii_kind ` set ms"
  by (induction ms arbitrary: seen) (auto simp: add_kind_def)

lemma pii_kinds_set: "distinct (pii_kinds t)" "set (pii_kinds t) = pii_kind ` set (detect t)"
  using fold_add_kind [of "[]" "detect t"] by (simp_all add: pii_kinds_def)

lemma pii_kinds_Nil: "pii_kinds t = [] \<longleftrightarrow> \<not> has_pii t"
  using pii_kinds_set(2) [of t] by (auto simp: has_pii_iff simp del: set_empty simp flip: set_empty)

text \<open>A text as gaps between matches.\<close>

fun weave :: "py_str list \<Rightarrow> py_str list \<Rightarrow> py_str" where
  "weave (g # gs) (m # ms) = g @ m @ weave gs ms"
| "weave gs ms = concat gs"

fun gaps :: "py_str \<Rightarrow> nat \<Rightarrow> PIIMatch list \<Rightarrow> py_str list" where
  "gaps t cursor [] = [drop cursor t]"
| "gaps t cursor (m # ms) = py_slice cursor (pii_start m) t # gaps t (pii_end m) ms"

lemma length_gaps: "length (gaps t c ms) = Suc (length ms)"
  by (induction t c ms rule: gaps.induct) simp_all

lemma redact_from_weave: "redact_from mark t c ms = weave (gaps t c ms) (map (\<lambda>m. mark (pii_kind m)) ms)"
  by (induction t c ms rule: gaps.induct) simp_all

lemma slice_drop: "i \<le> j \<Longrightarrow> py_slice i j t @ drop j t = drop i t"
  by (metis append_take_drop_id drop_drop le_add_diff_inverse2 py_slice_def)

lemma text_weave:
  "laid_out c ms \<Longrightarrow> \<forall>m\<in>set ms. pii_text m = py_slice (pii_start m) (pii_end m) t \<Longrightarrow>
     drop c t = weave (gaps t c ms) (map pii_text ms)"
proof (induction t c ms rule: gaps.induct)
  case (2 t c m ms)
  then have "weave (gaps t c (m # ms)) (map pii_text (m # ms)) =
      py_slice c (pii_start m) t @ py_slice (pii_start m) (pii_end m) t @ drop (pii_end m) t" by simp
  with "2.prems" show ?case by (simp add: slice_drop less_imp_le)
qed simp

text \<open>
  C35: detection is sound and loses nothing. Every reported match is a match of a detector of its
  kind (with a valid Luhn sum for a card number) and carries its own text; the matches are in
  order and disjoint; every hit of any detector starts inside a reported match; and the three
  questions the callers ask agree: a text has personal data exactly when a match is reported,
  exactly when its tag list is not empty.
\<close>

theorem detect_complete:
  "laid_out 0 (detect t) \<and>
   list_all (real_hit t) (detect t) \<and>
   list_all (\<lambda>m. list_ex (\<lambda>k. pii_start k \<le> pii_start m \<and> pii_start m < pii_end k) (detect t)) (raw_hits t) \<and>
   (has_pii t \<longleftrightarrow> detect t \<noteq> []) \<and> (pii_kinds t = [] \<longleftrightarrow> \<not> has_pii t) \<and>
   distinct (pii_kinds t) \<and> set (pii_kinds t) = pii_kind ` set (detect t)"
  using detect_facts [where t = t] raw_hits_real [where t = t] pii_kinds_set [of t] pii_kinds_Nil [of t] has_pii_iff [of t]
  unfolding list_all_iff list_ex_iff by blast

text \<open>
  Redaction rewrites the matches and nothing else. The text is a sequence of gaps with the
  matches between them, and the redacted text has the same gaps with a marker in place of
  each match.
\<close>

theorem redact_exact:
  "\<exists>gs. length gs = Suc (length (detect t)) \<and> t = weave gs (map pii_text (detect t)) \<and>
     redact_pii mark t = weave gs (map (\<lambda>m. mark (pii_kind m)) (detect t))"
proof -
  have "\<forall>m\<in>set (detect t). pii_text m = py_slice (pii_start m) (pii_end m) t"
    using detect_facts(2) [of t] raw_hits_real [where t = t] by (auto simp: real_hit_def)
  with text_weave [OF detect_facts(1), of t] length_gaps [of t 0 "detect t"] redact_from_weave [of mark t 0 "detect t"]
  show ?thesis by (intro exI [of _ "gaps t 0 (detect t)"]) (auto simp: redact_pii_def Let_def)
qed

text \<open>A match that only overlaps a kept one is dropped, so its rest stays readable.\<close>

lemma overlapped_email_survives:
  "redact_pii default_marker ''22 333 4444.a@b.co'' = ''<redacted:phone>.a@b.co'' \<and>
   has_pii (redact_pii default_marker ''22 333 4444.a@b.co'')"
proof -
  have r: "redact_pii default_marker ''22 333 4444.a@b.co'' = ''<redacted:phone>.a@b.co''" by code_simp
  have "has_pii ''<redacted:phone>.a@b.co''" by code_simp
  with r show ?thesis by simp
qed


section \<open>What the checksum catches\<close>

lemma luhn_term_inj:
  assumes "a < 10" "b < 10" "luhn_term i a mod 10 = luhn_term i b mod 10" shows "a = b"
proof -
  have small: "luhn_term i n < 10" if "n < 10" for n using that by (auto simp: luhn_term_def)
  then have "luhn_term i a = luhn_term i b" using assms by simp
  then show ?thesis using assms(1,2) unfolding luhn_term_def by (auto split: if_splits) presburger+
qed

lemma luhn_total_split:
  "luhn_total (xs @ c # ys) = sum_list (map (\<lambda>(i, c). luhn_term i (digit_value c)) (enumerate 0 (rev ys))) +
     luhn_term (length ys) (digit_value c) +
     sum_list (map (\<lambda>(i, c). luhn_term i (digit_value c)) (enumerate (Suc (length ys)) (rev xs)))"
  by (simp add: luhn_total_def enumerate_append_eq)

lemma mod_cancel: "(a + b + c) mod 10 = (a + d + c) mod (10::nat) \<Longrightarrow> b mod 10 = d mod 10"
  by (auto simp: nat_mod_eq_iff)

text \<open>
  one mistyped digit is always caught: of two numbers that differ in one place at most one is
  taken for a card number.
\<close>

theorem luhn_catches_typo:
  assumes "luhn_ok (xs @ a # ys)" "luhn_ok (xs @ b # ys)"
  shows "a = b"
proof -
  have d: "is_digit a" "is_digit b" using assms by (simp_all add: luhn_ok_def)
  then have small: "digit_value a < 10" "digit_value b < 10" "digit_value a = digit_value b \<longleftrightarrow> code a = code b"
    by (auto simp: is_digit_def digit_value_def)
  have "luhn_total (xs @ a # ys) mod 10 = luhn_total (xs @ b # ys) mod 10" using assms by (simp add: luhn_ok_def)
  then have "luhn_term (length ys) (digit_value a) mod 10 = luhn_term (length ys) (digit_value b) mod 10"
    unfolding luhn_total_split by (rule mod_cancel)
  from luhn_term_inj [OF small(1,2) this] small(3) show ?thesis by (simp add: code_def)
qed

end
