(* ===== verification/Py_Strings.thy ===== *)
theory Py_Strings
  imports Py_Regex
begin

text \<open>
  String methods of the standard library on top of the character classes of \<open>Py_Regex\<close>:
  stripping, joining, finding and the line boundaries of \<open>splitlines\<close>, with the facts about
  them that several components use.
\<close>


section \<open>Stripping and joining\<close>

definition str_lstrip :: "py_str \<Rightarrow> py_str" where
  "str_lstrip s = dropWhile is_space s"

definition str_rstrip :: "py_str \<Rightarrow> py_str" where
  "str_rstrip s = rev (dropWhile is_space (rev s))"

definition rstrip_chars :: "py_str \<Rightarrow> py_str \<Rightarrow> py_str" where
  "rstrip_chars cs s = rev (dropWhile (\<lambda>c. c \<in> set cs) (rev s))"

definition strip_chars :: "char set \<Rightarrow> py_str \<Rightarrow> py_str" where
  "strip_chars cs s = rev (dropWhile (\<lambda>c. c \<in> cs) (rev (dropWhile (\<lambda>c. c \<in> cs) s)))"

fun join :: "py_str \<Rightarrow> py_str list \<Rightarrow> py_str" where
  "join sep [] = []"
| "join sep [x] = x"
| "join sep (x # y # xs) = x @ sep @ join sep (y # xs)"


section \<open>Lines\<close>

text \<open>The length of the line boundary a text starts with (\<open>str.splitlines\<close>), zero if none.\<close>

definition line_break :: "py_str \<Rightarrow> nat" where
  "line_break s =
     (case s of
        [] \<Rightarrow> 0
      | c # cs \<Rightarrow>
          if code c = 13 then (if starts_with cs [CHR 0x0A] then 2 else 1)
          else if code c \<in> {10, 11, 12, 28, 29, 30} then 1
          else if starts_with s [CHR 0xC2, CHR 0x85] then 2
          else if starts_with s [CHR 0xE2, CHR 0x80, CHR 0xA8] \<or> starts_with s [CHR 0xE2, CHR 0x80, CHR 0xA9] then 3
          else 0)"

function split_lines :: "py_str \<Rightarrow> py_str \<Rightarrow> py_str list" where
  "split_lines cur [] = (if cur = [] then [] else [cur])"
| "split_lines cur (c # cs) =
     (let n = line_break (c # cs)
      in if n = 0 then split_lines (cur @ [c]) cs
         else (cur @ take n (c # cs)) # split_lines [] (drop n (c # cs)))"
  by pat_completeness auto
termination
  by (relation "measure (\<lambda>(cur, s). length s)") auto

declare split_lines.simps(2) [simp del]

definition splitlines_keep :: "py_str \<Rightarrow> py_str list" where
  "splitlines_keep s = split_lines [] s"

text \<open>\<open>str.splitlines()\<close>, without the line ends.\<close>

function lines_of :: "py_str \<Rightarrow> py_str \<Rightarrow> py_str list" where
  "lines_of cur [] = (if cur = [] then [] else [cur])"
| "lines_of cur (c # cs) =
     (let n = line_break (c # cs)
      in if n = 0 then lines_of (cur @ [c]) cs else cur # lines_of [] (drop n (c # cs)))"
  by pat_completeness auto
termination
  by (relation "measure (\<lambda>(cur, s). length s)") auto

declare lines_of.simps(2) [simp del]

definition splitlines :: "py_str \<Rightarrow> py_str list" where
  "splitlines s = lines_of [] s"


section \<open>Facts\<close>

lemma find_first:
  "\<not> str_contains a (x # q) \<Longrightarrow> x \<notin> set q \<Longrightarrow> str_find (a @ (x # q) @ rest) (x # q) = Some (length a)"
proof (induction a)
  case Nil
  then show ?case by (simp add: starts_with_iff)
next
  case (Cons c cs)
  have no: "\<not> starts_with (c # cs) (x # q)" "\<not> str_contains cs (x # q)"
    using Cons.prems(1) by (auto simp: str_contains_def split: if_splits)
  have "\<not> starts_with (c # cs @ x # q @ rest) (x # q)"
  proof
    assume s: "starts_with (c # cs @ x # q @ rest) (x # q)"
    show False
    proof (cases "length (x # q) \<le> length (c # cs)")
      case True
      then show False using s no(1) starts_with_append_short [of "x # q" "c # cs" "x # q @ rest"] by simp
    next
      case False
      obtain u where u: "cs @ x # q @ rest = q @ u" using s by (auto simp: starts_with_iff)
      have "q ! length cs = (q @ u) ! length cs" using False by (simp add: nth_append)
      also have "\<dots> = x" unfolding u [symmetric] by simp
      finally have "x \<in> set q" using False by (metis length_Cons not_less_eq_eq nth_mem not_le)
      then show False using Cons.prems(2) by simp
    qed
  qed
  then show ?case using Cons.IH [OF no(2) Cons.prems(2)] by simp
qed

lemma lstrip_strip: "str_strip s \<noteq> [] \<Longrightarrow> \<not> is_space (hd (str_strip s))"
proof -
  assume ne: "str_strip s \<noteq> []"
  let ?u = "dropWhile is_space s"
  obtain v where v: "?u = str_strip s @ v"
    unfolding str_strip_def by (metis rev_append rev_rev_ident takeWhile_dropWhile_id)
  then have "?u \<noteq> []" "hd (str_strip s) = hd ?u" using ne by auto
  then show ?thesis by (simp add: hd_dropWhile)
qed

lemma strip_chars_edges:
  "set (strip_chars cs s) \<subseteq> set s" "strip_chars cs s \<noteq> [] \<Longrightarrow> hd (strip_chars cs s) \<notin> cs"
proof -
  show "set (strip_chars cs s) \<subseteq> set s" by (auto simp: strip_chars_def dest!: set_dropWhileD)
  assume ne: "strip_chars cs s \<noteq> []"
  let ?u = "dropWhile (\<lambda>c. c \<in> cs) s"
  obtain v where v: "?u = strip_chars cs s @ v"
    unfolding strip_chars_def by (metis rev_append rev_rev_ident takeWhile_dropWhile_id)
  have u: "?u \<noteq> []" and h: "hd ?u = hd (strip_chars cs s)" unfolding v using ne by simp_all
  show "hd (strip_chars cs s) \<notin> cs" using hd_dropWhile [OF u] unfolding h .
qed

end
