(* ===== verification/Declassify.thy ===== *)
theory Declassify
  imports Memory_Privacy Py_Strings
begin

text \<open>
  Bulk declassification of a log (\<open>sera/safety/declassify.py\<close>): the log is cut into lines, a
  line that is a JSON object is redacted value by value, any other line as text. The JSON
  parser and printer are arguments; a parser that raises gives no value.
\<close>


section \<open>Values\<close>

definition clean_text :: "py_str \<Rightarrow> py_str" where
  "clean_text s = redact (redact_pii default_marker s)"

fun redact_object :: "py_value \<Rightarrow> py_value \<times> PIIMatch list" where
  "redact_object (PyStr s) =
     (let pii = detect s in if pii = [] then (PyStr s, []) else (PyStr (clean_text s), pii))"
| "redact_object (PyDict kvs) =
     (PyDict (map (\<lambda>(k, v). (k, fst (redact_object v))) kvs), concat (map (\<lambda>(k, v). snd (redact_object v)) kvs))"
| "redact_object (PyList vs) =
     (PyList (map (\<lambda>v. fst (redact_object v)) vs), concat (map (\<lambda>v. snd (redact_object v)) vs))"
| "redact_object v = (v, [])"


section \<open>The declassifier\<close>

record json_codec =
  js_loads :: "py_str \<Rightarrow> py_value option"
  js_dumps :: "py_value \<Rightarrow> py_str"

record RedactedSpan =
  line_no :: nat
  span_original :: py_str
  span_redacted :: py_str
  span_matches :: "PIIMatch list"

record DeclassifyResult =
  dc_redacted :: py_str
  dc_spans :: "RedactedSpan list"

definition n_lines_changed :: "DeclassifyResult \<Rightarrow> nat" where
  "n_lines_changed r = length (dc_spans r)"

definition n_spans :: "DeclassifyResult \<Rightarrow> nat" where
  "n_spans r = sum_list (map (\<lambda>s. length (span_matches s)) (dc_spans r))"

text \<open>\<open>decimal\<close> is the printed form of a number.\<close>

definition summary :: "DeclassifyResult \<Rightarrow> (nat \<Rightarrow> py_str) \<Rightarrow> py_str" where
  "summary r decimal =
     ''Declassified: '' @ decimal (n_lines_changed r) @ '' lines changed, '' @ decimal (n_spans r) @ '' PII spans redacted.''"

definition diff_lines :: "DeclassifyResult \<Rightarrow> (nat \<Rightarrow> py_str) \<Rightarrow> py_str list" where
  "diff_lines r decimal = concat (map (\<lambda>s.
     [''@@ line '' @ decimal (line_no s) @ '' @@'', ''-'' @ span_original s, ''+'' @ span_redacted s]) (dc_spans r))"

definition redact_plain :: "py_str \<Rightarrow> py_str \<times> PIIMatch list" where
  "redact_plain line = (let matches = detect line in if matches = [] then (line, []) else (clean_text line, matches))"

definition process_line :: "json_codec \<Rightarrow> bool \<Rightarrow> py_str \<Rightarrow> py_str \<times> PIIMatch list" where
  "process_line J deep line =
     (let stripped = rstrip_chars [CHR 0x0A, CHR 0x0D] line
      in if deep \<and> starts_with stripped ''{''
         then (case js_loads J stripped of
                 None \<Rightarrow> redact_plain line
               | Some obj \<Rightarrow>
                   (case redact_object obj of
                      (clean, matches) \<Rightarrow> (js_dumps J clean @ drop (length stripped) line, matches)))
         else redact_plain line)"

definition span_of :: "nat \<Rightarrow> py_str \<Rightarrow> py_str \<times> PIIMatch list \<Rightarrow> RedactedSpan list" where
  "span_of i line cm =
     (if snd cm = [] then []
      else [\<lparr>line_no = i, span_original = rstrip_chars [CHR 0x0A] line,
             span_redacted = rstrip_chars [CHR 0x0A] (fst cm), span_matches = snd cm\<rparr>])"

definition declassify :: "json_codec \<Rightarrow> bool \<Rightarrow> py_str \<Rightarrow> DeclassifyResult" where
  "declassify J deep t =
     (let lines = splitlines_keep t
      in \<lparr>dc_redacted = concat (map (\<lambda>line. fst (process_line J deep line)) lines),
          dc_spans = concat (map (\<lambda>(i, line). span_of i line (process_line J deep line)) (enumerate 1 lines))\<rparr>)"


section \<open>What is rewritten\<close>

lemma split_lines_concat: "concat (split_lines cur s) = cur @ s"
proof (induction cur s rule: split_lines.induct)
  case (2 cur c cs)
  then show ?case by (cases "line_break (c # cs) = 0") (simp_all add: split_lines.simps(2) Let_def del: take_append drop_append)
qed simp

text \<open>The text values of a document, and the document with a function applied to each of them.\<close>

fun leaves :: "py_value \<Rightarrow> py_str list" where
  "leaves (PyStr s) = [s]"
| "leaves (PyDict kvs) = concat (map (\<lambda>(k, v). leaves v) kvs)"
| "leaves (PyList vs) = concat (map leaves vs)"
| "leaves v = []"

fun map_leaves :: "(py_str \<Rightarrow> py_str) \<Rightarrow> py_value \<Rightarrow> py_value" where
  "map_leaves f (PyStr s) = PyStr (f s)"
| "map_leaves f (PyDict kvs) = PyDict (map (\<lambda>(k, v). (k, map_leaves f v)) kvs)"
| "map_leaves f (PyList vs) = PyList (map (map_leaves f) vs)"
| "map_leaves f v = v"

definition cleaned :: "py_str \<Rightarrow> py_str" where
  "cleaned s = (if has_pii s then redact (redact_pii default_marker s) else s)"

lemma redact_plain_cleaned: "redact_plain s = (cleaned s, detect s)"
  by (simp add: redact_plain_def cleaned_def clean_text_def has_pii_iff Let_def)

lemma redact_object_spec: "redact_object v = (map_leaves cleaned v, concat (map detect (leaves v)))"
proof (induction v rule: redact_object.induct)
  case (1 s)
  then show ?case by (simp add: cleaned_def clean_text_def has_pii_iff Let_def)
next
  case (2 kvs)
  then have "fst (redact_object v) = map_leaves cleaned v \<and> snd (redact_object v) = concat (map detect (leaves v))"
    if "(k, v) \<in> set kvs" for k v
    using that by auto
  then show ?case by (induction kvs) (auto, metis concat_append map_append)
next
  case (3 vs)
  then have "fst (redact_object v) = map_leaves cleaned v \<and> snd (redact_object v) = concat (map detect (leaves v))"
    if "v \<in> set vs" for v
    using that by auto
  then show ?case by (induction vs) auto
qed simp_all

text \<open>The parts of a line that detection looks at: the values of a JSON object, or the line.\<close>

definition parsed_line :: "json_codec \<Rightarrow> bool \<Rightarrow> py_str \<Rightarrow> py_value option" where
  "parsed_line J deep line =
     (let stripped = rstrip_chars [CHR 0x0A, CHR 0x0D] line
      in if deep \<and> starts_with stripped ''{'' then js_loads J stripped else None)"

definition line_parts :: "json_codec \<Rightarrow> bool \<Rightarrow> py_str \<Rightarrow> py_str list" where
  "line_parts J deep line = (case parsed_line J deep line of None \<Rightarrow> [line] | Some v \<Rightarrow> leaves v)"

definition line_ending :: "py_str \<Rightarrow> py_str" where
  "line_ending line = drop (length (rstrip_chars [CHR 0x0A, CHR 0x0D] line)) line"

lemma process_line_text:
  "fst (process_line J deep line) =
     (case parsed_line J deep line of None \<Rightarrow> cleaned line
      | Some v \<Rightarrow> js_dumps J (map_leaves cleaned v) @ line_ending line)"
  by (simp add: process_line_def parsed_line_def line_ending_def redact_object_spec redact_plain_cleaned Let_def
      split: option.split)

lemma process_line_matches: "snd (process_line J deep line) = concat (map detect (line_parts J deep line))"
  by (simp add: process_line_def line_parts_def parsed_line_def redact_object_spec redact_plain_cleaned Let_def split: option.split)

lemma n_spans_declassify:
  "n_spans (declassify J deep t) = (\<Sum>line\<leftarrow>splitlines_keep t. length (snd (process_line J deep line)))"
proof -
  have "(\<Sum>s\<leftarrow>concat (map (\<lambda>(i, line). span_of i line (process_line J deep line)) (enumerate k lines)). length (span_matches s)) =
      (\<Sum>line\<leftarrow>lines. length (snd (process_line J deep line)))" for k lines
    by (induction lines arbitrary: k) (simp_all add: span_of_def)
  then show ?thesis by (simp add: n_spans_def declassify_def Let_def)
qed

lemma spans_line_nos:
  "map line_no (dc_spans (declassify J deep t)) =
     map fst (filter (\<lambda>(i, line). snd (process_line J deep line) \<noteq> []) (enumerate 1 (splitlines_keep t)))"
proof -
  have "map line_no (concat (map (\<lambda>(i, line). span_of i line (process_line J deep line)) (enumerate k lines))) =
      map fst (filter (\<lambda>(i, line). snd (process_line J deep line) \<noteq> []) (enumerate k lines))" for k lines
    by (induction lines arbitrary: k) (simp_all add: span_of_def)
  then show ?thesis by (simp add: declassify_def Let_def)
qed

text \<open>
  Declassification reaches every value. The lines it works on are the log and nothing else; a
  JSON line comes back as the same object with every text value that has personal data cleaned
  (whatever its depth) and every other value untouched, a plain line is cleaned as a whole
  when it has any; and the report counts exactly the detected matches and names exactly the
  lines that have one.
\<close>

theorem declassify_reaches_all:
  "concat (splitlines_keep t) = t \<and>
   dc_redacted (declassify J deep t) = concat (map (\<lambda>line.
     case parsed_line J deep line of None \<Rightarrow> cleaned line
     | Some v \<Rightarrow> js_dumps J (map_leaves cleaned v) @ line_ending line) (splitlines_keep t)) \<and>
   n_spans (declassify J deep t) =
     (\<Sum>line\<leftarrow>splitlines_keep t. \<Sum>part\<leftarrow>line_parts J deep line. length (detect part)) \<and>
   map line_no (dc_spans (declassify J deep t)) =
     map fst (filter (\<lambda>(i, line). list_ex has_pii (line_parts J deep line)) (enumerate 1 (splitlines_keep t)))"
proof -
  have m: "(snd (process_line J deep line) \<noteq> []) = list_ex has_pii (line_parts J deep line)" for line
    by (auto simp: process_line_matches list_ex_iff has_pii_iff)
  have n: "length (snd (process_line J deep line)) = (\<Sum>part\<leftarrow>line_parts J deep line. length (detect part))" for line
    by (simp add: process_line_matches length_concat comp_def)
  have "concat (splitlines_keep t) = t" by (simp add: split_lines_concat splitlines_keep_def)
  then show ?thesis
    by (simp add: n_spans_declassify spans_line_nos m n) (simp add: declassify_def process_line_text Let_def)
qed

text \<open>A secret of a kind the personal-data table lacks, and anything in a key, stays in the log.\<close>

lemma secret_survives:
  "has_secret ''Bearer abcdefghijklmnopqrst'' \<and>
   dc_redacted (declassify J deep ''Bearer abcdefghijklmnopqrst'') = ''Bearer abcdefghijklmnopqrst''"
proof -
  have "splitlines_keep ''Bearer abcdefghijklmnopqrst'' = [''Bearer abcdefghijklmnopqrst'']" by code_simp
  moreover have "detect ''Bearer abcdefghijklmnopqrst'' = []" by code_simp
  moreover have "rstrip_chars [CHR 0x0A, CHR 0x0D] ''Bearer abcdefghijklmnopqrst'' = ''Bearer abcdefghijklmnopqrst''" by code_simp
  moreover have "has_secret ''Bearer abcdefghijklmnopqrst''" by code_simp
  ultimately show ?thesis by (simp add: declassify_def process_line_def redact_plain_def)
qed

lemma key_survives: "redact_object (PyDict [(''a@b.co'', PyNone)]) = (PyDict [(''a@b.co'', PyNone)], [])"
  by simp

end
