(* ===== verification/Memory_Tree.thy ===== *)
theory Memory_Tree
  imports Memory_Privacy
begin

text \<open>
  The memory tree (\<open>sera/memory/tree.py\<close>): chunks with their embedding, confidence, freshness
  and personal-data tags, entities and the relations between them. A table is the list of its
  rows in rowid order with the next AUTOINCREMENT id; a JSON column holds the list it encodes;
  an embedding is a list of reals. The vector search is the cosine scan of the source; the
  third-party sqlite-vss extension that can replace it is not modelled. The clock is an argument.
\<close>


section \<open>Tables\<close>

record merge_entry =
  me_source :: py_str
  me_similarity :: py_float
  me_at :: py_float

record chunk_row =
  ck_id :: nat
  ck_source :: py_str
  ck_content :: py_str
  ck_summary :: py_str
  ck_confidence :: py_float
  ck_embedding :: "py_float list option"
  ck_extracted_at :: "py_float option"
  ck_freshness :: py_float
  ck_last_accessed :: "py_float option"
  ck_merged_into :: "nat option"
  ck_merged_from :: "merge_entry list"
  ck_pii_tags :: "py_str list"
  ck_created_at :: py_float

record Entity =
  en_id :: nat
  en_name :: py_str
  en_type :: py_str
  en_first_seen :: py_float
  en_last_seen :: py_float

record Relation =
  rl_id :: nat
  rl_src :: nat
  rl_dst :: nat
  rl_kind :: py_str
  rl_confidence :: py_float
  rl_provenance :: "nat option"
  rl_created_at :: py_float

record memory_tree =
  embedding_dim :: nat
  chunks :: "chunk_row list"
  next_chunk :: nat
  entities :: "Entity list"
  next_entity :: nat
  relations :: "Relation list"
  next_relation :: nat

definition new_tree :: "nat \<Rightarrow> memory_tree" where
  "new_tree d =
     \<lparr>embedding_dim = d, chunks = [], next_chunk = 1, entities = [], next_entity = 1, relations = [], next_relation = 1\<rparr>"

datatype tree_error = ConfidenceOutOfRange py_float | DimMismatch nat nat

definition FRESHNESS_HALF_LIFE_SECONDS :: py_float where
  "FRESHNESS_HALF_LIFE_SECONDS = 30 * 24 * 60 * 60"

definition FRESHNESS_EWMA_ALPHA :: py_float where
  "FRESHNESS_EWMA_ALPHA = 1 / 2"

definition DEFAULT_DEDUP_THRESHOLD :: py_float where
  "DEFAULT_DEDUP_THRESHOLD = 95 / 100"

text \<open>\<open>SELECT \<dots> WHERE id = ?\<close> and \<open>UPDATE \<dots> WHERE id = ?\<close>.\<close>

definition chunk_at :: "memory_tree \<Rightarrow> nat \<Rightarrow> chunk_row option" where
  "chunk_at t i = find (\<lambda>r. ck_id r = i) (chunks t)"

definition update_chunks :: "nat \<Rightarrow> (chunk_row \<Rightarrow> chunk_row) \<Rightarrow> memory_tree \<Rightarrow> memory_tree" where
  "update_chunks i f t = t\<lparr>chunks := map (\<lambda>r. if ck_id r = i then f r else r) (chunks t)\<rparr>"


section \<open>Chunks\<close>

definition bad_confidence :: "py_float \<Rightarrow> bool" where
  "bad_confidence c \<longleftrightarrow> \<not> (0 \<le> c \<and> c \<le> 1)"

definition bad_dim :: "memory_tree \<Rightarrow> py_float list option \<Rightarrow> bool" where
  "bad_dim t e \<longleftrightarrow> (case e of None \<Rightarrow> False | Some v \<Rightarrow> length v \<noteq> embedding_dim t)"

definition dim_error :: "memory_tree \<Rightarrow> py_float list option \<Rightarrow> tree_error" where
  "dim_error t e = DimMismatch (length (case e of None \<Rightarrow> [] | Some v \<Rightarrow> v)) (embedding_dim t)"

definition add_chunk ::
  "py_str \<Rightarrow> py_str \<Rightarrow> py_str \<Rightarrow> py_float \<Rightarrow> py_float list option \<Rightarrow> py_float \<Rightarrow> memory_tree \<Rightarrow>
   (tree_error, memory_tree \<times> nat) py_result"
where
  "add_chunk source content summary confidence embedding now t =
     (if bad_confidence confidence then Inl (ConfidenceOutOfRange confidence)
      else if bad_dim t embedding then Inl (dim_error t embedding)
      else Inr (t\<lparr>chunks := chunks t @
          [\<lparr>ck_id = next_chunk t, ck_source = source, ck_content = content, ck_summary = summary,
            ck_confidence = confidence, ck_embedding = embedding, ck_extracted_at = None, ck_freshness = 1,
            ck_last_accessed = Some now, ck_merged_into = None, ck_merged_from = [],
            ck_pii_tags = pii_kinds content, ck_created_at = now\<rparr>],
          next_chunk := Suc (next_chunk t)\<rparr>, next_chunk t))"

definition update_chunk ::
  "nat \<Rightarrow> py_str option \<Rightarrow> py_str option \<Rightarrow> py_float option \<Rightarrow> py_float list option \<Rightarrow> memory_tree \<Rightarrow>
   (tree_error, memory_tree \<times> bool) py_result"
where
  "update_chunk i content summary confidence embedding t =
     (if chunk_at t i = None then Inr (t, False)
      else if (case confidence of None \<Rightarrow> False | Some c \<Rightarrow> bad_confidence c)
      then Inl (ConfidenceOutOfRange (case confidence of None \<Rightarrow> 0 | Some c \<Rightarrow> c))
      else if bad_dim t embedding then Inl (dim_error t embedding)
      else Inr (update_chunks i (\<lambda>r.
          let r1 = (case content of None \<Rightarrow> r | Some c \<Rightarrow> r\<lparr>ck_content := c, ck_pii_tags := pii_kinds c\<rparr>);
              r2 = (case summary of None \<Rightarrow> r1 | Some s \<Rightarrow> r1\<lparr>ck_summary := s\<rparr>);
              r3 = (case confidence of None \<Rightarrow> r2 | Some c \<Rightarrow> r2\<lparr>ck_confidence := c\<rparr>)
          in (case embedding of None \<Rightarrow> r3 | Some e \<Rightarrow> r3\<lparr>ck_embedding := Some e\<rparr>)) t, True))"

definition mark_extracted :: "nat \<Rightarrow> py_float \<Rightarrow> memory_tree \<Rightarrow> memory_tree \<times> bool" where
  "mark_extracted i when t =
     (update_chunks i (\<lambda>r. r\<lparr>ck_extracted_at := Some when\<rparr>) t, list_ex (\<lambda>r. ck_id r = i) (chunks t))"

definition chunks_pending_extraction :: "nat \<Rightarrow> memory_tree \<Rightarrow> nat list" where
  "chunks_pending_extraction limit t =
     take limit (sort (map ck_id (filter (\<lambda>r. ck_extracted_at r = None) (chunks t))))"

definition delete_chunk :: "nat \<Rightarrow> memory_tree \<Rightarrow> memory_tree \<times> bool" where
  "delete_chunk i t =
     (t\<lparr>chunks := filter (\<lambda>r. ck_id r \<noteq> i) (chunks t)\<rparr>, list_ex (\<lambda>r. ck_id r = i) (chunks t))"


section \<open>Canonical chunks\<close>

lemma chunk_at_id: "chunk_at t i = Some r \<Longrightarrow> r \<in> set (chunks t) \<and> ck_id r = i"
  by (auto simp: chunk_at_def find_Some_iff)

function resolve_from :: "memory_tree \<Rightarrow> nat set \<Rightarrow> nat \<Rightarrow> nat" where
  "resolve_from t visited cur =
     (if cur \<in> visited then cur
      else case chunk_at t cur of
             None \<Rightarrow> cur
           | Some r \<Rightarrow> (case ck_merged_into r of None \<Rightarrow> cur | Some c \<Rightarrow> resolve_from t (insert cur visited) c))"
  by pat_completeness auto
termination
proof (relation "measure (\<lambda>(t, visited, cur). card (ck_id ` set (chunks t) - visited))")
  fix t visited cur r c
  assume "cur \<notin> visited" "chunk_at t cur = Some r"
  then have "ck_id ` set (chunks t) - insert cur visited \<subset> ck_id ` set (chunks t) - visited"
    using chunk_at_id [of t cur r] by (auto intro!: psubsetI)
  then show "((t, insert cur visited, c), t, visited, cur) \<in> measure (\<lambda>(t, visited, cur). card (ck_id ` set (chunks t) - visited))"
    by (simp add: psubset_card_mono)
qed simp

declare resolve_from.simps [simp del]

definition resolve_canonical :: "memory_tree \<Rightarrow> nat \<Rightarrow> nat" where
  "resolve_canonical t i = resolve_from t {} i"


section \<open>Freshness\<close>

definition decayed :: "py_float \<Rightarrow> py_float option \<Rightarrow> py_float \<Rightarrow> py_float \<Rightarrow> py_float" where
  "decayed stored last_seen now half_life =
     (if stored \<le> 0 then 0
      else case last_seen of
             None \<Rightarrow> min 1 stored
           | Some l \<Rightarrow>
               if now \<le> l then min 1 stored
               else max 0 (min 1 (stored * ((1/2) powr ((now - l) / half_life)))))"

definition freshness_of :: "nat \<Rightarrow> py_float \<Rightarrow> py_float \<Rightarrow> memory_tree \<Rightarrow> py_float" where
  "freshness_of i now half_life t =
     (case chunk_at t i of
        None \<Rightarrow> 0
      | Some r \<Rightarrow> decayed (ck_freshness r) (ck_last_accessed r) now half_life)"

definition touch_chunk :: "nat \<Rightarrow> py_float \<Rightarrow> py_float \<Rightarrow> py_float \<Rightarrow> memory_tree \<Rightarrow> memory_tree \<times> py_float" where
  "touch_chunk i now half_life alpha t =
     (case chunk_at t i of
        None \<Rightarrow> (t, 0)
      | Some r \<Rightarrow>
          (let old = decayed (ck_freshness r) (ck_last_accessed r) now half_life;
               new = max 0 (min 1 (alpha + (1 - alpha) * old))
           in (update_chunks i (\<lambda>r. r\<lparr>ck_freshness := new, ck_last_accessed := Some now\<rparr>) t, new)))"

text \<open>\<open>MAX(e.last_seen)\<close> over the entities of the relations that cite the chunk.\<close>

definition last_mentions :: "nat \<Rightarrow> memory_tree \<Rightarrow> py_float list" where
  "last_mentions i t =
     concat (map (\<lambda>r. map en_last_seen (filter (\<lambda>e. en_id e = rl_src r \<or> en_id e = rl_dst r) (entities t)))
       (filter (\<lambda>r. rl_provenance r = Some i) (relations t)))"

definition entity_aware_freshness :: "nat \<Rightarrow> py_float \<Rightarrow> py_float \<Rightarrow> memory_tree \<Rightarrow> py_float" where
  "entity_aware_freshness i now half_life t =
     (let base = freshness_of i now half_life t
      in case last_mentions i t of
           [] \<Rightarrow> base
         | m # ms \<Rightarrow>
             (let elapsed = max 0 (now - foldl max m ms)
              in max base ((1/2) powr (elapsed / half_life))))"


section \<open>Reading with consent\<close>

record Chunk =
  c_id :: nat
  c_source :: py_str
  c_content :: py_str
  c_summary :: py_str
  c_confidence :: py_float
  c_created_at :: py_float
  c_pii_tags :: "py_str list"

record SearchHit =
  sh_chunk_id :: nat
  sh_distance :: py_float
  sh_content :: py_str
  sh_confidence :: py_float
  sh_pii_tags :: "py_str list"
  sh_redacted :: bool

fun comma_join :: "py_str list \<Rightarrow> py_str" where
  "comma_join [] = []"
| "comma_join [x] = x"
| "comma_join (x # y # ys) = x @ '','' @ comma_join (y # ys)"

definition pii_redaction_notice :: "py_str list \<Rightarrow> py_str" where
  "pii_redaction_notice tags =
     ''[redacted '' @ [CHR 0xE2, CHR 0x80, CHR 0x94] @ '' pii: '' @ comma_join tags @ ''; pass consent=True to reveal]''"

definition get_chunk :: "nat \<Rightarrow> bool \<Rightarrow> memory_tree \<Rightarrow> Chunk option" where
  "get_chunk i consent t =
     (case chunk_at t i of
        None \<Rightarrow> None
      | Some r \<Rightarrow> Some \<lparr>c_id = ck_id r, c_source = ck_source r,
          c_content = (if ck_pii_tags r \<noteq> [] \<and> \<not> consent then pii_redaction_notice (ck_pii_tags r) else ck_content r),
          c_summary = ck_summary r, c_confidence = ck_confidence r, c_created_at = ck_created_at r,
          c_pii_tags = ck_pii_tags r\<rparr>)"

definition hit_for_row :: "py_float \<Rightarrow> bool \<Rightarrow> chunk_row \<Rightarrow> SearchHit" where
  "hit_for_row distance consent r =
     (let hide = ck_pii_tags r \<noteq> [] \<and> \<not> consent
      in \<lparr>sh_chunk_id = ck_id r, sh_distance = distance,
          sh_content = (if hide then pii_redaction_notice (ck_pii_tags r) else ck_content r),
          sh_confidence = ck_confidence r, sh_pii_tags = ck_pii_tags r, sh_redacted = hide\<rparr>)"


section \<open>Vector search\<close>

definition vec_dot :: "py_float list \<Rightarrow> py_float list \<Rightarrow> py_float" where
  "vec_dot u v = sum_list (map2 (*) u v)"

definition vec_norm :: "py_float list \<Rightarrow> py_float" where
  "vec_norm v = (let n = sqrt (sum_list (map (\<lambda>x. x * x) v)) in if n = 0 then 1 else n)"

definition cosine :: "py_float list \<Rightarrow> py_float list \<Rightarrow> py_float" where
  "cosine u v = vec_dot u v / (vec_norm u * vec_norm v)"

definition scored_rows :: "py_float list \<Rightarrow> py_float \<Rightarrow> memory_tree \<Rightarrow> (py_float \<times> chunk_row) list" where
  "scored_rows q min_confidence t =
     concat (map (\<lambda>r. case ck_embedding r of
         None \<Rightarrow> []
       | Some v \<Rightarrow>
           if min_confidence \<le> ck_confidence r \<and> ck_merged_into r = None \<and> length v = length q
           then [(1 - cosine q v, r)] else []) (chunks t))"

definition search_numpy :: "py_float list \<Rightarrow> nat \<Rightarrow> py_float \<Rightarrow> bool \<Rightarrow> memory_tree \<Rightarrow> SearchHit list" where
  "search_numpy q limit min_confidence consent t =
     take limit (sort_key (\<lambda>h. (sh_distance h, - sh_confidence h))
       (map (\<lambda>(d, r). hit_for_row d consent r) (scored_rows q min_confidence t)))"

definition search :: "py_float list \<Rightarrow> nat \<Rightarrow> py_float \<Rightarrow> bool \<Rightarrow> memory_tree \<Rightarrow> (tree_error, SearchHit list) py_result" where
  "search q limit min_confidence consent t =
     (if length q \<noteq> embedding_dim t then Inl (DimMismatch (length q) (embedding_dim t))
      else Inr (search_numpy q limit min_confidence consent t))"


section \<open>Deduplication\<close>

definition find_near_duplicate ::
  "py_float list \<Rightarrow> py_float \<Rightarrow> memory_tree \<Rightarrow> (tree_error, (nat \<times> py_float) option) py_result"
where
  "find_near_duplicate e threshold t =
     (case search e 1 0 False t of
        Inl err \<Rightarrow> Inl err
      | Inr [] \<Rightarrow> Inr None
      | Inr (h # _) \<Rightarrow>
          (let similarity = 1 - sh_distance h
           in Inr (if threshold \<le> similarity then Some (sh_chunk_id h, similarity) else None)))"

text \<open>\<open>clock\<close> is the reading of \<open>time.time()\<close> when no time is passed.\<close>

definition or_clock :: "py_float option \<Rightarrow> py_float \<Rightarrow> py_float" where
  "or_clock now clock = (case now of None \<Rightarrow> clock | Some n \<Rightarrow> n)"

definition merge_into :: "nat \<Rightarrow> merge_entry \<Rightarrow> py_float \<Rightarrow> py_float \<Rightarrow> memory_tree \<Rightarrow> memory_tree" where
  "merge_into i entry confidence now t =
     fst (touch_chunk i now FRESHNESS_HALF_LIFE_SECONDS FRESHNESS_EWMA_ALPHA
       (update_chunks i (\<lambda>r. r\<lparr>ck_merged_from := ck_merged_from r @ [entry],
          ck_confidence := max (ck_confidence r) confidence\<rparr>) t))"

definition add_or_merge_chunk ::
  "py_str \<Rightarrow> py_str \<Rightarrow> py_str \<Rightarrow> py_float \<Rightarrow> py_float list option \<Rightarrow> py_float option \<Rightarrow> py_float \<Rightarrow> py_float \<Rightarrow>
   memory_tree \<Rightarrow> (tree_error, memory_tree \<times> nat \<times> bool) py_result"
where
  "add_or_merge_chunk source content summary confidence embedding now clock threshold t =
     (let fresh = (case add_chunk source content summary confidence embedding (or_clock now clock) t of
                     Inl err \<Rightarrow> Inl err | Inr (t1, i) \<Rightarrow> Inr (t1, i, False))
      in case embedding of
           None \<Rightarrow> fresh
         | Some e \<Rightarrow>
             (case find_near_duplicate e threshold t of
                Inl err \<Rightarrow> Inl err
              | Inr None \<Rightarrow> fresh
              | Inr (Some (canonical, similarity)) \<Rightarrow>
                  Inr (merge_into canonical
                    \<lparr>me_source = source, me_similarity = similarity,
                     me_at = (if now = None \<or> now = Some 0 then clock else or_clock now clock)\<rparr>
                    confidence (or_clock now clock) t, canonical, True)))"

definition merged_from_for :: "nat \<Rightarrow> memory_tree \<Rightarrow> merge_entry list" where
  "merged_from_for i t = (case chunk_at t i of None \<Rightarrow> [] | Some r \<Rightarrow> ck_merged_from r)"


section \<open>Entities and relations\<close>

definition find_entity :: "py_str \<Rightarrow> memory_tree \<Rightarrow> Entity option" where
  "find_entity name t = find (\<lambda>e. en_name e = name) (entities t)"

definition get_entity :: "nat \<Rightarrow> memory_tree \<Rightarrow> Entity option" where
  "get_entity i t = find (\<lambda>e. en_id e = i) (entities t)"

definition add_entity :: "py_str \<Rightarrow> py_str \<Rightarrow> py_float \<Rightarrow> memory_tree \<Rightarrow> memory_tree \<times> nat" where
  "add_entity name type now t =
     (case find_entity name t of
        Some e \<Rightarrow>
          (t\<lparr>entities := map (\<lambda>x. if en_id x = en_id e then x\<lparr>en_last_seen := now\<rparr> else x) (entities t)\<rparr>, en_id e)
      | None \<Rightarrow>
          (t\<lparr>entities := entities t @ [\<lparr>en_id = next_entity t, en_name = name, en_type = type,
               en_first_seen = now, en_last_seen = now\<rparr>],
             next_entity := Suc (next_entity t)\<rparr>, next_entity t))"

definition add_relation ::
  "py_str \<Rightarrow> py_str \<Rightarrow> py_str \<Rightarrow> py_float \<Rightarrow> nat option \<Rightarrow> py_str \<Rightarrow> py_str \<Rightarrow> py_float \<Rightarrow> memory_tree \<Rightarrow>
   (tree_error, memory_tree \<times> nat) py_result"
where
  "add_relation src dst kind confidence provenance src_type dst_type now t =
     (if bad_confidence confidence then Inl (ConfidenceOutOfRange confidence)
      else (case add_entity src src_type now t of (t1, src_id) \<Rightarrow>
            case add_entity dst dst_type now t1 of (t2, dst_id) \<Rightarrow>
              Inr (t2\<lparr>relations := relations t2 @ [\<lparr>rl_id = next_relation t2, rl_src = src_id, rl_dst = dst_id,
                     rl_kind = kind, rl_confidence = confidence, rl_provenance = provenance, rl_created_at = now\<rparr>],
                   next_relation := Suc (next_relation t2)\<rparr>, next_relation t2)))"

definition relations_for :: "py_str \<Rightarrow> memory_tree \<Rightarrow> Relation list" where
  "relations_for name t =
     sort_key rl_id (filter (\<lambda>r. list_ex (\<lambda>e. en_id e = rl_src r \<and> en_name e = name) (entities t)) (relations t))"

definition tree_stats :: "memory_tree \<Rightarrow> nat \<times> nat \<times> nat" where
  "tree_stats t = (length (chunks t), length (entities t), length (relations t))"


section \<open>The invariant of the tables\<close>

definition row_ok :: "nat \<Rightarrow> chunk_row \<Rightarrow> bool" where
  "row_ok d r \<longleftrightarrow>
     0 \<le> ck_confidence r \<and> 0 \<le> ck_freshness r \<and> ck_freshness r \<le> 1 \<and>
     (case ck_embedding r of None \<Rightarrow> True | Some v \<Rightarrow> length v = d) \<and>
     ck_merged_into r = None \<and> ck_pii_tags r = pii_kinds (ck_content r)"

definition relation_ok :: "memory_tree \<Rightarrow> Relation \<Rightarrow> bool" where
  "relation_ok t r \<longleftrightarrow>
     rl_src r \<in> en_id ` set (entities t) \<and> rl_dst r \<in> en_id ` set (entities t) \<and>
     0 \<le> rl_confidence r \<and> rl_confidence r \<le> 1"

definition ids_below :: "nat list \<Rightarrow> nat \<Rightarrow> bool" where
  "ids_below ids n \<longleftrightarrow> sorted_wrt (<) ids \<and> list_all (\<lambda>i. i < n) ids"

definition tree_ok :: "memory_tree \<Rightarrow> bool" where
  "tree_ok t \<longleftrightarrow>
     ids_below (map ck_id (chunks t)) (next_chunk t) \<and> list_all (row_ok (embedding_dim t)) (chunks t) \<and>
     ids_below (map en_id (entities t)) (next_entity t) \<and> distinct (map en_name (entities t)) \<and>
     ids_below (map rl_id (relations t)) (next_relation t) \<and> list_all (relation_ok t) (relations t)"

lemma ids_below_snoc [simp]: "ids_below (ids @ [n]) (Suc n) \<longleftrightarrow> ids_below ids n"
  by (auto simp: ids_below_def sorted_wrt_append list_all_iff less_Suc_eq)

lemma ids_below_filter: "ids_below (map f xs) n \<Longrightarrow> ids_below (map f (filter P xs)) n"
  by (auto simp: ids_below_def list_all_iff sorted_wrt_map intro: sorted_wrt_filter)

lemma ids_below_distinct: "ids_below ids n \<Longrightarrow> distinct ids"
  by (auto simp: ids_below_def strict_sorted_iff)

lemma find_key_unique:
  "distinct (map f xs) \<Longrightarrow> x \<in> set xs \<Longrightarrow> find (\<lambda>y. f y = f x) xs = Some x"
  by (induction xs) (auto simp: rev_image_eqI)

lemma chunk_at_mem: "tree_ok t \<Longrightarrow> r \<in> set (chunks t) \<Longrightarrow> chunk_at t (ck_id r) = Some r"
  unfolding chunk_at_def tree_ok_def by (intro find_key_unique) (auto dest: ids_below_distinct)

lemma tree_ok_new: "tree_ok (new_tree d)"
  by (simp add: tree_ok_def new_tree_def ids_below_def)

lemma update_chunks_ok:
  assumes "tree_ok t" "\<And>r. ck_id (f r) = ck_id r" "\<And>r. r \<in> set (chunks t) \<Longrightarrow> ck_id r = i \<Longrightarrow> row_ok (embedding_dim t) r \<Longrightarrow> row_ok (embedding_dim t) (f r)"
  shows "tree_ok (update_chunks i f t)"
proof -
  let ?rows = "map (\<lambda>r. if ck_id r = i then f r else r) (chunks t)"
  have ids: "map ck_id ?rows = map ck_id (chunks t)" using assms(2) by simp
  have "list_all (row_ok (embedding_dim t)) ?rows" using assms(1,3) by (auto simp: tree_ok_def list_all_iff)
  moreover have "chunks (update_chunks i f t) = ?rows" "embedding_dim (update_chunks i f t) = embedding_dim t"
    "next_chunk (update_chunks i f t) = next_chunk t" "entities (update_chunks i f t) = entities t"
    "next_entity (update_chunks i f t) = next_entity t" "relations (update_chunks i f t) = relations t"
    "next_relation (update_chunks i f t) = next_relation t" by (simp_all add: update_chunks_def)
  moreover have "relation_ok (update_chunks i f t) = relation_ok t"
    by (rule ext) (simp add: relation_ok_def update_chunks_def)
  ultimately show ?thesis using assms(1) ids unfolding tree_ok_def by presburger
qed

lemma decayed_bounds: "0 \<le> decayed s l n h \<and> decayed s l n h \<le> 1"
  by (simp add: decayed_def split: option.split)

lemma touch_chunk_ok: "tree_ok t \<Longrightarrow> tree_ok (fst (touch_chunk i now hl a t))"
  by (auto simp: touch_chunk_def Let_def row_ok_def split: option.split intro!: update_chunks_ok)

lemma add_chunk_ok: "tree_ok t \<Longrightarrow> add_chunk source content summary c e now t = Inr (t', i) \<Longrightarrow> tree_ok t'"
  by (auto simp: add_chunk_def tree_ok_def row_ok_def relation_ok_def bad_confidence_def bad_dim_def list_all_iff
      split: if_splits option.splits)

lemma update_chunk_ok: "tree_ok t \<Longrightarrow> update_chunk i content summary c e t = Inr (t', b) \<Longrightarrow> tree_ok t'"
  by (auto simp: update_chunk_def Let_def row_ok_def bad_confidence_def bad_dim_def
      split: if_splits option.splits intro!: update_chunks_ok)

lemma mark_extracted_ok: "tree_ok t \<Longrightarrow> tree_ok (fst (mark_extracted i w t))"
  by (auto simp: mark_extracted_def row_ok_def intro!: update_chunks_ok)

lemma delete_chunk_ok: "tree_ok t \<Longrightarrow> tree_ok (fst (delete_chunk i t))"
  by (auto simp: delete_chunk_def tree_ok_def list_all_iff relation_ok_def intro: ids_below_filter)

lemma merge_into_ok: "tree_ok t \<Longrightarrow> tree_ok (merge_into i m c now t)"
  unfolding merge_into_def by (intro touch_chunk_ok update_chunks_ok) (auto simp: row_ok_def)

lemma add_or_merge_ok:
  "tree_ok t \<Longrightarrow> add_or_merge_chunk source content summary c e now clock th t = Inr (t', i, b) \<Longrightarrow> tree_ok t'"
  by (auto simp: add_or_merge_chunk_def Let_def split: option.splits sum.splits prod.splits if_splits
      intro: add_chunk_ok merge_into_ok)

lemma find_entity_Some: "find_entity name t = Some e \<Longrightarrow> e \<in> set (entities t) \<and> en_name e = name"
  by (auto simp: find_entity_def find_Some_iff)

lemma find_entity_None: "find_entity name t = None \<longleftrightarrow> name \<notin> en_name ` set (entities t)"
  by (auto simp: find_entity_def find_None_iff)

lemma add_entity_facts:
  assumes "tree_ok t" "add_entity name type now t = (t', i)"
  shows "tree_ok t'" "i \<in> en_id ` set (entities t')" "en_id ` set (entities t) \<subseteq> en_id ` set (entities t')"
    "relations t' = relations t" "next_relation t' = next_relation t" "chunks t' = chunks t"
proof -
  have k: "map en_id (map (\<lambda>x. if en_id x = j then x\<lparr>en_last_seen := now\<rparr> else x) es) = map en_id es"
    "map en_name (map (\<lambda>x. if en_id x = j then x\<lparr>en_last_seen := now\<rparr> else x) es) = map en_name es" for j es
    by simp_all
  have ks: "en_id ` set (map (\<lambda>x. if en_id x = j then x\<lparr>en_last_seen := now\<rparr> else x) es) = en_id ` set es" for j es
    using k(1) [of j es] by (metis list.set_map)
  show "tree_ok t'"
  proof (cases "find_entity name t")
    case None
    with assms show ?thesis
      by (auto simp: add_entity_def tree_ok_def list_all_iff relation_ok_def find_entity_None)
  next
    case (Some e)
    with assms show ?thesis
      by (auto simp: add_entity_def tree_ok_def list_all_iff relation_ok_def
          simp del: list.map_comp map_map set_map simp: k ks)
  qed
  show "i \<in> en_id ` set (entities t')" "en_id ` set (entities t) \<subseteq> en_id ` set (entities t')"
    using assms find_entity_Some [of name t] by (auto simp: add_entity_def ks simp del: set_map split: option.splits)
  show "relations t' = relations t" "next_relation t' = next_relation t" "chunks t' = chunks t"
    using assms by (auto simp: add_entity_def split: option.splits)
qed

lemma add_relation_ok:
  assumes "tree_ok t" "add_relation src dst kind c p st dt now t = Inr (t', i)"
  shows "tree_ok t'"
proof -
  obtain t1 i1 t2 i2 where e: "add_entity src st now t = (t1, i1)" "add_entity dst dt now t1 = (t2, i2)"
    by fastforce
  note f1 = add_entity_facts [OF assms(1) e(1)]
  note f2 = add_entity_facts [OF f1(1) e(2)]
  from f1(2) f2(3) have "i1 \<in> en_id ` set (entities t2)" by blast
  with assms(2) e f2 show ?thesis
    by (auto simp: add_relation_def bad_confidence_def tree_ok_def list_all_iff relation_ok_def split: if_splits)
qed


text \<open>Everything a caller can do to the tables. A call that raises leaves them as they were.\<close>

datatype tree_op =
    AddChunk py_str py_str py_str py_float "py_float list option" py_float
  | UpdateChunk nat "py_str option" "py_str option" "py_float option" "py_float list option"
  | MarkExtracted nat py_float
  | DeleteChunk nat
  | AddOrMerge py_str py_str py_str py_float "py_float list option" "py_float option" py_float py_float
  | TouchChunk nat py_float py_float py_float
  | AddEntity py_str py_str py_float
  | AddRelation py_str py_str py_str py_float "nat option" py_str py_str py_float

definition kept :: "memory_tree \<Rightarrow> (tree_error, memory_tree \<times> 'a) py_result \<Rightarrow> memory_tree" where
  "kept t r = (case r of Inl e \<Rightarrow> t | Inr (t', x) \<Rightarrow> t')"

fun run_tree_op :: "tree_op \<Rightarrow> memory_tree \<Rightarrow> memory_tree" where
  "run_tree_op (AddChunk source content summary c e now) t = kept t (add_chunk source content summary c e now t)"
| "run_tree_op (UpdateChunk i content summary c e) t = kept t (update_chunk i content summary c e t)"
| "run_tree_op (MarkExtracted i w) t = fst (mark_extracted i w t)"
| "run_tree_op (DeleteChunk i) t = fst (delete_chunk i t)"
| "run_tree_op (AddOrMerge source content summary c e now clock th) t =
     kept t (add_or_merge_chunk source content summary c e now clock th t)"
| "run_tree_op (TouchChunk i now hl a) t = fst (touch_chunk i now hl a t)"
| "run_tree_op (AddEntity name type now) t = fst (add_entity name type now t)"
| "run_tree_op (AddRelation src dst kind c p st dt now) t = kept t (add_relation src dst kind c p st dt now t)"

lemma kept_ok: "tree_ok t \<Longrightarrow> (\<And>t' x. r = Inr (t', x) \<Longrightarrow> tree_ok t') \<Longrightarrow> tree_ok (kept t r)"
  by (cases r) (auto simp: kept_def)

lemma kept_tree_ok:
  assumes "tree_ok t"
  shows "tree_ok (kept t (add_chunk source content summary c e now t))"
    "tree_ok (kept t (update_chunk i ocontent osummary oc e t))"
    "tree_ok (kept t (add_or_merge_chunk source content summary c e onow clock th t))"
    "tree_ok (kept t (add_relation src dst kind c p st dt now t))"
proof -
  show "tree_ok (kept t (add_chunk source content summary c e now t))"
    by (rule kept_ok [OF assms]) (erule add_chunk_ok [OF assms])
  show "tree_ok (kept t (update_chunk i ocontent osummary oc e t))"
    by (rule kept_ok [OF assms]) (erule update_chunk_ok [OF assms])
  show "tree_ok (kept t (add_or_merge_chunk source content summary c e onow clock th t))"
    by (rule kept_ok [OF assms]) (case_tac x, simp, erule add_or_merge_ok [OF assms])
  show "tree_ok (kept t (add_relation src dst kind c p st dt now t))"
    by (rule kept_ok [OF assms]) (erule add_relation_ok [OF assms])
qed

lemma run_tree_op_ok: "tree_ok t \<Longrightarrow> tree_ok (run_tree_op op t)"
proof (cases op)
  case (AddEntity name type now)
  moreover obtain t' i where "add_entity name type now t = (t', i)" by fastforce
  moreover assume "tree_ok t"
  ultimately show ?thesis using add_entity_facts(1) by simp
qed (simp_all add: kept_tree_ok mark_extracted_ok delete_chunk_ok touch_chunk_ok)

lemma run_tree_ops_ok: "tree_ok t \<Longrightarrow> tree_ok (fold run_tree_op ops t)"
  by (induction ops arbitrary: t) (auto simp: run_tree_op_ok)

text \<open>
  C32: the tables stay well formed. After any series of operations, those that raise included,
  chunk, entity and relation ids are unique and increasing and below the next id to be given;
  every stored freshness lies in [0, 1] and no confidence is negative, every embedding has the
  tree's dimension, every row carries exactly the personal-data tags of its current content;
  entity names are unique, and every relation joins two entities that exist.
\<close>

theorem tree_invariant: "tree_ok (fold run_tree_op ops (new_tree d))"
  by (rule run_tree_ops_ok [OF tree_ok_new])

text \<open>The merge path stores a confidence the insert path refuses.\<close>

lemma merge_skips_confidence_check:
  "\<exists>t1 i t2. add_chunk ''a'' ''x'' [] 1 (Some [1]) 1 (new_tree 1) = Inr (t1, i) \<and>
     add_chunk ''b'' ''y'' [] 7 (Some [1]) 2 t1 = Inl (ConfidenceOutOfRange 7) \<and>
     add_or_merge_chunk ''b'' ''y'' [] 7 (Some [1]) (Some 2) 2 (95/100) t1 = Inr (t2, i, True) \<and>
     map ck_confidence (chunks t2) = [7]"
proof -
  have p: "pii_kinds ''x'' = []" by code_simp
  show ?thesis
    by (simp add: add_chunk_def new_tree_def bad_confidence_def bad_dim_def add_or_merge_chunk_def Let_def
        find_near_duplicate_def search_def search_numpy_def scored_rows_def hit_for_row_def p cosine_def vec_dot_def
        vec_norm_def merge_into_def touch_chunk_def chunk_at_def update_chunks_def)
qed


section \<open>Consent\<close>

text \<open>The tree with the content of every row that has personal data replaced.\<close>

definition blind :: "(chunk_row \<Rightarrow> py_str) \<Rightarrow> memory_tree \<Rightarrow> memory_tree" where
  "blind f t = t\<lparr>chunks := map (\<lambda>r. if has_pii (ck_content r) then r\<lparr>ck_content := f r\<rparr> else r) (chunks t)\<rparr>"

lemma find_map_key: "(\<And>x. f (g x) = f x) \<Longrightarrow> find (\<lambda>x. f x = k) (map g xs) = map_option g (find (\<lambda>x. f x = k) xs)"
  by (induction xs) auto

lemma chunk_at_blind:
  "chunk_at (blind f t) i = map_option (\<lambda>r. if has_pii (ck_content r) then r\<lparr>ck_content := f r\<rparr> else r) (chunk_at t i)"
  unfolding chunk_at_def blind_def by (simp add: find_map_key)

lemma row_tags: "tree_ok t \<Longrightarrow> r \<in> set (chunks t) \<Longrightarrow> ck_pii_tags r = [] \<longleftrightarrow> \<not> has_pii (ck_content r)"
  by (auto simp: tree_ok_def list_all_iff row_ok_def pii_kinds_Nil)

lemma get_chunk_blind: "tree_ok t \<Longrightarrow> get_chunk i False (blind f t) = get_chunk i False t"
  using row_tags [of t] chunk_at_id [of t i]
  by (auto simp: get_chunk_def chunk_at_blind split: option.split)

lemma scored_rows_blind:
  "scored_rows q m (blind f t) =
     map (\<lambda>(d, r). (d, if has_pii (ck_content r) then r\<lparr>ck_content := f r\<rparr> else r)) (scored_rows q m t)"
  by (simp add: scored_rows_def blind_def map_concat comp_def) (rule arg_cong [of _ _ concat], auto split: option.split)

lemma hit_blind:
  "ck_pii_tags r = [] \<longleftrightarrow> \<not> has_pii (ck_content r) \<Longrightarrow>
     hit_for_row d False (if has_pii (ck_content r) then r\<lparr>ck_content := f r\<rparr> else r) = hit_for_row d False r"
  by (simp add: hit_for_row_def Let_def)

lemma scored_rows_mem: "(d, r) \<in> set (scored_rows q m t) \<Longrightarrow> r \<in> set (chunks t)"
  by (auto simp: scored_rows_def split: option.splits if_splits)

lemma search_blind: "tree_ok t \<Longrightarrow> search q n m False (blind f t) = search q n m False t"
proof -
  assume ok: "tree_ok t"
  have "map (\<lambda>(d, r). hit_for_row d False r) (scored_rows q m (blind f t)) =
      map (\<lambda>(d, r). hit_for_row d False r) (scored_rows q m t)"
    using row_tags [OF ok] scored_rows_mem [of _ _ q m t] by (auto simp: scored_rows_blind hit_blind)
  then show ?thesis by (simp add: search_def search_numpy_def) (simp add: blind_def)
qed

text \<open>
  C5: without consent, personal data is not even an influence. Take any tree the operations can
  build, and change in any way the content of every chunk in which personal data was detected:
  reading a chunk, searching by vector and looking for a duplicate return exactly the same.
\<close>

theorem consent_noninterference:
  "let t = fold run_tree_op ops (new_tree d) in
     get_chunk i False (blind f t) = get_chunk i False t \<and>
     search q n m False (blind f t) = search q n m False t \<and>
     find_near_duplicate q th (blind f t) = find_near_duplicate q th t"
  using run_tree_ops_ok [OF tree_ok_new, of ops d]
  by (simp add: Let_def get_chunk_blind search_blind find_near_duplicate_def)

text \<open>The gate covers the content only: a summary is returned as it is.\<close>

lemma summary_not_gated:
  "\<exists>t i c. add_chunk ''a'' ''mail a@b.co'' ''a@b.co'' 1 None 1 (new_tree 1) = Inr (t, i) \<and>
     get_chunk i False t = Some c \<and> has_pii (c_summary c)"
proof -
  have "has_pii ''a@b.co''" by code_simp
  then show ?thesis
    by (simp add: add_chunk_def new_tree_def bad_confidence_def bad_dim_def get_chunk_def chunk_at_def)
qed



section \<open>Deduplication picks the nearest chunk\<close>

lemma scored_rows_iff:
  assumes "tree_ok t" "length q = embedding_dim t"
  shows "(d, r) \<in> set (scored_rows q 0 t) \<longleftrightarrow>
    r \<in> set (chunks t) \<and> (\<exists>v. ck_embedding r = Some v \<and> d = 1 - cosine q v)"
  using assms by (fastforce simp: scored_rows_def tree_ok_def list_all_iff row_ok_def split: option.splits if_splits)

lemma sort_key_head:
  assumes "sort_key f xs = y # ys"
  shows "y \<in> set xs" "\<And>x. x \<in> set xs \<Longrightarrow> f y \<le> f x"
proof -
  show "y \<in> set xs" using assms by (metis list.set_intros(1) set_sort)
  fix x assume "x \<in> set xs"
  then have "x \<in> set (y # ys)" using assms by (metis set_sort)
  moreover have "sorted (map f (y # ys))" using assms by (metis sorted_sort_key)
  ultimately show "f y \<le> f x" by auto
qed

definition similarities :: "py_float list \<Rightarrow> memory_tree \<Rightarrow> (nat \<times> py_float) list" where
  "similarities q t = map (\<lambda>(d, r). (ck_id r, 1 - d)) (scored_rows q 0 t)"

lemma similarities_iff:
  assumes "tree_ok t" "length q = embedding_dim t"
  shows "(i, s) \<in> set (similarities q t) \<longleftrightarrow>
    (\<exists>r v. chunk_at t i = Some r \<and> ck_embedding r = Some v \<and> s = cosine q v)"
proof -
  have "(i, s) \<in> set (similarities q t) \<longleftrightarrow> (\<exists>d r. (d, r) \<in> set (scored_rows q 0 t) \<and> i = ck_id r \<and> s = 1 - d)"
    by (auto simp: similarities_def image_iff Bex_def)
  also have "\<dots> \<longleftrightarrow> (\<exists>r v. r \<in> set (chunks t) \<and> ck_id r = i \<and> ck_embedding r = Some v \<and> s = cosine q v)"
    unfolding scored_rows_iff [OF assms] by force
  also have "\<dots> \<longleftrightarrow> (\<exists>r v. chunk_at t i = Some r \<and> ck_embedding r = Some v \<and> s = cosine q v)"
    using chunk_at_mem [OF assms(1)] chunk_at_id [of t i] by blast
  finally show ?thesis .
qed

lemma near_duplicate_cases:
  assumes "length q = embedding_dim t"
  obtains (far) "find_near_duplicate q th t = Inr None" "\<forall>i s. (i, s) \<in> set (similarities q t) \<longrightarrow> s < th"
  | (near) i s where "find_near_duplicate q th t = Inr (Some (i, s))" "(i, s) \<in> set (similarities q t)" "th \<le> s"
      "\<forall>j s'. (j, s') \<in> set (similarities q t) \<longrightarrow> s' \<le> s"
proof -
  let ?hits = "map (\<lambda>(d, r). hit_for_row d False r) (scored_rows q 0 t)"
  let ?key = "\<lambda>h. (sh_distance h, - sh_confidence h)"
  have sims: "similarities q t = map (\<lambda>h. (sh_chunk_id h, 1 - sh_distance h)) ?hits"
    by (auto simp: similarities_def hit_for_row_def Let_def)
  have search: "search q 1 0 False t = Inr (take 1 (sort_key ?key ?hits))"
    using assms by (simp add: search_def search_numpy_def)
  show thesis
  proof (cases "sort_key ?key ?hits")
    case Nil
    then have "?hits = []" by (metis length_0_conv length_sort)
    then have "similarities q t = []" unfolding sims by simp
    moreover have "find_near_duplicate q th t = Inr None"
      by (simp only: find_near_duplicate_def search Nil) simp
    ultimately show thesis using far by simp
  next
    case (Cons h hs)
    have h: "h \<in> set ?hits" "\<And>x. x \<in> set ?hits \<Longrightarrow> ?key h \<le> ?key x" using sort_key_head [OF Cons] by blast+
    then have mem: "(sh_chunk_id h, 1 - sh_distance h) \<in> set (similarities q t)" unfolding sims set_map
      by (intro image_eqI [OF refl]) simp
    have best: "s' \<le> 1 - sh_distance h" if sm: "(j, s') \<in> set (similarities q t)" for j s'
    proof -
      from sm obtain x where "x \<in> set ?hits" "s' = 1 - sh_distance x" unfolding sims by force
      with h(2) [of x] show ?thesis by (auto simp: less_eq_prod_def)
    qed
    have f: "find_near_duplicate q th t =
        Inr (if th \<le> 1 - sh_distance h then Some (sh_chunk_id h, 1 - sh_distance h) else None)"
      by (simp only: find_near_duplicate_def search Cons) (simp add: Let_def)
    show thesis
    proof (cases "th \<le> 1 - sh_distance h")
      case True
      with near [of "sh_chunk_id h" "1 - sh_distance h"] f mem best show thesis by simp
    next
      case False
      with far f best show thesis by force
    qed
  qed
qed

lemma chunk_at_update [simp]:
  "(\<And>r. ck_id (f r) = ck_id r) \<Longrightarrow> chunk_at (update_chunks i f t) j = (if j = i then map_option f (chunk_at t j) else chunk_at t j)"
proof -
  assume k: "\<And>r. ck_id (f r) = ck_id r"
  have "chunk_at (update_chunks i f t) j = map_option (\<lambda>r. if ck_id r = i then f r else r) (chunk_at t j)"
    unfolding chunk_at_def update_chunks_def by (simp add: find_map_key k)
  then show ?thesis using chunk_at_id [of t j] by (cases "chunk_at t j") auto
qed

lemma contents_update: "(\<And>r. ck_content (f r) = ck_content r) \<Longrightarrow> map ck_content (chunks (update_chunks i f t)) = map ck_content (chunks t)"
  by (simp add: update_chunks_def)

lemma touch_chunk_at:
  "chunk_at (fst (touch_chunk i now hl a t)) j =
     map_option (\<lambda>r. if j = i then r\<lparr>ck_freshness := snd (touch_chunk i now hl a t), ck_last_accessed := Some now\<rparr> else r) (chunk_at t j)"
  by (cases "chunk_at t j") (auto simp: touch_chunk_def Let_def split: option.split)

lemma merge_into_facts:
  "merged_from_for i (merge_into i m c now t) = (if chunk_at t i = None then [] else merged_from_for i t @ [m])"
  "j \<noteq> i \<Longrightarrow> chunk_at (merge_into i m c now t) j = chunk_at t j"
  "map ck_content (chunks (merge_into i m c now t)) = map ck_content (chunks t)"
proof -
  show "merged_from_for i (merge_into i m c now t) = (if chunk_at t i = None then [] else merged_from_for i t @ [m])"
    by (cases "chunk_at t i") (simp_all add: merged_from_for_def merge_into_def touch_chunk_at)
  show "j \<noteq> i \<Longrightarrow> chunk_at (merge_into i m c now t) j = chunk_at t j"
    by (cases "chunk_at t j") (simp_all add: merge_into_def touch_chunk_at)
  have "map ck_content (chunks (fst (touch_chunk i now hl a t))) = map ck_content (chunks t)" for hl a t
    by (auto simp: touch_chunk_def Let_def contents_update split: option.split)
  then show "map ck_content (chunks (merge_into i m c now t)) = map ck_content (chunks t)"
    by (simp add: merge_into_def contents_update)
qed

text \<open>
  A chunk merges into its nearest neighbour or becomes a row of its own. Adding a chunk with
  an embedding either reports a merge, and then the chunk named is one whose similarity
  reaches the threshold and no chunk of the tree is more similar; no content and no other row
  changes, and its provenance grows by one entry; or it appends exactly one row under the next
  id, and then every chunk of the tree is below the threshold.
\<close>

theorem dedup_nearest:
  assumes "t = fold run_tree_op ops (new_tree d)"
    and "add_or_merge_chunk source content summary c (Some e) now clock th t = Inr (t', i, merged)"
  shows "if merged then
      (\<exists>r v. chunk_at t i = Some r \<and> ck_embedding r = Some v \<and> th \<le> cosine e v \<and>
         list_all (\<lambda>(j, s). s \<le> cosine e v) (similarities e t)) \<and>
      map ck_content (chunks t') = map ck_content (chunks t) \<and>
      (\<exists>m. me_source m = source \<and> merged_from_for i t' = merged_from_for i t @ [m]) \<and>
      (\<forall>j. j \<noteq> i \<longrightarrow> chunk_at t' j = chunk_at t j)
    else
      i = next_chunk t \<and> list_all (\<lambda>(j, s). s < th) (similarities e t) \<and>
      (\<exists>r. chunks t' = chunks t @ [r] \<and> ck_id r = i \<and> ck_content r = content \<and> ck_embedding r = Some e)"
proof -
  have ok: "tree_ok t" using assms(1) run_tree_ops_ok [OF tree_ok_new] by simp
  have len: "length e = embedding_dim t" using assms(2)
    by (auto simp: add_or_merge_chunk_def find_near_duplicate_def search_def Let_def split: if_splits sum.splits)
  from len show ?thesis
  proof (cases rule: near_duplicate_cases [where th = th])
    case far
    then have a: "merged = False" "add_chunk source content summary c (Some e) (or_clock now clock) t = Inr (t', i)"
      using assms(2) by (auto simp: add_or_merge_chunk_def Let_def split: sum.splits prod.splits)
    from a(2) have "i = next_chunk t \<and> (\<exists>r. chunks t' = chunks t @ [r] \<and> ck_id r = i \<and> ck_content r = content \<and> ck_embedding r = Some e)"
      by (auto simp: add_chunk_def split: if_splits)
    with far a(1) show ?thesis by (auto simp: list_all_iff)
  next
    case (near k s)
    define m where "m = \<lparr>me_source = source, me_similarity = s,
      me_at = (if now = None \<or> now = Some 0 then clock else or_clock now clock)\<rparr>"
    have "add_or_merge_chunk source content summary c (Some e) now clock th t =
        Inr (merge_into k m c (or_clock now clock) t, k, True)"
      unfolding m_def by (simp add: add_or_merge_chunk_def near(1) Let_def)
    with assms(2) have m: "merged = True" "i = k" "t' = merge_into k m c (or_clock now clock) t" by auto
    have source: "me_source m = source" by (simp add: m_def)
    from near(2) obtain r v where "chunk_at t k = Some r" "ck_embedding r = Some v" "s = cosine e v"
      using similarities_iff [OF ok len] by blast
    with near(3,4) m source merge_into_facts [where i = k and m = m and c = c and now = "or_clock now clock" and t = t] show ?thesis by (auto simp: list_all_iff)
  qed
qed

theorem dedup_nearest_witness:
  "\<exists>t' m. add_or_merge_chunk ''b'' ''y'' [] 1 (Some [1]) None 5 (95/100)
       (fold run_tree_op [AddChunk ''a'' ''x'' [] 1 (Some [1]) 1] (new_tree 1)) = Inr (t', 1, True) \<and>
     me_source m = ''b'' \<and> merged_from_for 1 t' = [m]"
proof -
  have p: "pii_kinds ''x'' = []" by code_simp
  let ?t = "fold run_tree_op [AddChunk ''a'' ''x'' [] 1 (Some [1]) 1] (new_tree 1)"
  obtain t' where t': "add_or_merge_chunk ''b'' ''y'' [] 1 (Some [1]) None 5 (95/100) ?t = Inr (t', 1, True)"
    by (simp add: kept_def add_chunk_def new_tree_def bad_confidence_def bad_dim_def add_or_merge_chunk_def Let_def
        find_near_duplicate_def search_def search_numpy_def scored_rows_def hit_for_row_def p cosine_def vec_dot_def vec_norm_def)
  have "merged_from_for 1 ?t = []"
    by (simp add: kept_def add_chunk_def new_tree_def bad_confidence_def bad_dim_def merged_from_for_def chunk_at_def)
  with dedup_nearest [OF refl t'] t' show ?thesis by auto
qed


section \<open>Freshness\<close>

lemma decayed_unit: "0 \<le> s \<Longrightarrow> s \<le> 1 \<Longrightarrow> 0 < h \<Longrightarrow> l \<le> n \<Longrightarrow> decayed s (Some l) n h = s * (1/2) powr ((n - l) / h)"
proof -
  assume a: "0 \<le> s" "s \<le> 1" "0 < h" "l \<le> n"
  then have "(1/2) powr ((n - l) / h) \<le> (1::real)" by (intro powr_le1) simp_all
  with a have "s * (1/2) powr ((n - l) / h) \<le> 1" by (simp add: mult_le_one)
  with a show ?thesis by (cases "s = 0"; cases "n = l") (simp_all add: decayed_def)
qed

lemma half_powr_mono: "0 < h \<Longrightarrow> a \<le> b \<Longrightarrow> (1/2) powr (b / h) \<le> (1/2) powr (a / h :: real)"
  by (intro powr_mono') (simp_all add: divide_right_mono)

text \<open>
  Freshness is a half-life. For a stored value in [0, 1] last touched at \<open>l\<close>, the value read
  at \<open>n\<close> never grows with time, falls by exactly one half over each half-life, and stays in
  [0, 1]; a touch stores a value that is at least the weight of a touch and at least what was
  left; and a recently mentioned entity only ever raises the freshness of a chunk, never
  above 1.
\<close>

theorem freshness_half_life:
  assumes "0 < h" "0 \<le> s" "s \<le> 1" "l \<le> n" "n \<le> n'" "0 \<le> a" "a \<le> 1"
  shows "decayed s (Some l) n' h \<le> decayed s (Some l) n h \<and>
    decayed s (Some l) (n + h) h = decayed s (Some l) n h / 2 \<and>
    0 \<le> decayed s (Some l) n h \<and> decayed s (Some l) n h \<le> 1 \<and>
    (let new = snd (touch_chunk i n h a t) in
       chunk_at t i \<noteq> None \<longrightarrow> a \<le> new \<and> freshness_of i n h t \<le> new \<and> new \<le> 1) \<and>
    freshness_of i n h t \<le> entity_aware_freshness i n h t \<and> entity_aware_freshness i n h t \<le> 1"
proof -
  have "decayed s (Some l) n' h \<le> decayed s (Some l) n h"
    using assms half_powr_mono [of h "n - l" "n' - l"] by (simp add: decayed_unit mult_left_mono)
  moreover have "decayed s (Some l) (n + h) h = decayed s (Some l) n h / 2"
  proof -
    have "(n + h - l) / h = (n - l) / h + 1" using assms(1) by (simp add: field_simps)
    then have "(1/2) powr ((n + h - l) / h) = (1/2) powr ((n - l) / h) * (1/2 :: real)" by (simp add: powr_add)
    then show ?thesis using assms by (simp add: decayed_unit)
  qed
  moreover have "let new = snd (touch_chunk i n h a t) in
      chunk_at t i \<noteq> None \<longrightarrow> a \<le> new \<and> freshness_of i n h t \<le> new \<and> new \<le> 1"
  proof (cases "chunk_at t i")
    case (Some r)
    let ?o = "decayed (ck_freshness r) (ck_last_accessed r) n h"
    have b: "0 \<le> ?o" "?o \<le> 1" using decayed_bounds by blast+
    have "0 \<le> (1 - a) * ?o" "0 \<le> a * (1 - ?o)" using assms b by simp_all
    then have "a \<le> a + (1 - a) * ?o" "?o \<le> a + (1 - a) * ?o" by (simp_all add: algebra_simps)
    with b assms Some show ?thesis by (auto simp: touch_chunk_def freshness_of_def Let_def)
  qed simp
  moreover have "freshness_of i n h t \<le> entity_aware_freshness i n h t"
    by (auto simp: entity_aware_freshness_def Let_def split: list.split)
  moreover have "entity_aware_freshness i n h t \<le> 1"
  proof -
    have "freshness_of i n h t \<le> 1" using decayed_bounds by (auto simp: freshness_of_def split: option.split)
    moreover have "(1/2) powr (max 0 x / h) \<le> (1::real)" for x using assms(1) by (intro powr_le1) simp_all
    ultimately show ?thesis by (auto simp: entity_aware_freshness_def Let_def split: list.split)
  qed
  ultimately show ?thesis using decayed_bounds by blast
qed

theorem freshness_half_life_witness:
  "decayed 1 (Some 0) FRESHNESS_HALF_LIFE_SECONDS FRESHNESS_HALF_LIFE_SECONDS = 1/2"
proof -
  have "decayed 1 (Some 0) (0 + FRESHNESS_HALF_LIFE_SECONDS) FRESHNESS_HALF_LIFE_SECONDS =
      decayed 1 (Some 0) 0 FRESHNESS_HALF_LIFE_SECONDS / 2"
    using freshness_half_life [of FRESHNESS_HALF_LIFE_SECONDS 1 0 0 0 "1/2" 0 "new_tree 0"]
    by (simp add: FRESHNESS_HALF_LIFE_SECONDS_def)
  then show ?thesis by (simp add: decayed_def)
qed


section \<open>Canonical ids\<close>

text \<open>The code never sets a merge pointer, so every id of a tree it built is its own canonical id.\<close>

lemma resolve_reachable: "resolve_canonical (fold run_tree_op ops (new_tree d)) i = i"
proof -
  let ?t = "fold run_tree_op ops (new_tree d)"
  have "tree_ok ?t" by (rule run_tree_ops_ok [OF tree_ok_new])
  then have "chunk_at ?t i = Some r \<Longrightarrow> ck_merged_into r = None" for r
    using chunk_at_id [of ?t i r] by (auto simp: tree_ok_def list_all_iff row_ok_def)
  then show ?thesis by (auto simp: resolve_canonical_def resolve_from.simps [of ?t "{}" i] split: option.split)
qed

end
