(* ===== verification/Hybrid_Search.thy ===== *)
theory Hybrid_Search
  imports Memory_Tree "HOL-Library.Multiset"
begin

text \<open>
  Hybrid retrieval (\<open>sera/memory/search.py\<close>): a full-text ranking, a vector ranking and a
  one-hop graph walk, fused by reciprocal rank, weighted by freshness, cut to the best \<open>k\<close> and
  hydrated through the consent gate. The ranking of the SQLite full-text index for a match
  expression is an argument (row ids, best first).
\<close>


section \<open>Parameters and results\<close>

record HybridWeights =
  w_bm25 :: py_float
  w_vector :: py_float
  w_graph :: py_float

definition default_weights :: HybridWeights where
  "default_weights = \<lparr>w_bm25 = 1, w_vector = 1, w_graph = 1/2\<rparr>"

definition DEFAULT_RRF_K :: nat where
  "DEFAULT_RRF_K = 60"

record HybridHit =
  hh_chunk_id :: nat
  hh_score :: py_float
  hh_content :: py_str
  hh_confidence :: py_float
  hh_sources :: "py_str list"
  hh_pii_tags :: "py_str list"
  hh_redacted :: bool


section \<open>The three rankings\<close>

definition WORD_RE :: re where
  "WORD_RE = Plus (Ch (alnum @ [One (CHR ''_'')]))"

definition word_tokens :: "py_str \<Rightarrow> py_str list" where
  "word_tokens query = map (\<lambda>(i, j, g). py_slice i j query) (re_finditer no_flags WORD_RE query)"

fun str_join :: "py_str \<Rightarrow> py_str list \<Rightarrow> py_str" where
  "str_join sep [] = []"
| "str_join sep [x] = x"
| "str_join sep (x # y # ys) = x @ sep @ str_join sep (y # ys)"

definition escape_fts5 :: "py_str \<Rightarrow> py_str" where
  "escape_fts5 query =
     (let tokens = word_tokens query
      in if tokens = [] then [CHR 0x22, CHR 0x22]
         else str_join '' OR '' (map (\<lambda>w. CHR 0x22 # w @ [CHR 0x22]) tokens))"

definition bm25_rank :: "(py_str \<Rightarrow> memory_tree \<Rightarrow> nat list) \<Rightarrow> memory_tree \<Rightarrow> py_str \<Rightarrow> nat \<Rightarrow> nat list" where
  "bm25_rank fts t query limit =
     (if str_strip query = [] then []
      else take limit (filter (\<lambda>i. case chunk_at t i of None \<Rightarrow> False | Some r \<Rightarrow> ck_merged_into r = None)
        (fts (escape_fts5 query) t)))"

definition vector_rank :: "memory_tree \<Rightarrow> py_float list \<Rightarrow> nat \<Rightarrow> (tree_error, nat list) py_result" where
  "vector_rank t q limit =
     (case search q limit 0 False t of Inl e \<Rightarrow> Inl e | Inr hits \<Rightarrow> Inr (map sh_chunk_id hits))"

definition candidate_entity_names :: "py_str \<Rightarrow> py_str list" where
  "candidate_entity_names query =
     (let tokens = word_tokens query
      in if query = [] then []
         else tokens @ concat (map (\<lambda>n. map (\<lambda>i. str_join '' '' (take n (drop i tokens)))
                [0..<length tokens + 1 - n]) [2, 3]))"

text \<open>One entity of the query: its edges add their confidence to the chunk they cite.\<close>

definition edge_score :: "memory_tree \<Rightarrow> Relation \<Rightarrow> (nat, py_float) py_dict \<Rightarrow> (nat, py_float) py_dict" where
  "edge_score t e scores =
     (case rl_provenance e of
        None \<Rightarrow> scores
      | Some p \<Rightarrow> (let c = resolve_canonical t p in dict_set c (dict_get_or scores c 0 + rl_confidence e) scores))"

definition walk_entity :: "memory_tree \<Rightarrow> Entity \<Rightarrow> nat set \<times> (nat, py_float) py_dict \<Rightarrow> nat set \<times> (nat, py_float) py_dict" where
  "walk_entity t ent st =
     (if en_id ent \<in> fst st then st
      else (insert (en_id ent) (fst st),
            fold (edge_score t) (filter (\<lambda>r. rl_src r = en_id ent \<or> rl_dst r = en_id ent) (relations t)) (snd st)))"

definition graph_scores :: "memory_tree \<Rightarrow> py_str \<Rightarrow> (nat, py_float) py_dict" where
  "graph_scores t query =
     snd (fold (\<lambda>cand st. fold (walk_entity t) (filter (\<lambda>e. str_lower (en_name e) = str_lower cand) (entities t)) st)
       (candidate_entity_names query) ({}, []))"

definition graph_neighbours :: "memory_tree \<Rightarrow> py_str \<Rightarrow> nat \<Rightarrow> nat list" where
  "graph_neighbours t query limit =
     (if str_strip query = [] then []
      else take limit (map fst (sort_key (\<lambda>(c, s). (- s, c)) (graph_scores t query))))"


section \<open>Reciprocal rank fusion\<close>

definition rrf_score :: "nat \<Rightarrow> nat \<Rightarrow> py_float" where
  "rrf_score k_rrf rank = 1 / (real k_rrf + real rank + 1)"

definition weight_of :: "HybridWeights \<Rightarrow> py_str \<Rightarrow> py_float" where
  "weight_of w source =
     dict_get_or [(''bm25'', w_bm25 w), (''vector'', w_vector w), (''graph'', w_graph w)] source 0"

type_synonym acc = "(nat, py_float \<times> py_str list) py_dict"

definition bump_acc :: "py_str \<Rightarrow> py_float \<Rightarrow> nat \<Rightarrow> nat \<times> nat \<Rightarrow> acc \<Rightarrow> acc" where
  "bump_acc source w k_rrf rc a =
     (case dict_get_or a (snd rc) (0, []) of (score, sources) \<Rightarrow>
        dict_set (snd rc) (score + w * rrf_score k_rrf (fst rc),
          if source \<in> set sources then sources else sources @ [source]) a)"

definition fuse_source :: "HybridWeights \<Rightarrow> nat \<Rightarrow> py_str \<times> nat list \<Rightarrow> acc \<Rightarrow> acc" where
  "fuse_source ws k_rrf ranking a =
     (let w = weight_of ws (fst ranking)
      in if w \<le> 0 then a else fold (bump_acc (fst ranking) w k_rrf) (enumerate 0 (snd ranking)) a)"

definition fuse :: "HybridWeights \<Rightarrow> nat \<Rightarrow> (py_str, nat list) py_dict \<Rightarrow> (nat \<times> py_float \<times> py_str list) list" where
  "fuse ws k_rrf rankings = sort_key (\<lambda>(c, s, _). (- s, c)) (fold (fuse_source ws k_rrf) rankings [])"


section \<open>The search\<close>

definition hydrate :: "memory_tree \<Rightarrow> bool \<Rightarrow> nat \<times> py_float \<times> py_str list \<Rightarrow> HybridHit" where
  "hydrate t consent f =
     (case f of (c, score, sources) \<Rightarrow>
        case get_chunk c consent t of
          None \<Rightarrow> \<lparr>hh_chunk_id = c, hh_score = score, hh_content = [], hh_confidence = 0, hh_sources = sources,
                   hh_pii_tags = [], hh_redacted = False\<rparr>
        | Some ch \<Rightarrow> \<lparr>hh_chunk_id = c, hh_score = score, hh_content = c_content ch, hh_confidence = c_confidence ch,
                      hh_sources = sources, hh_pii_tags = c_pii_tags ch,
                      hh_redacted = (c_pii_tags ch \<noteq> [] \<and> \<not> consent)\<rparr>)"

datatype search_error = KTooSmall int | TreeRaised tree_error

definition hybrid_rankings ::
  "(py_str \<Rightarrow> memory_tree \<Rightarrow> nat list) \<Rightarrow> memory_tree \<Rightarrow> py_str \<Rightarrow> py_float list option \<Rightarrow> HybridWeights \<Rightarrow> nat \<Rightarrow>
   (search_error, (py_str, nat list) py_dict) py_result"
where
  "hybrid_rankings fts t query q ws limit =
     (let bm25 = (if 0 < w_bm25 ws then [(''bm25'', bm25_rank fts t query limit)] else []);
          graph = (if 0 < w_graph ws then [(''graph'', graph_neighbours t query limit)] else [])
      in case (if 0 < w_vector ws then q else None) of
           None \<Rightarrow> Inr (bm25 @ graph)
         | Some e \<Rightarrow>
             (case vector_rank t e limit of
                Inl err \<Rightarrow> Inl (TreeRaised err)
              | Inr ids \<Rightarrow> Inr (bm25 @ [(''vector'', ids)] @ graph)))"

definition freshen :: "memory_tree \<Rightarrow> py_float \<Rightarrow> (nat \<times> py_float \<times> py_str list) list \<Rightarrow> (nat \<times> py_float \<times> py_str list) list" where
  "freshen t now fused =
     sort_key (\<lambda>(c, s, _). (- s, c))
       (map (\<lambda>(c, s, src). (c, s * entity_aware_freshness c now FRESHNESS_HALF_LIFE_SECONDS t, src)) fused)"

definition touch_all :: "nat list \<Rightarrow> py_float \<Rightarrow> memory_tree \<Rightarrow> memory_tree" where
  "touch_all ids now t =
     fold (\<lambda>c t. fst (touch_chunk c now FRESHNESS_HALF_LIFE_SECONDS FRESHNESS_EWMA_ALPHA t)) ids t"

record search_opts =
  so_k :: int
  so_weights :: "HybridWeights option"
  so_k_rrf :: nat
  so_pool :: "nat option"
  so_freshness :: bool
  so_touch :: bool
  so_consent :: bool

definition hybrid_search ::
  "(py_str \<Rightarrow> memory_tree \<Rightarrow> nat list) \<Rightarrow> search_opts \<Rightarrow> py_str \<Rightarrow> py_float list option \<Rightarrow> py_float \<Rightarrow> memory_tree \<Rightarrow>
   (search_error, HybridHit list \<times> memory_tree) py_result"
where
  "hybrid_search fts so query q now t =
     (if so_k so < 1 then Inl (KTooSmall (so_k so))
      else let k = nat (so_k so);
               ws = (case so_weights so of None \<Rightarrow> default_weights | Some w \<Rightarrow> w);
               limit = (case so_pool so of None \<Rightarrow> max (k * 3) 30 | Some p \<Rightarrow> p)
           in case hybrid_rankings fts t query q ws limit of
                Inl e \<Rightarrow> Inl e
              | Inr rankings \<Rightarrow>
                  (let fused0 = fuse ws (so_k_rrf so) rankings;
                       fused = take k (if so_freshness so then freshen t now fused0 else fused0);
                       t1 = (if so_touch so then touch_all (map fst fused) now t else t)
                   in Inr (map (hydrate t1 (so_consent so)) fused, t1)))"


section \<open>Fusion\<close>

definition entry :: "acc \<Rightarrow> nat \<Rightarrow> py_float \<times> py_str list" where
  "entry a c = dict_get_or a c (0, [])"

lemma entry_bump:
  "entry (bump_acc src w k rc a) c =
     (if c = snd rc
      then (fst (entry a c) + w * rrf_score k (fst rc),
            if src \<in> set (snd (entry a c)) then snd (entry a c) else snd (entry a c) @ [src])
      else entry a c)"
  by (cases "dict_get_or a (snd rc) (0, [])") (simp add: entry_def bump_acc_def)

lemma bump_keys: "fst ` set (bump_acc src w k rc a) = insert (snd rc) (fst ` set a)"
  by (cases "dict_get_or a (snd rc) (0, [])") (simp add: bump_acc_def dom_update)

lemma bump_wf: "dict_wf a \<Longrightarrow> dict_wf (bump_acc src w k rc a)"
  by (auto simp: bump_acc_def split: prod.split)

text \<open>What one ranking contributes to the score of a chunk.\<close>

definition signal :: "py_float \<Rightarrow> nat \<Rightarrow> nat \<Rightarrow> nat list \<Rightarrow> nat \<Rightarrow> py_float" where
  "signal w k n ids c = (\<Sum>(r, x)\<leftarrow>enumerate n ids. if x = c then w * rrf_score k r else 0)"

lemma fold_bump:
  "fst (entry (fold (bump_acc src w k) (enumerate n ids) a) c) = fst (entry a c) + signal w k n ids c \<and>
   snd (entry (fold (bump_acc src w k) (enumerate n ids) a) c) =
     (if c \<in> set ids \<and> src \<notin> set (snd (entry a c)) then snd (entry a c) @ [src] else snd (entry a c)) \<and>
   fst ` set (fold (bump_acc src w k) (enumerate n ids) a) = fst ` set a \<union> set ids \<and>
   (dict_wf a \<longrightarrow> dict_wf (fold (bump_acc src w k) (enumerate n ids) a))"
proof (induction ids arbitrary: n a)
  case (Cons x ids)
  show ?case
    using Cons.IH [of "Suc n" "bump_acc src w k (n, x) a"]
    by (auto simp: entry_bump bump_keys bump_wf signal_def)
qed (simp add: signal_def)

definition rrf_ref :: "HybridWeights \<Rightarrow> nat \<Rightarrow> (py_str, nat list) py_dict \<Rightarrow> nat \<Rightarrow> py_float" where
  "rrf_ref ws k rankings c =
     (\<Sum>(src, ids)\<leftarrow>rankings. if weight_of ws src \<le> 0 then 0 else signal (weight_of ws src) k 0 ids c)"

definition counted :: "HybridWeights \<Rightarrow> nat \<Rightarrow> py_str \<times> nat list \<Rightarrow> bool" where
  "counted ws c ranking \<longleftrightarrow> 0 < weight_of ws (fst ranking) \<and> c \<in> set (snd ranking)"

lemma fold_fuse_source:
  "dict_wf rankings \<Longrightarrow> set (snd (entry a c)) \<inter> fst ` set rankings = {} \<Longrightarrow>
   fst (entry (fold (fuse_source ws k) rankings a) c) = fst (entry a c) + rrf_ref ws k rankings c \<and>
   snd (entry (fold (fuse_source ws k) rankings a) c) = snd (entry a c) @ map fst (filter (counted ws c) rankings) \<and>
   (c \<in> fst ` set (fold (fuse_source ws k) rankings a) \<longleftrightarrow> c \<in> fst ` set a \<or> list_ex (counted ws c) rankings) \<and>
   (dict_wf a \<longrightarrow> dict_wf (fold (fuse_source ws k) rankings a))"
proof (induction rankings arbitrary: a)
  case (Cons ranking rankings)
  obtain src ids where r: "ranking = (src, ids)" by (cases ranking)
  let ?b = "fuse_source ws k ranking a"
  note b = fold_bump [of src "weight_of ws src" k 0 ids a c]
  have e: "fst (entry ?b c) = fst (entry a c) + (if weight_of ws src \<le> 0 then 0 else signal (weight_of ws src) k 0 ids c)"
    "snd (entry ?b c) = snd (entry a c) @ (if counted ws c ranking then [src] else [])"
    "c \<in> fst ` set ?b \<longleftrightarrow> c \<in> fst ` set a \<or> counted ws c ranking" "dict_wf a \<longrightarrow> dict_wf ?b"
    using b Cons.prems(2) r by (auto simp: fuse_source_def Let_def counted_def)
  moreover have "set (snd (entry ?b c)) \<inter> fst ` set rankings = {}"
    using Cons.prems e(2) r by (auto split: if_splits)
  ultimately show ?case using Cons.IH [of ?b] Cons.prems r by (auto simp: rrf_ref_def)
qed (simp add: rrf_ref_def)

lemma fuse_mem:
  assumes "dict_wf rankings"
  shows "(c, s, src) \<in> set (fuse ws k rankings) \<longleftrightarrow>
    list_ex (counted ws c) rankings \<and> s = rrf_ref ws k rankings c \<and> src = map fst (filter (counted ws c) rankings)"
proof -
  let ?a = "fold (fuse_source ws k) rankings []"
  have f: "fst (entry ?a c) = rrf_ref ws k rankings c" "snd (entry ?a c) = map fst (filter (counted ws c) rankings)"
    "c \<in> fst ` set ?a \<longleftrightarrow> list_ex (counted ws c) rankings" "dict_wf ?a"
    using fold_fuse_source [OF assms, of "[]" c ws k] by (simp_all add: entry_def dict_get_or_def)
  have "(c, s, src) \<in> set ?a \<longleftrightarrow> c \<in> fst ` set ?a \<and> (s, src) = entry ?a c"
    using set_dict_get [OF f(4), of c "(s, src)"] f(4)
    by (cases "dict_get ?a c")
      (auto simp: entry_def dict_get_or_def map_of_eq_None_iff image_iff simp del: map_of_eq_Some_iff, metis fst_conv)
  then show ?thesis using f by (auto simp: fuse_def prod_eq_iff)
qed

lemma fuse_order: "sorted (map (\<lambda>(c, s, _). (- s, c)) (fuse ws k rankings))"
  unfolding fuse_def by (rule sorted_sort_key)

lemma fuse_distinct: "dict_wf rankings \<Longrightarrow> distinct (map fst (fuse ws k rankings))"
  using fold_fuse_source [of rankings "[]" 0 ws k]
  by (simp add: fuse_def entry_def dict_get_or_def distinct_map distinct_sort)

text \<open>
  Fusion computes the reciprocal-rank sum. The fused list holds exactly the chunks that some
  ranking of positive weight names, each once, with the sum over those rankings of
  weight / (k + rank + 1) as its score and exactly those rankings as its sources, best score
  first and smaller id first among equals.
\<close>

theorem fuse_is_rrf:
  assumes "dict_wf rankings"
  shows "let fused = fuse ws k rankings in
    distinct (map fst fused) \<and>
    sorted (map (\<lambda>(c, s, _). (- s, c)) fused) \<and>
    (\<forall>c s src. (c, s, src) \<in> set fused \<longleftrightarrow>
       list_ex (counted ws c) rankings \<and> s = rrf_ref ws k rankings c \<and>
       src = map fst (filter (counted ws c) rankings))"
  using assms by (simp add: Let_def fuse_mem fuse_order fuse_distinct)

theorem fuse_is_rrf_witness:
  "(7, 1/61 + 1/2 * (1/62), [''bm25'', ''graph'']) \<in>
     set (fuse default_weights DEFAULT_RRF_K [(''bm25'', [7, 8]), (''graph'', [8, 7])])"
proof -
  have d: "dict_wf [(''bm25'', [7, 8 :: nat]), (''graph'', [8, 7])]" by simp
  have "weight_of default_weights ''bm25'' = 1" "weight_of default_weights ''graph'' = 1/2"
    by (simp_all add: weight_of_def default_weights_def dict_get_or_def)
  then show ?thesis
    using fuse_is_rrf [OF d, of default_weights DEFAULT_RRF_K]
    by (simp add: Let_def counted_def rrf_ref_def signal_def rrf_score_def DEFAULT_RRF_K_def)
qed


text \<open>Agreement: a chunk that every ranking puts ahead of another ends up ahead of it.\<close>

lemma signal_at:
  "distinct ids \<Longrightarrow> i < length ids \<Longrightarrow> signal w k n ids (ids ! i) = w * rrf_score k (n + i)"
proof (induction ids arbitrary: n i)
  case (Cons x ids)
  have z: "signal w k m xs c = 0" if "c \<notin> set xs" for c m xs
    using that by (induction xs arbitrary: m) (auto simp: signal_def)
  show ?case
  proof (cases i)
    case 0
    with Cons.prems z [of x ids "Suc n"] show ?thesis by (simp add: signal_def)
  next
    case (Suc j)
    with Cons.prems have "ids ! j \<noteq> x" by auto
    with Suc Cons show ?thesis using Cons.IH [of j "Suc n"] by (simp add: signal_def)
  qed
qed simp

lemma signal_absent: "c \<notin> set ids \<Longrightarrow> signal w k n ids c = 0"
  by (induction ids arbitrary: n) (auto simp: signal_def)

lemma rrf_score_pos: "0 < rrf_score k r"
  by (simp add: rrf_score_def)

lemma rrf_score_less: "r < r' \<Longrightarrow> rrf_score k r' < rrf_score k r"
  by (simp add: rrf_score_def divide_strict_left_mono add_pos_pos add_nonneg_pos)

lemma signal_nonneg: "0 \<le> w \<Longrightarrow> 0 \<le> signal w k n ids c"
  unfolding signal_def by (rule sum_list_nonneg) (auto simp: less_imp_le [OF rrf_score_pos])

definition ahead :: "nat \<Rightarrow> nat \<Rightarrow> nat list \<Rightarrow> bool" where
  "ahead a b ids \<longleftrightarrow> (\<exists>i j. i < j \<and> j < length ids \<and> ids ! i = a \<and> ids ! j = b)"

lemma signal_ahead:
  assumes "distinct ids" "0 < w" "ahead a b ids"
  shows "signal w k 0 ids b < signal w k 0 ids a"
proof -
  from assms(3) obtain i j where ij: "i < j" "j < length ids" "ids ! i = a" "ids ! j = b" by (auto simp: ahead_def)
  then have "signal w k 0 ids b = w * rrf_score k j" "signal w k 0 ids a = w * rrf_score k i"
    using signal_at [OF assms(1), of j w k 0] signal_at [OF assms(1), of i w k 0] by auto
  with rrf_score_less [OF ij(1)] assms(2) show ?thesis by simp
qed

lemma rrf_ahead:
  assumes "\<forall>(src, ids) \<in> set rankings. distinct ids \<and> (b \<in> set ids \<longrightarrow> ahead a b ids)"
  shows "rrf_ref ws k rankings b \<le> rrf_ref ws k rankings a \<and>
    (list_ex (counted ws b) rankings \<longrightarrow> rrf_ref ws k rankings b < rrf_ref ws k rankings a)"
  using assms
proof (induction rankings)
  case (Cons ranking rankings)
  obtain src ids where r: "ranking = (src, ids)" by (cases ranking)
  let ?w = "weight_of ws src"
  have "?w \<le> 0 \<or> (b \<notin> set ids \<and> signal ?w k 0 ids b \<le> signal ?w k 0 ids a) \<or>
      signal ?w k 0 ids b < signal ?w k 0 ids a"
    using Cons.prems r signal_ahead [of ids ?w a b k] signal_absent [of b ids ?w k 0] signal_nonneg [of ?w k 0 ids a]
    by (cases "0 < ?w") auto
  then show ?case using Cons r by (auto simp: rrf_ref_def counted_def)
qed (simp add: rrf_ref_def)

lemma nth_by_key:
  assumes "sorted (map key xs)" "x \<in> set xs" "y \<in> set xs" "key x < (key y :: 'k::linorder)"
  shows "\<exists>i j. i < j \<and> j < length xs \<and> xs ! i = x \<and> xs ! j = y"
proof -
  obtain i j where ij: "i < length xs" "xs ! i = x" "j < length xs" "xs ! j = y"
    using assms(2,3) by (metis in_set_conv_nth)
  have "\<not> j \<le> i"
  proof
    assume "j \<le> i"
    with ij assms(1) have "key (xs ! j) \<le> key (xs ! i)" by (auto simp: sorted_iff_nth_mono)
    with ij assms(4) show False by auto
  qed
  with ij show ?thesis by (intro exI [of _ i] exI [of _ j]) simp
qed

text \<open>
  Fusion never overrules agreement. If every ranking that names chunk \<open>b\<close> puts chunk \<open>a\<close>
  ahead of it, the fused list puts \<open>a\<close> ahead of \<open>b\<close>, whatever the weights and the damping.
\<close>

theorem fuse_respects_agreement:
  assumes "dict_wf rankings"
    and "\<forall>(src, ids) \<in> set rankings. distinct ids \<and> (b \<in> set ids \<longrightarrow> ahead a b ids)"
    and "b \<in> set (map fst (fuse ws k rankings))"
  shows "ahead a b (map fst (fuse ws k rankings))"
proof -
  let ?f = "fuse ws k rankings" and ?key = "\<lambda>(c, s, _). (- s, c)"
  from assms(3) obtain sb srcb where b: "(b, sb, srcb) \<in> set ?f" by auto
  then have cb: "list_ex (counted ws b) rankings" "sb = rrf_ref ws k rankings b" using fuse_mem [OF assms(1)] by blast+
  then obtain src ids where m: "(src, ids) \<in> set rankings" "0 < weight_of ws src" "b \<in> set ids"
    by (auto simp: list_ex_iff counted_def)
  with assms(2) have "ahead a b ids" by auto
  then have "a \<in> set ids" by (auto simp: ahead_def)
  with m have "list_ex (counted ws a) rankings" by (force simp: list_ex_iff counted_def)
  then obtain srca where a: "(a, rrf_ref ws k rankings a, srca) \<in> set ?f" using fuse_mem [OF assms(1)] by blast
  have "?key (a, rrf_ref ws k rankings a, srca) < ?key (b, sb, srcb)"
    using rrf_ahead [OF assms(2), of ws k] cb by simp
  from nth_by_key [OF fuse_order a b this] show ?thesis by (force simp: ahead_def)
qed

theorem fuse_respects_agreement_witness:
  "ahead 1 3 (map fst (fuse default_weights DEFAULT_RRF_K [(''bm25'', [1, 2, 3]), (''vector'', [2, 1])]))"
proof -
  have d: "dict_wf [(''bm25'', [1, 2, 3 :: nat]), (''vector'', [2, 1])]" by simp
  have "ahead 1 3 [1, 2, 3]" unfolding ahead_def by (intro exI [of _ 0] exI [of _ 2]) simp
  then have a: "\<forall>(src, ids) \<in> set [(''bm25'', [1, 2, 3 :: nat]), (''vector'', [2, 1])]. distinct ids \<and> (3 \<in> set ids \<longrightarrow> ahead 1 3 ids)"
    by simp
  have "counted default_weights 3 (''bm25'', [1, 2, 3])"
    by (simp add: counted_def weight_of_def default_weights_def dict_get_or_def)
  then have "(3, rrf_ref default_weights DEFAULT_RRF_K [(''bm25'', [1, 2, 3]), (''vector'', [2, 1])] 3,
      map fst (filter (counted default_weights 3) [(''bm25'', [1, 2, 3]), (''vector'', [2, 1])])) \<in>
      set (fuse default_weights DEFAULT_RRF_K [(''bm25'', [1, 2, 3]), (''vector'', [2, 1])])"
    using fuse_mem [OF d, of 3] by simp
  then have "3 \<in> set (map fst (fuse default_weights DEFAULT_RRF_K [(''bm25'', [1, 2, 3]), (''vector'', [2, 1])]))"
    by (force simp del: map_of_eq_Some_iff)
  from fuse_respects_agreement [OF d a this] show ?thesis .
qed



section \<open>The search as a whole\<close>

lemma get_chunk_touch [simp]: "get_chunk c consent (fst (touch_chunk i now hl a t)) = get_chunk c consent t"
  by (auto simp: get_chunk_def touch_chunk_at split: option.split)

lemma get_chunk_touch_all [simp]: "get_chunk c consent (touch_all ids now t) = get_chunk c consent t"
  unfolding touch_all_def by (induction ids arbitrary: t) simp_all

lemma touch_all_other: "j \<notin> set ids \<Longrightarrow> chunk_at (touch_all ids now t) j = chunk_at t j"
  unfolding touch_all_def
  by (induction ids arbitrary: t) (auto simp: touch_chunk_at option.map_ident)

lemma rankings_wf: "hybrid_rankings fts t query q ws limit = Inr rankings \<Longrightarrow> dict_wf rankings"
  by (auto simp: hybrid_rankings_def Let_def split: if_splits option.splits sum.splits)

lemma freshen_facts:
  "sorted (map (\<lambda>(c, s, _). (- s, c)) (freshen t now fused))"
  "distinct (map fst fused) \<Longrightarrow> distinct (map fst (freshen t now fused))"
proof -
  let ?g = "\<lambda>(c, s, src :: py_str list). (c, s * entity_aware_freshness c now FRESHNESS_HALF_LIFE_SECONDS t, src)"
  show "sorted (map (\<lambda>(c, s, _). (- s, c)) (freshen t now fused))" unfolding freshen_def by (rule sorted_sort_key)
  have "mset (map fst (freshen t now fused)) = mset (map fst (map ?g fused))"
    by (simp only: freshen_def mset_map mset_sort)
  also have "map fst (map ?g fused) = map fst fused" by auto
  finally show "distinct (map fst fused) \<Longrightarrow> distinct (map fst (freshen t now fused))"
    by (metis mset_eq_imp_distinct_iff)
qed

lemma hydrate_fields [simp]: "hh_chunk_id (hydrate t consent f) = fst f" "hh_score (hydrate t consent f) = fst (snd f)"
  by (cases f; simp add: hydrate_def split: option.split)+

text \<open>What a caller may see of a row.\<close>

definition visible :: "bool \<Rightarrow> chunk_row \<Rightarrow> py_str" where
  "visible consent r =
     (if has_pii (ck_content r) \<and> \<not> consent then pii_redaction_notice (pii_kinds (ck_content r)) else ck_content r)"

lemma hydrate_content:
  assumes "tree_ok t"
  shows "hh_content (hydrate t consent f) = (case chunk_at t (fst f) of None \<Rightarrow> [] | Some r \<Rightarrow> visible consent r)"
proof (cases "chunk_at t (fst f)")
  case None
  then show ?thesis by (cases f) (simp add: hydrate_def get_chunk_def)
next
  case (Some r)
  then have "r \<in> set (chunks t)" using chunk_at_id by blast
  with assms have "ck_pii_tags r = pii_kinds (ck_content r)" by (auto simp: tree_ok_def list_all_iff row_ok_def)
  with Some show ?thesis by (cases f) (simp add: hydrate_def get_chunk_def visible_def pii_kinds_Nil)
qed

lemma hydrate_cong: "(\<And>c. get_chunk c consent t' = get_chunk c consent t) \<Longrightarrow> hydrate t' consent f = hydrate t consent f"
  by (cases f) (simp add: hydrate_def)


text \<open>A search that fails was asked for fewer than one hit or given a vector of a wrong length.\<close>

lemma hybrid_search_fails:
  "hybrid_search fts so query q now t = Inl e \<Longrightarrow>
     so_k so < 1 \<or> (\<exists>v. q = Some v \<and> length v \<noteq> embedding_dim t)"
  by (auto simp: hybrid_search_def hybrid_rankings_def vector_rank_def search_def Let_def
      split: if_splits sum.splits option.splits)

definition demo_opts :: search_opts where
  "demo_opts = \<lparr>so_k = 1, so_weights = Some \<lparr>w_bm25 = 0, w_vector = 1, w_graph = 0\<rparr>, so_k_rrf = 60, so_pool = None,
     so_freshness = False, so_touch = False, so_consent = False\<rparr>"


end
