(* ===== verification/Session_Store.thy ===== *)
theory Session_Store
  imports Sera_Prelude "HOL-Library.List_Lexorder" "HOL-Library.Char_ord"
begin

text \<open>
  Conversation sessions and their database (\<open>sera/memory/session.py\<close>), the frozen system
  prompt (\<open>freeze_system_prompt\<close> of \<open>sera/llm/cache.py\<close>) and the response cache
  (\<open>sera/llm/distill_cache.py\<close>). A table is the list of its rows in id order; the stored
  JSON of tool calls is the value it parses to. SHA-256 is a parameter, the clock and fresh
  ids are arguments.
\<close>


section \<open>Messages and tables\<close>

record tool_call_msg =
  mt_id :: py_str
  mt_name :: py_str
  mt_args :: py_str

record Message =
  role :: py_str
  content :: "py_str option"
  tool_calls :: "tool_call_msg list"
  tool_call_id :: "py_str option"
  msg_name :: "py_str option"
  finish_reason :: "py_str option"

definition truthy :: "py_str option \<Rightarrow> py_str option" where
  "truthy x = (case x of Some s \<Rightarrow> (if s = [] then None else Some s) | None \<Rightarrow> None)"

text \<open>The provider's view of a message: absent keys are \<open>None\<close>.\<close>

definition to_openai :: "Message \<Rightarrow> Message" where
  "to_openai m = m\<lparr>tool_call_id := truthy (tool_call_id m), msg_name := truthy (msg_name m), finish_reason := None\<rparr>"

record session_row =
  s_id :: py_str
  s_title :: py_str
  s_workspace :: py_str
  s_created_at :: py_float
  s_updated_at :: py_float
  system_prompt :: "py_str option"
  system_prompt_hash :: "py_str option"
  input_tokens :: int
  output_tokens :: int
  cache_read_tokens :: int
  cache_creation_tokens :: int
  last_status :: py_str
  aborted_at :: "py_float option"

record message_row =
  m_session_id :: py_str
  m_role :: py_str
  m_content :: "py_str option"
  m_tool_calls :: "tool_call_msg list option"
  m_tool_call_id :: "py_str option"
  m_name :: "py_str option"
  m_finish_reason :: "py_str option"
  m_created_at :: py_float

record session_db =
  sessions :: "session_row list"
  messages :: "message_row list"

record Session =
  sid :: py_str
  workspace :: py_str
  title :: py_str
  sess_status :: py_str
  sess_aborted_at :: "py_float option"
  msgs :: "Message list"
  last_turn_cost_usd :: py_float

datatype session_error = DuplicateId | SessionNotFound | FrozenPromptMismatch

definition update_session :: "py_str \<Rightarrow> (session_row \<Rightarrow> session_row) \<Rightarrow> session_db \<Rightarrow> session_db" where
  "update_session i f db = db\<lparr>sessions := map (\<lambda>r. if s_id r = i then f r else r) (sessions db)\<rparr>"

definition find_session :: "py_str \<Rightarrow> session_db \<Rightarrow> session_row option" where
  "find_session i db = find (\<lambda>r. s_id r = i) (sessions db)"


section \<open>Operations\<close>

definition session_create ::
  "py_str \<Rightarrow> py_str \<Rightarrow> py_str \<Rightarrow> py_float \<Rightarrow> session_db \<Rightarrow> (session_error, Session \<times> session_db) py_result"
where
  "session_create fresh_id ws ttl now db =
     (if find_session fresh_id db \<noteq> None then Inl DuplicateId
      else let t = (if ttl = [] then ''untitled'' else ttl) in
        Inr (\<lparr>sid = fresh_id, workspace = ws, title = t, sess_status = ''active'', sess_aborted_at = None,
              msgs = [], last_turn_cost_usd = 0\<rparr>,
             db\<lparr>sessions := sessions db @
               [\<lparr>s_id = fresh_id, s_title = t, s_workspace = ws, s_created_at = now, s_updated_at = now,
                 system_prompt = None, system_prompt_hash = None, input_tokens = 0, output_tokens = 0,
                 cache_read_tokens = 0, cache_creation_tokens = 0, last_status = ''active'', aborted_at = None\<rparr>]\<rparr>))"

definition row_of :: "py_str \<Rightarrow> py_float \<Rightarrow> Message \<Rightarrow> message_row" where
  "row_of i now m =
     \<lparr>m_session_id = i, m_role = role m, m_content = content m,
      m_tool_calls = (if tool_calls m = [] then None else Some (tool_calls m)),
      m_tool_call_id = tool_call_id m, m_name = msg_name m, m_finish_reason = finish_reason m,
      m_created_at = now\<rparr>"

definition message_of :: "message_row \<Rightarrow> Message" where
  "message_of r =
     \<lparr>role = m_role r, content = m_content r, tool_calls = (case m_tool_calls r of None \<Rightarrow> [] | Some ts \<Rightarrow> ts),
      tool_call_id = m_tool_call_id r, msg_name = m_name r, finish_reason = m_finish_reason r\<rparr>"

definition append_row :: "py_str \<Rightarrow> py_float \<Rightarrow> Message \<Rightarrow> session_db \<Rightarrow> session_db" where
  "append_row i now m db =
     update_session i (\<lambda>r. r\<lparr>s_updated_at := now\<rparr>) (db\<lparr>messages := messages db @ [row_of i now m]\<rparr>)"

definition session_append :: "py_float \<Rightarrow> Message \<Rightarrow> Session \<times> session_db \<Rightarrow> Session \<times> session_db" where
  "session_append now m s =
     (case s of (session, db) \<Rightarrow>
        (session\<lparr>msgs := msgs session @ [m]\<rparr>, append_row (sid session) now m db))"

definition or_empty :: "py_str \<Rightarrow> py_str \<Rightarrow> py_str" where
  "or_empty s d = (if s = [] then d else s)"

definition session_load :: "py_str \<Rightarrow> session_db \<Rightarrow> Session option" where
  "session_load i db =
     (case find_session i db of
        None \<Rightarrow> None
      | Some r \<Rightarrow> Some
          \<lparr>sid = s_id r, workspace = s_workspace r, title = s_title r,
           sess_status = or_empty (last_status r) ''active'', sess_aborted_at = aborted_at r,
           msgs = map message_of (filter (\<lambda>m. m_session_id m = i) (messages db)),
           last_turn_cost_usd = 0\<rparr>)"

definition record_usage :: "py_str \<Rightarrow> int \<Rightarrow> int \<Rightarrow> int \<Rightarrow> int \<Rightarrow> session_db \<Rightarrow> session_db" where
  "record_usage i inp out cr cc db =
     update_session i (\<lambda>r. r\<lparr>input_tokens := input_tokens r + inp, output_tokens := output_tokens r + out,
       cache_read_tokens := cache_read_tokens r + cr, cache_creation_tokens := cache_creation_tokens r + cc\<rparr>) db"

definition usage_totals :: "py_str \<Rightarrow> session_db \<Rightarrow> int \<times> int \<times> int \<times> int" where
  "usage_totals i db =
     (case find_session i db of
        None \<Rightarrow> (0, 0, 0, 0)
      | Some r \<Rightarrow> (input_tokens r, output_tokens r, cache_read_tokens r, cache_creation_tokens r))"

text \<open>Crash recovery: the last message of every active session is looked at.\<close>

definition last_message :: "py_str \<Rightarrow> session_db \<Rightarrow> message_row option" where
  "last_message i db =
     (let ms = filter (\<lambda>m. m_session_id m = i) (messages db) in if ms = [] then None else Some (last ms))"

definition dangling :: "message_row option \<Rightarrow> bool" where
  "dangling m =
     (case m of None \<Rightarrow> False
      | Some r \<Rightarrow> m_role r = ''user'' \<or> (m_role r = ''assistant'' \<and> m_finish_reason r = None))"

definition flagged_ids :: "session_db \<Rightarrow> py_str list" where
  "flagged_ids db =
     map s_id (filter (\<lambda>r. last_status r = ''active'' \<and> dangling (last_message (s_id r) db)) (sessions db))"

definition recover_aborted :: "py_float \<Rightarrow> session_db \<Rightarrow> py_str list \<times> session_db" where
  "recover_aborted now db =
     (flagged_ids db,
      fold (\<lambda>i. update_session i
          (\<lambda>r. if last_status r = ''active'' then r\<lparr>last_status := ''aborted'', aborted_at := Some now\<rparr> else r))
        (flagged_ids db) db)"

text \<open>The system prompt of a session is stored on the first turn and returned verbatim after.\<close>

definition freeze_system_prompt ::
  "(py_str \<Rightarrow> py_str) \<Rightarrow> py_str \<Rightarrow> py_str \<Rightarrow> session_db \<Rightarrow> (session_error, py_str \<times> session_db) py_result"
where
  "freeze_system_prompt sha i prompt db =
     (case find_session i db of
        None \<Rightarrow> Inl SessionNotFound
      | Some r \<Rightarrow>
          (case (system_prompt r, system_prompt_hash r) of
             (Some p, Some h) \<Rightarrow> if sha p \<noteq> h then Inl FrozenPromptMismatch else Inr (p, db)
           | _ \<Rightarrow> Inr (prompt, update_session i
               (\<lambda>r. r\<lparr>system_prompt := Some prompt, system_prompt_hash := Some (sha prompt)\<rparr>) db)))"


section \<open>What the database keeps\<close>

lemma find_update:
  "(\<And>r. s_id (f r) = s_id r) \<Longrightarrow>
     find_session j (update_session i f db) = (if j = i then map_option f (find_session i db) else find_session j db)"
proof -
  assume f: "\<And>r. s_id (f r) = s_id r"
  have "find (\<lambda>r. s_id r = j) (map (\<lambda>r. if s_id r = i then f r else r) rs) =
      (if j = i then map_option f (find (\<lambda>r. s_id r = i) rs) else find (\<lambda>r. s_id r = j) rs)" for rs
    by (induction rs) (auto simp: f)
  then show ?thesis by (simp add: find_session_def update_session_def)
qed

lemma messages_update [simp]: "messages (update_session i f db) = messages db"
  by (simp add: update_session_def)

lemma message_row_round_trip [simp]: "message_of (row_of i now m) = m"
  by (simp add: message_of_def row_of_def)

lemma fold_update_messages [simp]: "messages (fold (\<lambda>i. update_session i f) is db) = messages db"
  by (induction "is" arbitrary: db) simp_all

definition stored_messages :: "py_str \<Rightarrow> session_db \<Rightarrow> Message list" where
  "stored_messages i db = map message_of (filter (\<lambda>m. m_session_id m = i) (messages db))"

text \<open>Everything that may happen to the database, from any process.\<close>

datatype db_op =
    AppendOp py_str py_float Message
  | UsageOp py_str int int int int
  | FreezeOp py_str py_str
  | RecoverOp py_float

fun apply_op :: "(py_str \<Rightarrow> py_str) \<Rightarrow> db_op \<Rightarrow> session_db \<Rightarrow> session_db" where
  "apply_op sha (AppendOp i now m) db = append_row i now m db"
| "apply_op sha (UsageOp i a b c d) db = record_usage i a b c d db"
| "apply_op sha (FreezeOp i p) db = (case freeze_system_prompt sha i p db of Inl _ \<Rightarrow> db | Inr (_, db') \<Rightarrow> db')"
| "apply_op sha (RecoverOp now) db = snd (recover_aborted now db)"

fun appended_to :: "py_str \<Rightarrow> db_op list \<Rightarrow> Message list" where
  "appended_to i [] = []"
| "appended_to i (AppendOp j now m # ops) = (if i = j then m # appended_to i ops else appended_to i ops)"
| "appended_to i (_ # ops) = appended_to i ops"

lemma stored_apply:
  "stored_messages i (apply_op sha op db) = stored_messages i db @ appended_to i [op]"
  by (cases op) (auto simp: stored_messages_def append_row_def record_usage_def recover_aborted_def
      freeze_system_prompt_def row_of_def message_of_def split: option.split sum.split)

lemma appended_Cons: "appended_to i (op # ops) = appended_to i [op] @ appended_to i ops"
  by (cases op) simp_all

lemma stored_run: "stored_messages i (fold (apply_op sha) ops db) = stored_messages i db @ appended_to i ops"
proof (induction ops arbitrary: db)
  case (Cons op ops)
  then show ?case using appended_Cons [of i op ops] by (simp add: stored_apply)
qed simp

lemma load_messages: "session_load i db = Some s \<Longrightarrow> msgs s = stored_messages i db \<and> sid s = i"
  by (auto simp: session_load_def stored_messages_def find_session_def find_Some_iff split: option.splits)

text \<open>
  C37: a session reloads as it was written. Whatever operations run on the database, from this
  session and any other, loading a session yields exactly the messages it had before plus
  those appended to it, in order, and field by field as they were given.
\<close>

theorem session_reloads:
  assumes "session_load i db = Some s" "session_load i (fold (apply_op sha) ops db) = Some s'"
  shows "msgs s' = msgs s @ appended_to i ops"
  using load_messages [OF assms(1)] load_messages [OF assms(2)] by (simp add: stored_run)

definition demo_db :: session_db where
  "demo_db = (case session_create ''s1'' ''/w'' '''' 1 \<lparr>sessions = [], messages = []\<rparr> of Inr (_, db) \<Rightarrow> db | Inl _ \<Rightarrow> \<lparr>sessions = [], messages = []\<rparr>)"

definition user_msg :: "py_str \<Rightarrow> Message" where
  "user_msg t = \<lparr>role = ''user'', content = Some t, tool_calls = [], tool_call_id = None, msg_name = None, finish_reason = None\<rparr>"

lemmas demo_db_simps = demo_db_def session_create_def find_session_def Let_def

theorem session_reloads_witness:
  "\<exists>s s'. session_load ''s1'' demo_db = Some s \<and>
     session_load ''s1'' (fold (apply_op id) [AppendOp ''s1'' 2 (user_msg ''hi''), AppendOp ''s2'' 3 (user_msg ''no'')] demo_db) = Some s' \<and>
     msgs s' = [user_msg ''hi'']"
proof -
  let ?ops = "[AppendOp ''s1'' 2 (user_msg ''hi''), AppendOp ''s2'' 3 (user_msg ''no'')]"
  obtain s where s: "session_load ''s1'' demo_db = Some s" "msgs s = []"
    by (simp add: session_load_def demo_db_simps)
  obtain s' where s': "session_load ''s1'' (fold (apply_op id) ?ops demo_db) = Some s'"
    by (simp add: session_load_def append_row_def find_update) (simp add: demo_db_simps update_session_def)
  from session_reloads [OF s(1) s'] s s' show ?thesis by simp
qed

definition mark_aborted :: "py_float \<Rightarrow> session_row \<Rightarrow> session_row" where
  "mark_aborted now r = (if last_status r = ''active'' then r\<lparr>last_status := ''aborted'', aborted_at := Some now\<rparr> else r)"

lemma mark_fold:
  "sessions (fold (\<lambda>i. update_session i (mark_aborted now)) is db) =
     map (\<lambda>r. if s_id r \<in> set is then mark_aborted now r else r) (sessions db)"
proof (induction "is" arbitrary: db)
  case Nil
  then show ?case by simp
next
  case (Cons i "is")
  have m: "s_id (mark_aborted now r) = s_id r" "mark_aborted now (mark_aborted now r) = mark_aborted now r" for r
    by (simp_all add: mark_aborted_def)
  have u: "sessions (update_session i f db) = map (\<lambda>r. if s_id r = i then f r else r) (sessions db)" for f
    by (simp add: update_session_def)
  show ?case using Cons [of "update_session i (mark_aborted now) db"] by (auto simp: u m)
qed

lemma recover_sessions:
  "sessions (snd (recover_aborted now db)) =
     map (\<lambda>r. if s_id r \<in> set (flagged_ids db) then mark_aborted now r else r) (sessions db)"
  using mark_fold [of now "flagged_ids db" db] by (simp add: recover_aborted_def mark_aborted_def [abs_def])

lemma recover_messages [simp]: "messages (snd (recover_aborted now db)) = messages db"
  by (simp add: recover_aborted_def)

lemma flagged_set:
  "set (flagged_ids db) = {s_id r |r. r \<in> set (sessions db) \<and> last_status r = ''active'' \<and> dangling (last_message (s_id r) db)}"
  by (auto simp: flagged_ids_def)

lemma recovered_rows_clean:
  assumes "r \<in> set (sessions (snd (recover_aborted now db)))" "last_status r = ''active''"
  shows "\<not> dangling (last_message (s_id r) (snd (recover_aborted now db)))"
proof
  assume d: "dangling (last_message (s_id r) (snd (recover_aborted now db)))"
  have l: "last_message i (snd (recover_aborted now db)) = last_message i db" for i
    by (simp add: last_message_def)
  obtain q where q: "q \<in> set (sessions db)" "r = (if s_id q \<in> set (flagged_ids db) then mark_aborted now q else q)"
    using assms(1) unfolding recover_sessions set_map by blast
  have "last_status (mark_aborted now q) \<noteq> ''active''" by (simp add: mark_aborted_def)
  then have n: "s_id q \<notin> set (flagged_ids db)" and "r = q" using q(2) assms(2) by (metis, metis)
  with d l have "dangling (last_message (s_id q) db)" by simp
  with q(1) assms(2) \<open>r = q\<close> have "s_id q \<in> set (flagged_ids db)" unfolding flagged_set by blast
  with n show False by contradiction
qed

text \<open>
  Crash recovery flags exactly the interrupted sessions and is idempotent. Afterwards no
  active session is left whose last message is a user message or an assistant message without
  a finish reason, a second scan flags nothing, and sessions that were not flagged keep their
  rows.
\<close>

theorem recovery_exact:
  "set (fst (recover_aborted now db)) =
     {s_id r |r. r \<in> set (sessions db) \<and> last_status r = ''active'' \<and> dangling (last_message (s_id r) db)} \<and>
   filter (\<lambda>r. last_status r = ''active'' \<and> dangling (last_message (s_id r) (snd (recover_aborted now db))))
     (sessions (snd (recover_aborted now db))) = [] \<and>
   fst (recover_aborted later (snd (recover_aborted now db))) = [] \<and>
   filter (\<lambda>r. s_id r \<notin> set (fst (recover_aborted now db))) (sessions (snd (recover_aborted now db))) =
     filter (\<lambda>r. s_id r \<notin> set (fst (recover_aborted now db))) (sessions db)"
proof -
  have m: "s_id (mark_aborted now r) = s_id r" for r by (simp add: mark_aborted_def)
  have "filter (\<lambda>r. s_id r \<notin> A) (map (\<lambda>r. if s_id r \<in> A then mark_aborted now r else r) rs) =
      filter (\<lambda>r. s_id r \<notin> A) rs" for A rs
    by (induction rs) (auto simp: m)
  then have keep: "filter (\<lambda>r. s_id r \<notin> set (flagged_ids db)) (sessions (snd (recover_aborted now db))) =
      filter (\<lambda>r. s_id r \<notin> set (flagged_ids db)) (sessions db)"
    unfolding recover_sessions .
  have none: "filter (\<lambda>r. last_status r = ''active'' \<and> dangling (last_message (s_id r) (snd (recover_aborted now db))))
     (sessions (snd (recover_aborted now db))) = []"
    using recovered_rows_clean by (auto simp: filter_empty_conv)
  have f: "fst (recover_aborted t d) = flagged_ids d" for t d by (simp add: recover_aborted_def)
  show ?thesis unfolding f
    using flagged_set [of db] none keep by (simp add: flagged_ids_def)
qed

definition frozen_row :: "(py_str \<Rightarrow> py_str) \<Rightarrow> py_str \<Rightarrow> py_str \<Rightarrow> session_db \<Rightarrow> bool" where
  "frozen_row sha i q db \<longleftrightarrow>
     (\<exists>r. find_session i db = Some r \<and> system_prompt r = Some q \<and> system_prompt_hash r = Some (sha q))"

lemma freeze_frozen: "frozen_row sha i q db \<Longrightarrow> freeze_system_prompt sha i p db = Inr (q, db)"
  by (auto simp: frozen_row_def freeze_system_prompt_def)

lemma freeze_makes_frozen:
  "freeze_system_prompt sha i p db = Inr (q, db') \<Longrightarrow> frozen_row sha i q db'"
  by (auto simp: frozen_row_def freeze_system_prompt_def find_update split: option.splits if_splits)

lemma frozen_update:
  assumes "\<And>r. s_id (f r) = s_id r" "\<And>r. system_prompt (f r) = system_prompt r"
    "\<And>r. system_prompt_hash (f r) = system_prompt_hash r"
  shows "frozen_row sha i q (update_session j f db) = frozen_row sha i q db"
  using assms by (auto simp: frozen_row_def find_update)

lemma frozen_apply:
  assumes "frozen_row sha i q db"
  shows "frozen_row sha i q (apply_op sha op db)"
proof (cases op)
  case (AppendOp j now m)
  have "frozen_row sha i q (db\<lparr>messages := ms\<rparr>) = frozen_row sha i q db" for ms
    by (simp add: frozen_row_def find_session_def)
  with AppendOp assms show ?thesis by (simp add: append_row_def frozen_update)
next
  case (UsageOp j a b c d)
  with assms show ?thesis by (simp add: record_usage_def frozen_update)
next
  case (FreezeOp j p)
  show ?thesis
  proof (cases "j = i")
    case True
    with FreezeOp assms show ?thesis by (simp add: freeze_frozen)
  next
    case False
    with FreezeOp assms show ?thesis
      by (auto simp: freeze_system_prompt_def frozen_row_def find_update split: option.split)
  qed
next
  case (RecoverOp now)
  have "frozen_row sha i q (fold (\<lambda>k. update_session k (mark_aborted now)) js db)" for js
    using assms by (induction js arbitrary: db) (simp_all add: frozen_update mark_aborted_def)
  with RecoverOp show ?thesis by (simp add: recover_aborted_def mark_aborted_def [abs_def])
qed

text \<open>
  The system prompt of a session never changes once frozen. After the first successful
  freeze, however the database is used and whatever prompt later turns ask for, every later
  freeze returns that same prompt and writes nothing.
\<close>

theorem prompt_stays_frozen:
  assumes "freeze_system_prompt sha i p db = Inr (q, db')"
  shows "freeze_system_prompt sha i p' (fold (apply_op sha) ops db') = Inr (q, fold (apply_op sha) ops db')"
proof (rule freeze_frozen)
  show "frozen_row sha i q (fold (apply_op sha) ops db')"
    using freeze_makes_frozen [OF assms]
    by (induction ops arbitrary: db') (simp_all add: frozen_apply)
qed

theorem prompt_stays_frozen_witness:
  "\<exists>db'. freeze_system_prompt id ''s1'' ''You are Sera'' demo_db = Inr (''You are Sera'', db') \<and>
     freeze_system_prompt id ''s1'' ''other'' (fold (apply_op id) [FreezeOp ''s1'' ''third''] db') =
       Inr (''You are Sera'', fold (apply_op id) [FreezeOp ''s1'' ''third''] db')"
proof -
  obtain db' where f: "freeze_system_prompt id ''s1'' ''You are Sera'' demo_db = Inr (''You are Sera'', db')"
    by (simp add: freeze_system_prompt_def demo_db_simps)
  from prompt_stays_frozen [OF f, of "''other''" "[FreezeOp ''s1'' ''third'']"] f show ?thesis by blast
qed


section \<open>The response cache\<close>

record cache_entry =
  ce_response :: py_str
  ce_cost_usd :: py_float
  ce_created_at :: py_float
  ce_hits :: nat
  ce_last_hit_at :: "py_float option"

type_synonym distill_db = "(py_str, cache_entry) py_dict"

text \<open>The key hashes the user message and the name and content of every tool message.\<close>

definition compute_key ::
  "(py_str \<times> (py_str \<times> py_str) list \<Rightarrow> py_str) \<Rightarrow> py_str \<Rightarrow> Message list \<Rightarrow> py_str" where
  "compute_key sha_json user_message tool_msgs =
     sha_json (user_message,
       map (\<lambda>m. ((case msg_name m of Some n \<Rightarrow> n | None \<Rightarrow> []), (case content m of Some c \<Rightarrow> c | None \<Rightarrow> [])))
         (filter (\<lambda>m. role m = ''tool'') tool_msgs))"

definition cache_get :: "py_float \<Rightarrow> py_float \<Rightarrow> py_str \<Rightarrow> distill_db \<Rightarrow> py_str option \<times> distill_db" where
  "cache_get ttl_s now key db =
     (case dict_get db key of
        None \<Rightarrow> (None, db)
      | Some e \<Rightarrow>
          if ce_created_at e < now - ttl_s then (None, dict_del key db)
          else (Some (ce_response e), dict_set key (e\<lparr>ce_hits := ce_hits e + 1, ce_last_hit_at := Some now\<rparr>) db))"

definition cache_put :: "py_float \<Rightarrow> py_str \<Rightarrow> py_str \<Rightarrow> py_float \<Rightarrow> distill_db \<Rightarrow> distill_db" where
  "cache_put now key response cost db =
     dict_set key \<lparr>ce_response = response, ce_cost_usd = cost, ce_created_at = now, ce_hits = 0, ce_last_hit_at = None\<rparr> db"

text \<open>\<open>ORDER BY last_hit_at ASC NULLS FIRST\<close>; ties in insertion order.\<close>

definition never_hit :: "py_str \<times> cache_entry \<Rightarrow> bool" where
  "never_hit ke \<longleftrightarrow> ce_last_hit_at (snd ke) = None"

definition by_last_hit :: "distill_db \<Rightarrow> distill_db" where
  "by_last_hit db = filter never_hit db @
     sort_key (\<lambda>ke. case ce_last_hit_at (snd ke) of None \<Rightarrow> 0 | Some t \<Rightarrow> t) (filter (\<lambda>ke. \<not> never_hit ke) db)"

definition cache_evict ::
  "py_float \<Rightarrow> py_float \<Rightarrow> py_float option \<Rightarrow> int option \<Rightarrow> distill_db \<Rightarrow> nat \<times> distill_db"
where
  "cache_evict ttl_s now max_age_s max_entries db =
     (let cutoff_age = (case max_age_s of None \<Rightarrow> ttl_s | Some a \<Rightarrow> if a = 0 then ttl_s else a);
          fresh = filter (\<lambda>ke. \<not> ce_created_at (snd ke) < now - cutoff_age) db;
          kept = (case max_entries of
             None \<Rightarrow> fresh
           | Some k \<Rightarrow>
               if k < int (length fresh)
               then let victims = take (nat (int (length fresh) - k)) (dict_keys (by_last_hit fresh))
                    in filter (\<lambda>ke. fst ke \<notin> set victims) fresh
               else fresh)
      in (length db - length kept, kept))"

record CacheStats =
  cs_entries :: nat
  cs_total_hits :: nat
  cs_cost_saved_usd :: py_float
  cs_hit_rate :: py_float

definition cache_stats :: "distill_db \<Rightarrow> CacheStats" where
  "cache_stats db =
     (let n = length db; h = sum_list (map (\<lambda>ke. ce_hits (snd ke)) db)
      in \<lparr>cs_entries = n, cs_total_hits = h,
          cs_cost_saved_usd = sum_list (map (\<lambda>ke. ce_cost_usd (snd ke) * of_nat (ce_hits (snd ke))) db),
          cs_hit_rate = (if n + h = 0 then 0 else of_nat h / of_nat (n + h))\<rparr>)"

text \<open>
  A cached answer is served verbatim while it is fresh and never after. What was put
  under a key is returned until its lifetime has passed, whatever is put or looked up under
  other keys in between; from then on the key misses and its row is gone.
\<close>

fun touch :: "py_float \<Rightarrow> (py_float \<times> py_str \<times> py_str option) list \<Rightarrow> distill_db \<Rightarrow> distill_db" where
  "touch ttl [] db = db"
| "touch ttl ((t, k, Some resp) # ops) db = touch ttl ops (cache_put t k resp 0 db)"
| "touch ttl ((t, k, None) # ops) db = touch ttl ops (snd (cache_get ttl t k db))"

lemma touch_other:
  "\<forall>(t, k, x) \<in> set ops. k \<noteq> key \<Longrightarrow> dict_get (touch ttl ops db) key = dict_get db key"
  by (induction ttl ops db rule: touch.induct) (auto simp: cache_put_def cache_get_def split: option.split)

theorem cached_answer_lifetime:
  assumes "\<forall>(t, k, x) \<in> set ops. k \<noteq> key"
  shows "(later - ttl_s \<le> now \<longrightarrow> fst (cache_get ttl_s later key (touch ttl_s ops (cache_put now key resp cost db))) = Some resp) \<and>
    (now < later - ttl_s \<longrightarrow>
       fst (cache_get ttl_s later key (touch ttl_s ops (cache_put now key resp cost db))) = None \<and>
       dict_get (snd (cache_get ttl_s later key (touch ttl_s ops (cache_put now key resp cost db)))) key = None)"
  using touch_other [OF assms, of ttl_s "cache_put now key resp cost db"]
  by (simp add: cache_get_def) (simp add: cache_put_def)

theorem cached_answer_lifetime_witness:
  "fst (cache_get 100 50 ''k'' (touch 100 [(20, ''other'', Some ''x''), (30, ''other'', None)] (cache_put 10 ''k'' ''42'' 0 []))) = Some ''42''"
proof -
  have "\<forall>(t, k, x) \<in> set [(20::real, ''other'', Some ''x''), (30, ''other'', None)]. k \<noteq> ''k''" by simp
  from cached_answer_lifetime [OF this, of 50 100 10 "''42''" 0 "[]"] show ?thesis by simp
qed

lemma by_last_hit_mset: "set (by_last_hit db) = set db" "length (by_last_hit db) = length db"
proof -
  show "set (by_last_hit db) = set db" by (auto simp: by_last_hit_def)
  show "length (by_last_hit db) = length db"
    using sum_length_filter_compl [of never_hit db] by (simp add: by_last_hit_def)
qed

text \<open>
  Eviction keeps its bounds. Afterwards no entry older than the cutoff is left, there are
  at most as many entries as asked for, the reported count is the number of rows removed, and
  what is left are rows of the table as they were.
\<close>

theorem evict_bounds:
  assumes "dict_wf db" "cache_evict ttl_s now max_age (Some (int k)) db = (deleted, db')"
  shows "length db' \<le> k \<and> deleted + length db' = length db \<and> set db' \<subseteq> set db \<and> dict_wf db' \<and>
    (\<forall>(key, e) \<in> set db'. now - (case max_age of None \<Rightarrow> ttl_s | Some a \<Rightarrow> if a = 0 then ttl_s else a) \<le> ce_created_at e)"
proof -
  define cut where "cut = now - (case max_age of None \<Rightarrow> ttl_s | Some a \<Rightarrow> if a = 0 then ttl_s else a)"
  define fresh where "fresh = filter (\<lambda>ke. \<not> ce_created_at (snd ke) < cut) db"
  define victims where "victims = take (length fresh - k) (dict_keys (by_last_hit fresh))"
  define kept where "kept = (if k < length fresh then filter (\<lambda>ke. fst ke \<notin> set victims) fresh else fresh)"
  have db': "db' = kept" "deleted = length db - length kept"
    using assms(2) by (auto simp: cache_evict_def Let_def kept_def victims_def fresh_def cut_def nat_diff_distrib split: if_splits)
  have len: "length kept \<le> length db" by (auto simp: kept_def fresh_def intro: le_trans [OF length_filter_le])
  have wf: "dict_wf fresh" using assms(1) by (simp add: fresh_def distinct_map_filter)
  have keys: "distinct (dict_keys (by_last_hit fresh))"
    using wf by_last_hit_mset [of fresh] by (metis card_distinct distinct_card length_map set_map)
  have bound: "length kept \<le> k"
  proof (cases "k < length fresh")
    case True
    have v: "card (set victims) = length fresh - k"
      using keys by_last_hit_mset(2) [of fresh] by (simp add: victims_def distinct_card)
    have sub: "set victims \<subseteq> fst ` set fresh"
      using set_take_subset by_last_hit_mset(1) [of fresh] unfolding victims_def by (metis set_map)
    have "length kept = card (fst ` set kept)"
      using dict_card [of kept] wf by (simp add: kept_def distinct_map_filter)
    also have "fst ` set kept = fst ` set fresh - set victims" using True by (auto simp: kept_def)
    also have "card \<dots> = length fresh - (length fresh - k)"
      using sub v dict_card [OF wf] by (simp add: card_Diff_subset)
    finally show ?thesis using True by simp
  qed (simp add: kept_def)
  have "dict_wf kept" using wf by (simp add: kept_def distinct_map_filter)
  moreover have "set kept \<subseteq> set fresh" by (auto simp: kept_def)
  moreover have "set fresh = {ke \<in> set db. cut \<le> ce_created_at (snd ke)}" by (auto simp: fresh_def)
  ultimately have "dict_wf db'" "set db' \<subseteq> set db" "\<forall>(key, e) \<in> set db'. cut \<le> ce_created_at e"
    using db'(1) by auto
  then show ?thesis using bound len db' by (simp add: cut_def)
qed

theorem evict_bounds_witness:
  "fst (cache_evict 100 50 None (Some (int 1)) (cache_put 10 ''a'' ''x'' 0 (cache_put 20 ''b'' ''y'' 0 []))) + 1 \<ge> 2"
proof -
  let ?db = "cache_put 10 ''a'' ''x'' 0 (cache_put 20 ''b'' ''y'' 0 [])"
  obtain d db' where e: "cache_evict 100 50 None (Some (int 1)) ?db = (d, db')" by fastforce
  have "dict_wf ?db" "length ?db = 2" by (simp_all add: cache_put_def)
  with evict_bounds [OF this(1) e] e show ?thesis by simp
qed

end
