(* ===== verification/Identity_Store.thy ===== *)
theory Identity_Store
  imports Session_Store "HOL-Library.Product_Lexorder"
begin

text \<open>
  Identities across channels (\<open>sera/gateway/identity.py\<close>): handles linked to a person, the one
  session each person owns, merging of two identities, and the choice of the channel for a
  reply. The three SQL tables are dicts by their primary key, in rowid order; fresh ids and the
  clock (read once per operation) are arguments.
\<close>


section \<open>Tables\<close>

datatype PrivacyTier = NATIVE | SELF_HOSTED | CLOUD

definition tier_rank :: "PrivacyTier \<Rightarrow> nat" where
  "tier_rank t = (case t of NATIVE \<Rightarrow> 0 | SELF_HOSTED \<Rightarrow> 1 | CLOUD \<Rightarrow> 2)"

definition PLATFORM_PRIVACY :: "(py_str, PrivacyTier) py_dict" where
  "PLATFORM_PRIVACY =
     [(''imessage'', NATIVE), (''email'', SELF_HOSTED), (''whatsapp'', SELF_HOSTED), (''telegram'', CLOUD),
      (''discord'', CLOUD), (''slack'', CLOUD), (''twilio'', CLOUD)]"

type_synonym handle = "py_str \<times> py_str"

record identity_db =
  identities :: "(py_str, py_str option \<times> py_float) py_dict"
  channel_links :: "(handle, py_str \<times> py_float) py_dict"
  identity_sessions :: "(py_str, py_str \<times> py_float) py_dict"

record ChannelLink =
  cl_platform :: py_str
  cl_user :: py_str
  cl_last_seen :: py_float

record Identity =
  id_identity :: py_str
  id_name :: "py_str option"
  id_links :: "ChannelLink list"

datatype identity_error = IntegrityError | UnknownIdentity py_str | BothMustExist | SessionFailed session_error

definition no_identities :: identity_db where
  "no_identities = \<lparr>identities = [], channel_links = [], identity_sessions = []\<rparr>"


section \<open>Identities and links\<close>

definition create_identity :: "py_str \<Rightarrow> py_str option \<Rightarrow> py_float \<Rightarrow> identity_db \<Rightarrow> (identity_error, identity_db) py_result" where
  "create_identity fresh name now db =
     (if dict_get (identities db) fresh \<noteq> None then Inl IntegrityError
      else Inr (db\<lparr>identities := dict_set fresh (name, now) (identities db)\<rparr>))"

definition identity_exists :: "py_str \<Rightarrow> identity_db \<Rightarrow> bool" where
  "identity_exists i db \<longleftrightarrow> dict_get (identities db) i \<noteq> None"

definition link :: "py_str \<Rightarrow> handle \<Rightarrow> py_float \<Rightarrow> identity_db \<Rightarrow> (identity_error, identity_db) py_result" where
  "link i h now db =
     (if \<not> identity_exists i db then Inl (UnknownIdentity i)
      else Inr (db\<lparr>channel_links :=
        dict_set h (i, case dict_get (channel_links db) h of None \<Rightarrow> now | Some (j, seen) \<Rightarrow> seen) (channel_links db)\<rparr>))"

fun link_all :: "py_str \<Rightarrow> handle list \<Rightarrow> py_float \<Rightarrow> identity_db \<Rightarrow> (identity_error, identity_db) py_result" where
  "link_all i [] now db = Inr db"
| "link_all i (h # hs) now db = rbind (link i h now db) (link_all i hs now)"

definition unlink :: "handle \<Rightarrow> identity_db \<Rightarrow> identity_db" where
  "unlink h db = db\<lparr>channel_links := dict_del h (channel_links db)\<rparr>"

definition identity_for :: "handle \<Rightarrow> identity_db \<Rightarrow> py_str option" where
  "identity_for h db = map_option fst (dict_get (channel_links db) h)"

definition links_for :: "py_str \<Rightarrow> identity_db \<Rightarrow> ChannelLink list" where
  "links_for i db =
     sort_key (\<lambda>l. - cl_last_seen l)
       (map (\<lambda>((p, u), (j, seen)). \<lparr>cl_platform = p, cl_user = u, cl_last_seen = seen\<rparr>)
         (filter (\<lambda>(h, (j, seen)). j = i) (channel_links db)))"

definition get_identity :: "py_str \<Rightarrow> identity_db \<Rightarrow> Identity option" where
  "get_identity i db =
     map_option (\<lambda>(name, _). \<lparr>id_identity = i, id_name = name, id_links = links_for i db\<rparr>) (dict_get (identities db) i)"

text \<open>Merging moves the links, keeps the session seen last and drops the secondary identity.\<close>

definition merged_sessions :: "py_str \<Rightarrow> py_str \<Rightarrow> (py_str, py_str \<times> py_float) py_dict \<Rightarrow> (py_str, py_str \<times> py_float) py_dict" where
  "merged_sessions p s ss =
     (case dict_get ss s of
        None \<Rightarrow> ss
      | Some (sec_id, sec_seen) \<Rightarrow>
          dict_del s
            (if (case dict_get ss p of None \<Rightarrow> True | Some (_, prim_seen) \<Rightarrow> prim_seen < sec_seen)
             then dict_set p (sec_id, sec_seen) ss else ss))"

definition merge :: "py_str \<Rightarrow> py_str \<Rightarrow> identity_db \<Rightarrow> (identity_error, identity_db) py_result" where
  "merge p s db =
     (if p = s then Inr db
      else if \<not> identity_exists p db \<or> \<not> identity_exists s db then Inl BothMustExist
      else Inr (db\<lparr>channel_links := map (\<lambda>(h, (j, seen)). (h, (if j = s then p else j, seen))) (channel_links db),
                  identity_sessions := merged_sessions p s (identity_sessions db),
                  identities := dict_del s (identities db)\<rparr>))"


section \<open>Sessions\<close>

definition touch_link :: "handle \<Rightarrow> py_float \<Rightarrow> identity_db \<Rightarrow> identity_db" where
  "touch_link h now db =
     (case dict_get (channel_links db) h of
        None \<Rightarrow> db
      | Some (j, seen) \<Rightarrow> db\<lparr>channel_links := dict_set h (j, now) (channel_links db)\<rparr>)"

definition upsert_session :: "py_str \<Rightarrow> py_str \<Rightarrow> py_float \<Rightarrow> identity_db \<Rightarrow> identity_db" where
  "upsert_session i session_id now db = db\<lparr>identity_sessions := dict_set i (session_id, now) (identity_sessions db)\<rparr>"

text \<open>Both databases of the gateway.\<close>

type_synonym gateway_db = "identity_db \<times> session_db"

definition fresh_session ::
  "py_str option \<Rightarrow> py_str \<Rightarrow> py_str \<Rightarrow> py_float \<Rightarrow> gateway_db \<Rightarrow> (identity_error, Session \<times> gateway_db) py_result"
where
  "fresh_session owner fresh_sid ws now g =
     (case session_create fresh_sid ws [] now (snd g) of
        Inl e \<Rightarrow> Inl (SessionFailed e)
      | Inr (s, sdb) \<Rightarrow> Inr (s, (case owner of None \<Rightarrow> fst g | Some i \<Rightarrow> upsert_session i (sid s) now (fst g)), sdb))"

definition resume_session ::
  "py_float \<Rightarrow> py_str \<Rightarrow> py_str \<Rightarrow> py_str \<Rightarrow> py_float \<Rightarrow> gateway_db \<Rightarrow> (identity_error, Session \<times> gateway_db) py_result"
where
  "resume_session ttl i fresh_sid ws now g =
     (case dict_get (identity_sessions (fst g)) i of
        None \<Rightarrow> fresh_session (Some i) fresh_sid ws now g
      | Some (session_id, seen) \<Rightarrow>
          if now - seen \<le> ttl
          then (case session_load session_id (snd g) of
                  Some s \<Rightarrow> Inr (s, upsert_session i (sid s) now (fst g), snd g)
                | None \<Rightarrow> fresh_session (Some i) fresh_sid ws now g)
          else fresh_session (Some i) fresh_sid ws now g)"

definition get_or_create_session ::
  "py_float \<Rightarrow> handle \<Rightarrow> py_str \<Rightarrow> bool \<Rightarrow> py_str \<Rightarrow> py_str \<Rightarrow> py_float \<Rightarrow> gateway_db \<Rightarrow>
   (identity_error, Session \<times> gateway_db) py_result"
where
  "get_or_create_session ttl h ws auto_create fresh_id fresh_sid now g =
     (case identity_for h (fst g) of
        Some i \<Rightarrow> resume_session ttl i fresh_sid ws now (touch_link h now (fst g), snd g)
      | None \<Rightarrow>
          if \<not> auto_create then fresh_session None fresh_sid ws now g
          else rbind (create_identity fresh_id None now (fst g)) (\<lambda>db1.
               rbind (link fresh_id h now db1) (\<lambda>db2.
                 resume_session ttl fresh_id fresh_sid ws now (db2, snd g))))"

definition session_id_for_identity :: "py_float \<Rightarrow> py_float \<Rightarrow> py_str \<Rightarrow> identity_db \<Rightarrow> py_str option" where
  "session_id_for_identity ttl now i db =
     (case dict_get (identity_sessions db) i of
        None \<Rightarrow> None
      | Some (session_id, seen) \<Rightarrow> if ttl < now - seen then None else Some session_id)"

definition session_id_for_channel :: "py_float \<Rightarrow> py_float \<Rightarrow> handle \<Rightarrow> identity_db \<Rightarrow> py_str option" where
  "session_id_for_channel ttl now h db =
     (case identity_for h db of None \<Rightarrow> None | Some i \<Rightarrow> session_id_for_identity ttl now i db)"


section \<open>Reply routing\<close>

definition tier_for :: "(py_str, PrivacyTier) py_dict \<Rightarrow> py_str \<Rightarrow> PrivacyTier" where
  "tier_for privacy platform = dict_get_or privacy platform CLOUD"

text \<open>\<open>min(xs, key=f)\<close>: the first element with the least key.\<close>

fun min_key :: "('a \<Rightarrow> 'k::linorder) \<Rightarrow> 'a \<Rightarrow> 'a list \<Rightarrow> 'a" where
  "min_key f x [] = x"
| "min_key f x (y # ys) = min_key f (if f y < f x then y else x) ys"

definition preferred_channel :: "(py_str, PrivacyTier) py_dict \<Rightarrow> py_str \<Rightarrow> identity_db \<Rightarrow> ChannelLink option" where
  "preferred_channel privacy i db =
     (case links_for i db of
        [] \<Rightarrow> None
      | l # ls \<Rightarrow> Some (min_key (\<lambda>l. (tier_rank (tier_for privacy (cl_platform l)), - cl_last_seen l)) l ls))"

definition active_identity_count :: "py_float \<Rightarrow> py_float \<Rightarrow> identity_db \<Rightarrow> nat" where
  "active_identity_count ttl now db = length (filter (\<lambda>(i, s, seen). now - ttl \<le> seen) (identity_sessions db))"


section \<open>The invariant of the two databases\<close>

definition has_session :: "py_str \<Rightarrow> session_db \<Rightarrow> bool" where
  "has_session i db \<longleftrightarrow> i \<in> s_id ` set (sessions db)"

lemma find_session_None: "find_session i db = None \<longleftrightarrow> \<not> has_session i db"
  by (auto simp: find_session_def find_None_iff has_session_def)

lemma session_load_iff: "session_load i db \<noteq> None \<longleftrightarrow> has_session i db"
  using find_session_None [of i db] by (auto simp: session_load_def split: option.split)

lemma session_load_sid: "session_load i db = Some s \<Longrightarrow> sid s = i"
  by (auto simp: session_load_def find_session_def find_Some_iff split: option.splits)

definition gateway_ok :: "gateway_db \<Rightarrow> bool" where
  "gateway_ok g \<longleftrightarrow>
     dict_wf (identities (fst g)) \<and> dict_wf (channel_links (fst g)) \<and> dict_wf (identity_sessions (fst g)) \<and>
     (\<forall>h i. identity_for h (fst g) = Some i \<longrightarrow> identity_exists i (fst g)) \<and>
     (\<forall>i s seen. dict_get (identity_sessions (fst g)) i = Some (s, seen) \<longrightarrow>
        identity_exists i (fst g) \<and> has_session s (snd g)) \<and>
     (\<forall>i j s seen seen'. dict_get (identity_sessions (fst g)) i = Some (s, seen) \<longrightarrow>
        dict_get (identity_sessions (fst g)) j = Some (s, seen') \<longrightarrow> i = j)"

lemma gateway_okD:
  assumes "gateway_ok g"
  shows "dict_wf (identities (fst g))" "dict_wf (channel_links (fst g))" "dict_wf (identity_sessions (fst g))"
    "identity_for h (fst g) = Some i \<Longrightarrow> identity_exists i (fst g)"
    "dict_get (identity_sessions (fst g)) i = Some (s, seen) \<Longrightarrow> identity_exists i (fst g)"
    "dict_get (identity_sessions (fst g)) i = Some (s, seen) \<Longrightarrow> has_session s (snd g)"
    "dict_get (identity_sessions (fst g)) i = Some (s, seen) \<Longrightarrow> dict_get (identity_sessions (fst g)) j = Some (s, seen') \<Longrightarrow> i = j"
  using assms unfolding gateway_ok_def by blast+

lemma gateway_okI:
  assumes "dict_wf (identities (fst g))" "dict_wf (channel_links (fst g))" "dict_wf (identity_sessions (fst g))"
    "\<And>h i. identity_for h (fst g) = Some i \<Longrightarrow> identity_exists i (fst g)"
    "\<And>i s seen. dict_get (identity_sessions (fst g)) i = Some (s, seen) \<Longrightarrow> identity_exists i (fst g) \<and> has_session s (snd g)"
    "\<And>i j s seen seen'. dict_get (identity_sessions (fst g)) i = Some (s, seen) \<Longrightarrow>
       dict_get (identity_sessions (fst g)) j = Some (s, seen') \<Longrightarrow> i = j"
  shows "gateway_ok g"
  using assms unfolding gateway_ok_def by blast

lemma session_create_facts:
  "session_create fid ws ttl now db = Inr (s, db') \<Longrightarrow>
     sid s = fid \<and> \<not> has_session fid db \<and> (\<forall>j. has_session j db' \<longleftrightarrow> j = fid \<or> has_session j db)"
  by (auto simp: session_create_def Let_def find_session_None has_session_def split: if_splits)

definition owner_row :: "py_str \<Rightarrow> gateway_db \<Rightarrow> (py_str \<times> py_float) option" where
  "owner_row i g = dict_get (identity_sessions (fst g)) i"

lemma upsert_simps [simp]:
  "identities (upsert_session i s now db) = identities db" "channel_links (upsert_session i s now db) = channel_links db"
  "identity_sessions (upsert_session i s now db) = dict_set i (s, now) (identity_sessions db)"
  "identity_for h (upsert_session i s now db) = identity_for h db" "identity_exists j (upsert_session i s now db) = identity_exists j db"
  by (simp_all add: upsert_session_def identity_for_def identity_exists_def)

text \<open>Resolving an identity: it ends up owning the session returned, and nobody else's changes.\<close>

lemma resume_cases:
  assumes "resume_session ttl i fsid ws now g = Inr (s, g')"
  obtains (new) "fresh_session (Some i) fsid ws now g = Inr (s, g')"
  | (old) seen where "owner_row i g = Some (sid s, seen)" "now - seen \<le> ttl" "session_load (sid s) (snd g) = Some s"
      "g' = (upsert_session i (sid s) now (fst g), snd g)"
proof (cases "owner_row i g")
  case None
  with assms new show thesis by (simp add: resume_session_def owner_row_def)
next
  case (Some row)
  obtain session_id seen where row: "row = (session_id, seen)" by (cases row)
  show thesis
  proof (cases "now - seen \<le> ttl \<and> session_load session_id (snd g) \<noteq> None")
    case False
    with assms new Some row show thesis by (auto simp: resume_session_def owner_row_def split: if_splits)
  next
    case True
    then obtain s0 where s0: "session_load session_id (snd g) = Some s0" by auto
    then have "sid s0 = session_id" by (rule session_load_sid)
    with s0 assms old [of seen] Some row True show thesis by (simp add: resume_session_def owner_row_def)
  qed
qed

lemma fresh_session_owned:
  "fresh_session (Some i) fsid ws now g = Inr (s, g') \<Longrightarrow>
     sid s = fsid \<and> \<not> has_session (sid s) (snd g) \<and> (\<forall>k. has_session k (snd g') \<longleftrightarrow> k = sid s \<or> has_session k (snd g)) \<and>
     fst g' = upsert_session i (sid s) now (fst g)"
proof (cases "session_create fsid ws [] now (snd g)")
  case (Inr x)
  moreover obtain s1 sdb where "x = (s1, sdb)" by (cases x)
  moreover assume "fresh_session (Some i) fsid ws now g = Inr (s, g')"
  ultimately have "session_create fsid ws [] now (snd g) = Inr (s, snd g')" "fst g' = upsert_session i (sid s) now (fst g)"
    by (auto simp: fresh_session_def)
  then show ?thesis using session_create_facts [of fsid ws "[]" now "snd g" s "snd g'"] by metis
qed (simp add: fresh_session_def)

lemma resume_facts:
  assumes "gateway_ok g" "identity_exists i (fst g)" "resume_session ttl i fsid ws now g = Inr (s, g')"
  shows "gateway_ok g'" "owner_row i g' = Some (sid s, now)" "j \<noteq> i \<Longrightarrow> owner_row j g' = owner_row j g"
    "identity_for h (fst g') = identity_for h (fst g)" "has_session k (snd g) \<Longrightarrow> has_session k (snd g')"
proof -
  have "(\<exists>seen. owner_row i g = Some (sid s, seen)) \<and> has_session (sid s) (snd g) \<and> snd g' = snd g \<or>
        \<not> has_session (sid s) (snd g) \<and> (\<forall>k. has_session k (snd g') \<longleftrightarrow> k = sid s \<or> has_session k (snd g))"
    and g': "fst g' = upsert_session i (sid s) now (fst g)"
    using assms(3)
  proof (atomize (full), cases rule: resume_cases)
    case new
    then show "((\<exists>seen. owner_row i g = Some (sid s, seen)) \<and> has_session (sid s) (snd g) \<and> snd g' = snd g \<or>
        \<not> has_session (sid s) (snd g) \<and> (\<forall>k. has_session k (snd g') \<longleftrightarrow> k = sid s \<or> has_session k (snd g))) \<and>
        fst g' = upsert_session i (sid s) now (fst g)" by (metis fresh_session_owned)
  next
    case (old seen)
    moreover have "has_session (sid s) (snd g)" using old(3) session_load_iff [of "sid s" "snd g"] by simp
    ultimately show "((\<exists>seen. owner_row i g = Some (sid s, seen)) \<and> has_session (sid s) (snd g) \<and> snd g' = snd g \<or>
        \<not> has_session (sid s) (snd g) \<and> (\<forall>k. has_session k (snd g') \<longleftrightarrow> k = sid s \<or> has_session k (snd g))) \<and>
        fst g' = upsert_session i (sid s) now (fst g)" by simp
  qed
  note alt = this(1)
  have inj: "j = i" if "owner_row j g = Some (sid s, seen)" for j seen
    using alt gateway_okD(6,7) [OF assms(1)] that unfolding owner_row_def by metis
  have other: "owner_row j g' = (if j = i then Some (sid s, now) else owner_row j g)" for j
    by (simp add: owner_row_def g')
  have has: "has_session k (snd g')" if "has_session k (snd g)" for k using alt that by auto
  have own: "has_session (sid s) (snd g')" using alt by auto
  show "owner_row i g' = Some (sid s, now)" "j \<noteq> i \<Longrightarrow> owner_row j g' = owner_row j g"
    "identity_for h (fst g') = identity_for h (fst g)" "has_session k (snd g) \<Longrightarrow> has_session k (snd g')"
    using other has by (simp_all add: g')
  show "gateway_ok g'"
  proof (rule gateway_okI)
    show "dict_wf (identities (fst g'))" "dict_wf (channel_links (fst g'))" "dict_wf (identity_sessions (fst g'))"
      using gateway_okD(1-3) [OF assms(1)] by (simp_all add: g')
    show "identity_exists j (fst g')" if "identity_for h (fst g') = Some j" for h j
      using gateway_okD(4) [OF assms(1)] that by (simp add: g')
    show "identity_exists j (fst g') \<and> has_session s' (snd g')"
      if "dict_get (identity_sessions (fst g')) j = Some (s', seen)" for j s' seen
    proof (cases "j = i")
      case True
      with that own assms(2) show ?thesis by (simp add: g')
    next
      case False
      with that have "dict_get (identity_sessions (fst g)) j = Some (s', seen)" by (simp add: g')
      with gateway_okD(5,6) [OF assms(1)] has show ?thesis by (simp add: g')
    qed
    show "j = j'" if "dict_get (identity_sessions (fst g')) j = Some (s', seen)"
      "dict_get (identity_sessions (fst g')) j' = Some (s', seen')" for j j' s' seen seen'
      using that inj [of j seen] inj [of j' seen'] gateway_okD(7) [OF assms(1), of j s' seen j' seen']
      by (auto simp: g' owner_row_def split: if_splits simp del: map_of_eq_Some_iff)
  qed
qed


lemma create_identity_facts:
  assumes "create_identity f n now db = Inr db'"
  shows "\<not> identity_exists f db" "identity_exists j db' \<longleftrightarrow> j = f \<or> identity_exists j db"
    "identity_for h db' = identity_for h db" "identity_sessions db' = identity_sessions db" "channel_links db' = channel_links db"
    "dict_wf (identities db) \<Longrightarrow> dict_wf (identities db')"
  using assms by (auto simp: create_identity_def identity_exists_def identity_for_def split: if_splits simp del: not_None_eq)

lemma link_facts:
  assumes "link i h now db = Inr db'"
  shows "identity_exists i db" "identity_exists j db' = identity_exists j db"
    "identity_for h' db' = (if h' = h then Some i else identity_for h' db)" "identity_sessions db' = identity_sessions db"
    "identities db' = identities db" "dict_wf (channel_links db) \<Longrightarrow> dict_wf (channel_links db')"
  using assms by (auto simp: link_def identity_exists_def identity_for_def split: if_splits)

lemma touch_link_simps [simp]:
  "identities (touch_link h now db) = identities db" "identity_sessions (touch_link h now db) = identity_sessions db"
  "identity_exists j (touch_link h now db) = identity_exists j db" "identity_for h' (touch_link h now db) = identity_for h' db"
  "dict_wf (channel_links db) \<Longrightarrow> dict_wf (channel_links (touch_link h now db))"
  by (auto simp: touch_link_def identity_exists_def identity_for_def split: option.split)

lemma create_ok: "gateway_ok (db, sdb) \<Longrightarrow> create_identity f n now db = Inr db' \<Longrightarrow> gateway_ok (db', sdb)"
  using create_identity_facts [of f n now db db'] gateway_okD [of "(db, sdb)"]
  by (intro gateway_okI) (auto simp del: map_of_eq_Some_iff)

lemma link_ok: "gateway_ok (db, sdb) \<Longrightarrow> link i h now db = Inr db' \<Longrightarrow> gateway_ok (db', sdb)"
  using link_facts [of i h now db db'] gateway_okD [of "(db, sdb)"]
  by (intro gateway_okI) (auto simp del: map_of_eq_Some_iff split: if_splits)

lemma touch_link_ok: "gateway_ok (db, sdb) \<Longrightarrow> gateway_ok (touch_link h now db, sdb)"
  using gateway_okD [of "(db, sdb)"] by (intro gateway_okI) (auto simp del: map_of_eq_Some_iff)

text \<open>Resolving a handle.\<close>

lemma resolve_facts:
  assumes "gateway_ok g" "get_or_create_session ttl h ws True fid fsid now g = Inr (s, g')"
  obtains i where "gateway_ok g'" "identity_for h (fst g') = Some i" "owner_row i g' = Some (sid s, now)"
    "\<And>j. j \<noteq> i \<Longrightarrow> owner_row j g' = owner_row j g" "\<And>h'. h' \<noteq> h \<Longrightarrow> identity_for h' (fst g') = identity_for h' (fst g)"
    "identity_for h (fst g) = Some i \<or> (identity_for h (fst g) = None \<and> \<not> identity_exists i (fst g))"
proof (cases "identity_for h (fst g)")
  case (Some i)
  then have r: "resume_session ttl i fsid ws now (touch_link h now (fst g), snd g) = Inr (s, g')"
    using assms(2) by (simp add: get_or_create_session_def)
  have ok: "gateway_ok (touch_link h now (fst g), snd g)" using assms(1) by (intro touch_link_ok) simp
  have ex: "identity_exists i (fst (touch_link h now (fst g), snd g))" using gateway_okD(4) [OF assms(1) Some] by simp
  from resume_facts [OF ok ex r] Some that [of i] show thesis by (simp add: owner_row_def)
next
  case None
  then obtain db1 db2 where d: "create_identity fid None now (fst g) = Inr db1" "link fid h now db1 = Inr db2"
      "resume_session ttl fid fsid ws now (db2, snd g) = Inr (s, g')"
    using assms(2) by (auto simp: get_or_create_session_def rbind_eq_Inr)
  note c = create_identity_facts [OF d(1)] and l = link_facts [OF d(2)]
  have "gateway_ok (db1, snd g)" using assms(1) create_ok [OF _ d(1), of "snd g"] by simp
  then have ok: "gateway_ok (db2, snd g)" using d(2) by (rule link_ok)
  have ex: "identity_exists fid (fst (db2, snd g))" using l(1,2) by simp
  from resume_facts [OF ok ex d(3)] None c l that [of fid] show thesis by (simp add: owner_row_def)
qed

text \<open>Everything the gateway does to the two databases. A failing operation changes nothing.\<close>

datatype gateway_op =
    CreateIdentity py_str "py_str option" py_float
  | LinkHandle py_str handle py_float
  | UnlinkHandle handle
  | MergeIdentities py_str py_str
  | ResolveHandle py_float handle py_str py_str py_str py_float
  | SessionOp "py_str \<Rightarrow> py_str" db_op

fun run_gateway_op :: "gateway_op \<Rightarrow> gateway_db \<Rightarrow> gateway_db" where
  "run_gateway_op (CreateIdentity f n now) g = (case create_identity f n now (fst g) of Inl _ \<Rightarrow> g | Inr db \<Rightarrow> (db, snd g))"
| "run_gateway_op (LinkHandle i h now) g = (case link i h now (fst g) of Inl _ \<Rightarrow> g | Inr db \<Rightarrow> (db, snd g))"
| "run_gateway_op (UnlinkHandle h) g = (unlink h (fst g), snd g)"
| "run_gateway_op (MergeIdentities p s) g = (case merge p s (fst g) of Inl _ \<Rightarrow> g | Inr db \<Rightarrow> (db, snd g))"
| "run_gateway_op (ResolveHandle ttl h ws fid fsid now) g =
     (case get_or_create_session ttl h ws True fid fsid now g of Inl _ \<Rightarrow> g | Inr (s, g') \<Rightarrow> g')"
| "run_gateway_op (SessionOp sha op) g = (fst g, apply_op sha op (snd g))"

lemma identity_for_merge: "dict_get (map (\<lambda>(h, (j, seen)). (h, (if j = s then p else j, seen))) ls) h =
    map_option (\<lambda>(j, seen). (if j = s then p else j, seen)) (dict_get ls h)"
  by (induction ls) auto

lemma merge_facts:
  assumes "merge p s db = Inr db'" "p \<noteq> s"
  shows "identity_exists p db" "identity_exists s db" "identity_exists j db' \<longleftrightarrow> j \<noteq> s \<and> identity_exists j db"
    "identity_for h db' = map_option (\<lambda>j. if j = s then p else j) (identity_for h db)"
    "identity_sessions db' = merged_sessions p s (identity_sessions db)"
    "dict_wf (identities db) \<Longrightarrow> dict_wf (identities db')" "dict_wf (channel_links db) \<Longrightarrow> dict_wf (channel_links db')"
proof -
  from assms have db': "db' = db\<lparr>channel_links := map (\<lambda>(h, (j, seen)). (h, (if j = s then p else j, seen))) (channel_links db),
      identity_sessions := merged_sessions p s (identity_sessions db), identities := dict_del s (identities db)\<rparr>"
    and ex: "identity_exists p db" "identity_exists s db" by (auto simp: merge_def split: if_splits)
  show "identity_exists p db" "identity_exists s db" by (fact ex)+
  show "identity_exists j db' \<longleftrightarrow> j \<noteq> s \<and> identity_exists j db" by (simp add: db' identity_exists_def)
  show "identity_for h db' = map_option (\<lambda>j. if j = s then p else j) (identity_for h db)"
    unfolding db' identity_for_def by (cases "dict_get (channel_links db) h") (auto simp: identity_for_merge simp del: map_of_eq_Some_iff)
  show "identity_sessions db' = merged_sessions p s (identity_sessions db)" by (simp add: db')
  show "dict_wf (identities db) \<Longrightarrow> dict_wf (identities db')" by (simp add: db')
  show "dict_wf (channel_links db) \<Longrightarrow> dict_wf (channel_links db')" by (simp add: db' comp_def case_prod_beta)
qed

text \<open>After a merge the primary owns whichever of the two sessions was seen last.\<close>

definition freshest :: "(py_str \<times> py_float) option \<Rightarrow> (py_str \<times> py_float) option \<Rightarrow> (py_str \<times> py_float) option" where
  "freshest prim sec =
     (case sec of None \<Rightarrow> prim
      | Some s \<Rightarrow> (case prim of None \<Rightarrow> Some s | Some p \<Rightarrow> if snd p < snd s then Some s else Some p))"

lemma merged_sessions_get:
  assumes "p \<noteq> s"
  shows "dict_get (merged_sessions p s ss) j =
    (if j = s then None else if j = p then freshest (dict_get ss p) (dict_get ss s) else dict_get ss j)"
  using assms by (auto simp: merged_sessions_def freshest_def split: option.split prod.split)

lemma merged_sessions_wf: "dict_wf ss \<Longrightarrow> dict_wf (merged_sessions p s ss)"
  by (auto simp: merged_sessions_def split: option.split prod.split)


lemma merge_ok:
  assumes "gateway_ok (db, sdb)" "merge p s db = Inr db'"
  shows "gateway_ok (db', sdb)"
proof (cases "p = s")
  case True
  with assms show ?thesis by (simp add: merge_def)
next
  case False
  note m = merge_facts [OF assms(2) False] and g = gateway_okD [OF assms(1), simplified]
  have get: "dict_get (identity_sessions db') j = (if j = s then None else if j = p
      then freshest (dict_get (identity_sessions db) p) (dict_get (identity_sessions db) s) else dict_get (identity_sessions db) j)" for j
    unfolding m(5) by (rule merged_sessions_get [OF False])
  have src: "\<exists>j'. dict_get (identity_sessions db) j' = Some (x, seen) \<and> (j' = j \<or> (j = p \<and> j' = s)) \<and> j \<noteq> s"
    if "dict_get (identity_sessions db') j = Some (x, seen)" for j x seen
    using that unfolding get by (auto simp: freshest_def split: if_splits option.splits simp del: map_of_eq_Some_iff)
  show ?thesis
  proof (rule gateway_okI, unfold fst_conv snd_conv)
    show "dict_wf (identities db')" "dict_wf (channel_links db')" "dict_wf (identity_sessions db')"
      using m(5-7) g(1-3) merged_sessions_wf by metis+
    show "identity_exists i db'" if "identity_for h db' = Some i" for h i
      using that g(4) [of h] m(1) False by (auto simp: m(3,4) split: if_splits)
    show "identity_exists i db' \<and> has_session x sdb" if "dict_get (identity_sessions db') i = Some (x, seen)" for i x seen
      using src [OF that] g(5,6) m(1) by (auto simp: m(3) simp del: map_of_eq_Some_iff)
    show "i = j" if "dict_get (identity_sessions db') i = Some (x, seen)" "dict_get (identity_sessions db') j = Some (x, seen')"
      for i j x seen seen'
    proof -
      from src [OF that(1)] obtain i' where i: "dict_get (identity_sessions db) i' = Some (x, seen)" "i' = i \<or> (i = p \<and> i' = s)" "i \<noteq> s" by blast
      from src [OF that(2)] obtain j' where j: "dict_get (identity_sessions db) j' = Some (x, seen')" "j' = j \<or> (j = p \<and> j' = s)" "j \<noteq> s" by blast
      from g(7) [OF i(1) j(1)] i(2,3) j(2,3) show "i = j" by blast
    qed
  qed
qed

lemma has_session_apply: "has_session i (apply_op sha op db) = has_session i db"
proof -
  have u: "s_id ` set (sessions (update_session j f db)) = s_id ` set (sessions db)" if "\<And>r. s_id (f r) = s_id r" for j f db
  proof -
    have "map s_id (sessions (update_session j f db)) = map s_id (sessions db)" using that by (simp add: update_session_def)
    then show ?thesis by (metis list.set_map)
  qed
  have "s_id ` set (sessions (fold (\<lambda>i. update_session i f) is db)) = s_id ` set (sessions db)" if "\<And>r. s_id (f r) = s_id r" for f "is" db
    by (induction "is" arbitrary: db) (simp_all add: u that)
  then show ?thesis
    by (cases op) (auto simp: has_session_def append_row_def record_usage_def recover_aborted_def u freeze_system_prompt_def
        split: option.split sum.split)
qed

lemma gateway_op_ok: "gateway_ok g \<Longrightarrow> gateway_ok (run_gateway_op op g)"
proof (cases op)
  case (UnlinkHandle h)
  moreover assume "gateway_ok g"
  ultimately show ?thesis using gateway_okD [of g]
    by (auto intro!: gateway_okI simp: unlink_def identity_for_def identity_exists_def simp del: map_of_eq_Some_iff split: if_splits)
next
  case (SessionOp sha op')
  moreover assume "gateway_ok g"
  ultimately show ?thesis using gateway_okD [of g]
    by (auto intro!: gateway_okI simp: has_session_apply simp del: map_of_eq_Some_iff)
next
  case (ResolveHandle ttl h ws fid fsid now)
  moreover assume ok: "gateway_ok g"
  have "gateway_ok g'" if "get_or_create_session ttl h ws True fid fsid now g = Inr (s, g')" for s g'
    using resolve_facts [OF ok that] by blast
  ultimately show ?thesis using ok by (auto split: sum.split)
qed (cases g; auto intro: create_ok link_ok merge_ok split: sum.split)+

lemma gateway_ok_empty: "gateway_ok (no_identities, \<lparr>sessions = [], messages = []\<rparr>)"
  by (rule gateway_okI) (simp_all add: no_identities_def identity_for_def)

lemma gateway_ops_ok: "gateway_ok g \<Longrightarrow> gateway_ok (fold run_gateway_op ops g)"
  by (induction ops arbitrary: g) (simp_all add: gateway_op_ok)

text \<open>
  C21: one person, one conversation; two people, two. After any history of identity, link, merge
  and session operations, let one handle be resolved to a session and then another (or the
  same one) within the time to live. They get the same session exactly when they belong to the
  same identity.
\<close>

theorem one_person_one_session:
  assumes "g = fold run_gateway_op ops (no_identities, \<lparr>sessions = [], messages = []\<rparr>)"
    and "get_or_create_session ttl h1 ws True f1 fs1 now1 g = Inr (s1, g1)"
    and "get_or_create_session ttl h2 ws True f2 fs2 now2 g1 = Inr (s2, g2)"
    and "now2 - now1 \<le> ttl"
  shows "sid s1 = sid s2 \<longleftrightarrow> identity_for h1 (fst g2) = identity_for h2 (fst g2)"
proof -
  have ok: "gateway_ok g" using assms(1) gateway_ops_ok [OF gateway_ok_empty] by simp
  from ok assms(2) obtain i where i: "gateway_ok g1" "identity_for h1 (fst g1) = Some i" "owner_row i g1 = Some (sid s1, now1)"
    by (rule resolve_facts)
  from i(1) assms(3) obtain j where j: "gateway_ok g2" "identity_for h2 (fst g2) = Some j" "owner_row j g2 = Some (sid s2, now2)"
    "\<And>k. k \<noteq> j \<Longrightarrow> owner_row k g2 = owner_row k g1" "\<And>h'. h' \<noteq> h2 \<Longrightarrow> identity_for h' (fst g2) = identity_for h' (fst g1)"
    "identity_for h2 (fst g1) = Some j \<or> (identity_for h2 (fst g1) = None \<and> \<not> identity_exists j (fst g1))"
    by (rule resolve_facts) blast
  have h1: "identity_for h1 (fst g2) = Some i" using i(2) j(2,5,6) by (cases "h1 = h2") auto
  show ?thesis
  proof (cases "i = j")
    case True
    with j(6) gateway_okD(4) [OF i(1,2)] have l: "identity_for h2 (fst g1) = Some i" by auto
    have "resume_session ttl i fs2 ws now2 (touch_link h2 now2 (fst g1), snd g1) = Inr (s2, g2)"
      using assms(3) l by (simp add: get_or_create_session_def)
    moreover have "dict_get (identity_sessions (touch_link h2 now2 (fst g1))) i = Some (sid s1, now1)"
      using i(3) by (simp add: owner_row_def)
    moreover have "session_load (sid s1) (snd g1) \<noteq> None"
      using gateway_okD(6) [OF i(1)] i(3) session_load_iff by (auto simp: owner_row_def)
    ultimately have "sid s2 = sid s1" using assms(4) session_load_sid by (auto simp: resume_session_def)
    with True h1 j(2) show ?thesis by simp
  next
    case False
    then have "owner_row i g2 = Some (sid s1, now1)" using j(4) i(3) by simp
    with j(1,3) False have "sid s1 \<noteq> sid s2" using gateway_okD(7) [OF j(1)] by (auto simp: owner_row_def simp del: map_of_eq_Some_iff)
    with False h1 j(2) show ?thesis by simp
  qed
qed


definition demo_history :: "gateway_op list" where
  "demo_history =
     [CreateIdentity ''me'' None 0, LinkHandle ''me'' (''telegram'', ''42'') 0, LinkHandle ''me'' (''slack'', ''U1'') 0]"

theorem one_person_one_session_witness:
  "\<exists>s1 g1 s2 g2.
     get_or_create_session 10 (''telegram'', ''42'') ''/w'' True ''a'' ''s1'' 1
       (fold run_gateway_op demo_history (no_identities, \<lparr>sessions = [], messages = []\<rparr>)) = Inr (s1, g1) \<and>
     get_or_create_session 10 (''slack'', ''U1'') ''/w'' True ''b'' ''s2'' 2 g1 = Inr (s2, g2) \<and> sid s1 = sid s2"
proof -
  let ?g = "fold run_gateway_op demo_history (no_identities, \<lparr>sessions = [], messages = []\<rparr>)"
  note defs = demo_history_def no_identities_def create_identity_def link_def identity_exists_def identity_for_def
    get_or_create_session_def resume_session_def fresh_session_def session_create_def find_session_def touch_link_def
    upsert_session_def session_load_def Let_def
  obtain s1 g1 where one: "get_or_create_session 10 (''telegram'', ''42'') ''/w'' True ''a'' ''s1'' 1 ?g = Inr (s1, g1)"
    by (simp add: defs)
  from one obtain s2 g2 where two: "get_or_create_session 10 (''slack'', ''U1'') ''/w'' True ''b'' ''s2'' 2 g1 = Inr (s2, g2)"
      "identity_for (''telegram'', ''42'') (fst g2) = identity_for (''slack'', ''U1'') (fst g2)"
    by (auto simp: defs)
  from one_person_one_session [OF refl one two(1)] two(2) have "sid s1 = sid s2" by simp
  with one two(1) show ?thesis by blast
qed


section \<open>Merging\<close>

text \<open>
  Merging loses nobody and nothing. Every handle of either identity belongs to the primary
  afterwards and every other handle to whom it did; the secondary is gone; the primary owns
  whichever of the two sessions was seen last, and the sessions of everybody else stay.
\<close>

theorem merge_joins:
  assumes "merge p s db = Inr db'" "p \<noteq> s"
  shows "identity_for h db' = (if identity_for h db = Some s then Some p else identity_for h db) \<and>
    \<not> identity_exists s db' \<and> identity_exists p db' \<and>
    dict_get (identity_sessions db') p = freshest (dict_get (identity_sessions db) p) (dict_get (identity_sessions db) s) \<and>
    dict_get (identity_sessions db') s = None \<and>
    (j \<notin> {p, s} \<longrightarrow> dict_get (identity_sessions db') j = dict_get (identity_sessions db) j \<and>
       identity_exists j db' = identity_exists j db)"
  using merge_facts [OF assms] merged_sessions_get [OF assms(2), of "identity_sessions db"] assms(2)
  by (cases "identity_for h db") auto

theorem merge_joins_witness:
  "\<exists>db'. merge ''a'' ''b''
       \<lparr>identities = [(''a'', None, 0), (''b'', None, 0)], channel_links = [((''slack'', ''U''), ''b'', 0)],
        identity_sessions = [(''a'', ''old'', 1), (''b'', ''new'', 2)]\<rparr> = Inr db' \<and>
     identity_for (''slack'', ''U'') db' = Some ''a'' \<and> dict_get (identity_sessions db') ''a'' = Some (''new'', 2)"
proof -
  let ?db = "\<lparr>identities = [(''a'', None, 0), (''b'', None, 0)], channel_links = [((''slack'', ''U''), ''b'', 0)],
        identity_sessions = [(''a'', ''old'', 1), (''b'', ''new'', 2)]\<rparr>"
  obtain db' where m: "merge ''a'' ''b'' ?db = Inr db'" by (simp add: merge_def identity_exists_def)
  from merge_joins [OF m, of "(''slack'', ''U'')"] have
    "identity_for (''slack'', ''U'') db' = Some ''a'' \<and> dict_get (identity_sessions db') ''a'' = Some (''new'', 2)"
    by (simp add: identity_for_def freshest_def)
  with m show ?thesis by blast
qed


section \<open>The reply goes to the most private channel\<close>

lemma min_key_least: "min_key f x ys \<in> set (x # ys) \<and> (\<forall>y\<in>set (x # ys). f (min_key f x ys) \<le> f y)"
proof (induction f x ys rule: min_key.induct)
  case (2 f x y ys)
  then show ?case by (cases "f y < f x") (auto dest: order_trans intro: order_trans less_imp_le simp: not_less)
qed simp

lemma links_for_mem:
  "dict_wf (channel_links db) \<Longrightarrow>
     l \<in> set (links_for i db) \<longleftrightarrow> dict_get (channel_links db) (cl_platform l, cl_user l) = Some (i, cl_last_seen l)"
proof -
  assume wf: "dict_wf (channel_links db)"
  have "l \<in> set (links_for i db) \<longleftrightarrow> ((cl_platform l, cl_user l), (i, cl_last_seen l)) \<in> set (channel_links db)"
    by (cases l) (auto simp: links_for_def image_iff Bex_def)
  with wf show ?thesis by simp
qed

text \<open>
  replies prefer privacy. The channel chosen for an identity is one of its links; no link of
  it is on a more private platform, and none on an equally private one was seen later; there
  is no choice exactly when the identity has no link.
\<close>

theorem preferred_most_private:
  assumes "dict_wf (channel_links db)"
  shows "case preferred_channel privacy i db of
      None \<Rightarrow> \<forall>h. identity_for h db \<noteq> Some i
    | Some l \<Rightarrow>
        dict_get (channel_links db) (cl_platform l, cl_user l) = Some (i, cl_last_seen l) \<and>
        (\<forall>p u seen. dict_get (channel_links db) (p, u) = Some (i, seen) \<longrightarrow>
           (tier_rank (tier_for privacy (cl_platform l)), - cl_last_seen l) \<le> (tier_rank (tier_for privacy p), - seen))"
proof (cases "links_for i db")
  case Nil
  have "identity_for h db \<noteq> Some i" for h
  proof
    assume "identity_for h db = Some i"
    then obtain seen where "dict_get (channel_links db) h = Some (i, seen)" by (auto simp: identity_for_def simp del: map_of_eq_Some_iff)
    with links_for_mem [OF assms, of "\<lparr>cl_platform = fst h, cl_user = snd h, cl_last_seen = seen\<rparr>" i] Nil show False by simp
  qed
  with Nil show ?thesis by (simp add: preferred_channel_def)
next
  case (Cons l ls)
  let ?f = "\<lambda>l. (tier_rank (tier_for privacy (cl_platform l)), - cl_last_seen l)"
  have p: "preferred_channel privacy i db = Some (min_key ?f l ls)" by (simp add: preferred_channel_def Cons)
  have "?f (min_key ?f l ls) \<le> (tier_rank (tier_for privacy p), - seen)"
    if "dict_get (channel_links db) (p, u) = Some (i, seen)" for p u seen
    using links_for_mem [OF assms, of "\<lparr>cl_platform = p, cl_user = u, cl_last_seen = seen\<rparr>" i] that Cons min_key_least [of ?f l ls]
    by auto
  moreover have "min_key ?f l ls \<in> set (links_for i db)" using min_key_least [of ?f l ls] Cons by simp
  ultimately show ?thesis using links_for_mem [OF assms] by (simp add: p del: map_of_eq_Some_iff less_eq_prod_simp)
qed

theorem preferred_most_private_witness:
  "\<exists>l. preferred_channel PLATFORM_PRIVACY ''me''
       \<lparr>identities = [(''me'', None, 0)], channel_links = [((''slack'', ''U''), ''me'', 9), ((''imessage'', ''+1''), ''me'', 1)],
        identity_sessions = []\<rparr> = Some l \<and> tier_for PLATFORM_PRIVACY (cl_platform l) = NATIVE"
proof -
  let ?db = "\<lparr>identities = [(''me'', None, 0)], channel_links = [((''slack'', ''U''), ''me'', 9), ((''imessage'', ''+1''), ''me'', 1)],
        identity_sessions = []\<rparr>"
  have wf: "dict_wf (channel_links ?db)" by simp
  have r: "tier_rank (tier_for PLATFORM_PRIVACY ''imessage'') = 0"
    by (simp add: tier_rank_def tier_for_def PLATFORM_PRIVACY_def dict_get_or_def)
  have z: "tier_rank t = 0 \<longleftrightarrow> t = NATIVE" for t by (cases t) (simp_all add: tier_rank_def)
  obtain l where l: "preferred_channel PLATFORM_PRIVACY ''me'' ?db = Some l"
    by (auto simp: preferred_channel_def links_for_def split: list.split)
  have g: "dict_get (channel_links ?db) (''imessage'', ''+1'') = Some (''me'', 1)" by simp
  have "(tier_rank (tier_for PLATFORM_PRIVACY (cl_platform l)), - cl_last_seen l) \<le>
      (tier_rank (tier_for PLATFORM_PRIVACY ''imessage''), - 1)"
    using preferred_most_private [OF wf, where privacy = PLATFORM_PRIVACY and i = "''me''", unfolded l option.case] g by blast
  then have "tier_rank (tier_for PLATFORM_PRIVACY (cl_platform l)) \<le> 0" using r by (auto simp: less_eq_prod_def)
  with l z show ?thesis by auto
qed

end
