(* ===== verification/Agent_Budget.thy ===== *)
theory Agent_Budget
  imports Sera_Prelude
begin

text \<open>
  The shared iteration budget (\<open>sera/agent/budget.py\<close>), the per-turn cancel token
  (\<open>sera/agent/interrupt.py\<close>) and the admission test that opens every iteration of the
  agent loop (\<open>sera/agent/loop.py\<close>, the \<open>budget.consume()\<close> block of \<open>run_turn\<close>).
  The budget is one object that a parent agent and its subagents spend together
  (\<open>sera/tools/delegate.py\<close>), so its bound is stated for every interleaving of spenders.
\<close>


section \<open>IterationBudget\<close>

record IterationBudget =
  total_iters :: int
  remaining :: int
  grace_used :: bool

datatype budget_error = BadTotal int | MaxIterations | GraceReused

definition budget_of :: "int \<Rightarrow> (budget_error, IterationBudget) py_result" where
  "budget_of n =
     (if n < 1 then Inl (BadTotal n)
      else Inr \<lparr>total_iters = n, remaining = n, grace_used = False\<rparr>)"

definition consume :: "IterationBudget \<Rightarrow> (budget_error, IterationBudget) py_result" where
  "consume b =
     (if remaining b \<le> 0 then Inl MaxIterations
      else Inr (b\<lparr>remaining := remaining b - 1\<rparr>))"

definition can_request_grace :: "IterationBudget \<Rightarrow> bool" where
  "can_request_grace b \<longleftrightarrow> remaining b = 0 \<and> \<not> grace_used b"

definition request_grace :: "IterationBudget \<Rightarrow> (budget_error, IterationBudget) py_result" where
  "request_grace b =
     (if grace_used b then Inl GraceReused
      else Inr (b\<lparr>grace_used := True, remaining := 1\<rparr>))"

lemmas budget_defs [sera_defs] =
  budget_of_def consume_def can_request_grace_def request_grace_def


section \<open>Spending a shared budget\<close>

text \<open>
  \<open>shared_run n b k\<close>: a budget created with total \<open>n\<close> can be in state \<open>b\<close> after \<open>k\<close>
  successful \<open>consume\<close> calls, in any interleaving of the agents that share it; the grace
  refund is taken only behind \<open>can_request_grace\<close>, as the loop does.
\<close>

inductive shared_run :: "int \<Rightarrow> IterationBudget \<Rightarrow> nat \<Rightarrow> bool" for n where
  fresh: "budget_of n = Inr b \<Longrightarrow> shared_run n b 0"
| spend: "shared_run n b k \<Longrightarrow> consume b = Inr b' \<Longrightarrow> shared_run n b' (Suc k)"
| grace: "shared_run n b k \<Longrightarrow> can_request_grace b \<Longrightarrow> request_grace b = Inr b' \<Longrightarrow> shared_run n b' k"

definition budget_ledger :: "int \<Rightarrow> IterationBudget \<Rightarrow> nat \<Rightarrow> bool" where
  "budget_ledger n b k \<longleftrightarrow>
     1 \<le> n \<and> total_iters b = n \<and> 0 \<le> remaining b \<and>
     int k + remaining b = n + (if grace_used b then 1 else 0)"

lemma shared_run_ledger: "shared_run n b k \<Longrightarrow> budget_ledger n b k"
  by (induction rule: shared_run.induct)
     (auto simp: budget_ledger_def budget_defs split: if_splits)

text \<open>
  However a parent and its subagents interleave their spending, a budget of total n
  pays for at most n + 1 iterations, the books balance at every moment (spent + remaining
  is the total, plus one once the grace call was taken), and remaining never goes negative.
\<close>

theorem shared_budget_bounded:
  assumes "shared_run n b k"
  shows "0 \<le> remaining b \<and> int k \<le> n + 1 \<and>
         int k + remaining b = n + (if grace_used b then 1 else 0)"
  using shared_run_ledger [OF assms] by (auto simp: budget_ledger_def split: if_splits)

theorem shared_budget_bounded_witness:
  "0 \<le> remaining \<lparr>total_iters = 1, remaining = 0, grace_used = False\<rparr> \<and> int (Suc 0) \<le> 1 + 1"
proof -
  have "shared_run 1 \<lparr>total_iters = 1, remaining = 0, grace_used = False\<rparr> (Suc 0)"
    by (rule shared_run.spend [OF shared_run.fresh [of 1
          "\<lparr>total_iters = 1, remaining = 1, grace_used = False\<rparr>"]]) (simp_all add: budget_defs)
  from shared_budget_bounded [OF this] show ?thesis by simp
qed


section \<open>InterruptToken\<close>

text \<open>A one-shot flag: \<open>check\<close> raises (\<open>Inl\<close>) once it has fired; nothing clears it.\<close>

record InterruptToken =
  event_set :: bool

datatype interrupt_error = Interrupted

definition token_new :: InterruptToken where
  "token_new = \<lparr>event_set = False\<rparr>"

definition token_set :: "InterruptToken \<Rightarrow> InterruptToken" where
  "token_set t = t\<lparr>event_set := True\<rparr>"

definition token_check :: "InterruptToken \<Rightarrow> (interrupt_error, unit) py_result" where
  "token_check t = (if event_set t then Inl Interrupted else Inr ())"

text \<open>
  The SIGINT handler bound to a token: the first signal sets the token, a second one
  during the same turn raises KeyboardInterrupt.
\<close>

record sigint_state =
  fired_once :: bool
  sig_token :: InterruptToken

datatype signal_outcome = KeyboardInterrupt | Handled sigint_state

definition sigint_handler :: "sigint_state \<Rightarrow> signal_outcome" where
  "sigint_handler s =
     (if fired_once s then KeyboardInterrupt
      else Handled (s\<lparr>fired_once := True, sig_token := token_set (sig_token s)\<rparr>))"


section \<open>Admission of one loop iteration\<close>

text \<open>
  The head of the loop: spend one iteration; when the budget is exhausted take the grace
  call if it is still there, otherwise leave the loop.
\<close>

datatype admission = Admitted IterationBudget bool | Exhausted

definition admit :: "IterationBudget \<Rightarrow> (budget_error, admission) py_result" where
  "admit b =
     (case consume b of
        Inr b' \<Rightarrow> Inr (Admitted b' False)
      | Inl _ \<Rightarrow>
          if can_request_grace b then
            (case request_grace b of
               Inl e \<Rightarrow> Inl e
             | Inr b1 \<Rightarrow> (case consume b1 of Inl e \<Rightarrow> Inl e | Inr b2 \<Rightarrow> Inr (Admitted b2 True)))
          else Inr Exhausted)"

lemma admit_cases:
  "admit b =
     (if 0 < remaining b then Inr (Admitted (b\<lparr>remaining := remaining b - 1\<rparr>) False)
      else if remaining b = 0 \<and> \<not> grace_used b
        then Inr (Admitted (b\<lparr>grace_used := True, remaining := 0\<rparr>) True)
      else Inr Exhausted)"
  by (auto simp: admit_def budget_defs)

text \<open>
  \<open>admissions m b\<close> is the list of grace flags of up to \<open>m\<close> consecutive iterations that
  one agent is admitted to, starting from budget \<open>b\<close>.
\<close>

fun admissions :: "nat \<Rightarrow> IterationBudget \<Rightarrow> bool list" where
  "admissions 0 b = []"
| "admissions (Suc m) b =
     (case admit b of
        Inr (Admitted b' g) \<Rightarrow> g # admissions m b'
      | _ \<Rightarrow> [])"

lemma admissions_spent: "remaining b = 0 \<Longrightarrow> grace_used b \<Longrightarrow> admissions m b = []"
  by (cases m) (simp_all add: admit_cases)

lemma admissions_exact:
  "remaining b = int r \<Longrightarrow> \<not> grace_used b \<Longrightarrow> r < m \<Longrightarrow>
     admissions m b = replicate r False @ [True]"
proof (induction r arbitrary: m b)
  case 0
  then show ?case by (cases m) (simp_all add: admit_cases admissions_spent)
next
  case (Suc r)
  then show ?case by (cases m) (simp_all add: admit_cases)
qed

text \<open>
  One agent that owns a fresh budget of total n runs exactly n ordinary iterations and
  then exactly one grace iteration, and is never admitted again: the loop's budget test
  terminates it after n + 1 iterations.
\<close>

theorem budget_exact_iterations:
  assumes "budget_of n = Inr b" and "nat n < m"
  shows "admissions m b = replicate (nat n) False @ [True]"
  using assms by (intro admissions_exact) (auto simp: budget_defs split: if_splits)

theorem budget_exact_iterations_witness:
  "admissions 9 \<lparr>total_iters = 2, remaining = 2, grace_used = False\<rparr> = [False, False, True]"
  using budget_exact_iterations [of 2 "\<lparr>total_iters = 2, remaining = 2, grace_used = False\<rparr>" 9]
  by (simp add: budget_defs numeral_eq_Suc)

end
