(* ===== verification/Context_Scrubber.thy ===== *)
theory Context_Scrubber
  imports Sera_Prelude
begin

text \<open>
  The streaming filter of \<open>sera/context/scrubber.py\<close>: it removes
  \<open><context>...</context>\<close> and \<open><memory-context>...</memory-context>\<close> spans from text
  that arrives in chunks. \<open>feed_loop\<close> is the \<open>while self.buf\<close> loop over the object's
  three fields; \<open>strip_spans\<close> is the reference: the same removal on the whole text, one
  character at a time. The main result is that any chunking of a text yields exactly the
  reference.
\<close>


section \<open>The filter\<close>

definition TAGS :: "py_str list" where
  "TAGS = [''memory-context'', ''context'']"

definition opener :: "py_str \<Rightarrow> py_str" where
  "opener tag = ''<'' @ tag @ ''>''"

definition closer :: "py_str \<Rightarrow> py_str" where
  "closer tag = ''</'' @ tag @ ''>''"

definition OPEN_PREFIXES :: "py_str list" where
  "OPEN_PREFIXES = map opener TAGS"

definition MAX_PARTIAL_KEEP :: nat where
  "MAX_PARTIAL_KEEP = Max (length ` set OPEN_PREFIXES)"

record scrubber =
  buf :: py_str
  inside :: bool
  close_token :: py_str

definition new_scrubber :: scrubber where
  "new_scrubber = \<lparr>buf = [], inside = False, close_token = []\<rparr>"

text \<open>\<open>self.buf[-keep:]\<close> for a positive \<open>keep\<close>, the empty string otherwise.\<close>

definition keep_tail :: "nat \<Rightarrow> py_str \<Rightarrow> py_str" where
  "keep_tail n b = drop (length b - min (length b) n) b"

text \<open>The first tag, in the order of \<open>TAGS\<close>, whose opener starts the buffer.\<close>

definition match_opener :: "py_str \<Rightarrow> py_str option" where
  "match_opener b = find (\<lambda>tag. starts_with b (opener tag)) TAGS"

lemma str_find_lt: "str_find b ''<'' = Some i \<Longrightarrow> i < length b"
  by (drule str_find_Some) simp

function feed_loop :: "scrubber \<Rightarrow> py_str \<Rightarrow> py_str \<times> scrubber" where
  "feed_loop s out =
     (if buf s = [] then (out, s)
      else if inside s then
        (case str_find (buf s) (close_token s) of
           None \<Rightarrow> (out, s\<lparr>buf := keep_tail (length (close_token s) - 1) (buf s)\<rparr>)
         | Some idx \<Rightarrow>
             feed_loop (s\<lparr>buf := drop (idx + length (close_token s)) (buf s),
                          inside := False, close_token := []\<rparr>) out)
      else
        (case str_find (buf s) ''<'' of
           None \<Rightarrow> (out @ buf s, s\<lparr>buf := []\<rparr>)
         | Some lt \<Rightarrow>
             let out' = out @ take lt (buf s); b = drop lt (buf s) in
             (case match_opener b of
                Some tag \<Rightarrow>
                  feed_loop (s\<lparr>buf := drop (length (opener tag)) b,
                               inside := True, close_token := closer tag\<rparr>) out'
              | None \<Rightarrow>
                  if list_ex (\<lambda>p. starts_with p b) OPEN_PREFIXES \<and> length b \<le> MAX_PARTIAL_KEEP
                  then (out', s\<lparr>buf := b\<rparr>)
                  else feed_loop (s\<lparr>buf := drop 1 b\<rparr>) (out' @ ''<''))))"
  by pat_completeness auto
termination
  by (relation "measures [\<lambda>(s, _). length (buf s), \<lambda>(s, _). if inside s then 1 else 0]")
     (auto simp: opener_def dest: str_find_lt)

declare feed_loop.simps [simp del]

definition feed :: "scrubber \<Rightarrow> py_str \<Rightarrow> py_str \<times> scrubber" where
  "feed s chunk = (if chunk = [] then ([], s) else feed_loop (s\<lparr>buf := buf s @ chunk\<rparr>) [])"

definition flush :: "scrubber \<Rightarrow> py_str \<times> scrubber" where
  "flush s =
     (if inside s then ([], s\<lparr>buf := [], inside := False, close_token := []\<rparr>)
      else (buf s, s\<lparr>buf := []\<rparr>))"

definition scrub :: "py_str \<Rightarrow> py_str" where
  "scrub text = (case feed new_scrubber text of (out, s) \<Rightarrow> out @ fst (flush s))"

text \<open>The consumer's use: feed every delta, emit what comes back, flush at the end.\<close>

fun feed_all :: "scrubber \<Rightarrow> py_str list \<Rightarrow> py_str \<times> scrubber" where
  "feed_all s [] = ([], s)"
| "feed_all s (c # cs) =
     (case feed s c of (o1, s1) \<Rightarrow> (case feed_all s1 cs of (o2, s2) \<Rightarrow> (o1 @ o2, s2)))"

definition scrub_stream :: "py_str list \<Rightarrow> py_str" where
  "scrub_stream chunks = (case feed_all new_scrubber chunks of (out, s) \<Rightarrow> out @ fst (flush s))"


section \<open>The reference: removing spans from a whole text\<close>

function strip_spans :: "py_str \<Rightarrow> py_str" where
  "strip_spans [] = []"
| "strip_spans (c # cs) =
     (case match_opener (c # cs) of
        None \<Rightarrow> c # strip_spans cs
      | Some tag \<Rightarrow>
          (let rest = drop (length (opener tag)) (c # cs) in
           case str_find rest (closer tag) of
             None \<Rightarrow> []
           | Some i \<Rightarrow> strip_spans (drop (i + length (closer tag)) rest)))"
  by pat_completeness auto
termination
  by (relation "measure length") (auto simp: opener_def)

declare strip_spans.simps(2) [simp del]

definition strip_inside :: "py_str \<Rightarrow> py_str \<Rightarrow> py_str" where
  "strip_inside cl b =
     (case str_find b cl of None \<Rightarrow> [] | Some i \<Rightarrow> strip_spans (drop (i + length cl) b))"


section \<open>Facts about tags and the kept tail\<close>

lemma opener_head: "starts_with b (opener tag) \<Longrightarrow> \<exists>t. b = CHR ''<'' # t"
  by (auto simp: opener_def starts_with_iff)

lemma match_opener_head: "match_opener b = Some tag \<Longrightarrow> \<exists>t. b = CHR ''<'' # t"
  by (auto simp: match_opener_def find_Some_iff dest: opener_head)

lemma match_opener_other: "c \<noteq> CHR ''<'' \<Longrightarrow> match_opener (c # cs) = None"
  by (cases "match_opener (c # cs)") (auto dest: match_opener_head)

lemma openers_nonempty: "p \<in> set OPEN_PREFIXES \<Longrightarrow> \<exists>t. p = CHR ''<'' # t"
  by (auto simp: OPEN_PREFIXES_def opener_def)

lemma partial_length: "list_ex (\<lambda>p. starts_with p b) OPEN_PREFIXES \<Longrightarrow> length b \<le> MAX_PARTIAL_KEEP"
  by (auto simp: list_ex_iff MAX_PARTIAL_KEEP_def starts_with_prefix dest!: prefix_length_le
      intro: order_trans)

lemma match_opener_simps:
  "match_opener b =
     (if starts_with b (opener ''memory-context'') then Some ''memory-context''
      else if starts_with b (opener ''context'') then Some ''context'' else None)"
  by (simp add: match_opener_def TAGS_def)

text \<open>The two openers differ at their second character, so at most one of them matches.\<close>

lemma openers_exclusive:
  "starts_with b (opener ''memory-context'') \<Longrightarrow> \<not> starts_with b (opener ''context'')"
  by (auto simp: starts_with_iff opener_def)

lemma match_opener_append:
  assumes "match_opener b = Some tag"
  shows "match_opener (b @ c) = Some tag"
  using assms openers_exclusive [of "b @ c"]
  by (auto simp: match_opener_simps starts_with_prefix split: if_splits)

lemma match_opener_append_None:
  assumes "match_opener b = None" and "\<not> list_ex (\<lambda>p. starts_with p b) OPEN_PREFIXES"
  shows "match_opener (b @ c) = None"
  using assms
  by (auto simp: match_opener_simps starts_with_prefix prefix_append OPEN_PREFIXES_def TAGS_def
      split: if_splits) 


section \<open>Searching in split buffers\<close>

lemma str_find_append_Some:
  "str_find b sub = Some i \<Longrightarrow> str_find (b @ c) sub = Some i"
proof (induction b sub arbitrary: i rule: str_find.induct)
  case (1 sub)
  then show ?case by (cases c) (auto split: if_splits)
next
  case (2 x s sub)
  from str_find_Some [OF "2.prems"] have "starts_with ((x # s) @ c) sub = starts_with (x # s) sub"
    by (intro starts_with_append_short) simp
  with 2 show ?case by (auto split: if_splits)
qed

lemma str_find_lt_append:
  "CHR ''<'' \<notin> set pre \<Longrightarrow>
     str_find (pre @ b) ''<'' = map_option ((+) (length pre)) (str_find b ''<'')"
  by (induction pre) (cases "str_find b ''<''"; auto)+

lemma str_find_lt_None: "str_find b ''<'' = None \<longleftrightarrow> CHR ''<'' \<notin> set b"
  by (induction b) auto

lemma str_find_lt_Some:
  assumes "str_find b ''<'' = Some i"
  shows "CHR ''<'' \<notin> set (take i b)" and "\<exists>t. drop i b = CHR ''<'' # t"
  using assms
  by (induction b arbitrary: i) (auto split: if_splits)

text \<open>
  The close token is not in \<open>full\<close>, so an occurrence in \<open>full @ c\<close> starts in the last
  \<open>length cl - 1\<close> characters of \<open>full\<close>: dropping what precedes them loses nothing.
\<close>

lemma str_find_drop_prefix:
  "str_find (x @ b) sub = map_option ((+) (length x)) (str_find b sub)"
  if "\<forall>j < length x. \<not> starts_with (drop j (x @ b)) sub"
  using that
proof (induction x)
  case Nil
  then show ?case by (cases "str_find b sub") simp_all
next
  case (Cons a x)
  have "\<not> starts_with (a # x @ b) sub" using Cons.prems [rule_format, of 0] by simp
  moreover have "\<forall>j < length x. \<not> starts_with (drop j (x @ b)) sub"
    using Cons.prems by (metis Suc_less_eq append_Cons drop_Suc_Cons length_Cons)
  ultimately show ?case using Cons.IH by (cases "str_find b sub") simp_all
qed

lemma no_early_start:
  assumes "str_find full cl = None" and "j + length cl \<le> length full"
  shows "\<not> starts_with (drop j full @ c) cl"
proof -
  have "starts_with (drop j full @ c) cl = starts_with (drop j full) cl"
    using assms(2) by (intro starts_with_append_short) simp
  then show ?thesis using assms by (auto simp: str_find_None)
qed

lemma keep_tail_split: "\<exists>x. b = x @ keep_tail n b \<and> length x = length b - min (length b) n"
  unfolding keep_tail_def
  by (rule exI [of _ "take (length b - min (length b) n) b"]) simp

lemma keep_tail_append: "keep_tail n (keep_tail n b @ c) = keep_tail n (b @ c)"
  by (auto simp: keep_tail_def min_def add.commute)

section \<open>The loop, one case at a time\<close>

lemma feed_loop_empty [simp]: "buf s = [] \<Longrightarrow> feed_loop s out = (out, s)"
  by (simp add: feed_loop.simps [of s out])

lemma feed_loop_inside:
  "inside s \<Longrightarrow> buf s \<noteq> [] \<Longrightarrow> feed_loop s out =
     (case str_find (buf s) (close_token s) of
        None \<Rightarrow> (out, s\<lparr>buf := keep_tail (length (close_token s) - 1) (buf s)\<rparr>)
      | Some idx \<Rightarrow>
          feed_loop (s\<lparr>buf := drop (idx + length (close_token s)) (buf s),
                       inside := False, close_token := []\<rparr>) out)"
  by (subst feed_loop.simps) simp

lemma feed_loop_lt:
  "\<not> inside s \<Longrightarrow> buf s = CHR ''<'' # t \<Longrightarrow> feed_loop s out =
     (case match_opener (buf s) of
        Some tag \<Rightarrow>
          feed_loop (s\<lparr>buf := drop (length (opener tag)) (buf s),
                       inside := True, close_token := closer tag\<rparr>) out
      | None \<Rightarrow>
          if list_ex (\<lambda>p. starts_with p (buf s)) OPEN_PREFIXES then (out, s)
          else feed_loop (s\<lparr>buf := t\<rparr>) (out @ ''<''))"
  by (subst feed_loop.simps) (auto simp: Let_def dest: partial_length split: option.split)

text \<open>Text without \<open><\<close> in front of the buffer is emitted as it is.\<close>

lemma feed_loop_emit:
  assumes "\<not> inside s" and "CHR ''<'' \<notin> set pre"
  shows "feed_loop (s\<lparr>buf := pre @ b\<rparr>) out = feed_loop (s\<lparr>buf := b\<rparr>) (out @ pre)"
proof (cases "str_find b ''<''")
  case None
  moreover have "str_find pre ''<'' = None" using assms(2) by (simp add: str_find_lt_None)
  moreover have "str_find (pre @ b) ''<'' = None" using None assms(2) by (simp add: str_find_lt_append)
  ultimately show ?thesis using assms
    by (subst (1 2) feed_loop.simps) auto
next
  case (Some lt)
  with assms show ?thesis
    by (subst (1 2) feed_loop.simps) (auto simp: str_find_lt_append Let_def split: option.split)
qed

lemma feed_loop_no_lt:
  "\<not> inside s \<Longrightarrow> CHR ''<'' \<notin> set (buf s) \<Longrightarrow> feed_loop s out = (out @ buf s, s\<lparr>buf := []\<rparr>)"
  using feed_loop_emit [of s "buf s" "[]" out] by simp

lemma loop_cases [case_names empty open_none open_some no_lt lt]:
  obtains "buf s = []"
    | "buf s \<noteq> []" and "inside s" and "str_find (buf s) (close_token s) = None"
    | idx where "buf s \<noteq> []" and "inside s" and "str_find (buf s) (close_token s) = Some idx"
    | "buf s \<noteq> []" and "\<not> inside s" and "str_find (buf s) ''<'' = None"
    | lt where "buf s \<noteq> []" and "\<not> inside s" and "str_find (buf s) ''<'' = Some lt"
  by (cases "str_find (buf s) (close_token s)"; cases "str_find (buf s) ''<''"; blast)

lemma upd_order [simp]:
  "s\<lparr>inside := i, close_token := cl, buf := x\<rparr> = s\<lparr>buf := x, inside := i, close_token := cl\<rparr>"
  by (cases s) simp

lemma outside_split:
  assumes "str_find b ''<'' = Some lt"
  obtains t where "b = take lt b @ CHR ''<'' # t" and "drop lt b = CHR ''<'' # t"
    and "CHR ''<'' \<notin> set (take lt b)"
  using str_find_lt_Some [OF assms] by (metis append_take_drop_id)

text \<open>
  Continuing after the loop stopped is the same as having had the longer buffer from the
  start: what the loop keeps is enough.
\<close>

lemma feed_loop_inside_append:
  assumes "inside s" and "str_find (buf s) (close_token s) = None" and "buf s \<noteq> []"
  shows "feed_loop (s\<lparr>buf := keep_tail (length (close_token s) - 1) (buf s) @ c\<rparr>) out =
         feed_loop (s\<lparr>buf := buf s @ c\<rparr>) out"
proof -
  let ?n = "length (close_token s) - 1" and ?b = "buf s"
  let ?k = "keep_tail ?n ?b"
  obtain x where x: "?b = x @ ?k" "length x = length ?b - min (length ?b) ?n"
    using keep_tail_split [of ?b ?n] by blast
  have "\<forall>j < length x. \<not> starts_with (drop j (x @ ?k @ c)) (close_token s)"
  proof (intro allI impI)
    fix j assume "j < length x"
    then have "j + length (close_token s) \<le> length ?b" using x(2) by linarith
    moreover from \<open>j < length x\<close> have "drop j (x @ ?k @ c) = drop j ?b @ c"
      by (subst (2) x(1)) simp
    ultimately show "\<not> starts_with (drop j (x @ ?k @ c)) (close_token s)"
      using no_early_start [OF assms(2)] by simp
  qed
  from str_find_drop_prefix [OF this]
  have find: "str_find (?b @ c) (close_token s) =
      map_option ((+) (length x)) (str_find (?k @ c) (close_token s))"
    by (subst (1) x(1)) simp
  have dr: "drop (length x + m) (?b @ c) = drop m (?k @ c)" for m
    by (subst (1) x(1)) (simp add: add.commute)
  show ?thesis
  proof (cases "?k @ c = []")
    case True
    with assms show ?thesis by (simp add: feed_loop_inside del: One_nat_def)
  next
    case False
    with assms(3) have "?b @ c \<noteq> []" by simp
    with False assms(1) find dr show ?thesis
      by (simp add: feed_loop_inside keep_tail_append add.assoc del: One_nat_def split: option.split)
  qed
qed

lemma feed_loop_append:
  "feed_loop (s\<lparr>buf := buf s @ c\<rparr>) out =
     (case feed_loop s out of (o1, s1) \<Rightarrow> feed_loop (s1\<lparr>buf := buf s1 @ c\<rparr>) o1)"
proof (induction s out rule: feed_loop.induct)
  case (1 s out)
  show ?case
  proof (cases rule: loop_cases [of s])
    case empty
    then show ?thesis by simp
  next
    case open_none
    then show ?thesis by (simp add: feed_loop_inside [of s] feed_loop_inside_append del: One_nat_def)
  next
    case (open_some idx)
    from str_find_Some [OF open_some(3)] open_some "1.IH"(1) [OF open_some(1,2,3)]
    show ?thesis
      by (simp add: feed_loop_inside [of s] feed_loop_inside [of "s\<lparr>buf := buf s @ c\<rparr>"]
          str_find_append_Some [OF open_some(3)])
  next
    case no_lt
    then show ?thesis by (simp add: feed_loop_emit feed_loop_no_lt str_find_lt_None)
  next
    case (lt lt)
    obtain t where t: "buf s = take lt (buf s) @ CHR ''<'' # t" "drop lt (buf s) = CHR ''<'' # t"
      "CHR ''<'' \<notin> set (take lt (buf s))"
      by (rule outside_split [OF lt(3)])
    let ?s = "s\<lparr>buf := CHR ''<'' # t\<rparr>" and ?o = "out @ take lt (buf s)"
    have "feed_loop (s\<lparr>buf := buf s\<rparr>) out = feed_loop ?s ?o"
      using feed_loop_emit [OF lt(2) t(3), of "CHR ''<'' # t" out] t(1) by simp
    then have l: "feed_loop s out = feed_loop ?s ?o" by simp
    have r: "feed_loop (s\<lparr>buf := buf s @ c\<rparr>) out = feed_loop (s\<lparr>buf := CHR ''<'' # t @ c\<rparr>) ?o"
      using feed_loop_emit [OF lt(2) t(3), of "CHR ''<'' # t @ c" out] t(1) by (metis append_Cons append_assoc)
    show ?thesis
    proof (cases "match_opener (CHR ''<'' # t)")
      case None
      show ?thesis
      proof (cases "list_ex (\<lambda>p. starts_with p (CHR ''<'' # t)) OPEN_PREFIXES")
        case True
        with None l r show ?thesis using lt(2) by (simp add: feed_loop_lt [of ?s])
      next
        case False
        with None have "match_opener (CHR ''<'' # t @ c) = None"
          using match_opener_append_None [of "CHR ''<'' # t" c] by simp
        moreover have "\<not> list_ex (\<lambda>p. starts_with p (CHR ''<'' # t @ c)) OPEN_PREFIXES"
          using False by (auto simp: list_ex_iff starts_with_prefix dest: append_prefixD [of "CHR ''<'' # t", simplified])
        ultimately show ?thesis
          using "1.IH"(2) [OF lt(1,2,3) refl refl, unfolded t(2), OF None] False None lt(2) l r
          by (simp add: feed_loop_lt)
      qed
    next
      case (Some tag)
      then have "starts_with (CHR ''<'' # t) (opener tag)"
        by (auto simp: match_opener_def find_Some_iff)
      then have "length (opener tag) \<le> length (CHR ''<'' # t)"
        unfolding starts_with_prefix by (rule prefix_length_le)
      then have "drop (length (opener tag)) (CHR ''<'' # t @ c) = drop (length (opener tag)) (CHR ''<'' # t) @ c"
        using drop_append [of "length (opener tag)" "CHR ''<'' # t" c] by simp
      then show ?thesis
        using "1.IH"(3) [OF lt(1,2,3) refl refl, unfolded t(2), OF Some] Some lt(2) l r
          match_opener_append [OF Some, of c]
        by (simp add: feed_loop_lt)
    qed
  qed
qed


section \<open>The loop computes the reference\<close>

lemma strip_spans_emit: "CHR ''<'' \<notin> set pre \<Longrightarrow> strip_spans (pre @ b) = pre @ strip_spans b"
  by (induction pre) (auto simp: strip_spans.simps(2) match_opener_other)

lemma strip_spans_plain: "CHR ''<'' \<notin> set b \<Longrightarrow> strip_spans b = b"
  using strip_spans_emit [of b "[]"] by simp

lemma strip_spans_step:
  "strip_spans (CHR ''<'' # t) =
     (case match_opener (CHR ''<'' # t) of
        None \<Rightarrow> CHR ''<'' # strip_spans t
      | Some tag \<Rightarrow> strip_inside (closer tag) (drop (length (opener tag)) (CHR ''<'' # t)))"
  by (simp add: strip_spans.simps(2) strip_inside_def Let_def split: option.split)

text \<open>A buffer that is still a proper beginning of an opener holds no span.\<close>

lemma partial_no_lt:
  assumes "list_ex (\<lambda>p. starts_with p (CHR ''<'' # t)) OPEN_PREFIXES"
  shows "CHR ''<'' \<notin> set t"
proof -
  from assms obtain p where p: "p \<in> set OPEN_PREFIXES" "prefix (CHR ''<'' # t) p"
    by (auto simp: list_ex_iff starts_with_prefix)
  then have "set t \<subseteq> set (tl p)" by (auto simp: prefix_def)
  moreover from p(1) have "CHR ''<'' \<notin> set (tl p)"
    by (auto simp: OPEN_PREFIXES_def TAGS_def opener_def)
  ultimately show ?thesis by blast
qed

definition strip_state :: "scrubber \<Rightarrow> py_str" where
  "strip_state s = (if inside s then strip_inside (close_token s) (buf s) else strip_spans (buf s))"

lemma strip_state_done: "buf s = [] \<Longrightarrow> strip_state s = []"
  by (simp add: strip_state_def strip_inside_def split: option.split)

lemma feed_loop_strip:
  "feed_loop s out = (o', s') \<Longrightarrow> o' @ fst (flush s') = out @ strip_state s"
proof (induction s out arbitrary: o' s' rule: feed_loop.induct)
  case (1 s out)
  show ?case
  proof (cases rule: loop_cases [of s])
    case empty
    with "1.prems" show ?thesis by (auto simp: flush_def strip_state_done)
  next
    case open_none
    with "1.prems" show ?thesis
      by (auto simp: feed_loop_inside flush_def strip_state_def strip_inside_def)
  next
    case (open_some idx)
    with "1.prems" "1.IH"(1) [OF open_some] show ?thesis
      by (simp add: feed_loop_inside strip_state_def strip_inside_def)
  next
    case no_lt
    with "1.prems" show ?thesis
      by (auto simp: feed_loop_no_lt flush_def strip_state_def strip_spans_plain str_find_lt_None)
  next
    case (lt lt)
    obtain t where t: "buf s = take lt (buf s) @ CHR ''<'' # t" "drop lt (buf s) = CHR ''<'' # t"
      "CHR ''<'' \<notin> set (take lt (buf s))"
      by (rule outside_split [OF lt(3)])
    let ?s = "s\<lparr>buf := CHR ''<'' # t\<rparr>" and ?o = "out @ take lt (buf s)"
    have "feed_loop (s\<lparr>buf := buf s\<rparr>) out = feed_loop ?s ?o"
      using feed_loop_emit [OF lt(2) t(3), of "CHR ''<'' # t" out] t(1) by simp
    with "1.prems" have l: "feed_loop ?s ?o = (o', s')" by simp
    have st: "strip_state s = take lt (buf s) @ strip_spans (CHR ''<'' # t)"
      using lt(2) t(1) strip_spans_emit [OF t(3)] by (metis strip_state_def)
    show ?thesis
    proof (cases "match_opener (CHR ''<'' # t)")
      case None
      show ?thesis
      proof (cases "list_ex (\<lambda>p. starts_with p (CHR ''<'' # t)) OPEN_PREFIXES")
        case True
        with l None lt(2) st partial_no_lt [OF True] show ?thesis
          by (auto simp: feed_loop_lt [of ?s] flush_def strip_spans_step strip_spans_plain)
      next
        case False
        with "1.IH"(2) [OF lt(1,2,3) refl refl, unfolded t(2), OF None] None l lt(2) st
        show ?thesis by (simp add: feed_loop_lt [of ?s] strip_spans_step strip_state_def)
      qed
    next
      case (Some tag)
      with "1.IH"(3) [OF lt(1,2,3) refl refl, unfolded t(2), OF Some] l lt(2) st
      show ?thesis by (simp add: feed_loop_lt [of ?s] strip_spans_step strip_state_def)
    qed
  qed
qed


text \<open>Between two chunks the filter is settled: another turn of the loop does nothing.\<close>

definition settled :: "scrubber \<Rightarrow> bool" where
  "settled s \<longleftrightarrow> (\<exists>out. feed_loop s out = (out, s))"

lemma settled_flush: "settled s \<Longrightarrow> fst (flush s) = strip_state s"
  by (auto simp: settled_def dest!: feed_loop_strip)

lemma feed_settled: "settled s \<Longrightarrow> feed s c = (o1, s1) \<Longrightarrow> settled s1"
  using feed_loop_append [of "s\<lparr>buf := buf s @ c\<rparr>" "[]" "[]"]
  by (cases "c = []") (auto simp: feed_def settled_def intro!: exI [of _ o1])

lemma feed_then_more:
  assumes "feed s c = (o1, s1)"
  shows "o1 @ strip_state (s1\<lparr>buf := buf s1 @ d\<rparr>) = strip_state (s\<lparr>buf := buf s @ c @ d\<rparr>)"
proof (cases "c = []")
  case True
  with assms show ?thesis by (simp add: feed_def)
next
  case False
  with assms have l: "feed_loop (s\<lparr>buf := buf s @ c\<rparr>) [] = (o1, s1)" by (simp add: feed_def)
  obtain o' s' where r: "feed_loop (s1\<lparr>buf := buf s1 @ d\<rparr>) o1 = (o', s')" by fastforce
  have "feed_loop (s\<lparr>buf := buf s @ c @ d\<rparr>) [] = (o', s')"
    using feed_loop_append [of "s\<lparr>buf := buf s @ c\<rparr>" d "[]"] l r by simp
  from feed_loop_strip [OF r] feed_loop_strip [OF this] show ?thesis by simp
qed

lemma feed_all_strip:
  "settled s \<Longrightarrow> feed_all s cs = (out, s') \<Longrightarrow>
     out @ fst (flush s') = strip_state (s\<lparr>buf := buf s @ concat cs\<rparr>)"
proof (induction cs arbitrary: s out s')
  case Nil
  then show ?case by (simp add: settled_flush)
next
  case (Cons c cs)
  obtain o1 s1 where f: "feed s c = (o1, s1)" by fastforce
  obtain o2 s2 where g: "feed_all s1 cs = (o2, s2)" by fastforce
  from Cons.prems f g Cons.IH [OF feed_settled [OF Cons.prems(1) f] g] feed_then_more [OF f, of "concat cs"]
  show ?case by auto
qed

lemma settled_new: "settled new_scrubber"
  by (simp add: settled_def new_scrubber_def)

lemma strip_state_new [simp]: "strip_state (new_scrubber\<lparr>buf := buf new_scrubber @ t\<rparr>) = strip_spans t"
  by (simp add: strip_state_def new_scrubber_def)

lemma feed_all_new:
  "feed_all new_scrubber cs = (out, s) \<Longrightarrow> out @ fst (flush s) = strip_spans (concat cs)"
  using feed_all_strip [OF settled_new] by simp

lemma scrub_strip: "scrub text = strip_spans text"
  using feed_all_new [of "[text]"] by (simp add: scrub_def split: prod.splits)

text \<open>
  C4: However the stream is cut into chunks, what the scrubber emits, with the final flush,
  is the reference removal of context and memory-context spans from the whole text: tags
  split across chunk boundaries are recognised, an unclosed span is dropped to the end, and
  text outside spans is kept unchanged and in order.
\<close>

theorem scrub_stream_refines: "scrub_stream chunks = strip_spans (concat chunks)"
  using feed_all_new [of chunks] by (simp add: scrub_stream_def split: prod.splits)

lemma scrub_plain: "CHR ''<'' \<notin> set text \<Longrightarrow> scrub text = text"
  by (simp add: scrub_strip strip_spans_plain)

text \<open>
  One pass is not a fixpoint: removing an inner span can join its surroundings into a
  new opening tag, so the scrubbed text can itself hold a complete context span (the code
  means to remove every such span).
\<close>

theorem scrub_can_reassemble:
  "scrub ''<con<context></context>text>evil</context>'' = ''<context>evil</context>'' \<and>
   scrub (scrub ''<con<context></context>text>evil</context>'') = []"
  by (simp add: scrub_strip, code_simp)

end
