(* ===== verification/Shell_Policy.thy ===== *)
theory Shell_Policy
  imports Tool_Layer
begin

text \<open>
  The shell tool's command classifier and child environment
  (\<open>sera/tools/impl/shell_run.py\<close>) and the loop's runtime permission of a call
  (\<open>_effective_permission\<close> of \<open>sera/agent/loop.py\<close>). The pattern tables are translated
  pattern by pattern, in source order, into the regular expressions of \<open>Py_Regex\<close>.
\<close>


section \<open>The pattern tables\<close>

abbreviation WS :: re where "WS \<equiv> Plus SP"            \<comment> \<open>one or more whitespace\<close>
abbreviation OWS :: re where "OWS \<equiv> Star SP"          \<comment> \<open>optional whitespace\<close>
abbreviation NONSP :: re where "NONSP \<equiv> NotCh [Space]"
abbreviation WORD :: re where "WORD \<equiv> Plus NONSP"     \<comment> \<open>one or more non-space\<close>

definition letters :: re where
  "letters = Ch [Range (CHR ''a'') (CHR ''z''), Range (CHR ''A'') (CHR ''Z'')]"

definition dash_flags :: re where
  "dash_flags = Seqs [WS, Lit (CHR ''-''), Plus letters]"

text \<open>The characters the git, npm and pip patterns exclude from their arguments.\<close>

definition no_meta :: re where
  "no_meta = NotCh (map One [CHR ''|'', CHR '';'', CHR ''&'', CHR 0x60, CHR ''$'', CHR ''('',
                              CHR '')'', CHR ''<'', CHR ''>''])"

definition plain_args :: re where
  "plain_args = Opt (Seq WS (Star no_meta))"

definition line_count :: re where
  "line_count = Opt (Seqs [WS, Lits ''-n'', OWS, Plus (Ch [Digit])])"

definition SAFE_PATTERNS :: "re list" where
  "SAFE_PATTERNS =
    [Seqs [Lits ''ls'', Opt dash_flags, Star (Seq WS WORD), OWS, Eol],
     Seqs [Lits ''pwd'', OWS, Eol],
     Seqs [Lits ''echo'', WS, NONSP],
     Seqs [Lits ''whoami'', OWS, Eol],
     Seqs [Lits ''date'', OWS, Eol],
     Seqs [Lits ''uname'', Opt dash_flags, OWS, Eol],
     Seqs [Lits ''cat'', WS, WORD, Star (Seq WS WORD), OWS, Eol],
     Seqs [Lits ''head'', Opt (Seqs [WS, Lit (CHR ''-''), Opt (Lit (CHR ''n'')), OWS, Plus (Ch [Digit])]),
           WS, WORD, OWS, Eol],
     Seqs [Lits ''tail'', Opt (Seqs [WS, Lit (CHR ''-''), Opt (Lit (CHR ''n'')), OWS, Plus (Ch [Digit])]),
           WS, WORD, OWS, Eol],
     Seqs [Lits ''wc'', Opt (Seqs [WS, Lit (CHR ''-''), Plus (Ch (map One ''lwc''))]), WS, WORD, OWS, Eol],
     Seqs [Lits ''file'', WS, WORD, OWS, Eol],
     Seqs [Lits ''git'', WS,
           Alts (map Lits [''status'', ''diff'', ''log'', ''branch'', ''show'', ''remote''] @
                 [Seqs [Lits ''config'', WS, Lits ''--get''], Lits ''rev-parse'']),
           plain_args, Eol],
     Seqs [Lits ''python'', Opt (Lit (CHR ''3'')), WS, Alt (Lits ''-V'') (Lits ''--version''), OWS, Eol],
     Seqs [Lits ''node'', WS, Alt (Lits ''-v'') (Lits ''--version''), OWS, Eol],
     Seqs [Lits ''npm'', WS, Alt (Lits ''--version'') (Lits ''list''), plain_args, Eol],
     Seqs [Lits ''pip'', WS, Alts (map Lits [''show'', ''list'', ''--version'']), plain_args, Eol],
     Seqs [Lits ''which'', WS, WORD, OWS, Eol],
     Seqs [Lits ''find'', WS, Lit (CHR ''.''),
           Plus (Seqs [WS, Lit (CHR ''-''), Alts (map Lits [''name'', ''type'', ''maxdepth'', ''mindepth'']),
                       WS, WORD]), OWS, Eol],
     Seqs [Lits ''grep'', Star dash_flags, WS, Lit (CHR 0x27), Star (NotCh [One (CHR 0x27)]), Lit (CHR 0x27),
           WS, WORD, OWS, Eol],
     Seqs [Lits ''grep'', Star dash_flags, WS, Lit (CHR 0x22), Star (NotCh [One (CHR 0x22)]), Lit (CHR 0x22),
           WS, WORD, OWS, Eol]]"

definition SAFE_ALLOWLIST :: "re list" where
  "SAFE_ALLOWLIST = map (Seq OWS) SAFE_PATTERNS"

definition no_chain :: re where          \<comment> \<open>a lazy run without pipe, semicolon or ampersand\<close>
  "no_chain = LazyStar (NotCh (map One [CHR ''|'', CHR '';'', CHR ''&'']))"

definition redirect :: re where           \<comment> \<open>one or two angle brackets, then optional space\<close>
  "redirect = Seqs [Lit (CHR ''>''), Opt (Lit (CHR ''>'')), OWS]"

definition home_dir :: re where
  "home_dir = Seqs [Opt (Lit (CHR ''~'')), Opt (Lit (CHR ''/'')), Lit (CHR ''.'')]"

abbreviation WB :: re where "WB \<equiv> WordBound"

definition DENY_LIST :: "re list" where
  "DENY_LIST =
    [Seqs [Lit (CHR ''|''), OWS,
           Alts (map Lits [''sh'', ''bash'', ''zsh'', ''csh'', ''fish''] @
                 [Seqs [Lits ''/bin/'', Star (Ch [Word]), Lits ''sh'']]), WB],
     Seqs [WB, Lits ''curl'', SP, no_chain, Lit (CHR ''|''), OWS, Star NONSP, Lits ''sh'', WB],
     Seqs [WB, Lits ''wget'', SP, no_chain, Lit (CHR ''|''), OWS, Star NONSP, Lits ''sh'', WB],
     Seqs [WB, Lits ''eval'', WS],
     Lits [CHR 0x60],
     Lits ''$('',
     Seqs [WB, Lits ''rm'', WS,
           Alts [Seqs [Lit (CHR ''-''), Star letters, Ch (map One ''rRfF''), Star letters],
                 Lits ''--recursive'', Lits ''--force''], WB],
     Seqs [WB, Lits ''find'', WS, WORD, WS, Star Dot, Lits ''-delete'', WB],
     Seqs [WB, Lits ''sudo'', WB],
     Seqs [WB, Lits ''doas'', WB],
     Seqs [WB, Lits ''dd'', WS, Lits ''if=''],
     Seqs [WB, Lits ''mkfs'',
           Opt (Seq (Lit (CHR ''.'')) (Plus (Ch [Range (CHR ''a'') (CHR ''z''), Range (CHR ''0'') (CHR ''9'')]))), WB],
     Seqs [WB, Lits ''kill'', Opt (Lits ''all''), WS, Lits ''-9'', WB],
     Seqs [Lit (CHR '':''), OWS, Lits ''()'', OWS, Lit (CHR ''{''), Star Dot, Lit (CHR ''|''), Star Dot,
           Lit (CHR ''&''), Star Dot, Lit (CHR ''}''), OWS, Lit (CHR '';'')],
     Seqs [Lit (CHR ''>''), OWS, Lits ''/dev/sd'', Ch [Range (CHR ''a'') (CHR ''z'')]],
     Seqs [Lit (CHR ''>''), OWS, Lits ''/dev/null''],
     Seqs [redirect, home_dir, Lits ''ssh/''],
     Seqs [redirect, Lits ''/etc/''],
     Seqs [redirect, home_dir, Lits ''aws/''],
     Seqs [redirect, home_dir, Lits ''config/gh/''],
     Seqs [WB, Lits ''chmod'', WS,
           Alt (Lits ''+s'') (Seqs [Star Dot, WB, Alt (Lits ''777'') (Lits ''666''), WB])],
     Seqs [WB, Lits ''chown'', WB],
     Seqs [WB, Lits ''crontab'', WB],
     Seqs [WB, Lits ''launchctl'', WS,
           Alts (map Lits [''load'', ''unload'', ''bootstrap'', ''bootout'', ''kickstart''])],
     Seqs [WB, Lits ''systemctl'', WS,
           Alts (map Lits [''enable'', ''start'', ''stop'', ''restart'', ''disable''])],
     Seqs [WB, Lits ''defaults'', WS, Lits ''write'', WB],
     Alts (map (\<lambda>w. Seqs [WB, Lits w, WB]) [''shutdown'', ''reboot'', ''halt'', ''poweroff'']),
     Alt (Seqs [WB, Lits ''netcat'', WB])
         (Seqs [WB, Lits ''nc'', WS,
                Alt (Seqs [Lit (CHR ''-''), Star (Ch [Range (CHR ''a'') (CHR ''z'')]), Lit (CHR ''l'')]) (Lits ''-l''),
                WB]),
     Seqs [WB, Lits ''openssl'', WS, Alts (map Lits [''enc'', ''rsautl'', ''s_client'']), WB],
     Seqs [WB, Lits ''scp'', WS],
     Seqs [WB, Lits ''rsync'', WS, Star Dot, Lit (CHR '':''), Opt (Lit (CHR '':''))],
     Seqs [WB, Lits ''ssh'', WS]]"


section \<open>Classification\<close>

definition denied :: "py_str \<Rightarrow> bool" where
  "denied cmd \<longleftrightarrow> list_ex (\<lambda>p. re_search flag_i p cmd) DENY_LIST"

definition allowlisted :: "py_str \<Rightarrow> bool" where
  "allowlisted cmd \<longleftrightarrow> list_ex (\<lambda>p. re_fullmatch flag_i p (str_strip cmd)) SAFE_ALLOWLIST"

definition classify :: "py_str \<Rightarrow> Permission" where
  "classify cmd =
     (if cmd = [] \<or> str_strip cmd = [] then DANGEROUS
      else if denied cmd then DANGEROUS
      else if allowlisted cmd then EXECUTE
      else DANGEROUS)"

text \<open>
  \<open>_effective_permission\<close>: \<open>none\<close> for an unknown tool, the classifier for \<open>shell_run\<close>
  (a missing command reads as the empty string), the static tier otherwise. The command
  argument of a shell call is a string in the tool's schema.
\<close>

definition command_of :: "arguments \<Rightarrow> py_str" where
  "command_of args = (case dict_get args ''command'' of Some (PyStr c) \<Rightarrow> c | _ \<Rightarrow> [])"

definition effective_permission :: "Tool list \<Rightarrow> registry \<Rightarrow> ToolCall \<Rightarrow> Permission" where
  "effective_permission builtins r call =
     (case fst (get_tool builtins (call_name call) r) of
        None \<Rightarrow> NONE
      | Some t \<Rightarrow>
          if call_name call = ''shell_run'' then classify (command_of (call_args call))
          else tool_permission t)"

lemma classify_cases: "classify cmd = EXECUTE \<or> classify cmd = DANGEROUS"
  by (simp add: classify_def)

lemma classify_EXECUTE:
  "classify cmd = EXECUTE \<longleftrightarrow> str_strip cmd \<noteq> [] \<and> \<not> denied cmd \<and> allowlisted cmd"
  by (auto simp: classify_def str_strip_def)

text \<open>Deny patterns that are literal words catch them anywhere in the command.\<close>

lemma denied_literal: "Lits w \<in> set DENY_LIST \<Longrightarrow> str_contains cmd w \<Longrightarrow> denied cmd"
  by (auto simp: denied_def list_ex_iff intro: re_search_Lits)

lemma substitution_denied:
  "str_contains cmd [CHR 0x60] \<Longrightarrow> denied cmd" "str_contains cmd ''$('' \<Longrightarrow> denied cmd"
  by (rule denied_literal [rotated], assumption, simp add: DENY_LIST_def)+

text \<open>
  C24: Shell calls never run below the approval tier with command substitution: whatever
  else the command holds, a backtick or a dollar-parenthesis anywhere in it makes the
  effective permission of a registered shell call DANGEROUS.
\<close>

theorem substitution_needs_approval:
  assumes "call_name call = ''shell_run''"
    and "fst (get_tool builtins ''shell_run'' r) \<noteq> None"
    and "str_contains (command_of (call_args call)) [CHR 0x60] \<or>
         str_contains (command_of (call_args call)) ''$(''"
  shows "effective_permission builtins r call = DANGEROUS"
  using assms substitution_denied [of "command_of (call_args call)"]
  by (auto simp: effective_permission_def classify_def)

definition shell_tool :: Tool where
  "shell_tool = \<lparr>tool_name = ''shell_run'', description = [], parameters = PyNone,
     tool_permission = DANGEROUS, tool_scope = SYSTEM, handler = (\<lambda>_ _. Inr [])\<rparr>"

theorem substitution_needs_approval_witness:
  "effective_permission [shell_tool] empty_registry
     \<lparr>call_id = [], call_name = ''shell_run'', call_args = [(''command'', PyStr ''ls $(id)'')]\<rparr> = DANGEROUS"
  by (rule substitution_needs_approval)
     (simp_all add: get_tool_def ensure_discovered_def empty_registry_def register_def shell_tool_def
       command_of_def str_contains_def)


section \<open>What the allow-list lets through\<close>

lemma space_class [simp]: "items_have flag_i [Space] c \<longleftrightarrow> is_space c"
proof -
  have "is_space (to_lower c) \<longleftrightarrow> is_space c" "is_space (to_upper c) \<longleftrightarrow> is_space c"
    by (auto simp: is_space_def to_lower_def to_upper_def is_upper_def is_lower_def code_def)
  then show ?thesis by (auto simp: items_have_def)
qed

text \<open>Any text that starts with a space is a sequence of words with spaces around them.\<close>

lemma words_span:
  assumes "i \<le> length s" and "i < length s \<longrightarrow> is_space (s ! i)"
  shows "\<exists>j. spans flag_i s (Star (Seq WS WORD)) i j \<and> spans flag_i s OWS j (length s)"
  using assms
proof (induction "length s - i" arbitrary: i rule: less_induct)
  case less
  obtain k where k: "i \<le> k" "k \<le> length s" "\<forall>m. i \<le> m \<longrightarrow> m < k \<longrightarrow> is_space (s ! m)"
    "k < length s \<longrightarrow> \<not> is_space (s ! k)"
    by (rule run_end [OF less.prems(1), of is_space])
  show ?case
  proof (cases "k = length s")
    case True
    with k have "spans flag_i s OWS i (length s)" by (intro spans_run) auto
    then show ?thesis by (blast intro: star0)
  next
    case False
    with k less.prems have ik: "i < k" "k < length s" by (auto simp: le_less)
    obtain l where l: "k \<le> l" "l \<le> length s" "\<forall>m. k \<le> m \<longrightarrow> m < l \<longrightarrow> \<not> is_space (s ! m)"
      "l < length s \<longrightarrow> is_space (s ! l)"
      by (rule run_end [of k s "\<lambda>c. \<not> is_space c"]) (use k in auto)
    have kl: "k < l" using l k ik by (cases "k = l") auto
    have "spans flag_i s WS i k" using k ik by (intro spans_run1) auto
    moreover have "spans flag_i s WORD k l" using l kl by (intro spans_run1) auto
    ultimately have step: "spans flag_i s (Seq WS WORD) i l" by (blast intro: seq)
    have "length s - l < length s - i" using ik kl l(2) by simp
    from less.hyps [OF this l(2,4)]
    obtain j where "spans flag_i s (Star (Seq WS WORD)) l j" "spans flag_i s OWS j (length s)"
      by blast
    then show ?thesis using step ik kl by (blast intro: star1 less_trans)
  qed
qed

lemma strip_word_prefix:
  assumes "w \<noteq> []" "\<not> is_space (hd w)" "\<not> is_space (last w)" "is_space c"
  shows "\<exists>t. str_strip (w @ c # s) = w @ t \<and> (t \<noteq> [] \<longrightarrow> is_space (hd t))"
proof -
  have hd: "dropWhile is_space (w @ c # s) = w @ c # s"
    using assms(1,2) by (cases w) simp_all
  have "dropWhile is_space (rev s @ c # rev w) = dropWhile is_space (rev s) @ c # rev w \<or>
        dropWhile is_space (rev s @ c # rev w) = rev w"
    using assms by (cases "\<exists>x\<in>set s. \<not> is_space x"; cases "rev w")
      (auto simp: dropWhile_append dropWhile_eq_Nil_conv simp flip: hd_rev)
  then show ?thesis
    using assms(4) by (fastforce simp: str_strip_def hd)
qed

text \<open>
  After a leading "ls" and a space the allow-list accepts any text at all, so the tier
  of such a command is decided by the deny patterns alone: a chained command that no deny
  pattern names runs at EXECUTE, below the approval threshold.
\<close>

theorem ls_accepts_any_tail:
  "classify (''ls '' @ s) = (if denied (''ls '' @ s) then DANGEROUS else EXECUTE)"
proof -
  have sp: "is_space (CHR '' '')" and ls: "\<not> is_space (CHR ''l'')" "\<not> is_space (CHR ''s'')"
    by (simp_all add: is_space_def code_def)
  obtain t where t: "str_strip (''ls'' @ CHR '' '' # s) = ''ls'' @ t" "t \<noteq> [] \<longrightarrow> is_space (hd t)"
    using strip_word_prefix [of "''ls''" "CHR '' ''" s] sp ls by auto
  let ?u = "''ls'' @ t"
  have "\<exists>j. spans flag_i ?u (Star (Seq WS WORD)) 2 j \<and> spans flag_i ?u OWS j (length ?u)"
    using t(2) by (intro words_span) (auto simp: nth_append hd_conv_nth)
  then have "spans flag_i ?u (Seqs [Star (Seq WS WORD), OWS, Eol]) 2 (length ?u)"
    by (auto simp: line_end_def)
  then have "spans flag_i ?u (Seqs [Opt dash_flags, Star (Seq WS WORD), OWS, Eol]) 2 (length ?u)"
    by (simp only: Seqs.simps) (blast intro: spans.seq spans.altr spans.eps)
  moreover have "spans flag_i ?u (Lits ''ls'') 0 2"
    using spans_LitsI [of 0 ?u "''ls''"] by (simp add: numeral_2_eq_2)
  ultimately have "spans flag_i ?u (Seq OWS (hd SAFE_PATTERNS)) 0 (length ?u)"
    unfolding SAFE_PATTERNS_def list.sel Seqs.simps by (blast intro: spans.seq star0)
  then have "allowlisted (''ls '' @ s)"
    using t(1) by (auto simp: allowlisted_def list_ex_iff SAFE_ALLOWLIST_def re_fullmatch_iff
        intro!: bexI [of _ "hd SAFE_PATTERNS"]) (simp add: SAFE_PATTERNS_def)
  moreover have "str_strip (''ls '' @ s) \<noteq> []" using t(1) by simp
  ultimately show ?thesis by (simp add: classify_def)
qed

text \<open>A chained deletion that no deny pattern names is classified as safe.\<close>

lemma chained_command_downgraded: "classify ''ls ; rm x'' = EXECUTE"
  by code_simp

text \<open>The echo pattern accepts a single character only, so ordinary echo is not downgraded.\<close>

lemma echo_word_not_downgraded: "classify ''echo h'' = EXECUTE" "classify ''echo hi'' = DANGEROUS"
  by code_simp+

end
