(* ===== verification/Call_Stats.thy ===== *)
theory Call_Stats
  imports Tool_Layer "HOL-Library.Multiset" "HOL-Library.Product_Lexorder" "HOL-Library.List_Lexorder" "HOL-Library.Char_ord"
begin

text \<open>
  The two SQLite tables of finished calls and their aggregates: model calls
  (\<open>sera/llm/router_stats.py\<close>) and tool calls (\<open>sera/tools/stats.py\<close>). A table is the
  list of its rows; \<open>None\<close> stands for a database file that does not exist yet. Both
  aggregates group rows in a dict and read the groups in sorted order, so that part is
  shared and proved once.
\<close>


section \<open>Grouping rows\<close>

definition setdefault_append :: "('r \<Rightarrow> 'k) \<Rightarrow> ('k, 'r list) py_dict \<Rightarrow> 'r \<Rightarrow> ('k, 'r list) py_dict" where
  "setdefault_append key groups r = dict_set (key r) (dict_get_or groups (key r) [] @ [r]) groups"

definition group_rows :: "('r \<Rightarrow> 'k) \<Rightarrow> 'r list \<Rightarrow> ('k, 'r list) py_dict" where
  "group_rows key rows = foldl (setdefault_append key) [] rows"

definition sorted_groups :: "('r \<Rightarrow> 'k::linorder) \<Rightarrow> 'r list \<Rightarrow> ('k \<times> 'r list) list" where
  "sorted_groups key rows = sort_key fst (group_rows key rows)"

lemma group_rows_snoc: "group_rows key (rows @ [r]) = setdefault_append key (group_rows key rows) r"
  by (simp add: group_rows_def)

lemma group_rows_wf [simp]: "dict_wf (group_rows key rows)"
  by (induction rows rule: rev_induct) (simp_all add: group_rows_snoc setdefault_append_def, simp add: group_rows_def)

lemma group_rows_get:
  "dict_get (group_rows key rows) k =
     (if k \<in> key ` set rows then Some (filter (\<lambda>r. key r = k) rows) else None)"
proof (induction rows rule: rev_induct)
  case Nil
  then show ?case by (simp add: group_rows_def)
next
  case (snoc r rows)
  have "filter (\<lambda>r'. key r' = k) rows = []" if "k \<notin> key ` set rows"
    using that by (auto simp: filter_empty_conv)
  with snoc show ?case by (auto simp: group_rows_snoc setdefault_append_def dict_get_or_def)
qed

lemma sorted_groups_set:
  "(k, g) \<in> set (sorted_groups key rows) \<longleftrightarrow> k \<in> key ` set rows \<and> g = filter (\<lambda>r. key r = k) rows"
  using set_dict_get [OF group_rows_wf, of k g key rows]
  by (auto simp: sorted_groups_def group_rows_get simp del: map_of_eq_Some_iff split: if_splits)

lemma sorted_groups_keys: "sorted (map fst (sorted_groups key rows))" "distinct (map fst (sorted_groups key rows))"
proof -
  have "mset (map fst (sorted_groups key rows)) = mset (map fst (group_rows key rows))"
    by (simp add: sorted_groups_def)
  then show "distinct (map fst (sorted_groups key rows))"
    by (metis group_rows_wf mset_eq_imp_distinct_iff)
qed (simp add: sorted_groups_def)

lemma group_total:
  "sum_list (map (\<lambda>kg. length (snd kg)) (group_rows key rows)) = length rows"
proof -
  let ?d = "group_rows key rows"
  have keys: "fst ` set ?d = key ` set rows"
    using group_rows_get [of key rows] by (auto simp: dom_map_of_conv_image_fst [symmetric] dom_def simp del: map_of_eq_Some_iff)
  have "sum_list (map (\<lambda>kg. length (snd kg)) ?d) = (\<Sum>kg\<in>set ?d. length (snd kg))"
    using group_rows_wf [of key rows] by (simp add: sum_list_distinct_conv_sum_set distinct_map)
  also have "\<dots> = (\<Sum>kg\<in>set ?d. length (filter (\<lambda>r. key r = fst kg) rows))"
  proof (rule sum.cong [OF refl])
    fix kg assume "kg \<in> set ?d"
    then have "dict_get ?d (fst kg) = Some (snd kg)"
      using set_dict_get [OF group_rows_wf, of "fst kg" "snd kg" key rows] by simp
    then show "length (snd kg) = length (filter (\<lambda>r. key r = fst kg) rows)"
      by (simp add: group_rows_get split: if_splits)
  qed
  also have "\<dots> = (\<Sum>k\<in>fst ` set ?d. length (filter (\<lambda>r. key r = k) rows))"
    using group_rows_wf [of key rows] by (simp add: sum.reindex distinct_map)
  also have "\<dots> = (\<Sum>k\<in>key ` set rows. length (filter (\<lambda>r. k = key r) rows))" by (simp add: keys eq_commute)
  also have "\<dots> = (\<Sum>k\<in>set (map key rows). count_list (map key rows) k)"
    by (intro sum.cong) (simp_all add: count_list_eq_length_filter filter_map comp_def)
  also have "\<dots> = length rows" using sum_count_set [of "map key rows" "set (map key rows)"] by simp
  finally show ?thesis .
qed

lemma sorted_group_total: "sum_list (map (\<lambda>kg. length (snd kg)) (sorted_groups key rows)) = length rows"
proof -
  have "mset (map (\<lambda>kg. length (snd kg)) (sorted_groups key rows)) = mset (map (\<lambda>kg. length (snd kg)) (group_rows key rows))"
    by (simp add: sorted_groups_def)
  then show ?thesis by (metis group_total sum_mset_sum_list)
qed

lemma sum_list_sort_key: "sum_list (map f (sort_key g xs)) = sum_list (map (f :: 'a \<Rightarrow> 'b::comm_monoid_add) xs)"
proof -
  have "mset (map f (sort_key g xs)) = mset (map f xs)" by simp
  then show ?thesis by (metis sum_mset_sum_list)
qed

lemma sort_map_sort_key: "sort (map f (sort_key g xs)) = sort (map f xs)"
  by (rule properties_for_sort) simp_all

text \<open>The reported median is an upper median: at most half the latencies lie strictly below
  it and fewer than half, rounded up, strictly above.\<close>

definition upper_median :: "'a::linorder list \<Rightarrow> 'a" where
  "upper_median xs = sort xs ! (length xs div 2)"

lemma upper_median_in: "xs \<noteq> [] \<Longrightarrow> upper_median xs \<in> set xs"
  by (metis div_less_dividend length_greater_0_conv length_sort nth_mem one_less_numeral_iff semiring_norm(76) set_sort upper_median_def)

lemma sorted_below_nth:
  "sorted xs \<Longrightarrow> i < length xs \<Longrightarrow> length (filter (\<lambda>x. x < xs ! i) xs) \<le> i"
proof -
  assume s: "sorted xs" and i: "i < length xs"
  have "filter (\<lambda>x. x < xs ! i) (drop i xs) = []"
    using i by (auto simp: filter_empty_conv in_set_conv_nth not_less intro!: sorted_nth_mono [OF s])
  then have "filter (\<lambda>x. x < xs ! i) xs = filter (\<lambda>x. x < xs ! i) (take i xs)"
    by (metis append_Nil2 append_take_drop_id filter_append)
  also have "length \<dots> \<le> i" using length_filter_le [of _ "take i xs"] by (metis i le_trans length_take min.cobounded2)
  finally show ?thesis .
qed

lemma sorted_above_nth:
  "sorted xs \<Longrightarrow> i < length xs \<Longrightarrow> length (filter (\<lambda>x. xs ! i < x) xs) + i < length xs"
proof -
  assume s: "sorted xs" and i: "i < length xs"
  have "filter (\<lambda>x. xs ! i < x) (take (Suc i) xs) = []"
    using i by (auto simp: filter_empty_conv in_set_conv_nth not_less intro!: sorted_nth_mono [OF s])
  then have "filter (\<lambda>x. xs ! i < x) xs = filter (\<lambda>x. xs ! i < x) (drop (Suc i) xs)"
    by (metis append_Nil append_take_drop_id filter_append)
  also have "length \<dots> \<le> length xs - Suc i" using length_filter_le [of _ "drop (Suc i) xs"] by simp
  finally show ?thesis using i by simp
qed

lemma length_filter_sort: "length (filter P (sort_key f xs)) = length (filter P xs)"
  by (metis length_sort filter_sort)

lemma upper_median_splits:
  assumes "xs \<noteq> []"
  shows "2 * length (filter (\<lambda>x. x < upper_median xs) xs) \<le> length xs \<and>
         2 * length (filter (\<lambda>x. upper_median xs < x) xs) \<le> length xs"
proof -
  have i: "length xs div 2 < length (sort xs)" using assms by simp
  show ?thesis
    using sorted_below_nth [OF _ i] sorted_above_nth [OF _ i]
    unfolding upper_median_def by (simp add: length_filter_sort) linarith
qed


section \<open>Model calls\<close>

definition PRICING :: "(py_str, py_float \<times> py_float) py_dict" where
  "PRICING =
    [(''claude-opus-4-7'', 15, 75), (''claude-opus-4-5'', 15, 75),
     (''claude-sonnet-4-6'', 3, 15), (''claude-sonnet-4-5'', 3, 15),
     (''claude-haiku-4-5'', 8/10, 4),
     (''claude-3-opus-20240229'', 15, 75), (''claude-3-5-sonnet-20241022'', 3, 15),
     (''claude-3-haiku-20240307'', 25/100, 125/100),
     (''gpt-4o'', 25/10, 10), (''gpt-4o-mini'', 15/100, 60/100), (''gpt-4-turbo'', 10, 30)]"

definition calc_cost :: "py_str \<Rightarrow> int \<Rightarrow> int \<Rightarrow> py_float" where
  "calc_cost model input_tokens output_tokens =
     (case dict_get_or PRICING model (0, 0) of (in_rate, out_rate) \<Rightarrow>
        (of_int input_tokens * in_rate + of_int output_tokens * out_rate) / 1000000)"

record router_call =
  rc_provider :: py_str
  rc_model :: py_str
  rc_task_kind :: py_str
  rc_latency_ms :: int
  rc_input_tokens :: int
  rc_output_tokens :: int
  rc_cost_usd :: py_float
  rc_success :: bool
  rc_recorded_at :: py_float

type_synonym router_db = "router_call list option"

definition record_call ::
  "py_str \<Rightarrow> py_str \<Rightarrow> py_str \<Rightarrow> int \<Rightarrow> int \<Rightarrow> int \<Rightarrow> bool \<Rightarrow> py_float \<Rightarrow> router_db \<Rightarrow> router_db"
where
  "record_call provider model task_kind latency_ms input_tokens output_tokens success now db =
     Some ((case db of None \<Rightarrow> [] | Some rows \<Rightarrow> rows) @
       [\<lparr>rc_provider = provider, rc_model = model, rc_task_kind = task_kind, rc_latency_ms = latency_ms,
         rc_input_tokens = input_tokens, rc_output_tokens = output_tokens,
         rc_cost_usd = calc_cost model input_tokens output_tokens, rc_success = success,
         rc_recorded_at = now\<rparr>])"

definition cost_since :: "py_float \<Rightarrow> py_str option \<Rightarrow> router_db \<Rightarrow> py_float" where
  "cost_since timestamp task_kind db =
     (case db of None \<Rightarrow> 0 | Some rows \<Rightarrow>
        sum_list (map rc_cost_usd
          (filter (\<lambda>r. timestamp \<le> rc_recorded_at r \<and>
             (case task_kind of None \<Rightarrow> True | Some k \<Rightarrow> rc_task_kind r = k)) rows)))"

definition total_calls :: "router_db \<Rightarrow> nat" where
  "total_calls db = (case db of None \<Rightarrow> 0 | Some rows \<Rightarrow> length rows)"

record p50_row =
  p50_provider :: py_str
  p50_model :: py_str
  p50_task_kind :: py_str
  p50_n :: nat
  p50_ms :: int
  p50_avg_cost_usd :: py_float
  p50_success_pct :: py_float

definition call_key :: "router_call \<Rightarrow> py_str \<times> py_str \<times> py_str" where
  "call_key r = (rc_provider r, rc_model r, rc_task_kind r)"

definition p50_of :: "(py_str \<times> py_str \<times> py_str) \<times> router_call list \<Rightarrow> p50_row" where
  "p50_of kg =
     (case kg of ((provider, model, task_kind), calls) \<Rightarrow>
        \<lparr>p50_provider = provider, p50_model = model, p50_task_kind = task_kind,
         p50_n = length calls,
         p50_ms = sort (map rc_latency_ms calls) ! (length calls div 2),
         p50_avg_cost_usd = sum_list (map rc_cost_usd calls) / of_nat (length calls),
         p50_success_pct = of_nat (length (filter rc_success calls)) / of_nat (length calls) * 100\<rparr>)"

definition p50_table :: "router_db \<Rightarrow> p50_row list" where
  "p50_table db =
     (case db of None \<Rightarrow> [] | Some rows \<Rightarrow>
        map p50_of (sorted_groups call_key (sort_key (\<lambda>r. (call_key r, rc_latency_ms r)) rows)))"


section \<open>Tool calls\<close>

record ToolStatRow =
  ts_tool_name :: py_str
  n_calls :: nat
  n_ok :: nat
  success_pct :: py_float
  tool_p50_ms :: int
  avg_latency_ms :: py_float
  avg_cost_usd :: py_float
  last_used_at :: py_float

definition n_fail :: "ToolStatRow \<Rightarrow> int" where
  "n_fail r = int (n_calls r) - int (n_ok r)"

definition tool_stat_of :: "py_str \<times> tool_call_row list \<Rightarrow> ToolStatRow" where
  "tool_stat_of kg =
     (case kg of (tname, calls) \<Rightarrow>
        \<lparr>ts_tool_name = tname, n_calls = length calls, n_ok = length (filter tc_success calls),
         success_pct = of_nat (length (filter tc_success calls)) / of_nat (length calls) * 100,
         tool_p50_ms = sort (map tc_latency_ms calls) ! (length calls div 2),
         avg_latency_ms = of_int (sum_list (map tc_latency_ms calls)) / of_nat (length calls),
         avg_cost_usd = sum_list (map tc_cost_usd calls) / of_nat (length calls),
         last_used_at = Max (set (map tc_recorded_at calls))\<rparr>)"

definition tool_stats :: "tool_call_row list option \<Rightarrow> ToolStatRow list" where
  "tool_stats db =
     (case db of None \<Rightarrow> [] | Some rows \<Rightarrow>
        map tool_stat_of (sorted_groups tc_name (sort_key (\<lambda>r. (tc_name r, tc_latency_ms r)) rows)))"

definition stats_for :: "py_str \<Rightarrow> tool_call_row list option \<Rightarrow> ToolStatRow option" where
  "stats_for tname db = find (\<lambda>row. ts_tool_name row = tname) (tool_stats db)"

definition clear_stats :: "tool_call_row list option \<Rightarrow> nat \<times> tool_call_row list option" where
  "clear_stats db = (case db of None \<Rightarrow> (0, None) | Some rows \<Rightarrow> (length rows, Some []))"


section \<open>The aggregates agree with the tables\<close>

lemma find_unique: "x \<in> set xs \<Longrightarrow> P x \<Longrightarrow> (\<And>y. y \<in> set xs \<Longrightarrow> P y \<Longrightarrow> y = x) \<Longrightarrow> find P xs = Some x"
proof (induction xs)
  case (Cons a xs)
  show ?case
  proof (cases "P a")
    case True
    then show ?thesis using Cons.prems(3) [of a] by simp
  next
    case False
    then show ?thesis using Cons by fastforce
  qed
qed simp

lemma tool_stat_of_sort [simp]: "tool_stat_of (n, sort_key f calls) = tool_stat_of (n, calls)"
  by (simp only: tool_stat_of_def prod.case length_filter_sort sort_map_sort_key sum_list_sort_key length_sort set_map set_sort)

lemma sorted_groups_sorted_rows:
  "(k, g) \<in> set (sorted_groups key (sort_key f rows)) \<longleftrightarrow>
     k \<in> key ` set rows \<and> g = sort_key f (filter (\<lambda>r. key r = k) rows)"
  by (simp add: sorted_groups_set filter_sort)

text \<open>
  The tool table reports what the rows say. A tool's line is the one computed straight
  from its own calls, a tool never called has no line, the call counts of all lines add up
  to the number of recorded calls, and the lines are in strictly ascending name order.
\<close>

theorem tool_stats_account:
  "stats_for tname (Some rows) =
     (if tname \<in> tc_name ` set rows then Some (tool_stat_of (tname, filter (\<lambda>r. tc_name r = tname) rows)) else None) \<and>
   sum_list (map n_calls (tool_stats (Some rows))) = length rows \<and>
   sorted (map ts_tool_name (tool_stats (Some rows))) \<and> distinct (map ts_tool_name (tool_stats (Some rows)))"
proof -
  let ?sorted = "sort_key (\<lambda>r. (tc_name r, tc_latency_ms r)) rows"
  let ?gs = "sorted_groups tc_name ?sorted"
  have n: "ts_tool_name (tool_stat_of kg) = fst kg" "n_calls (tool_stat_of kg) = length (snd kg)" for kg
    by (cases kg; simp add: tool_stat_of_def)+
  have names: "map ts_tool_name (tool_stats (Some rows)) = map fst ?gs"
    and counts: "map n_calls (tool_stats (Some rows)) = map (\<lambda>kg. length (snd kg)) ?gs"
    by (simp_all add: tool_stats_def comp_def n)
  have mem: "row \<in> set (tool_stats (Some rows)) \<longleftrightarrow>
      (\<exists>k \<in> tc_name ` set rows. row = tool_stat_of (k, filter (\<lambda>r. tc_name r = k) rows))" for row
  proof -
    have "row \<in> set (tool_stats (Some rows)) \<longleftrightarrow> (\<exists>k g. (k, g) \<in> set ?gs \<and> row = tool_stat_of (k, g))"
      by (simp add: tool_stats_def image_iff Bex_def)
    also have "\<dots> \<longleftrightarrow> (\<exists>k. k \<in> tc_name ` set rows \<and> row = tool_stat_of (k, filter (\<lambda>r. tc_name r = k) rows))"
      unfolding sorted_groups_sorted_rows by simp
    finally show ?thesis by (simp only: Bex_def)
  qed
  have "stats_for tname (Some rows) =
     (if tname \<in> tc_name ` set rows then Some (tool_stat_of (tname, filter (\<lambda>r. tc_name r = tname) rows)) else None)"
  proof (cases "tname \<in> tc_name ` set rows")
    case True
    then show ?thesis unfolding stats_for_def by (auto simp: mem n intro!: find_unique)
  next
    case False
    then show ?thesis unfolding stats_for_def by (auto simp: mem n find_None_iff)
  qed
  then show ?thesis
    using sorted_groups_keys [of tc_name ?sorted] sorted_group_total [of tc_name ?sorted]
    by (simp add: names counts del: map_map)
qed

text \<open>
  The router table accounts for every model call exactly once, and each median it shows
  is one of the group's own latencies with at most half the group on either side of it.
\<close>

theorem p50_table_account:
  "sum_list (map p50_n (p50_table db)) = total_calls db \<and>
   (\<forall>row \<in> set (p50_table db). \<exists>calls.
      mset calls = mset (filter (\<lambda>r. call_key r = (p50_provider row, p50_model row, p50_task_kind row))
                     (case db of None \<Rightarrow> [] | Some rows \<Rightarrow> rows)) \<and>
      p50_n row = length calls \<and> p50_ms row \<in> rc_latency_ms ` set calls \<and>
      2 * length (filter (\<lambda>r. rc_latency_ms r < p50_ms row) calls) \<le> length calls \<and>
      2 * length (filter (\<lambda>r. p50_ms row < rc_latency_ms r) calls) \<le> length calls)"
proof (cases db)
  case None
  then show ?thesis by (simp add: p50_table_def total_calls_def)
next
  case (Some rows)
  let ?sorted = "sort_key (\<lambda>r. (call_key r, rc_latency_ms r)) rows"
  have c: "p50_n (p50_of kg) = length (snd kg)" for kg by (cases kg) (auto simp: p50_of_def split: prod.split)
  have "sum_list (map p50_n (p50_table db)) = length rows"
    using sorted_group_total [of call_key ?sorted] by (simp add: Some p50_table_def comp_def c)
  moreover have "\<exists>calls. mset calls = mset (filter (\<lambda>r. call_key r = (p50_provider row, p50_model row, p50_task_kind row)) rows) \<and>
      p50_n row = length calls \<and> p50_ms row \<in> rc_latency_ms ` set calls \<and>
      2 * length (filter (\<lambda>r. rc_latency_ms r < p50_ms row) calls) \<le> length calls \<and>
      2 * length (filter (\<lambda>r. p50_ms row < rc_latency_ms r) calls) \<le> length calls"
    if "row \<in> set (p50_table db)" for row
  proof -
    from that obtain k g where kg: "(k, g) \<in> set (sorted_groups call_key ?sorted)" and row: "row = p50_of (k, g)"
      by (auto simp: Some p50_table_def)
    have k: "k \<in> call_key ` set rows"
      and g: "g = sort_key (\<lambda>r. (call_key r, rc_latency_ms r)) (filter (\<lambda>r. call_key r = k) rows)"
      using kg by (auto simp: sorted_groups_sorted_rows)
    have ne: "map rc_latency_ms g \<noteq> []" using k g by (metis (mono_tags, lifting) filter_False filter_empty_conv image_iff length_0_conv length_map length_sort)
    have m: "p50_ms row = upper_median (map rc_latency_ms g)" "(p50_provider row, p50_model row, p50_task_kind row) = k"
      by (cases k; simp add: row p50_of_def upper_median_def)+
    have "upper_median (map rc_latency_ms g) \<in> rc_latency_ms ` set g"
      using upper_median_in [OF ne] by simp
    then show ?thesis using upper_median_splits [OF ne] m g
      by (intro exI [of _ g]) (simp add: row c filter_map comp_def)
  qed
  ultimately show ?thesis by (simp add: Some total_calls_def)
qed

lemma cost_since_record:
  "cost_since t None (record_call p m k l i out ok now db) =
     cost_since t None db + (if t \<le> now then calc_cost m i out else 0)"
  by (simp add: cost_since_def record_call_def split: option.split)

lemma calc_cost_nonneg: "0 \<le> i \<Longrightarrow> 0 \<le> out \<Longrightarrow> 0 \<le> calc_cost m i out"
  by (auto simp: calc_cost_def dict_get_or_def PRICING_def)

end
