(* ===== verification/Cost_Budget.thy ===== *)
theory Cost_Budget
  imports Call_Stats
begin

text \<open>
  Cost ceilings (\<open>sera/llm/budget.py\<close>) and the cost block of the agent loop
  (\<open>sera/agent/loop.py\<close>): the check before each model call, the bookkeeping after it.
  Dollar amounts in messages are kept as numbers, not rendered. The clock and the local
  timezone offset are arguments.
\<close>


section \<open>Configuration and status\<close>

datatype BudgetStatus = OK | SoftWarning | HardBlock

fun severity :: "BudgetStatus \<Rightarrow> nat" where
  "severity OK = 0"
| "severity SoftWarning = 1"
| "severity HardBlock = 2"

instantiation BudgetStatus :: linorder
begin

definition less_eq_BudgetStatus :: "BudgetStatus \<Rightarrow> BudgetStatus \<Rightarrow> bool" where
  "less_eq_BudgetStatus a b \<longleftrightarrow> severity a \<le> severity b"

definition less_BudgetStatus :: "BudgetStatus \<Rightarrow> BudgetStatus \<Rightarrow> bool" where
  "less_BudgetStatus a b \<longleftrightarrow> severity a < severity b"

instance
proof
  fix a b :: BudgetStatus
  show "a \<le> b \<Longrightarrow> b \<le> a \<Longrightarrow> a = b"
    by (cases a; cases b) (simp_all add: less_eq_BudgetStatus_def)
qed (auto simp: less_eq_BudgetStatus_def less_BudgetStatus_def)

end

record BudgetConfig =
  session_soft_usd :: py_float
  session_hard_usd :: py_float
  day_soft_usd :: py_float
  day_hard_usd :: py_float
  skill_limits :: "(py_str, py_float \<times> py_float) py_dict"

datatype config_error = CfgAttributeError | CfgTypeError | CfgIndexError | CfgValueError

text \<open>\<open>float(v)\<close>; a string argument would be parsed, which the model rejects.\<close>

fun to_float :: "py_value \<Rightarrow> config_error + py_float" where
  "to_float (PyInt i) = Inr (of_int i)"
| "to_float (PyFloat x) = Inr x"
| "to_float (PyBool b) = Inr (if b then 1 else 0)"
| "to_float (PyStr _) = Inl CfgValueError"
| "to_float _ = Inl CfgTypeError"

fun limit_pair :: "py_value \<Rightarrow> config_error + (py_float \<times> py_float)" where
  "limit_pair (PyList (a # b # _)) =
     (case to_float a of Inl e \<Rightarrow> Inl e | Inr x \<Rightarrow> (case to_float b of Inl e \<Rightarrow> Inl e | Inr y \<Rightarrow> Inr (x, y)))"
| "limit_pair (PyList [a]) = (case to_float a of Inl e \<Rightarrow> Inl e | Inr _ \<Rightarrow> Inl CfgIndexError)"
| "limit_pair (PyList []) = Inl CfgIndexError"
| "limit_pair _ = Inl CfgTypeError"

fun limit_pairs :: "(py_str \<times> py_value) list \<Rightarrow> (py_str, py_float \<times> py_float) py_dict \<Rightarrow>
  config_error + (py_str, py_float \<times> py_float) py_dict" where
  "limit_pairs [] acc = Inr acc"
| "limit_pairs ((k, v) # xs) acc = (case limit_pair v of Inl e \<Rightarrow> Inl e | Inr p \<Rightarrow> limit_pairs xs (dict_set k p acc))"

definition float_field :: "(py_str \<times> py_value) list \<Rightarrow> py_str \<Rightarrow> py_float \<Rightarrow> config_error + py_float" where
  "float_field b k d = to_float (dict_get_or b k (PyFloat d))"

definition from_config :: "(py_str \<times> py_value) list \<Rightarrow> config_error + BudgetConfig" where
  "from_config cfg =
     (case dict_get_or cfg ''budget'' (PyDict []) of
        PyDict b \<Rightarrow>
          (case dict_get_or b ''skill_limits'' (PyDict []) of
             PyDict skill_raw \<Rightarrow>
               (case limit_pairs skill_raw [] of Inl e \<Rightarrow> Inl e | Inr skills \<Rightarrow>
               (case float_field b ''session_soft_usd'' (1/2) of Inl e \<Rightarrow> Inl e | Inr ss \<Rightarrow>
               (case float_field b ''session_hard_usd'' 1 of Inl e \<Rightarrow> Inl e | Inr sh \<Rightarrow>
               (case float_field b ''day_soft_usd'' 2 of Inl e \<Rightarrow> Inl e | Inr ds \<Rightarrow>
               (case float_field b ''day_hard_usd'' 5 of Inl e \<Rightarrow> Inl e | Inr dh \<Rightarrow>
                  Inr \<lparr>session_soft_usd = ss, session_hard_usd = sh, day_soft_usd = ds,
                       day_hard_usd = dh, skill_limits = skills\<rparr>)))))
           | _ \<Rightarrow> Inl CfgAttributeError)
      | _ \<Rightarrow> Inl CfgAttributeError)"

datatype cost_scope = SkillScope py_str | SessionScope | DayScope

datatype cost_message =
    TurnBlocked cost_scope py_float py_float
  | CostWarning cost_scope py_float py_float

record BudgetCheck =
  check_status :: BudgetStatus
  check_message :: "cost_message option"
  spent_session :: py_float
  spent_day :: py_float
  spent_skill :: "(py_str, py_float) py_dict"

definition blocked :: "BudgetCheck \<Rightarrow> bool" where
  "blocked c \<longleftrightarrow> check_status c = HardBlock"


section \<open>The enforcer\<close>

record BudgetEnforcer =
  be_cfg :: BudgetConfig
  session_start :: py_float
  session_spent :: py_float
  skill_spent :: "(py_str, py_float) py_dict"

definition new_enforcer :: "BudgetConfig \<Rightarrow> py_float \<Rightarrow> BudgetEnforcer" where
  "new_enforcer cfg now = \<lparr>be_cfg = cfg, session_start = now, session_spent = 0, skill_spent = []\<rparr>"

definition add_cost :: "py_float \<Rightarrow> py_str \<Rightarrow> BudgetEnforcer \<Rightarrow> BudgetEnforcer" where
  "add_cost cost_usd task_kind e =
     e\<lparr>session_spent := session_spent e + cost_usd,
       skill_spent := dict_set task_kind (dict_get_or (skill_spent e) task_kind 0 + cost_usd) (skill_spent e)\<rparr>"

definition reset_session :: "py_float \<Rightarrow> BudgetEnforcer \<Rightarrow> BudgetEnforcer" where
  "reset_session now e = e\<lparr>session_start := now, session_spent := 0, skill_spent := []\<rparr>"

text \<open>\<open>utcnow()\<close> gives the UTC wall clock without a timezone; \<open>timestamp()\<close> reads it as
  local time, so the local offset from UTC (seconds east) is subtracted.\<close>

definition day_start :: "py_float \<Rightarrow> py_float \<Rightarrow> py_float" where
  "day_start now utc_offset = of_int \<lfloor>now / 86400\<rfloor> * 86400 - utc_offset"

text \<open>A failing query counts as no spending (\<open>db_fails\<close>).\<close>

definition day_spent :: "bool \<Rightarrow> py_float \<Rightarrow> py_float \<Rightarrow> router_db \<Rightarrow> py_float" where
  "day_spent db_fails now utc_offset db = (if db_fails then 0 else cost_since (day_start now utc_offset) None db)"

definition check :: "py_str \<Rightarrow> py_float \<Rightarrow> BudgetEnforcer \<Rightarrow> BudgetCheck" where
  "check task_kind today e =
     (let cfg = be_cfg e;
          limits = dict_get (skill_limits cfg) task_kind;
          skill = dict_get_or (skill_spent e) task_kind 0;
          result = (\<lambda>st msg. \<lparr>check_status = st, check_message = msg, spent_session = session_spent e,
                              spent_day = today, spent_skill = skill_spent e\<rparr>)
      in if (case limits of Some (_, skill_hard) \<Rightarrow> skill_hard \<le> skill | None \<Rightarrow> False)
         then result HardBlock (map_option (\<lambda>(_, skill_hard). TurnBlocked (SkillScope task_kind) skill skill_hard) limits)
         else if session_hard_usd cfg \<le> session_spent e
         then result HardBlock (Some (TurnBlocked SessionScope (session_spent e) (session_hard_usd cfg)))
         else if day_hard_usd cfg \<le> today
         then result HardBlock (Some (TurnBlocked DayScope today (day_hard_usd cfg)))
         else if (case limits of Some (skill_soft, _) \<Rightarrow> skill_soft \<le> skill | None \<Rightarrow> False)
         then result SoftWarning (map_option (\<lambda>(skill_soft, _). CostWarning (SkillScope task_kind) skill skill_soft) limits)
         else if session_soft_usd cfg \<le> session_spent e
         then result SoftWarning (Some (CostWarning SessionScope (session_spent e) (session_soft_usd cfg)))
         else if day_soft_usd cfg \<le> today
         then result SoftWarning (Some (CostWarning DayScope today (day_soft_usd cfg)))
         else result OK None)"


section \<open>The loop's cost block\<close>

record finished_call =
  fc_provider :: py_str
  fc_model :: py_str
  fc_used_tools :: bool
  fc_latency_ms :: int
  fc_input_tokens :: int
  fc_output_tokens :: int
  fc_now :: py_float
  fc_write_fails :: bool

record cost_state =
  enforcer :: BudgetEnforcer
  router_rows :: router_db
  turn_cost :: py_float

text \<open>Before the call: \<open>check()\<close> with its default task kind, \<open>''chat''\<close>.\<close>

definition admit_cost :: "py_float \<Rightarrow> cost_state \<Rightarrow> bool" where
  "admit_cost today s \<longleftrightarrow> \<not> blocked (check ''chat'' today (enforcer s))"

text \<open>After the call. Writing the row comes first; when it raises, the broad handler skips
  the rest of the block.\<close>

definition account_call :: "finished_call \<Rightarrow> cost_state \<Rightarrow> cost_state" where
  "account_call c s =
     (if fc_write_fails c then s
      else let task_kind = (if fc_used_tools c then ''tool'' else ''chat'');
               cost = calc_cost (fc_model c) (fc_input_tokens c) (fc_output_tokens c)
           in s\<lparr>router_rows := record_call (fc_provider c) (fc_model c) task_kind (fc_latency_ms c)
                  (fc_input_tokens c) (fc_output_tokens c) True (fc_now c) (router_rows s),
                enforcer := add_cost cost task_kind (enforcer s),
                turn_cost := turn_cost s + cost\<rparr>)"

text \<open>The model calls of a session: each is made only when the check lets it through; the
  first refusal ends the turn with \<open>BudgetExceeded\<close>. \<open>days\<close> gives the day total each check
  saw. The result counts the calls made.\<close>

fun run_calls :: "(py_float \<times> finished_call) list \<Rightarrow> cost_state \<Rightarrow> nat \<times> cost_state" where
  "run_calls [] s = (0, s)"
| "run_calls ((today, c) # cs) s =
     (if admit_cost today s
      then (case run_calls cs (account_call c s) of (n, s') \<Rightarrow> (Suc n, s'))
      else (0, s))"


section \<open>What the checks guarantee\<close>

lemma check_blocked:
  "blocked (check k today e) \<longleftrightarrow>
     (\<exists>soft hard. dict_get (skill_limits (be_cfg e)) k = Some (soft, hard) \<and> hard \<le> dict_get_or (skill_spent e) k 0) \<or>
     session_hard_usd (be_cfg e) \<le> session_spent e \<or> day_hard_usd (be_cfg e) \<le> today"
  by (auto simp: check_def blocked_def Let_def split: option.split)

lemma check_status_cases:
  "check_status (check k today e) =
     (if blocked (check k today e) then HardBlock
      else if (\<exists>soft hard. dict_get (skill_limits (be_cfg e)) k = Some (soft, hard) \<and> soft \<le> dict_get_or (skill_spent e) k 0) \<or>
        session_soft_usd (be_cfg e) \<le> session_spent e \<or> day_soft_usd (be_cfg e) \<le> today
      then SoftWarning else OK)"
  by (auto simp: check_def blocked_def Let_def split: option.split)

text \<open>
  The status is decided by the caps and by nothing else: a call is refused exactly when
  a hard cap of its task kind, the session or the day is reached, warned about exactly when
  it is not refused and a soft cap is reached, and a message accompanies exactly the last two.
\<close>

theorem check_decides:
  "(blocked (check k today e) \<longleftrightarrow>
     (\<exists>soft hard. dict_get (skill_limits (be_cfg e)) k = Some (soft, hard) \<and> hard \<le> dict_get_or (skill_spent e) k 0) \<or>
     session_hard_usd (be_cfg e) \<le> session_spent e \<or> day_hard_usd (be_cfg e) \<le> today) \<and>
   (check_status (check k today e) = OK \<longleftrightarrow>
     \<not> blocked (check k today e) \<and>
     (\<forall>soft hard. dict_get (skill_limits (be_cfg e)) k = Some (soft, hard) \<longrightarrow> dict_get_or (skill_spent e) k 0 < soft) \<and>
     session_spent e < session_soft_usd (be_cfg e) \<and> today < day_soft_usd (be_cfg e)) \<and>
   (check_message (check k today e) = None \<longleftrightarrow> check_status (check k today e) = OK)"
proof (intro conjI)
  show "check_message (check k today e) = None \<longleftrightarrow> check_status (check k today e) = OK"
    by (auto simp: check_def Let_def split: option.split)
  show "check_status (check k today e) = OK \<longleftrightarrow>
     \<not> blocked (check k today e) \<and>
     (\<forall>soft hard. dict_get (skill_limits (be_cfg e)) k = Some (soft, hard) \<longrightarrow> dict_get_or (skill_spent e) k 0 < soft) \<and>
     session_spent e < session_soft_usd (be_cfg e) \<and> today < day_soft_usd (be_cfg e)"
    unfolding check_status_cases by (auto simp: not_le [symmetric])
qed (rule check_blocked)

lemma account_call_spent:
  "session_spent (enforcer (account_call c s)) =
     session_spent (enforcer s) + (if fc_write_fails c then 0 else calc_cost (fc_model c) (fc_input_tokens c) (fc_output_tokens c))"
  "be_cfg (enforcer (account_call c s)) = be_cfg (enforcer s)"
  by (simp_all add: account_call_def add_cost_def Let_def)

text \<open>
  The session cap is overrun by at most one call. However many calls a session makes,
  its recorded spending stays below the hard cap plus the price of the dearest single call.
\<close>

theorem session_spend_bounded:
  assumes "\<forall>(_, c) \<in> set cs. calc_cost (fc_model c) (fc_input_tokens c) (fc_output_tokens c) \<le> dearest"
    and "0 \<le> dearest" "session_spent (enforcer s) \<le> session_hard_usd (be_cfg (enforcer s)) + dearest"
  shows "session_spent (enforcer (snd (run_calls cs s))) \<le> session_hard_usd (be_cfg (enforcer s)) + dearest"
  using assms
proof (induction cs s rule: run_calls.induct)
  case (2 today c cs s)
  show ?case
  proof (cases "admit_cost today s")
    case True
    then have "session_spent (enforcer s) < session_hard_usd (be_cfg (enforcer s))"
      by (simp add: admit_cost_def check_blocked)
    then have "session_spent (enforcer (account_call c s)) \<le> session_hard_usd (be_cfg (enforcer (account_call c s))) + dearest"
      using "2.prems" by (auto simp: account_call_spent)
    with "2.IH" [OF True] "2.prems" True show ?thesis
      by (cases "run_calls cs (account_call c s)") (simp add: account_call_spent)
  qed (use "2.prems" in simp)
qed simp

definition demo_config :: BudgetConfig where
  "demo_config = \<lparr>session_soft_usd = 1/2, session_hard_usd = 1, day_soft_usd = 2, day_hard_usd = 5, skill_limits = [(''tool'', 0, 0)]\<rparr>"

definition demo_cost_state :: cost_state where
  "demo_cost_state = \<lparr>enforcer = new_enforcer demo_config 0, router_rows = None, turn_cost = 0\<rparr>"

definition demo_call :: finished_call where
  "demo_call = \<lparr>fc_provider = ''openai'', fc_model = ''gpt-4o'', fc_used_tools = True, fc_latency_ms = 900,
     fc_input_tokens = 200000, fc_output_tokens = 10000, fc_now = 10, fc_write_fails = False\<rparr>"

lemma demo_call_cost: "calc_cost (fc_model demo_call) (fc_input_tokens demo_call) (fc_output_tokens demo_call) = 6/10"
  by (simp add: demo_call_def calc_cost_def dict_get_or_def PRICING_def)

theorem session_spend_bounded_witness:
  "session_spent (enforcer (snd (run_calls [(0, demo_call), (0, demo_call), (0, demo_call)] demo_cost_state))) \<le> 1 + 6/10"
  using session_spend_bounded [of "[(0, demo_call), (0, demo_call), (0, demo_call)]" "6/10" demo_cost_state]
  by (simp add: demo_call_cost demo_cost_state_def new_enforcer_def demo_config_def)

text \<open>
  Spending never lowers the alarm. After adding a non-negative cost to any task kind and
  with a day total at least as high, every check is at least as severe as before; only
  \<open>reset_session\<close> brings it down.
\<close>

theorem check_monotone:
  assumes "0 \<le> cost" "today \<le> today'"
  shows "check_status (check k today e) \<le> check_status (check k today' (add_cost cost kind e))"
proof -
  have s: "session_spent e \<le> session_spent (add_cost cost kind e)"
    "dict_get_or (skill_spent e) k 0 \<le> dict_get_or (skill_spent (add_cost cost kind e)) k 0"
    "be_cfg (add_cost cost kind e) = be_cfg e"
    using assms by (auto simp: add_cost_def)
  have b: "blocked (check k today e) \<Longrightarrow> blocked (check k today' (add_cost cost kind e))"
    using s assms(2) by (fastforce simp: check_blocked)
  show ?thesis
  proof (cases "check_status (check k today e)")
    case SoftWarning
    then have "check_status (check k today' (add_cost cost kind e)) \<noteq> OK"
      using s assms(2) unfolding check_status_cases by (fastforce split: if_splits)
    then show ?thesis using SoftWarning
      by (cases "check_status (check k today' (add_cost cost kind e))") (simp_all add: less_eq_BudgetStatus_def)
  next
    case HardBlock
    then show ?thesis using b by (simp add: blocked_def)
  qed (simp add: less_eq_BudgetStatus_def)
qed

theorem check_monotone_witness:
  "check_status (check ''tool'' 0 (new_enforcer demo_config 0)) \<le>
     check_status (check ''tool'' 1 (add_cost (6/10) ''chat'' (new_enforcer demo_config 0)))"
  by (rule check_monotone) simp_all

text \<open>The caps of a task kind other than \<open>''chat''\<close> are configured and counted but never
  consulted by the loop: with a zero cap on \<open>''tool''\<close> a tool-calling turn still proceeds.\<close>

lemma tool_cap_not_consulted:
  "blocked (check ''tool'' 0 (enforcer (account_call demo_call demo_cost_state))) \<and>
   admit_cost 0 (account_call demo_call demo_cost_state)"
proof -
  have e: "enforcer (account_call demo_call demo_cost_state) = add_cost (6/10) ''tool'' (new_enforcer demo_config 0)"
    unfolding account_call_def Let_def demo_call_cost
    by (simp add: demo_cost_state_def) (simp add: demo_call_def)
  show ?thesis
    by (simp add: admit_cost_def e check_blocked add_cost_def new_enforcer_def demo_config_def dict_get_or_def)
qed

text \<open>Spending whose row cannot be written is not counted at all.\<close>

lemma unwritten_call_uncounted: "fc_write_fails c \<Longrightarrow> account_call c s = s"
  by (simp add: account_call_def)

text \<open>Eight hours west of UTC the day window opens at 08:00 UTC: at one o'clock UTC it lies in
  the future and what was spent a minute earlier does not count.\<close>

lemma day_window_shifted:
  "day_start 3600 (- 28800) = 28800 \<and>
   day_spent False 3600 (- 28800) (record_call ''openai'' ''gpt-4o'' ''chat'' 5 1000000 1000000 True 3540 None) = 0"
  by (simp add: day_start_def day_spent_def cost_since_record) (simp add: cost_since_def)

end
