(* ===== verification/Context_Compaction.thy ===== *)
theory Context_Compaction
  imports Session_Store Py_Strings
begin

text \<open>
  Token estimation with its per-message cache (\<open>sera/context/tokens.py\<close>) and mid-turn
  compaction (\<open>sera/context/compressor.py\<close>). The tokenizer is third-party: \<open>enc\<close> is its
  length function, or \<open>None\<close> when it is not installed. Message contents are strings or
  absent, as the session produces them. \<open>summarise\<close> is the model call that condenses the
  middle.
\<close>


section \<open>Token estimation\<close>

definition FALLBACK_RATIO :: nat where
  "FALLBACK_RATIO = 4"

definition estimate :: "(py_str \<Rightarrow> nat) option \<Rightarrow> py_str \<Rightarrow> nat" where
  "estimate enc s =
     (if s = [] then 0
      else case enc of Some f \<Rightarrow> f s | None \<Rightarrow> max 1 (py_len s div FALLBACK_RATIO))"

definition content_text :: "Message \<Rightarrow> py_str" where
  "content_text m = (case content m of None \<Rightarrow> [] | Some c \<Rightarrow> c)"

definition name_text :: "Message \<Rightarrow> py_str" where
  "name_text m = (case msg_name m of None \<Rightarrow> [] | Some n \<Rightarrow> n)"

text \<open>\<open>_cost_for_message\<close> without its cache.\<close>

definition message_cost :: "(py_str \<Rightarrow> nat) option \<Rightarrow> Message \<Rightarrow> nat" where
  "message_cost enc m =
     4 + estimate enc (content_text m) +
     sum_list (map (\<lambda>tc. estimate enc (mt_name tc) + estimate enc (mt_args tc)) (tool_calls m)) +
     estimate enc (name_text m)"

text \<open>The cache is keyed by role, name, two 64-bit hashes and the content length.\<close>

type_synonym msg_key = "py_str \<times> py_str option \<times> int \<times> int \<times> nat"

definition tc_repr :: "Message \<Rightarrow> py_str" where
  "tc_repr m = join ''|'' (map (\<lambda>tc. mt_name tc @ '':'' @ mt_args tc) (tool_calls m))"

definition msg_key :: "(py_str \<Rightarrow> int) \<Rightarrow> Message \<Rightarrow> msg_key" where
  "msg_key hash m = (role m, msg_name m, hash (content_text m), hash (tc_repr m), py_len (content_text m))"

definition MAX_CACHE :: nat where
  "MAX_CACHE = 4096"

definition cost_for_message ::
  "(py_str \<Rightarrow> nat) option \<Rightarrow> (py_str \<Rightarrow> int) \<Rightarrow> Message \<Rightarrow> (msg_key, nat) py_dict \<Rightarrow> nat \<times> (msg_key, nat) py_dict"
where
  "cost_for_message enc hash m cache =
     (case dict_get cache (msg_key hash m) of
        Some c \<Rightarrow> (c, cache)
      | None \<Rightarrow>
          (let total = message_cost enc m;
               room = (if MAX_CACHE \<le> length cache then tl cache else cache)
           in (total, dict_set (msg_key hash m) total room)))"

fun estimate_cached ::
  "(py_str \<Rightarrow> nat) option \<Rightarrow> (py_str \<Rightarrow> int) \<Rightarrow> Message list \<Rightarrow> (msg_key, nat) py_dict \<Rightarrow> nat \<times> (msg_key, nat) py_dict"
where
  "estimate_cached enc hash [] cache = (0, cache)"
| "estimate_cached enc hash (m # ms) cache =
     (case cost_for_message enc hash m cache of (c, cache1) \<Rightarrow>
        (case estimate_cached enc hash ms cache1 of (s, cache2) \<Rightarrow> (c + s, cache2)))"

definition estimate_messages :: "(py_str \<Rightarrow> nat) option \<Rightarrow> Message list \<Rightarrow> nat" where
  "estimate_messages enc ms = sum_list (map (message_cost enc) ms)"

definition cache_sound :: "(py_str \<Rightarrow> nat) option \<Rightarrow> (py_str \<Rightarrow> int) \<Rightarrow> Message set \<Rightarrow> (msg_key, nat) py_dict \<Rightarrow> bool" where
  "cache_sound enc hash M cache \<longleftrightarrow> length cache \<le> MAX_CACHE \<and>
     (\<forall>m \<in> M. \<forall>c. dict_get cache (msg_key hash m) = Some c \<longrightarrow> c = message_cost enc m)"

definition keys_separate :: "(py_str \<Rightarrow> nat) option \<Rightarrow> (py_str \<Rightarrow> int) \<Rightarrow> Message set \<Rightarrow> bool" where
  "keys_separate enc hash M \<longleftrightarrow>
     (\<forall>m \<in> M. \<forall>m' \<in> M. msg_key hash m = msg_key hash m' \<longrightarrow> message_cost enc m = message_cost enc m')"

lemma length_update_le: "length (AList.update k v d) \<le> Suc (length d)"
  by (induction d) auto

lemma dict_get_tl: "dict_wf cache \<Longrightarrow> dict_get (tl cache) k = Some c \<Longrightarrow> dict_get cache k = Some c"
  by (cases cache) (auto simp del: map_of_eq_Some_iff simp: map_of_eq_None_iff [symmetric])

lemma cost_for_message_sound:
  assumes "keys_separate enc hash M" "cache_sound enc hash M cache" "dict_wf cache" "m \<in> M"
    and "cost_for_message enc hash m cache = (c, cache')"
  shows "c = message_cost enc m \<and> cache_sound enc hash M cache' \<and> dict_wf cache'"
proof (cases "dict_get cache (msg_key hash m)")
  case (Some x)
  then show ?thesis using assms by (auto simp: cost_for_message_def cache_sound_def simp del: map_of_eq_Some_iff)
next
  case None
  define room where "room = (if MAX_CACHE \<le> length cache then tl cache else cache)"
  have wf: "dict_wf room" using assms(3) by (auto simp: room_def map_tl distinct_tl)
  have r: "c = message_cost enc m" "cache' = dict_set (msg_key hash m) c room"
    using assms(5) None by (auto simp: cost_for_message_def room_def Let_def)
  have "length room < MAX_CACHE" using assms(2) by (auto simp: room_def cache_sound_def MAX_CACHE_def)
  then have "length cache' \<le> MAX_CACHE" using length_update_le [of "msg_key hash m" c room] r(2) by simp
  moreover have "x = message_cost enc m'" if "m' \<in> M" "dict_get cache' (msg_key hash m') = Some x" for m' x
  proof (cases "msg_key hash m' = msg_key hash m")
    case True
    then have "message_cost enc m' = message_cost enc m"
      using assms(1,4) that(1) unfolding keys_separate_def by blast
    then show ?thesis using True that(2) r by simp
  next
    case False
    then have "dict_get room (msg_key hash m') = Some x" using that(2) r(2) by simp
    then have "dict_get cache (msg_key hash m') = Some x"
      using dict_get_tl [OF assms(3)] by (cases "MAX_CACHE \<le> length cache") (simp_all only: room_def if_True if_False)
    with that(1) show ?thesis by (rule assms(2) [unfolded cache_sound_def, THEN conjunct2, rule_format])
  qed
  ultimately have "cache_sound enc hash M cache'" by (simp only: cache_sound_def) blast
  then show ?thesis using r wf by simp
qed

text \<open>
  The token cache is transparent and bounded. As long as messages with equal cache keys
  cost the same, estimating any messages through the cache gives exactly the uncached sum,
  whatever is already cached, and the cache never holds more than 4096 entries.
\<close>

theorem cached_estimate_exact:
  assumes "keys_separate enc hash M" "cache_sound enc hash M cache" "dict_wf cache" "set ms \<subseteq> M"
  shows "case estimate_cached enc hash ms cache of (n, cache') \<Rightarrow>
    n = estimate_messages enc ms \<and> cache_sound enc hash M cache' \<and> length cache' \<le> 4096"
proof -
  have "n = estimate_messages enc ms \<and> cache_sound enc hash M cache' \<and> dict_wf cache'"
    if "estimate_cached enc hash ms cache = (n, cache')" for n cache'
    using assms that
  proof (induction ms arbitrary: cache n cache')
    case (Cons m ms)
    obtain c cache1 where c: "cost_for_message enc hash m cache = (c, cache1)" by fastforce
    obtain s cache2 where s: "estimate_cached enc hash ms cache1 = (s, cache2)" by fastforce
    have "c = message_cost enc m \<and> cache_sound enc hash M cache1 \<and> dict_wf cache1"
      using cost_for_message_sound [OF _ _ _ _ c] Cons.prems by simp
    with Cons.IH [OF _ _ _ _ s] Cons.prems c s show ?case by (simp add: estimate_messages_def)
  qed (simp add: estimate_messages_def)
  then show ?thesis by (auto simp: cache_sound_def MAX_CACHE_def)
qed

theorem cached_estimate_exact_witness:
  "fst (estimate_cached None (\<lambda>s. int (length s)) [user_msg ''hello world'', user_msg ''hello world''] []) = 12"
proof -
  let ?ms = "[user_msg ''hello world'', user_msg ''hello world'']"
  have "keys_separate None (\<lambda>s. int (length s)) (set ?ms)" "cache_sound None (\<lambda>s. int (length s)) (set ?ms) []"
    by (simp_all add: keys_separate_def cache_sound_def)
  from cached_estimate_exact [OF this, of ?ms] show ?thesis
    by (auto simp: estimate_messages_def message_cost_def estimate_def content_text_def name_text_def
        user_msg_def FALLBACK_RATIO_def py_len_def)
qed


section \<open>Compaction\<close>

definition FENCE :: py_str where
  "FENCE = ''[CONTEXT COMPACTION '' @ [CHR 0xE2, CHR 0x80, CHR 0x94] @ '' REFERENCE ONLY]''"

fun split_head :: "Message list \<Rightarrow> Message list \<times> Message list" where
  "split_head [] = ([], [])"
| "split_head (m # ms) =
     (if role m = ''system'' then (case split_head ms of (h, b) \<Rightarrow> (m # h, b)) else ([], m # ms))"

text \<open>The backward walk; the argument list is reversed.\<close>

fun take_tail :: "(Message \<Rightarrow> nat) \<Rightarrow> int \<Rightarrow> Message list \<Rightarrow> nat \<Rightarrow> Message list \<Rightarrow> Message list" where
  "take_tail cost tail_budget [] spent tail = tail"
| "take_tail cost tail_budget (m # ms) spent tail =
     (if tail_budget < int (spent + cost m) \<and> tail \<noteq> [] then tail
      else take_tail cost tail_budget ms (spent + cost m) (m # tail))"

definition repair_head :: "Message list \<Rightarrow> Message list" where
  "repair_head tail =
     (case tail of
        [] \<Rightarrow> []
      | t # ts \<Rightarrow>
          if role t = ''assistant'' \<and> tool_calls t \<noteq> [] \<and>
             \<not> set (map (\<lambda>tc. Some (mt_id tc)) (tool_calls t)) \<subseteq>
                 set (map tool_call_id (filter (\<lambda>m. role m = ''tool'') (t # ts)))
          then t\<lparr>tool_calls := [],
                 content := (if content_text t = [] then Some ''[earlier reasoning compacted]'' else content t)\<rparr> # ts
          else t # ts)"

definition summary_msg :: "py_str \<Rightarrow> Message" where
  "summary_msg s = \<lparr>role = ''assistant'', content = Some s, tool_calls = [], tool_call_id = None,
     msg_name = None, finish_reason = None\<rparr>"

text \<open>\<open>threshold\<close> and \<open>tail_budget\<close> are \<open>int(budget * ratio)\<close>; \<open>strip\<close> is \<open>str.strip\<close>.\<close>

definition compact_tail :: "(Message \<Rightarrow> nat) \<Rightarrow> int \<Rightarrow> Message list \<Rightarrow> Message list" where
  "compact_tail cost tail_budget body =
     (let tail = repair_head (dropWhile (\<lambda>m. role m = ''tool'') (take_tail cost tail_budget (rev body) 0 []))
      in if tail = [] then drop (length body - 3) body else tail)"

definition compact_session ::
  "(py_str \<Rightarrow> nat) option \<Rightarrow> (py_str \<Rightarrow> py_str) \<Rightarrow> (Message list \<Rightarrow> py_str) \<Rightarrow> int \<Rightarrow> int \<Rightarrow> nat \<Rightarrow> Message list \<Rightarrow> Message list"
where
  "compact_session enc strip summarise threshold tail_budget min_messages ms =
     (if length ms < min_messages then ms
      else if int (estimate_messages enc ms) \<le> threshold then ms
      else case split_head ms of (head, body) \<Rightarrow>
        (if length body < min_messages then ms
         else let tail = compact_tail (message_cost enc) tail_budget body;
                  middle = take (length body - length tail) body
              in if middle = [] then ms
                 else let text = summarise middle
                      in head @ [summary_msg (if starts_with text FENCE then text else FENCE @ [CHR 0x0A, CHR 0x0A] @ strip text)] @ tail))"

definition build_view ::
  "(py_str \<Rightarrow> nat) option \<Rightarrow> (py_str \<Rightarrow> py_str) \<Rightarrow> (Message list \<Rightarrow> py_str) \<Rightarrow> nat \<Rightarrow> py_float \<Rightarrow> Message list \<Rightarrow> Message list"
where
  "build_view enc strip summarise budget ratio ms =
     (if int (estimate_messages enc ms) \<le> \<lfloor>of_nat budget * ratio\<rfloor> then ms
      else compact_session enc strip summarise \<lfloor>of_nat budget * ratio\<rfloor> \<lfloor>real budget * (3/10)\<rfloor> 8 ms)"


section \<open>What compaction keeps\<close>

lemma split_head_spec:
  "split_head ms = (h, b) \<Longrightarrow> ms = h @ b \<and> (\<forall>m \<in> set h. role m = ''system'') \<and> (b \<noteq> [] \<longrightarrow> role (hd b) \<noteq> ''system'')"
  by (induction ms arbitrary: h b rule: split_head.induct) (auto split: if_splits prod.splits)

lemma take_tail_spec:
  assumes "spent = sum_list (map cost tail)" "int spent \<le> budget \<or> length tail \<le> 1"
  shows "\<exists>k. take_tail cost budget ms spent tail = rev (take k ms) @ tail \<and>
    (int (sum_list (map cost (take_tail cost budget ms spent tail))) \<le> budget \<or>
     length (take_tail cost budget ms spent tail) \<le> 1)"
  using assms
proof (induction ms arbitrary: spent tail)
  case (Cons m ms)
  show ?case
  proof (cases "budget < int (spent + cost m) \<and> tail \<noteq> []")
    case True
    then show ?thesis using Cons.prems by (intro exI [of _ 0]) auto
  next
    case False
    have "spent + cost m = sum_list (map cost (m # tail))" using Cons.prems(1) by simp
    moreover have "int (spent + cost m) \<le> budget \<or> length (m # tail) \<le> 1" using False by auto
    ultimately obtain k where k: "take_tail cost budget ms (spent + cost m) (m # tail) = rev (take k ms) @ m # tail"
      "int (sum_list (map cost (take_tail cost budget ms (spent + cost m) (m # tail)))) \<le> budget \<or>
       length (take_tail cost budget ms (spent + cost m) (m # tail)) \<le> 1"
      using Cons.IH by blast
    have e: "take_tail cost budget (m # ms) spent tail = take_tail cost budget ms (spent + cost m) (m # tail)"
      using False by (simp only: take_tail.simps if_False)
    have "take_tail cost budget (m # ms) spent tail = rev (take (Suc k) (m # ms)) @ tail"
      by (simp only: e k(1)) simp
    with e k(2) show ?thesis by metis
  qed
qed (simp add: exI [of _ 0])

definition stripped :: "Message \<Rightarrow> Message" where
  "stripped t = t\<lparr>tool_calls := [],
     content := (if content_text t = [] then Some ''[earlier reasoning compacted]'' else content t)\<rparr>"

lemma repair_head_cases:
  "repair_head xs = xs \<or> (xs \<noteq> [] \<and> role (hd xs) = ''assistant'' \<and> repair_head xs = stripped (hd xs) # tl xs)"
  by (cases xs) (auto simp: repair_head_def stripped_def)

lemma repair_head_length [simp]: "length (repair_head xs) = length xs" "repair_head xs = [] \<longleftrightarrow> xs = []"
  using repair_head_cases [of xs] by (cases xs; auto)+

lemma suffix_dropWhile: "\<exists>k. dropWhile P xs = drop k xs"
  by (metis dropWhile_eq_drop)

lemma suffix_is_drop: "\<exists>pre. ys = pre @ xs \<Longrightarrow> drop (length ys - length xs) ys = xs"
  by auto

lemma compact_tail_spec:
  fixes cost budget body
  defines "tail \<equiv> compact_tail cost budget body"
  defines "kept \<equiv> drop (length body - length tail) body"
  assumes "body \<noteq> []"
  shows "tail \<noteq> [] \<and> length tail \<le> length body \<and> (tail = kept \<or> tail = stripped (hd kept) # tl kept) \<and>
    (int (sum_list (map cost kept)) \<le> budget \<or> length kept \<le> 1 \<or> kept = drop (length body - 3) body) \<and>
    (role (hd tail) \<noteq> ''tool'' \<or> tail = drop (length body - 3) body)"
proof -
  define raw where "raw = take_tail cost budget (rev body) 0 []"
  define clean where "clean = dropWhile (\<lambda>m. role m = ''tool'') raw"
  obtain k where k: "raw = rev (take k (rev body))" "int (sum_list (map cost raw)) \<le> budget \<or> length raw \<le> 1"
    using take_tail_spec [of 0 cost "[]" budget "rev body"] by (auto simp: raw_def)
  have suf: "\<exists>pre. body = pre @ raw" using k(1) by (metis append_take_drop_id rev_append rev_rev_ident)
  have csuf: "\<exists>pre. raw = pre @ clean" unfolding clean_def by (metis takeWhile_dropWhile_id)
  show ?thesis
  proof (cases "clean = []")
    case True
    then have t: "tail = drop (length body - 3) body"
      by (simp add: tail_def compact_tail_def Let_def raw_def [symmetric] clean_def [symmetric])
    then have "kept = tail" by (simp add: kept_def)
    moreover have "\<not> length body \<le> length body - 3" using assms(3) by (cases body) auto
    ultimately show ?thesis using t by auto
  next
    case False
    then have t: "tail = repair_head clean" by (simp add: tail_def compact_tail_def Let_def raw_def [symmetric] clean_def [symmetric])
    have "\<exists>pre. body = pre @ clean" using suf csuf by (metis append.assoc)
    then have kept: "kept = clean" using t suffix_is_drop [of body clean] by (simp add: kept_def)
    have len: "length clean \<le> length body" using \<open>\<exists>pre. body = pre @ clean\<close> by auto
    have "sum_list (map cost clean) \<le> sum_list (map cost raw)" "length clean \<le> length raw" using csuf by auto
    with k(2) have b: "int (sum_list (map cost kept)) \<le> budget \<or> length kept \<le> 1" unfolding kept by linarith
    have "role (hd clean) \<noteq> ''tool''" 
      using False hd_dropWhile [of "\<lambda>m. role m = ''tool''" raw] by (simp only: clean_def not_False_eq_True)
    moreover have "role (hd (repair_head xs)) = role (hd xs)" for xs
      using repair_head_cases [of xs] by (auto simp: stripped_def)
    ultimately have nt: "role (hd tail) \<noteq> ''tool''" unfolding t by metis
    have ne: "tail \<noteq> []" "length tail \<le> length body" using t False len by simp_all
    have d: "tail = kept \<or> tail = stripped (hd kept) # tl kept"
      using repair_head_cases [of clean] unfolding t kept by blast
    from ne d b nt show ?thesis by blast
  qed
qed



definition tool_msg :: "py_str \<Rightarrow> py_str \<Rightarrow> Message" where
  "tool_msg i t = \<lparr>role = ''tool'', content = Some t, tool_calls = [], tool_call_id = Some i, msg_name = None, finish_reason = None\<rparr>"

definition demo_history :: "Message list" where
  "demo_history = replicate 5 (user_msg ''hi'') @ [tool_msg ''a'' ''x'', tool_msg ''b'' ''y'', tool_msg ''c'' ''z'']"

lemma demo_compacted:
  "compact_session None (\<lambda>s. s) (\<lambda>_. FENCE) 10 5 8 demo_history =
     [summary_msg FENCE, tool_msg ''a'' ''x'', tool_msg ''b'' ''y'', tool_msg ''c'' ''z'']"
  by code_simp


text \<open>The comment above the repair promises that no tail starts with a tool result whose call
  was cut away; the last-three fallback comes after the repair and can start with one.\<close>

lemma fallback_keeps_orphan:
  "role (hd (tl (compact_session None (\<lambda>s. s) (\<lambda>_. FENCE) 10 5 8 demo_history))) = ''tool'' \<and>
   (\<forall>m \<in> set (compact_session None (\<lambda>s. s) (\<lambda>_. FENCE) 10 5 8 demo_history). tool_calls m = [])"
  unfolding demo_compacted by (simp add: tool_msg_def summary_msg_def)

end
