(* ===== verification/Agent_Loop.thy ===== *)
theory Agent_Loop
  imports Agent_Budget Context_Scrubber Shell_Policy Cost_Budget Context_Compaction
begin

text \<open>
  One full agent turn (\<open>run_turn\<close> of \<open>sera/agent/loop.py\<close>): admission against the iteration
  budget, the cost check, compaction, the scrubbed stream, accounting, persistence, the
  approval gate and the tool calls. What lives outside the process (the model, the human
  behind the gate, the cancel signal, the clock) is a function of an external state \<open>'w\<close>.
  The rule-based compressor \<open>compress_sync\<close> (\<open>sera/context/tokenjuice.py\<close>) and the council
  behind council skills are parameters as well. \<open>t_trace\<close> is a ghost record of who was asked
  and what ran.
\<close>


section \<open>Streams\<close>

record usage =
  u_input :: int
  u_output :: int
  u_cache_read :: int
  u_cache_creation :: int

record StreamChunk =
  delta_text :: py_str
  tool_call_delta :: "ToolCall option"
  chunk_finish :: "py_str option"
  chunk_usage :: "usage option"

datatype stream_end = Complete | RaisedOverflow | RaisedOther py_exc

record stream_acc =
  acc_text :: py_str
  acc_calls :: "ToolCall list"
  acc_finish :: py_str
  acc_usage :: "usage option"
  acc_scrubber :: scrubber
  acc_sink :: "py_str list"

definition fresh_acc :: stream_acc where
  "fresh_acc = \<lparr>acc_text = [], acc_calls = [], acc_finish = ''stop'', acc_usage = None,
     acc_scrubber = new_scrubber, acc_sink = []\<rparr>"

definition consume_text :: "py_str \<Rightarrow> stream_acc \<Rightarrow> stream_acc" where
  "consume_text d a =
     (if d = [] then a
      else case feed (acc_scrubber a) d of (clean, sc) \<Rightarrow>
        a\<lparr>acc_text := acc_text a @ clean, acc_scrubber := sc, acc_sink := acc_sink a @ [clean]\<rparr>)"

definition consume_chunk :: "StreamChunk \<Rightarrow> stream_acc \<Rightarrow> stream_acc" where
  "consume_chunk ch a =
     (let a1 = consume_text (delta_text ch) a
      in a1\<lparr>acc_calls := acc_calls a1 @ (case tool_call_delta ch of None \<Rightarrow> [] | Some c \<Rightarrow> [c]),
            acc_finish := (case truthy (chunk_finish ch) of None \<Rightarrow> acc_finish a1 | Some f \<Rightarrow> f),
            acc_usage := (case chunk_usage ch of None \<Rightarrow> acc_usage a1 | Some u \<Rightarrow> Some u)\<rparr>)"

definition consume_end :: "stream_acc \<Rightarrow> stream_acc" where
  "consume_end a =
     (case flush (acc_scrubber a) of (tail, sc) \<Rightarrow>
        if tail = [] then a\<lparr>acc_scrubber := sc\<rparr>
        else a\<lparr>acc_text := acc_text a @ tail, acc_scrubber := sc, acc_sink := acc_sink a @ [tail]\<rparr>)"

definition consume_stream :: "StreamChunk list \<Rightarrow> stream_end \<Rightarrow> stream_acc" where
  "consume_stream chunks ending =
     (let a = fold consume_chunk chunks fresh_acc in if ending = Complete then consume_end a else a)"


section \<open>The turn's environment and state\<close>

datatype trace_event = Asked ToolCall bool | Ran Permission ToolCall

datatype sink_event = OnText py_str | OnToolStart py_str arguments | OnToolEnd py_str py_str

record 'w env =
  builtins :: "Tool list"
  llm_name :: py_str
  llm_model :: py_str
  context_budget :: nat
  llm_stream :: "Message list \<Rightarrow> bool \<Rightarrow> py_str \<Rightarrow> 'w \<Rightarrow> (StreamChunk list \<times> stream_end) \<times> 'w"
  gate :: "ToolCall \<Rightarrow> 'w \<Rightarrow> bool \<times> 'w"
  interrupted :: "'w \<Rightarrow> bool"
  clock :: "'w \<Rightarrow> py_float"
  day_total :: "'w \<Rightarrow> py_float"
  latency :: "'w \<Rightarrow> int"
  stats_fail :: "'w \<Rightarrow> bool"
  encoder :: "(py_str \<Rightarrow> nat) option"
  summariser :: "Message list \<Rightarrow> py_str"
  juice :: "py_str \<Rightarrow> py_str"
  dumps_args :: "arguments \<Rightarrow> py_str"
  council_skills :: "py_str list"
  council :: "py_str \<Rightarrow> py_str"
  approval_threshold :: Permission
  target_ratio :: py_float
  aggressive_ratio :: py_float
  enforce_cost :: bool

record 'w turn_state =
  t_session :: Session
  t_db :: session_db
  t_budget :: IterationBudget
  t_cost :: cost_state
  t_disp :: dispatcher
  t_sink :: "sink_event list"
  t_world :: 'w
  t_final :: py_str
  t_trace :: "trace_event list"

datatype turn_end =
    Finished
  | TurnInterrupted
  | TurnBlockedByCost "cost_message option"
  | TurnRaised py_exc
  | BudgetBroken budget_error

definition GRACE_NOTICE :: py_str where
  "GRACE_NOTICE = ''[iteration budget exhausted '' @ [CHR 0xE2, CHR 0x80, CHR 0x94] @
     '' produce your final answer now in plain text. Do not call any tools.]''"

definition DEFAULT_COMPRESS_THRESHOLD :: nat where
  "DEFAULT_COMPRESS_THRESHOLD = 500"

definition append_message :: "'w env \<Rightarrow> Message \<Rightarrow> 'w turn_state \<Rightarrow> 'w turn_state" where
  "append_message E m st =
     (case session_append (clock E (t_world st)) m (t_session st, t_db st) of
        (s, db) \<Rightarrow> st\<lparr>t_session := s, t_db := db\<rparr>)"

definition emit :: "sink_event list \<Rightarrow> 'w turn_state \<Rightarrow> 'w turn_state" where
  "emit evs st = st\<lparr>t_sink := t_sink st @ evs\<rparr>"


section \<open>Sanitising\<close>

definition sanitize_tool_output :: "(py_str \<Rightarrow> py_str) \<Rightarrow> py_str \<Rightarrow> py_str" where
  "sanitize_tool_output juice_fn s =
     (if s = [] then s
      else let out = redact (scrub s);
               out1 = (if str_contains out FENCE then str_replace FENCE ''[fence-redacted]'' out else out)
           in if DEFAULT_COMPRESS_THRESHOLD \<le> py_len out1 then juice_fn out1 else out1)"

definition sanitize_tool_args :: "arguments \<Rightarrow> arguments" where
  "sanitize_tool_args args = map (\<lambda>(k, v). (k, case v of PyStr s \<Rightarrow> PyStr (redact s) | _ \<Rightarrow> v)) args"

definition is_str :: "py_value \<Rightarrow> bool" where
  "is_str v = (case v of PyStr _ \<Rightarrow> True | _ \<Rightarrow> False)"

fun str_of :: "py_value \<Rightarrow> py_str" where
  "str_of (PyStr s) = s"
| "str_of _ = []"

definition council_question :: "ToolCall \<Rightarrow> py_str" where
  "council_question call =
     (let args = call_args call;
          named = filter (\<lambda>k. case dict_get args k of Some v \<Rightarrow> is_str v | None \<Rightarrow> False)
                    [''query'', ''question'', ''input'', ''prompt'', ''text''];
          texts = map str_of (filter is_str (map snd args))
      in if named \<noteq> [] then (case dict_get args (hd named) of Some v \<Rightarrow> str_of v | None \<Rightarrow> [])
         else if texts \<noteq> [] then join '' '' texts else call_name call)"


section \<open>Tool calls\<close>

definition tool_message :: "ToolCall \<Rightarrow> py_str \<Rightarrow> Message" where
  "tool_message call t = \<lparr>role = ''tool'', content = Some t, tool_calls = [],
     tool_call_id = Some (call_id call), msg_name = Some (call_name call), finish_reason = None\<rparr>"

definition tier_of :: "'w env \<Rightarrow> 'w turn_state \<Rightarrow> ToolCall \<Rightarrow> Permission" where
  "tier_of E st call = effective_permission (builtins E) (disp_registry (t_disp st)) call"

text \<open>Running an approved call: a council skill or the dispatcher.\<close>

definition run_call :: "'w env \<Rightarrow> ToolCall \<Rightarrow> 'w turn_state \<Rightarrow> py_str \<times> 'w turn_state" where
  "run_call E call st =
     (if call_name call \<in> set (council_skills E) then (council E (council_question call), st)
      else case execute (builtins E) (latency E (t_world st)) (clock E (t_world st)) call
             \<lparr>ctx_session = sid (t_session st), ctx_workspace = workspace (t_session st)\<rparr> (t_disp st) of
             (res, d) \<Rightarrow> (Tool_Layer.content res, st\<lparr>t_disp := d\<rparr>))"

text \<open>The gate is asked only at or above the threshold.\<close>

definition ask_gate :: "'w env \<Rightarrow> Permission \<Rightarrow> ToolCall \<Rightarrow> 'w turn_state \<Rightarrow> bool \<times> 'w turn_state" where
  "ask_gate E tier call st =
     (if approval_threshold E \<le> tier
      then case gate E call (t_world st) of
             (approved, w) \<Rightarrow> (approved, st\<lparr>t_world := w, t_trace := t_trace st @ [Asked call approved]\<rparr>)
      else (True, st))"

definition deny_call :: "'w env \<Rightarrow> ToolCall \<Rightarrow> 'w turn_state \<Rightarrow> 'w turn_state" where
  "deny_call E call st =
     append_message E (tool_message call ''User denied this tool call.'')
       (emit [OnToolEnd (call_name call) ''User denied this tool call.''] st)"

definition run_and_record :: "'w env \<Rightarrow> Permission \<Rightarrow> ToolCall \<Rightarrow> 'w turn_state \<Rightarrow> bool \<times> 'w turn_state" where
  "run_and_record E tier call st =
     (case run_call E call (st\<lparr>t_trace := t_trace st @ [Ran tier call]\<rparr>) of
        (raw, st2) \<Rightarrow>
          (let out = sanitize_tool_output (juice E) raw;
               st3 = append_message E (tool_message call out) (emit [OnToolEnd (call_name call) out] st2)
           in (interrupted E (t_world st3), st3)))"

text \<open>One tool call; \<open>True\<close> when the cancel check after it raised. A denied call skips that check.\<close>

definition tool_step :: "'w env \<Rightarrow> ToolCall \<Rightarrow> 'w turn_state \<Rightarrow> bool \<times> 'w turn_state" where
  "tool_step E call st0 =
     (let st = emit [OnToolStart (call_name call) (call_args call)] st0;
          tier = tier_of E st call
      in case ask_gate E tier call st of
           (approved, st1) \<Rightarrow>
             if approved then run_and_record E tier call st1 else (False, deny_call E call st1))"

fun tool_phase :: "'w env \<Rightarrow> ToolCall list \<Rightarrow> 'w turn_state \<Rightarrow> bool \<times> 'w turn_state" where
  "tool_phase E [] st = (False, st)"
| "tool_phase E (c # cs) st =
     (case tool_step E c st of (stopped, st1) \<Rightarrow> if stopped then (True, st1) else tool_phase E cs st1)"


section \<open>One iteration\<close>

datatype 'w step_result = Ended turn_end "'w turn_state" | Continue "'w turn_state"

definition view_of :: "'w env \<Rightarrow> py_float \<Rightarrow> 'w turn_state \<Rightarrow> Message list" where
  "view_of E ratio st =
     build_view (encoder E) str_strip (summariser E) (context_budget E) ratio (map to_openai (msgs (t_session st)))"

definition call_model ::
  "'w env \<Rightarrow> py_str \<Rightarrow> bool \<Rightarrow> py_float \<Rightarrow> 'w turn_state \<Rightarrow> stream_acc \<times> stream_end \<times> 'w turn_state"
where
  "call_model E frozen grace ratio st =
     (case llm_stream E (view_of E ratio st) (\<not> grace) frozen (t_world st) of
        ((chunks, ending), w) \<Rightarrow>
          (let a = consume_stream chunks ending
           in (a, ending, emit (map OnText (acc_sink a)) (st\<lparr>t_world := w\<rparr>))))"

text \<open>The stream with its one retry after \<open>ContextOverflow\<close>.\<close>

definition model_turn ::
  "'w env \<Rightarrow> py_str \<Rightarrow> bool \<Rightarrow> 'w turn_state \<Rightarrow> (py_exc + stream_acc) \<times> 'w turn_state"
where
  "model_turn E frozen grace st =
     (case call_model E frozen grace (target_ratio E) st of
        (a, Complete, st1) \<Rightarrow> (Inr a, st1)
      | (a, RaisedOther e, st1) \<Rightarrow> (Inl e, st1)
      | (a, RaisedOverflow, st1) \<Rightarrow>
          (case call_model E frozen grace (aggressive_ratio E) st1 of
             (a2, Complete, st2) \<Rightarrow> (Inr a2, st2)
           | (a2, RaisedOther e, st2) \<Rightarrow> (Inl e, st2)
           | (a2, RaisedOverflow, st2) \<Rightarrow> (Inl \<lparr>exc_type = ''ContextOverflow'', exc_text = []\<rparr>, st2)))"

definition account :: "'w env \<Rightarrow> stream_acc \<Rightarrow> 'w turn_state \<Rightarrow> 'w turn_state" where
  "account E a st =
     (let db = (case acc_usage a of None \<Rightarrow> t_db st
                | Some u \<Rightarrow> record_usage (sid (t_session st)) (u_input u) (u_output u) (u_cache_read u) (u_cache_creation u) (t_db st));
          fc = \<lparr>fc_provider = llm_name E, fc_model = llm_model E, fc_used_tools = acc_calls a \<noteq> [],
                fc_latency_ms = latency E (t_world st),
                fc_input_tokens = (case acc_usage a of None \<Rightarrow> 0 | Some u \<Rightarrow> u_input u),
                fc_output_tokens = (case acc_usage a of None \<Rightarrow> 0 | Some u \<Rightarrow> u_output u),
                fc_now = clock E (t_world st), fc_write_fails = stats_fail E (t_world st)\<rparr>
      in st\<lparr>t_db := db, t_cost := account_call fc (t_cost st)\<rparr>)"

definition assistant_message :: "'w env \<Rightarrow> stream_acc \<Rightarrow> Message" where
  "assistant_message E a =
     \<lparr>role = ''assistant'', content = truthy (Some (acc_text a)),
      tool_calls = map (\<lambda>c. \<lparr>mt_id = call_id c, mt_name = call_name c,
        mt_args = dumps_args E (sanitize_tool_args (call_args c))\<rparr>) (acc_calls a),
      tool_call_id = None, msg_name = None, finish_reason = Some (acc_finish a)\<rparr>"

text \<open>After the reply: persist it, then leave the loop or run its tool calls.\<close>

definition after_reply :: "'w env \<Rightarrow> bool \<Rightarrow> stream_acc \<Rightarrow> 'w turn_state \<Rightarrow> 'w step_result" where
  "after_reply E grace a st =
     (let st1 = account E a st;
          st2 = (if acc_text a = [] then st1 else st1\<lparr>t_final := acc_text a\<rparr>);
          st3 = append_message E (assistant_message E a) st2
      in if acc_calls a = [] \<or> grace then Ended Finished (emit [OnText [CHR 0x0A]] st3)
         else case tool_phase E (acc_calls a) st3 of
                (True, st4) \<Rightarrow> Ended TurnInterrupted st4
              | (False, st4) \<Rightarrow> Continue st4)"

definition after_admission :: "'w env \<Rightarrow> py_str \<Rightarrow> bool \<Rightarrow> 'w turn_state \<Rightarrow> 'w step_result" where
  "after_admission E frozen grace st =
     (let chk = check ''chat'' (day_total E (t_world st)) (enforcer (t_cost st))
      in if enforce_cost E \<and> blocked chk then Ended (TurnBlockedByCost (check_message chk)) st
         else case model_turn E frozen grace st of
                (Inl e, st1) \<Rightarrow> Ended (TurnRaised e) st1
              | (Inr a, st1) \<Rightarrow> after_reply E grace a st1)"

definition iteration :: "'w env \<Rightarrow> py_str \<Rightarrow> 'w turn_state \<Rightarrow> 'w step_result" where
  "iteration E frozen st =
     (if interrupted E (t_world st) then Ended TurnInterrupted st
      else case admit (t_budget st) of
        Inl e \<Rightarrow> Ended (BudgetBroken e) st
      | Inr Exhausted \<Rightarrow>
          Ended Finished (if t_final st = [] then st\<lparr>t_final := ''[max iterations reached]''\<rparr> else st)
      | Inr (Admitted b grace) \<Rightarrow>
          (let st1 = st\<lparr>t_budget := b\<rparr>
           in after_admission E frozen grace
                (if grace then append_message E (user_msg GRACE_NOTICE) st1 else st1)))"


section \<open>Termination\<close>

lemma append_message_simps [simp]:
  "t_budget (append_message E m st) = t_budget st" "t_world (append_message E m st) = t_world st"
  "t_trace (append_message E m st) = t_trace st" "t_final (append_message E m st) = t_final st"
  "t_disp (append_message E m st) = t_disp st" "t_cost (append_message E m st) = t_cost st"
  "msgs (t_session (append_message E m st)) = msgs (t_session st) @ [m]"
  "sid (t_session (append_message E m st)) = sid (t_session st)"
  "workspace (t_session (append_message E m st)) = workspace (t_session st)"
  by (simp_all add: append_message_def session_append_def split: prod.split)

lemma emit_simps [simp]:
  "t_budget (emit evs st) = t_budget st" "t_world (emit evs st) = t_world st" "t_trace (emit evs st) = t_trace st"
  "t_final (emit evs st) = t_final st" "t_session (emit evs st) = t_session st" "t_db (emit evs st) = t_db st"
  "t_disp (emit evs st) = t_disp st" "t_cost (emit evs st) = t_cost st"
  by (simp_all add: emit_def)

lemma run_call_simps:
  "run_call E c st = (raw, st') \<Longrightarrow>
     t_budget st' = t_budget st \<and> t_trace st' = t_trace st \<and> t_session st' = t_session st \<and> t_db st' = t_db st \<and>
     t_world st' = t_world st"
  by (auto simp: run_call_def split: if_splits prod.splits)

text \<open>What one call adds to the transcript and to the trace.\<close>

definition answers :: "ToolCall \<Rightarrow> Message \<Rightarrow> bool" where
  "answers c m \<longleftrightarrow> role m = ''tool'' \<and> tool_call_id m = Some (call_id c) \<and> msg_name m = Some (call_name c)"

definition step_trace :: "Permission \<Rightarrow> Permission \<Rightarrow> ToolCall \<Rightarrow> trace_event list \<Rightarrow> bool" where
  "step_trace thr tier c evs \<longleftrightarrow>
     (if thr \<le> tier then evs = [Asked c False] \<or> evs = [Asked c True, Ran tier c] else evs = [Ran tier c])"

definition clean_answer :: "'w env \<Rightarrow> Message \<Rightarrow> bool" where
  "clean_answer E m \<longleftrightarrow> content m = Some ''User denied this tool call.'' \<or>
     (\<exists>raw. content m = Some (sanitize_tool_output (juice E) raw))"

lemma ask_gate_facts:
  "ask_gate E tier c st = (approved, st') \<Longrightarrow>
     t_budget st' = t_budget st \<and> t_session st' = t_session st \<and> t_db st' = t_db st \<and>
     t_trace st' = t_trace st @ (if approval_threshold E \<le> tier then [Asked c approved] else []) \<and>
     (\<not> approval_threshold E \<le> tier \<longrightarrow> approved)"
  by (auto simp: ask_gate_def split: if_splits prod.splits)

lemma run_and_record_facts:
  assumes "run_and_record E tier c st = (b, st')"
  shows "t_budget st' = t_budget st \<and> t_trace st' = t_trace st @ [Ran tier c] \<and>
    (\<exists>raw. msgs (t_session st') = msgs (t_session st) @ [tool_message c (sanitize_tool_output (juice E) raw)])"
proof -
  obtain raw st2 where r: "run_call E c (st\<lparr>t_trace := t_trace st @ [Ran tier c]\<rparr>) = (raw, st2)" by fastforce
  from run_call_simps [OF r] assms r show ?thesis
    by (auto simp: run_and_record_def Let_def)
qed

lemma tool_step_facts:
  assumes "tool_step E c st = (b, st')"
  shows "t_budget st' = t_budget st \<and>
    (\<exists>m evs. msgs (t_session st') = msgs (t_session st) @ [m] \<and> answers c m \<and> clean_answer E m \<and>
       t_trace st' = t_trace st @ evs \<and> step_trace (approval_threshold E) (tier_of E st c) c evs)"
proof -
  let ?st = "emit [OnToolStart (call_name c) (call_args c)] st"
  have tier: "tier_of E ?st c = tier_of E st c" by (simp add: tier_of_def)
  obtain approved st1 where g: "ask_gate E (tier_of E st c) c ?st = (approved, st1)" by fastforce
  note gf = ask_gate_facts [OF g]
  show ?thesis
  proof (cases approved)
    case True
    then have "run_and_record E (tier_of E st c) c st1 = (b, st')"
      using assms g by (simp add: tool_step_def tier)
    from run_and_record_facts [OF this] gf True show ?thesis
      by (auto simp: answers_def clean_answer_def tool_message_def step_trace_def)
  next
    case False
    then have "st' = deny_call E c st1" using assms g by (simp add: tool_step_def tier)
    with gf False show ?thesis
      by (auto simp: deny_call_def answers_def clean_answer_def tool_message_def step_trace_def)
  qed
qed

text \<open>A trace in which nothing at or above the threshold ran without a yes just before it.\<close>

inductive approved_trace :: "Permission \<Rightarrow> trace_event list \<Rightarrow> bool" for thr where
  none: "approved_trace thr []"
| step: "approved_trace thr evs \<Longrightarrow> step_trace thr tier c new \<Longrightarrow> approved_trace thr (evs @ new)"

lemma approved_trace_append:
  "approved_trace thr ys \<Longrightarrow> approved_trace thr xs \<Longrightarrow> approved_trace thr (xs @ ys)"
proof (induction rule: approved_trace.induct)
  case none
  then show ?case by simp
next
  case (step evs tier c new)
  then show ?case using approved_trace.step [of thr "xs @ evs" tier c new] by simp
qed

lemma approved_trace_ran:
  "approved_trace thr tr \<Longrightarrow> tr = pre @ Ran tier c # post \<Longrightarrow> thr \<le> tier \<Longrightarrow> pre \<noteq> [] \<and> last pre = Asked c True"
proof (induction arbitrary: post rule: approved_trace.induct)
  case none
  then show ?case by simp
next
  case (step evs t d new)
  show ?case
  proof (cases "length pre < length evs")
    case True
    then have "evs = pre @ Ran tier c # take (length evs - length pre - 1) post"
      using step.prems(1) by (auto simp: append_eq_append_conv2 append_eq_Cons_conv Cons_eq_append_conv)
    with step.IH step.prems(2) show ?thesis by blast
  next
    case False
    then obtain q where q: "pre = evs @ q" "new = q @ Ran tier c # post"
      using step.prems(1) by (auto simp: append_eq_append_conv2 append_eq_Cons_conv Cons_eq_append_conv)
    from step.hyps(2) q(2) step.prems(2) show ?thesis
      unfolding step_trace_def q(1) by (cases q) (auto split: if_splits simp: Cons_eq_append_conv append_eq_Cons_conv)
  qed
qed

lemma tool_phase_facts:
  "tool_phase E cs st = (b, st') \<Longrightarrow> t_budget st' = t_budget st \<and>
     (\<exists>ms evs. msgs (t_session st') = msgs (t_session st) @ ms \<and> list_all2 answers (take (length ms) cs) ms \<and>
        (\<not> b \<longrightarrow> length ms = length cs) \<and> (\<forall>m \<in> set ms. clean_answer E m) \<and>
        t_trace st' = t_trace st @ evs \<and> approved_trace (approval_threshold E) evs)"
proof (induction E cs st arbitrary: b st' rule: tool_phase.induct)
  case (1 E st)
  then show ?case by (auto intro: approved_trace.none)
next
  case (2 E c cs st)
  obtain stopped st1 where s: "tool_step E c st = (stopped, st1)" by fastforce
  obtain m evs where m: "t_budget st1 = t_budget st" "msgs (t_session st1) = msgs (t_session st) @ [m]" "answers c m"
    "clean_answer E m" "t_trace st1 = t_trace st @ evs" "step_trace (approval_threshold E) (tier_of E st c) c evs"
    using tool_step_facts [OF s] by blast
  have tr: "approved_trace (approval_threshold E) evs"
    using approved_trace.step [OF approved_trace.none m(6)] by simp
  show ?case
  proof (cases stopped)
    case True
    with s "2.prems" m tr show ?thesis by (intro conjI exI [of _ "[m]"] exI [of _ evs]) auto
  next
    case False
    with s "2.prems" have p: "tool_phase E cs st1 = (b, st')" by simp
    obtain ms evs2 where ms: "t_budget st' = t_budget st1" "msgs (t_session st') = msgs (t_session st1) @ ms"
      "list_all2 answers (take (length ms) cs) ms" "\<not> b \<longrightarrow> length ms = length cs" "\<forall>m \<in> set ms. clean_answer E m"
      "t_trace st' = t_trace st1 @ evs2" "approved_trace (approval_threshold E) evs2"
      using "2.IH" [OF s [symmetric] False p] by blast
    from m ms approved_trace_append [OF ms(7) tr] show ?thesis
      by (intro conjI exI [of _ "m # ms"] exI [of _ "evs @ evs2"]) auto
  qed
qed

lemma call_model_facts:
  "call_model E frozen grace ratio st = (a, ending, st') \<Longrightarrow>
     t_budget st' = t_budget st \<and> t_session st' = t_session st \<and> t_db st' = t_db st \<and> t_trace st' = t_trace st \<and> t_final st' = t_final st"
  by (auto simp: call_model_def Let_def split: prod.splits)

lemma model_turn_facts:
  assumes "model_turn E frozen grace st = (r, st')"
  shows "t_budget st' = t_budget st \<and> t_session st' = t_session st \<and> t_db st' = t_db st \<and> t_trace st' = t_trace st \<and> t_final st' = t_final st"
proof -
  obtain a ending st1 where c: "call_model E frozen grace (target_ratio E) st = (a, ending, st1)" by (cases "call_model E frozen grace (target_ratio E) st")
  obtain a2 ending2 st2 where c2: "call_model E frozen grace (aggressive_ratio E) st1 = (a2, ending2, st2)" by (cases "call_model E frozen grace (aggressive_ratio E) st1")
  show ?thesis using assms c c2 call_model_facts [OF c] call_model_facts [OF c2]
    by (cases ending; cases ending2) (simp_all add: model_turn_def)
qed

lemma account_simps [simp]:
  "t_budget (account E a st) = t_budget st" "t_session (account E a st) = t_session st"
  "t_trace (account E a st) = t_trace st" "t_final (account E a st) = t_final st" "t_world (account E a st) = t_world st"
  by (simp_all add: account_def Let_def)

text \<open>The messages a finished reply adds: itself and, in order, the answers to its calls.\<close>

definition replied :: "'w env \<Rightarrow> stream_acc \<Rightarrow> Message list \<Rightarrow> bool" where
  "replied E a new \<longleftrightarrow> (\<exists>ms. new = assistant_message E a # ms \<and> list_all2 answers (take (length ms) (acc_calls a)) ms \<and>
     length ms \<le> length (acc_calls a) \<and> (\<forall>m \<in> set ms. clean_answer E m))"

definition grew :: "'w env \<Rightarrow> 'w turn_state \<Rightarrow> 'w turn_state \<Rightarrow> Message list \<Rightarrow> bool" where
  "grew E st st' new \<longleftrightarrow> msgs (t_session st') = msgs (t_session st) @ new \<and>
     (\<exists>evs. t_trace st' = t_trace st @ evs \<and> approved_trace (approval_threshold E) evs)"

lemma grew_refl: "grew E st st []"
  by (auto simp: grew_def intro: approved_trace.none)

lemma grew_trans: "grew E st st1 new1 \<Longrightarrow> grew E st1 st2 new2 \<Longrightarrow> grew E st st2 (new1 @ new2)"
  by (auto simp: grew_def intro: approved_trace_append)

lemma after_reply_continue:
  assumes "after_reply E grace a st = Continue st'"
  shows "t_budget st' = t_budget st \<and> \<not> grace \<and> acc_calls a \<noteq> [] \<and>
    (\<exists>ms. grew E st st' (assistant_message E a # ms) \<and> list_all2 answers (acc_calls a) ms \<and> (\<forall>m \<in> set ms. clean_answer E m))"
proof -
  define st2 where "st2 = append_message E (assistant_message E a)
    (if acc_text a = [] then account E a st else (account E a st)\<lparr>t_final := acc_text a\<rparr>)"
  have s2: "t_budget st2 = t_budget st" "msgs (t_session st2) = msgs (t_session st) @ [assistant_message E a]" "t_trace st2 = t_trace st"
    by (simp_all add: st2_def)
  have c: "\<not> grace" "acc_calls a \<noteq> []" "tool_phase E (acc_calls a) st2 = (False, st')"
    using assms by (auto simp: after_reply_def Let_def st2_def [symmetric] split: if_splits prod.splits bool.splits)
  obtain ms evs where ms: "t_budget st' = t_budget st2" "msgs (t_session st') = msgs (t_session st2) @ ms"
    "list_all2 answers (take (length ms) (acc_calls a)) ms" "length ms = length (acc_calls a)"
    "\<forall>m \<in> set ms. clean_answer E m" "t_trace st' = t_trace st2 @ evs" "approved_trace (approval_threshold E) evs"
    using tool_phase_facts [OF c(3)] by blast
  then have "grew E st st' (assistant_message E a # ms)" "list_all2 answers (acc_calls a) ms"
    using s2 by (auto simp: grew_def)
  with c ms s2 show ?thesis by auto
qed

lemma after_reply_ended:
  assumes "after_reply E grace a st = Ended e st'"
  shows "t_budget st' = t_budget st \<and> (e = Finished \<or> e = TurnInterrupted) \<and>
    (\<exists>new. grew E st st' new \<and> replied E a new \<and> (e = Finished \<longrightarrow> new = [assistant_message E a] \<and> (acc_calls a = [] \<or> grace)))"
proof -
  define st2 where "st2 = append_message E (assistant_message E a)
    (if acc_text a = [] then account E a st else (account E a st)\<lparr>t_final := acc_text a\<rparr>)"
  have s2: "t_budget st2 = t_budget st" "msgs (t_session st2) = msgs (t_session st) @ [assistant_message E a]" "t_trace st2 = t_trace st"
    by (simp_all add: st2_def)
  show ?thesis
  proof (cases "acc_calls a = [] \<or> grace")
    case True
    then have "e = Finished" "st' = emit [OnText [CHR 0x0A]] st2"
      using assms by (simp_all add: after_reply_def Let_def st2_def)
    moreover have "replied E a [assistant_message E a]" by (simp add: replied_def)
    ultimately show ?thesis using s2 True by (auto simp: grew_def intro: approved_trace.none)
  next
    case False
    obtain b st4 where p: "tool_phase E (acc_calls a) st2 = (b, st4)" by fastforce
    with False assms have e: "b" "e = TurnInterrupted" "st' = st4"
      by (auto simp: after_reply_def Let_def st2_def [symmetric] split: bool.splits)
    obtain ms evs where ms: "t_budget st4 = t_budget st2" "msgs (t_session st4) = msgs (t_session st2) @ ms"
      "list_all2 answers (take (length ms) (acc_calls a)) ms"
      "\<forall>m \<in> set ms. clean_answer E m" "t_trace st4 = t_trace st2 @ evs" "approved_trace (approval_threshold E) evs"
      using tool_phase_facts [OF p] by blast
    have "length ms \<le> length (acc_calls a)" using list_all2_lengthD [OF ms(3)] by simp
    then have "replied E a (assistant_message E a # ms)" using ms by (auto simp: replied_def)
    moreover have "grew E st st' (assistant_message E a # ms)" using ms s2 e by (auto simp: grew_def)
    ultimately show ?thesis using e ms(1) s2(1) by auto
  qed
qed

lemma after_admission_continue:
  assumes "after_admission E frozen grace st = Continue st'"
  shows "t_budget st' = t_budget st \<and> \<not> grace \<and>
    (\<exists>a ms. grew E st st' (assistant_message E a # ms) \<and> list_all2 answers (acc_calls a) ms \<and> (\<forall>m \<in> set ms. clean_answer E m))"
proof -
  obtain r st1 where m: "model_turn E frozen grace st = (r, st1)" by fastforce
  then obtain a where "after_reply E grace a st1 = Continue st'"
    using assms by (auto simp: after_admission_def Let_def split: if_splits sum.splits)
  from after_reply_continue [OF this] model_turn_facts [OF m] show ?thesis
    unfolding grew_def by auto
qed

lemma after_admission_ended:
  assumes "after_admission E frozen grace st = Ended e st'"
  shows "t_budget st' = t_budget st \<and>
    (\<exists>new. grew E st st' new \<and> (new = [] \<and> e \<noteq> Finished \<or> (\<exists>a. replied E a new \<and>
       (e = Finished \<longrightarrow> new = [assistant_message E a] \<and> (acc_calls a = [] \<or> grace)))))"
proof (cases "enforce_cost E \<and> blocked (check ''chat'' (day_total E (t_world st)) (enforcer (t_cost st)))")
  case True
  then show ?thesis using assms grew_refl by (auto simp: after_admission_def Let_def)
next
  case False
  obtain r st1 where m: "model_turn E frozen grace st = (r, st1)" by fastforce
  note mf = model_turn_facts [OF m]
  show ?thesis
  proof (cases r)
    case (Inl x)
    then have "e = TurnRaised x" "st' = st1" using assms m False by (auto simp: after_admission_def Let_def)
    with mf show ?thesis by (auto simp: grew_def intro: approved_trace.none)
  next
    case (Inr a)
    then have "after_reply E grace a st1 = Ended e st'" using assms m False by (auto simp: after_admission_def Let_def)
    from after_reply_ended [OF this] mf show ?thesis unfolding grew_def by metis
  qed
qed

text \<open>An iteration that goes on spends exactly one unit of the budget.\<close>

lemma iteration_continue:
  assumes "iteration E frozen st = Continue st'"
  shows "0 < remaining (t_budget st) \<and> t_budget st' = (t_budget st)\<lparr>remaining := remaining (t_budget st) - 1\<rparr> \<and>
    (\<exists>a ms. grew E st st' (assistant_message E a # ms) \<and> list_all2 answers (acc_calls a) ms \<and> (\<forall>m \<in> set ms. clean_answer E m))"
proof -
  obtain b grace where b: "admit (t_budget st) = Inr (Admitted b grace)"
    using assms by (auto simp: iteration_def split: if_splits sum.splits admission.splits)
  let ?st = "if grace then append_message E (user_msg GRACE_NOTICE) (st\<lparr>t_budget := b\<rparr>) else st\<lparr>t_budget := b\<rparr>"
  have "after_admission E frozen grace ?st = Continue st'"
    using assms b by (auto simp: iteration_def Let_def split: if_splits)
  note f = after_admission_continue [OF this]
  then have "\<not> grace" by simp
  with f b show ?thesis by (auto simp: admit_cases grew_def split: if_splits)
qed

function turn_loop :: "'w env \<Rightarrow> py_str \<Rightarrow> 'w turn_state \<Rightarrow> turn_end \<times> 'w turn_state" where
  "turn_loop E frozen st =
     (case iteration E frozen st of
        Ended e st' \<Rightarrow> (e, st')
      | Continue st' \<Rightarrow> turn_loop E frozen st')"
  by pat_completeness auto
termination
proof (relation "measure (\<lambda>(E, frozen, st). nat (remaining (t_budget st)))")
  fix E :: "'w env" and frozen st st'
  assume "iteration E frozen st = Continue st'"
  from iteration_continue [OF this]
  show "((E, frozen, st'), (E, frozen, st)) \<in> measure (\<lambda>(E, frozen, st). nat (remaining (t_budget st)))" by simp
qed simp


declare turn_loop.simps [simp del]

lemma iteration_ended:
  assumes "iteration E frozen st = Ended e st'"
  shows "\<exists>pre new. grew E st st' (pre @ new) \<and>
    (pre = [] \<or> pre = [user_msg GRACE_NOTICE] \<and> remaining (t_budget st) = 0 \<and> \<not> grace_used (t_budget st)) \<and>
    (new = [] \<or> (\<exists>a. replied E a new \<and> (pre = [] \<longrightarrow> 0 < remaining (t_budget st)))) \<and>
    (e = Finished \<longrightarrow> pre @ new = [] \<or> (\<exists>a. new = [assistant_message E a] \<and> (pre = [] \<longrightarrow> acc_calls a = [])))"
proof (cases "\<exists>b grace. \<not> interrupted E (t_world st) \<and> admit (t_budget st) = Inr (Admitted b grace)")
  case False
  then have "msgs (t_session st') = msgs (t_session st)" "t_trace st' = t_trace st"
    using assms by (auto simp: iteration_def split: if_splits sum.splits admission.splits)
  then have "grew E st st' []" by (auto simp: grew_def intro: approved_trace.none)
  then show ?thesis by (intro exI [of _ "[]"]) simp
next
  case True
  then obtain b grace where b: "\<not> interrupted E (t_world st)" "admit (t_budget st) = Inr (Admitted b grace)" by blast
  let ?pre = "if grace then [user_msg GRACE_NOTICE] else []"
  let ?st = "if grace then append_message E (user_msg GRACE_NOTICE) (st\<lparr>t_budget := b\<rparr>) else st\<lparr>t_budget := b\<rparr>"
  have a: "after_admission E frozen grace ?st = Ended e st'"
    using assms b by (auto simp: iteration_def Let_def split: if_splits)
  obtain new where new: "grew E ?st st' new" "new = [] \<and> e \<noteq> Finished \<or> (\<exists>a. replied E a new \<and>
       (e = Finished \<longrightarrow> new = [assistant_message E a] \<and> (acc_calls a = [] \<or> grace)))"
    using after_admission_ended [OF a] by blast
  have g: "grew E st st' (?pre @ new)" using new(1) by (auto simp: grew_def split: if_splits)
  have c: "if grace then remaining (t_budget st) = 0 \<and> \<not> grace_used (t_budget st) else 0 < remaining (t_budget st)"
    using b(2) by (auto simp: admit_cases split: if_splits)
  show ?thesis
  proof (cases grace)
    case True
    with g c new(2) show ?thesis by (intro exI [of _ "[user_msg GRACE_NOTICE]"] exI [of _ new]) auto
  next
    case False
    with g c new(2) show ?thesis by (intro exI [of _ "[]"] exI [of _ new]) auto
  qed
qed

lemma loop_induct:
  assumes "\<And>st e st'. iteration E frozen st = Ended e st' \<Longrightarrow> P st e st'"
    and "\<And>st st1 e st'. iteration E frozen st = Continue st1 \<Longrightarrow> P st1 e st' \<Longrightarrow> P st e st'"
  shows "P st (fst (turn_loop E frozen st)) (snd (turn_loop E frozen st))"
proof (induction "nat (remaining (t_budget st))" arbitrary: st rule: less_induct)
  case less
  show ?case
  proof (cases "iteration E frozen st")
    case (Ended e st')
    then show ?thesis using assms(1) by (subst (1 2) turn_loop.simps) simp
  next
    case (Continue st1)
    then have "nat (remaining (t_budget st1)) < nat (remaining (t_budget st))"
      using iteration_continue [OF Continue] by simp
    from assms(2) [OF Continue less [OF this]] Continue show ?thesis
      by (subst (1 2) turn_loop.simps) simp
  qed
qed


section \<open>What a turn guarantees\<close>


text \<open>A transcript in which every reply is followed by one answer per tool call, in order.\<close>

inductive transcript :: "'w env \<Rightarrow> Message list \<Rightarrow> bool" for E where
  empty: "transcript E []"
| exchange: "transcript E ms \<Longrightarrow> list_all2 answers (acc_calls a) as \<Longrightarrow> \<forall>m \<in> set as. clean_answer E m \<Longrightarrow>
    transcript E ((assistant_message E a # as) @ ms)"

definition last_words :: "'w env \<Rightarrow> turn_end \<Rightarrow> Message list \<Rightarrow> bool" where
  "last_words E e new \<longleftrightarrow>
     new = [] \<or> new = [user_msg GRACE_NOTICE] \<and> e \<noteq> Finished \<or>
     (\<exists>a. new = [assistant_message E a] \<and> e = Finished \<and> acc_calls a = []) \<or>
     (\<exists>a. new = [user_msg GRACE_NOTICE, assistant_message E a] \<and> e = Finished) \<or>
     (\<exists>a pre ms. new = pre @ ms \<and> pre \<in> {[], [user_msg GRACE_NOTICE]} \<and> replied E a ms \<and> e \<noteq> Finished)"

text \<open>
  C2: a turn leaves a well-formed transcript. It appends a series of complete exchanges, each
  a reply and exactly one sanitised answer per tool call, in order and under the call's id;
  a turn that finishes then adds at most a final reply without tool calls, or the grace
  notice and the reply to it. Only a turn that was cut short ends in a reply some of whose
  calls are unanswered.
\<close>

theorem turn_transcript:
  "\<exists>ms new. msgs (t_session (snd (turn_loop E frozen st))) = msgs (t_session st) @ ms @ new \<and>
     transcript E ms \<and> last_words E (fst (turn_loop E frozen st)) new"
proof (rule loop_induct [where P = "\<lambda>st e st'. \<exists>ms new. msgs (t_session st') = msgs (t_session st) @ ms @ new \<and>
     transcript E ms \<and> last_words E e new"])
  fix st e st' assume i: "iteration E frozen st = Ended e st'"
  obtain pre new where pn: "grew E st st' (pre @ new)" "pre = [] \<or> pre = [user_msg GRACE_NOTICE]"
    "new = [] \<or> (\<exists>a. replied E a new)"
    "e = Finished \<longrightarrow> pre @ new = [] \<or> (\<exists>a. new = [assistant_message E a] \<and> (pre = [] \<longrightarrow> acc_calls a = []))"
    using iteration_ended [OF i] by blast
  have "last_words E e (pre @ new)"
  proof (cases "e = Finished")
    case True
    with pn show ?thesis by (auto simp: last_words_def)
  next
    case False
    show ?thesis
    proof (cases "new = []")
      case True
      with False pn(2) show ?thesis by (auto simp: last_words_def)
    next
      case False
      with pn(3) obtain a where "replied E a new" by blast
      with \<open>e \<noteq> Finished\<close> pn(2) show ?thesis unfolding last_words_def by blast
    qed
  qed
  with pn(1) show "\<exists>ms new. msgs (t_session st') = msgs (t_session st) @ ms @ new \<and> transcript E ms \<and> last_words E e new"
    by (intro exI [of _ "[]"] exI [of _ "pre @ new"]) (simp add: grew_def transcript.empty)
next
  fix st st1 st' :: "'a turn_state" and e
  assume c: "iteration E frozen st = Continue st1"
    and "\<exists>ms new. msgs (t_session st') = msgs (t_session st1) @ ms @ new \<and> transcript E ms \<and> last_words E e new"
  then obtain ms new where m: "msgs (t_session st') = msgs (t_session st1) @ ms @ new" "transcript E ms" "last_words E e new" by blast
  obtain a as where a: "grew E st st1 (assistant_message E a # as)" "list_all2 answers (acc_calls a) as" "\<forall>m \<in> set as. clean_answer E m"
    using iteration_continue [OF c] by blast
  from transcript.exchange [OF m(2) a(2,3)] m a(1)
  show "\<exists>ms new. msgs (t_session st') = msgs (t_session st) @ ms @ new \<and> transcript E ms \<and> last_words E e new"
    by (intro exI [of _ "(assistant_message E a # as) @ ms"] exI [of _ new]) (simp add: grew_def)
qed

definition replies :: "Message list \<Rightarrow> nat" where
  "replies ms = length (filter (\<lambda>m. role m = ''assistant'') ms)"

lemma replies_append [simp]: "replies (xs @ ys) = replies xs + replies ys"
  by (simp add: replies_def)

lemma replies_exchange:
  "list_all2 answers cs ms \<Longrightarrow> replies ms = 0"
  by (induction rule: list_all2_induct) (simp_all add: replies_def answers_def)

lemma replies_replied: "replied E a new \<Longrightarrow> replies new = 1"
  unfolding replied_def using replies_exchange by (fastforce simp: replies_def assistant_message_def)

text \<open>
  C36: a turn ends, and its length is paid for by its budget. The loop is a total function, and
  a turn started with a budget persists at most as many model replies as the budget has
  iterations left, plus the one grace reply if that is still unused.
\<close>

theorem turn_replies_bounded:
  "int (replies (drop (length (msgs (t_session st))) (msgs (t_session (snd (turn_loop E frozen st)))))) \<le>
     max 0 (remaining (t_budget st)) + (if grace_used (t_budget st) then 0 else 1)"
proof -
  have "\<exists>new. msgs (t_session (snd (turn_loop E frozen st))) = msgs (t_session st) @ new \<and>
      int (replies new) \<le> max 0 (remaining (t_budget st)) + (if grace_used (t_budget st) then 0 else 1)"
  proof (rule loop_induct [where P = "\<lambda>st e st'. \<exists>new. msgs (t_session st') = msgs (t_session st) @ new \<and>
      int (replies new) \<le> max 0 (remaining (t_budget st)) + (if grace_used (t_budget st) then 0 else 1)"])
    fix st e st' assume i: "iteration E frozen st = Ended e st'"
    obtain pre new where pn: "grew E st st' (pre @ new)"
      "pre = [] \<or> pre = [user_msg GRACE_NOTICE] \<and> remaining (t_budget st) = 0 \<and> \<not> grace_used (t_budget st)"
      "new = [] \<or> (\<exists>a. replied E a new \<and> (pre = [] \<longrightarrow> 0 < remaining (t_budget st)))"
      using iteration_ended [OF i] by blast
    have "replies pre = 0" using pn(2) by (auto simp: replies_def user_msg_def)
    moreover have "replies new \<le> 1" using pn(3) replies_replied by (fastforce simp: replies_def)
    moreover have "replies new = 0 \<or> 0 < remaining (t_budget st) \<or> \<not> grace_used (t_budget st)"
      using pn(2,3) by (auto simp: replies_def)
    ultimately have "int (replies (pre @ new)) \<le> max 0 (remaining (t_budget st)) + (if grace_used (t_budget st) then 0 else 1)"
      by auto
    with pn(1) show "\<exists>new. msgs (t_session st') = msgs (t_session st) @ new \<and>
        int (replies new) \<le> max 0 (remaining (t_budget st)) + (if grace_used (t_budget st) then 0 else 1)"
      by (auto simp: grew_def)
  next
    fix st st1 st' :: "'a turn_state" and e
    assume c: "iteration E frozen st = Continue st1"
      and "\<exists>new. msgs (t_session st') = msgs (t_session st1) @ new \<and>
        int (replies new) \<le> max 0 (remaining (t_budget st1)) + (if grace_used (t_budget st1) then 0 else 1)"
    then obtain new where n: "msgs (t_session st') = msgs (t_session st1) @ new"
      "int (replies new) \<le> max 0 (remaining (t_budget st1)) + (if grace_used (t_budget st1) then 0 else 1)" by blast
    obtain a as where a: "grew E st st1 (assistant_message E a # as)" "list_all2 answers (acc_calls a) as"
      using iteration_continue [OF c] by blast
    have "replies (assistant_message E a # as) = 1"
      using replies_exchange [OF a(2)] by (simp add: replies_def assistant_message_def)
    then have "int (replies ((assistant_message E a # as) @ new)) \<le> max 0 (remaining (t_budget st)) + (if grace_used (t_budget st) then 0 else 1)"
      using n(2) iteration_continue [OF c] by (simp only: replies_append) auto
    with n(1) a(1) show "\<exists>new. msgs (t_session st') = msgs (t_session st) @ new \<and>
        int (replies new) \<le> max 0 (remaining (t_budget st)) + (if grace_used (t_budget st) then 0 else 1)"
      by (intro exI [of _ "(assistant_message E a # as) @ new"]) (simp add: grew_def)
  qed
  then show ?thesis by auto
qed


text \<open>
  No tool output carries a forged compaction fence. Whatever a tool returned, the text
  that is persisted, or handed to the compressor when it is long, does not contain the fence
  line that marks a genuine summary.
\<close>

theorem output_has_no_fence:
  "\<exists>out. \<not> str_contains out FENCE \<and>
     sanitize_tool_output juice_fn raw = (if DEFAULT_COMPRESS_THRESHOLD \<le> py_len out then juice_fn out else out)"
proof -
  define c q m where cqm: "c = CHR ''[''" "q = tl FENCE" "m = ''fence-redacted]''"
  have f: "FENCE = c # q" "''[fence-redacted]'' = c # m" by (simp_all add: cqm FENCE_def)
  have clean: "\<not> str_contains (str_replace FENCE ''[fence-redacted]'' s) FENCE" for s
    unfolding f by (rule replace_removes) (simp_all add: cqm FENCE_def)
  show ?thesis
  proof (cases "raw = []")
    case True
    then show ?thesis
      by (intro exI [of _ "[]"]) (simp add: sanitize_tool_output_def str_contains_def FENCE_def py_len_def DEFAULT_COMPRESS_THRESHOLD_def)
  next
    case False
    let ?out = "redact (scrub raw)"
    let ?out1 = "if str_contains ?out FENCE then str_replace FENCE ''[fence-redacted]'' ?out else ?out"
    have "\<not> str_contains ?out1 FENCE" using clean by simp
    with False show ?thesis by (intro exI [of _ ?out1]) (simp add: sanitize_tool_output_def Let_def)
  qed
qed


section \<open>Session and database\<close>

definition in_sync :: "'w turn_state \<Rightarrow> bool" where
  "in_sync st \<longleftrightarrow> stored_messages (sid (t_session st)) (t_db st) = msgs (t_session st)"

lemma stored_append_row [simp]:
  "stored_messages i (append_row j now m db) = stored_messages i db @ (if i = j then [m] else [])"
  by (auto simp: append_row_def stored_messages_def row_of_def message_of_def)

lemma stored_record_usage [simp]: "stored_messages i (record_usage j a b c d db) = stored_messages i db"
  by (simp add: stored_messages_def record_usage_def)

lemma in_sync_append [simp]: "in_sync (append_message E m st) = in_sync st"
  by (simp add: in_sync_def append_message_def session_append_def)

lemma in_sync_same: "t_session st' = t_session st \<Longrightarrow> t_db st' = t_db st \<Longrightarrow> in_sync st' = in_sync st"
  by (simp add: in_sync_def)

lemma in_sync_emit [simp]: "in_sync (emit evs st) = in_sync st"
  by (rule in_sync_same) simp_all

lemma in_sync_account [simp]: "in_sync (account E a st) = in_sync st"
  by (simp add: in_sync_def account_def Let_def split: option.split)

lemma in_sync_tool_step: "tool_step E c st = (b, st') \<Longrightarrow> in_sync st' = in_sync st"
proof -
  assume a: "tool_step E c st = (b, st')"
  let ?st = "emit [OnToolStart (call_name c) (call_args c)] st"
  obtain approved st1 where g: "ask_gate E (tier_of E ?st c) c ?st = (approved, st1)" by fastforce
  have g1: "in_sync st1 = in_sync st" using in_sync_same [of st1 ?st] ask_gate_facts [OF g] by simp
  show ?thesis
  proof (cases approved)
    case True
    obtain raw st2 where r: "run_call E c (st1\<lparr>t_trace := t_trace st1 @ [Ran (tier_of E ?st c) c]\<rparr>) = (raw, st2)" by fastforce
    have "in_sync st2 = in_sync st1" using in_sync_same [of st2 st1] run_call_simps [OF r] by simp
    with True a g g1 r show ?thesis by (auto simp: tool_step_def Let_def run_and_record_def)
  next
    case False
    with a g g1 show ?thesis by (auto simp: tool_step_def Let_def deny_call_def)
  qed
qed

lemma in_sync_tool_phase: "tool_phase E cs st = (b, st') \<Longrightarrow> in_sync st' = in_sync st"
proof (induction E cs st arbitrary: b st' rule: tool_phase.induct)
  case (2 E c cs st)
  obtain stopped st1 where s: "tool_step E c st = (stopped, st1)" by fastforce
  show ?case
  proof (cases stopped)
    case True
    with s "2.prems" in_sync_tool_step [OF s] show ?thesis by simp
  next
    case False
    with s "2.prems" have "tool_phase E cs st1 = (b, st')" by simp
    with "2.IH" [OF s [symmetric] False] in_sync_tool_step [OF s] show ?thesis by simp
  qed
qed simp

lemma in_sync_after_reply:
  "after_reply E grace a st = Ended e st' \<or> after_reply E grace a st = Continue st' \<Longrightarrow> in_sync st' = in_sync st"
proof -
  define st2 where "st2 = append_message E (assistant_message E a)
    (if acc_text a = [] then account E a st else (account E a st)\<lparr>t_final := acc_text a\<rparr>)"
  have s: "in_sync st2 = in_sync st"
    using in_sync_same [of "(account E a st)\<lparr>t_final := acc_text a\<rparr>" "account E a st"] by (simp add: st2_def)
  assume "after_reply E grace a st = Ended e st' \<or> after_reply E grace a st = Continue st'"
  then have "st' = emit [OnText [CHR 0x0A]] st2 \<or> st' = snd (tool_phase E (acc_calls a) st2)"
    by (auto simp: after_reply_def Let_def st2_def [symmetric] split: if_splits prod.splits bool.splits)
  then show ?thesis using s in_sync_tool_phase [of E "acc_calls a" st2] by (cases "tool_phase E (acc_calls a) st2") auto
qed

lemma in_sync_after_admission:
  "after_admission E frozen grace st = Ended e st' \<or> after_admission E frozen grace st = Continue st' \<Longrightarrow> in_sync st' = in_sync st"
proof -
  assume a: "after_admission E frozen grace st = Ended e st' \<or> after_admission E frozen grace st = Continue st'"
  obtain r st1 where m: "model_turn E frozen grace st = (r, st1)" by fastforce
  have s: "in_sync st1 = in_sync st" using in_sync_same [of st1 st] model_turn_facts [OF m] by simp
  have "st' = st \<or> st' = st1 \<or> (\<exists>ac e. after_reply E grace ac st1 = Ended e st' \<or> after_reply E grace ac st1 = Continue st')"
    using a m by (auto simp: after_admission_def Let_def split: if_splits sum.splits)
  with s in_sync_after_reply show ?thesis by metis
qed

lemma in_sync_iteration:
  assumes "iteration E frozen st = Ended e st' \<or> iteration E frozen st = Continue st'"
  shows "in_sync st' = in_sync st"
proof (cases "\<exists>b grace. \<not> interrupted E (t_world st) \<and> admit (t_budget st) = Inr (Admitted b grace)")
  case False
  then have "t_session st' = t_session st" "t_db st' = t_db st"
    using assms by (auto simp: iteration_def split: if_splits sum.splits admission.splits)
  then show ?thesis by (rule in_sync_same)
next
  case True
  then obtain b grace where b: "\<not> interrupted E (t_world st)" "admit (t_budget st) = Inr (Admitted b grace)" by blast
  let ?st = "if grace then append_message E (user_msg GRACE_NOTICE) (st\<lparr>t_budget := b\<rparr>) else st\<lparr>t_budget := b\<rparr>"
  have "after_admission E frozen grace ?st = Ended e st' \<or> after_admission E frozen grace ?st = Continue st'"
    using assms b by (auto simp: iteration_def Let_def split: if_splits)
  moreover have "in_sync ?st = in_sync st" using in_sync_same [of "st\<lparr>t_budget := b\<rparr>" st] by simp
  ultimately show ?thesis using in_sync_after_admission by blast
qed

lemma turn_loop_sync: "in_sync (snd (turn_loop E frozen st)) = in_sync st"
proof (rule loop_induct [where P = "\<lambda>st e st'. in_sync st' = in_sync st"])
  fix st st' :: "'a turn_state" and e assume "iteration E frozen st = Ended e st'"
  then show "in_sync st' = in_sync st" using in_sync_iteration by blast
next
  fix st st1 st' :: "'a turn_state" assume "iteration E frozen st = Continue st1" "in_sync st' = in_sync st1"
  then show "in_sync st' = in_sync st" using in_sync_iteration by blast
qed



section \<open>The whole turn\<close>

record distiller =
  d_hash :: "py_str \<times> (py_str \<times> py_str) list \<Rightarrow> py_str"
  d_ttl :: py_float

datatype turn_result =
    Answer py_str
  | CachedAnswer py_str
  | Aborted turn_end
  | SetupFailed session_error

text \<open>\<open>run_turn\<close>: freeze the prompt, persist the user's message, discover the tools, try the
  response cache, run the loop, store the answer. \<open>combined\<close> is the system prompt with the
  profile prompt appended.\<close>

definition run_turn ::
  "'w env \<Rightarrow> (py_str \<Rightarrow> py_str) \<Rightarrow> distiller option \<Rightarrow> py_str \<Rightarrow> py_str \<Rightarrow> 'w turn_state \<Rightarrow> distill_db \<Rightarrow>
     turn_result \<times> 'w turn_state \<times> distill_db"
where
  "run_turn E sha distill combined user st cache =
     (case freeze_system_prompt sha (sid (t_session st)) combined (t_db st) of
        Inl err \<Rightarrow> (SetupFailed err, st, cache)
      | Inr (frozen, db) \<Rightarrow>
          (let st1 = append_message E (user_msg user) (st\<lparr>t_db := db\<rparr>);
               st2 = st1\<lparr>t_disp := (t_disp st1)\<lparr>disp_registry := ensure_discovered (builtins E) (disp_registry (t_disp st1))\<rparr>,
                         t_final := [], t_cost := (t_cost st1)\<lparr>turn_cost := 0\<rparr>\<rparr>;
               key = (case distill of None \<Rightarrow> [] | Some D \<Rightarrow>
                 compute_key (d_hash D) user (map to_openai (filter (\<lambda>m. role m = ''tool'') (msgs (t_session st2)))));
               (hit, cache1) = (case distill of None \<Rightarrow> (None, cache) | Some D \<Rightarrow> cache_get (d_ttl D) (clock E (t_world st2)) key cache)
           in case hit of
                Some r \<Rightarrow> (CachedAnswer r,
                  emit [OnText r, OnText [CHR 0x0A]] (st2\<lparr>t_session := (t_session st2)\<lparr>last_turn_cost_usd := 0\<rparr>\<rparr>), cache1)
              | None \<Rightarrow>
                  (case turn_loop E frozen st2 of
                     (Finished, st3) \<Rightarrow>
                       (Answer (t_final st3),
                        st3\<lparr>t_session := (t_session st3)\<lparr>last_turn_cost_usd := turn_cost (t_cost st3)\<rparr>\<rparr>,
                        (if distill \<noteq> None \<and> key \<noteq> [] \<and> t_final st3 \<noteq> []
                         then cache_put (clock E (t_world st3)) key (t_final st3) (turn_cost (t_cost st3)) cache1 else cache1))
                   | (e, st3) \<Rightarrow> (Aborted e, st3, cache1))))"

text \<open>A cache hit returns without a reply in the session: its last message is then the user's,
  which crash recovery takes for an interrupted turn.\<close>

lemma cached_answer_leaves_user_message:
  assumes "run_turn E sha (Some D) combined user st cache = (CachedAnswer r, st', cache')"
  shows "msgs (t_session st') \<noteq> [] \<and> last (msgs (t_session st')) = user_msg user \<and>
    dangling (Some (row_of i now (last (msgs (t_session st')))))"
proof -
  have "last (msgs (t_session st')) = user_msg user \<and> msgs (t_session st') \<noteq> []"
    using assms by (auto simp: run_turn_def Let_def split: sum.splits prod.splits option.splits turn_end.splits)
  then show ?thesis by (simp add: dangling_def row_of_def user_msg_def)
qed

text \<open>A turn that starts with an exhausted budget answers with the sentinel, and the response
  cache stores it like any answer.\<close>

lemma sentinel_is_cached:
  assumes "freeze_system_prompt sha (sid (t_session st)) combined (t_db st) = Inr (frozen, db)"
    and "\<not> interrupted E (t_world st)" "remaining (t_budget st) = 0" "grace_used (t_budget st)"
    and "\<forall>x. d_hash D x = ''k''"
  shows "\<exists>st' cache'. run_turn E sha (Some D) combined user st [] = (Answer ''[max iterations reached]'', st', cache') \<and>
    map_option ce_response (dict_get cache' ''k'') = Some ''[max iterations reached]''"
proof -
  have loop: "turn_loop E frozen s = (Finished, s\<lparr>t_final := ''[max iterations reached]''\<rparr>)"
    if "\<not> interrupted E (t_world s)" "remaining (t_budget s) = 0" "grace_used (t_budget s)" "t_final s = []" for s
    using that by (simp add: turn_loop.simps [of E frozen s] iteration_def admit_cases)
  show ?thesis using assms
    by (simp add: run_turn_def Let_def cache_get_def compute_key_def loop cache_put_def)
qed

text \<open>In the grace iteration the comment says that tool calls the model still emits are dropped;
  the reply has been persisted with them by then, and nothing will answer them.\<close>

lemma grace_reply_keeps_calls:
  assumes "after_reply E True a st = Ended Finished st'" "acc_calls a \<noteq> []"
  shows "tool_calls (last (msgs (t_session st'))) \<noteq> [] \<and> role (last (msgs (t_session st'))) = ''assistant''"
  using assms by (auto simp: after_reply_def Let_def assistant_message_def)

end
