(* ===== verification/Llm_Routing.thy ===== *)
theory Llm_Routing
  imports Agent_Loop
begin

text \<open>
  Choosing and replacing a model: the failover chain over provider adapters
  (\<open>sera/llm/failover.py\<close>), the Thompson-sampling bandit over profiles
  (\<open>sera/llm/bandit.py\<close>). An adapter is a
  function from a request to the chunks it yields and the way its stream ends; the draws of
  the random generator and the clock are arguments.
\<close>


section \<open>Classifying provider errors\<close>

datatype FailoverReason = RateLimit | Quota | ServerError | ReadTimeout | AuthExpired | UnknownReason

text \<open>What the classifier can see of an exception: its attributes, those of its \<open>response\<close>,
  its \<open>body\<close> and its text.\<close>

record provider_exc =
  exc_attrs :: "(py_str, py_value) py_dict"
  exc_response :: "(py_str, py_value) py_dict option"
  exc_body :: py_value
  exc_str :: py_str

fun int_value :: "py_value \<Rightarrow> int option" where
  "int_value (PyInt i) = Some i"
| "int_value (PyBool b) = Some (if b then 1 else 0)"
| "int_value _ = None"

fun first_int :: "(py_str, py_value) py_dict \<Rightarrow> py_str list \<Rightarrow> int option" where
  "first_int d [] = None"
| "first_int d (k # ks) =
     (case int_value (dict_get_or d k PyNone) of Some i \<Rightarrow> Some i | None \<Rightarrow> first_int d ks)"

definition body_status :: "py_value \<Rightarrow> int option" where
  "body_status v =
     (case v of
        PyDict d \<Rightarrow> int_value (py_or (dict_get_or d ''status'' PyNone) (dict_get_or d ''status_code'' PyNone))
      | _ \<Rightarrow> None)"

definition status_code :: "provider_exc \<Rightarrow> int option" where
  "status_code e =
     (case first_int (exc_attrs e) [''status_code'', ''status'', ''code'', ''http_status''] of
        Some i \<Rightarrow> Some i
      | None \<Rightarrow>
          (case (case exc_response e of None \<Rightarrow> None | Some r \<Rightarrow> first_int r [''status_code'', ''status'']) of
             Some i \<Rightarrow> Some i
           | None \<Rightarrow> body_status (exc_body e)))"

definition mentions :: "py_str \<Rightarrow> py_str list \<Rightarrow> bool" where
  "mentions msg words \<longleftrightarrow> list_ex (str_contains msg) words"

definition classify_error :: "provider_exc \<Rightarrow> FailoverReason" where
  "classify_error e =
     (let status = status_code e; msg = str_lower (exc_str e); is_in = (\<lambda>codes. case status of None \<Rightarrow> False | Some i \<Rightarrow> i \<in> set codes)
      in if is_in [429] \<or> mentions msg [''rate limit'', ''rate_limit'', ''ratelimit'', ''too many requests''] then RateLimit
         else if is_in [402] \<or> mentions msg [''quota'', ''insufficient_quota'', ''billing'', ''credit''] then Quota
         else if is_in [401, 403] \<or> mentions msg [''unauthorized'', ''invalid api key'', ''api_key_invalid'', ''authentication''] then AuthExpired
         else if is_in [500, 502, 503, 504, 529] \<or> mentions msg [''server error'', ''overloaded'', ''internal error'', ''bad gateway''] then ServerError
         else if mentions msg [''timeout'', ''timed out'', ''read timeout'', ''connect timeout''] then ReadTimeout
         else UnknownReason)"


section \<open>The failover chain\<close>

datatype adapter_end = StreamDone | OverflowRaised | FatalRaised py_str | ErrorRaised provider_exc

record 'r adapter =
  ad_name :: py_str
  ad_model :: py_str
  ad_budget :: nat
  ad_stream :: "'r \<Rightarrow> StreamChunk list \<times> adapter_end"

record FailoverEvent =
  ev_primary :: py_str
  ev_reason :: FailoverReason
  ev_error :: py_str
  ev_fallback :: "py_str option"
  ev_recorded_at :: py_float

record 'r failover_chain =
  chain_llms :: "'r adapter list"
  chain_events :: "FailoverEvent list"

definition new_chain :: "'r adapter list \<Rightarrow> 'r failover_chain option" where
  "new_chain llms = (if llms = [] then None else Some \<lparr>chain_llms = llms, chain_events = []\<rparr>)"

definition adapter_label :: "'r adapter \<Rightarrow> py_str" where
  "adapter_label a = ad_name a @ ''/'' @ ad_model a"

definition failover_event :: "py_float \<Rightarrow> 'r adapter \<Rightarrow> provider_exc \<Rightarrow> 'r adapter list \<Rightarrow> FailoverEvent" where
  "failover_event now a e rest =
     \<lparr>ev_primary = adapter_label a, ev_reason = classify_error e, ev_error = py_take 200 (exc_str e),
      ev_fallback = (case rest of [] \<Rightarrow> None | b # _ \<Rightarrow> Some (adapter_label b)), ev_recorded_at = now\<rparr>"

fun try_adapters ::
  "py_float \<Rightarrow> 'r \<Rightarrow> 'r adapter list \<Rightarrow> FailoverEvent list \<Rightarrow> (StreamChunk list \<times> adapter_end) \<times> FailoverEvent list"
where
  "try_adapters now req [] evs = (([], StreamDone), evs)"
| "try_adapters now req (a # rest) evs =
     (case ad_stream a req of
        (chunks, ErrorRaised e) \<Rightarrow>
          (let evs1 = evs @ [failover_event now a e rest]
           in if rest = [] then ((chunks, ErrorRaised e), evs1)
              else case try_adapters now req rest evs1 of ((later, ending), evs2) \<Rightarrow> ((chunks @ later, ending), evs2))
      | (chunks, ending) \<Rightarrow> ((chunks, ending), evs))"

definition chain_stream ::
  "py_float \<Rightarrow> 'r \<Rightarrow> 'r failover_chain \<Rightarrow> (StreamChunk list \<times> adapter_end) \<times> 'r failover_chain"
where
  "chain_stream now req c =
     (case try_adapters now req (chain_llms c) (chain_events c) of (out, evs) \<Rightarrow> (out, c\<lparr>chain_events := evs\<rparr>))"

definition last_event :: "'r failover_chain \<Rightarrow> FailoverEvent option" where
  "last_event c = (if chain_events c = [] then None else Some (last (chain_events c)))"

text \<open>The adapters that fail before one does not.\<close>

definition fails :: "'r \<Rightarrow> 'r adapter \<Rightarrow> bool" where
  "fails req a = (case snd (ad_stream a req) of ErrorRaised e \<Rightarrow> True | _ \<Rightarrow> False)"

definition attempts :: "'r \<Rightarrow> 'r adapter list \<Rightarrow> 'r adapter list" where
  "attempts req llms = take (Suc (length (takeWhile (fails req) llms))) llms"

lemma attempts_Cons: "attempts req (a # as) = a # (if fails req a then attempts req as else [])"
  by (simp add: attempts_def)

lemma attempts_butlast: "list_all (fails req) (butlast (attempts req llms))"
  by (induction llms) (simp_all add: attempts_Cons, simp add: attempts_def)

fun label_chain :: "'r adapter list \<Rightarrow> (py_str \<times> py_str option) list" where
  "label_chain [] = []"
| "label_chain [a] = [(adapter_label a, None)]"
| "label_chain (a # b # as) = (adapter_label a, Some (adapter_label b)) # label_chain (b # as)"

lemma try_adapters_out:
  "llms \<noteq> [] \<Longrightarrow> fst (try_adapters now req llms evs) =
     (concat (map (\<lambda>a. fst (ad_stream a req)) (attempts req llms)), snd (ad_stream (last (attempts req llms)) req))"
proof (induction now req llms evs rule: try_adapters.induct)
  case (2 now req a rest evs)
  obtain chunks ending where s: "ad_stream a req = (chunks, ending)" by fastforce
  show ?case
  proof (cases "fails req a \<and> rest \<noteq> []")
    case True
    then obtain e where e: "ending = ErrorRaised e" using s by (auto simp: fails_def split: adapter_end.splits)
    have ne: "attempts req rest \<noteq> []" using True by (simp add: attempts_def)
    from True e s "2.IH" [of chunks ending e "evs @ [failover_event now a e rest]"] ne show ?thesis
      by (auto simp: attempts_def Let_def split: prod.split)
  next
    case False
    with s show ?thesis by (cases ending) (auto simp: attempts_def fails_def Let_def)
  qed
qed simp

lemma try_adapters_events:
  "\<exists>new. snd (try_adapters now req llms evs) = evs @ new \<and>
     map (\<lambda>ev. (ev_primary ev, ev_fallback ev)) new = take (length (takeWhile (fails req) llms)) (label_chain llms) \<and>
     list_all (\<lambda>ev. py_len (ev_error ev) \<le> 200 \<and> ev_recorded_at ev = now) new"
proof (induction now req llms evs rule: try_adapters.induct)
  case (2 now req a rest evs)
  obtain chunks ending where s: "ad_stream a req = (chunks, ending)" by fastforce
  show ?case
  proof (cases "fails req a")
    case True
    then obtain e where e: "ending = ErrorRaised e" using s by (auto simp: fails_def split: adapter_end.splits)
    let ?ev = "failover_event now a e rest"
    have ev: "py_len (ev_error ?ev) \<le> 200 \<and> ev_recorded_at ?ev = now" "ev_primary ?ev = adapter_label a"
      "ev_fallback ?ev = (case rest of [] \<Rightarrow> None | b # _ \<Rightarrow> Some (adapter_label b))"
      by (simp_all add: failover_event_def py_len_take)
    show ?thesis
    proof (cases rest)
      case Nil
      with True s e ev show ?thesis by (intro exI [of _ "[?ev]"]) (simp add: Let_def)
    next
      case (Cons b bs)
      obtain out evs2 where t: "try_adapters now req rest (evs @ [?ev]) = (out, evs2)" by fastforce
      with "2.IH" [of chunks ending e "evs @ [?ev]"] s e Cons obtain new where
        new: "evs2 = evs @ ?ev # new"
        "map (\<lambda>ev. (ev_primary ev, ev_fallback ev)) new = take (length (takeWhile (fails req) rest)) (label_chain rest)"
        "list_all (\<lambda>ev. py_len (ev_error ev) \<le> 200 \<and> ev_recorded_at ev = now) new" by auto
      have "snd (try_adapters now req (a # rest) evs) = evs2"
      proof -
        have "rest \<noteq> []" using Cons by simp
        with s e t show ?thesis by (cases out) (simp add: Let_def)
      qed
      moreover have "label_chain (a # rest) = (adapter_label a, Some (adapter_label b)) # label_chain rest"
        using Cons by simp
      ultimately show ?thesis using new True ev Cons by (intro exI [of _ "?ev # new"]) simp
    qed
  next
    case False
    with s show ?thesis by (cases ending) (auto simp: fails_def)
  qed
qed simp

text \<open>
  The chain tries its providers in order and keeps an honest record. On any request it
  streams from each provider that fails, up to and including the first that does not (or the
  last one), and ends the way that last attempt ended, so an overflow or a fatal exception is
  never swallowed; it appends exactly one event per failed attempt, naming the provider that
  failed and the next one (none when the chain is exhausted), with at most 200 characters of
  the error, and leaves older events and the chain itself alone.
\<close>

theorem failover_account:
  assumes "chain_llms c \<noteq> []"
  shows "let tried = attempts req (chain_llms c) in
    fst (chain_stream now req c) =
      (concat (map (\<lambda>a. fst (ad_stream a req)) tried), snd (ad_stream (last tried) req)) \<and>
    list_all (fails req) (butlast tried) \<and>
    chain_llms (snd (chain_stream now req c)) = chain_llms c \<and>
    (\<exists>new. chain_events (snd (chain_stream now req c)) = chain_events c @ new \<and>
       map (\<lambda>ev. (ev_primary ev, ev_fallback ev)) new =
         take (length (takeWhile (fails req) (chain_llms c))) (label_chain (chain_llms c)) \<and>
       list_all (\<lambda>ev. py_len (ev_error ev) \<le> 200 \<and> ev_recorded_at ev = now) new)"
proof -
  obtain out evs where t: "try_adapters now req (chain_llms c) (chain_events c) = (out, evs)" by fastforce
  with try_adapters_out [OF assms, of now req "chain_events c"] attempts_butlast [of req "chain_llms c"]
    try_adapters_events [of now req "chain_llms c" "chain_events c"]
  show ?thesis by (simp add: chain_stream_def Let_def)
qed


definition text_chunk :: "py_str \<Rightarrow> StreamChunk" where
  "text_chunk t = \<lparr>delta_text = t, tool_call_delta = None, chunk_finish = None, chunk_usage = None\<rparr>"

definition limited :: provider_exc where
  "limited = \<lparr>exc_attrs = [(''status_code'', PyInt 429)], exc_response = None, exc_body = PyNone, exc_str = ''slow down''\<rparr>"

definition flaky :: "unit adapter" where
  "flaky = \<lparr>ad_name = ''openai'', ad_model = ''gpt-4o'', ad_budget = 8000,
     ad_stream = (\<lambda>_. ([text_chunk ''Hel''], ErrorRaised limited))\<rparr>"

definition steady :: "unit adapter" where
  "steady = \<lparr>ad_name = ''anthropic'', ad_model = ''claude'', ad_budget = 8000,
     ad_stream = (\<lambda>_. ([text_chunk ''Hello''], StreamDone))\<rparr>"

definition demo_chain :: "unit failover_chain" where
  "demo_chain = \<lparr>chain_llms = [flaky, steady], chain_events = []\<rparr>"

theorem failover_account_witness:
  "snd (fst (chain_stream 1 () demo_chain)) = StreamDone \<and>
   map (\<lambda>ev. (ev_primary ev, ev_fallback ev)) (chain_events (snd (chain_stream 1 () demo_chain))) =
     [(''openai/gpt-4o'', Some ''anthropic/claude'')]"
proof -
  have c: "chain_llms demo_chain = [flaky, steady]" "chain_events demo_chain = []" by (simp_all add: demo_chain_def)
  have f: "fails () flaky" "\<not> fails () steady" by (simp_all add: fails_def flaky_def steady_def)
  have "attempts () [flaky, steady] = [flaky, steady]" by (simp add: attempts_def f)
  moreover have "label_chain [flaky, steady] = [(''openai/gpt-4o'', Some ''anthropic/claude''), (''anthropic/claude'', None)]"
    by (simp add: adapter_label_def flaky_def steady_def)
  ultimately show ?thesis
    using failover_account [of demo_chain "()" 1] f by (auto simp: c Let_def) (simp add: steady_def)
qed

text \<open>The chunks of a provider that fails midway have already been handed out when the next one
  starts over, so the reader sees its text twice.\<close>

lemma failover_repeats_text:
  "map delta_text (fst (fst (chain_stream 1 () demo_chain))) = [''Hel'', ''Hello'']"
  by (simp add: chain_stream_def demo_chain_def flaky_def steady_def text_chunk_def Let_def)


section \<open>The bandit\<close>

text \<open>An arm is a profile and a task kind with the two parameters of its Beta distribution.\<close>

type_synonym arm_key = "py_str \<times> py_str"

type_synonym arms = "(arm_key, py_float \<times> py_float) py_dict"

definition reward_signal :: "bool \<Rightarrow> int \<Rightarrow> py_float \<Rightarrow> int \<Rightarrow> py_float \<Rightarrow> py_float" where
  "reward_signal success latency_ms cost_usd latency_budget cost_budget =
     (if \<not> success then 0 else if latency_budget < latency_ms then 0 else if cost_budget < cost_usd then 0 else 1)"

definition arm_of :: "arms \<Rightarrow> arm_key \<Rightarrow> py_float \<times> py_float" where
  "arm_of arms k = dict_get_or arms k (1, 1)"

text \<open>\<open>_arm\<close> creates a missing arm.\<close>

definition touch_arm :: "arm_key \<Rightarrow> arms \<Rightarrow> arms" where
  "touch_arm k arms = (case dict_get arms k of None \<Rightarrow> dict_set k (1, 1) arms | Some e \<Rightarrow> arms)"

definition bump_arm :: "arm_key \<Rightarrow> py_float \<Rightarrow> py_float \<Rightarrow> arms \<Rightarrow> arms" where
  "bump_arm k da db arms = (case arm_of arms k of (a, b) \<Rightarrow> dict_set k (a + da, b + db) (touch_arm k arms))"

datatype bandit_error = NoProfiles | BadReward py_float

definition bandit_update :: "py_str \<Rightarrow> py_str \<Rightarrow> py_float \<Rightarrow> arms \<Rightarrow> (bandit_error, arms) py_result" where
  "bandit_update profile kind reward arms =
     (if 0 \<le> reward \<and> reward \<le> 1 then Inr (bump_arm (profile, kind) reward (1 - reward) arms) else Inl (BadReward reward))"

definition bandit_mean :: "py_str \<Rightarrow> py_str \<Rightarrow> arms \<Rightarrow> py_float" where
  "bandit_mean profile kind arms = (case arm_of arms (profile, kind) of (a, b) \<Rightarrow> a / (a + b))"

text \<open>\<open>draw i a b\<close> is the \<open>i\<close>-th sample of the generator, taken from Beta(a, b).\<close>

fun sample_arms ::
  "(nat \<Rightarrow> py_float \<Rightarrow> py_float \<Rightarrow> py_float) \<Rightarrow> nat \<Rightarrow> py_str \<Rightarrow> py_str list \<Rightarrow> py_str \<times> py_float \<Rightarrow> arms \<Rightarrow> py_str \<times> arms"
where
  "sample_arms draw i kind [] (best, best_sample) arms = (best, arms)"
| "sample_arms draw i kind (p # ps) (best, best_sample) arms =
     (let sample = (case arm_of arms (p, kind) of (a, b) \<Rightarrow> draw i a b)
      in sample_arms draw (Suc i) kind ps
           (if best_sample < sample then (p, sample) else (best, best_sample)) (touch_arm (p, kind) arms))"

definition bandit_pick ::
  "(nat \<Rightarrow> py_float \<Rightarrow> py_float \<Rightarrow> py_float) \<Rightarrow> py_str \<Rightarrow> py_str list \<Rightarrow> arms \<Rightarrow> (bandit_error, py_str \<times> arms) py_result"
where
  "bandit_pick draw kind profiles arms =
     (case profiles of
        [] \<Rightarrow> Inl NoProfiles
      | [p] \<Rightarrow> Inr (p, arms)
      | p # _ \<Rightarrow> Inr (sample_arms draw 0 kind profiles (p, - 1) arms))"

definition seed_row :: "(py_str, py_str) py_dict \<Rightarrow> p50_row \<Rightarrow> arms \<times> nat \<Rightarrow> arms \<times> nat" where
  "seed_row profile_of r st =
     (case dict_get profile_of (p50_model r) of
        None \<Rightarrow> st
      | Some p \<Rightarrow>
          (let n_ok = py_round (of_nat (p50_n r) * p50_success_pct r / 100); n_fail = int (p50_n r) - n_ok
           in (bump_arm (p, p50_task_kind r) (of_int n_ok) (of_int n_fail) (fst st), snd st + 1)))"

definition seed_from_stats :: "(py_str, py_str) py_dict \<Rightarrow> router_db \<Rightarrow> arms \<Rightarrow> nat \<times> arms" where
  "seed_from_stats profile_models db arms =
     (let profile_of = fold (\<lambda>(p, m). dict_set m p) profile_models [];
          st = fold (seed_row profile_of) (p50_table db) (arms, 0)
      in (snd st, fst st))"

definition best_profile :: "py_str \<Rightarrow> py_str list \<Rightarrow> arms \<Rightarrow> (bandit_error, py_str \<times> arms) py_result" where
  "best_profile kind profiles arms =
     (case profiles of
        [] \<Rightarrow> Inl NoProfiles
      | p # ps \<Rightarrow>
          Inr (foldl (\<lambda>b q. if bandit_mean b kind arms < bandit_mean q kind arms then q else b) p ps,
               fold (\<lambda>q. touch_arm (q, kind)) profiles arms))"

lemma arm_of_touch [simp]: "arm_of (touch_arm j arms) k = arm_of arms k"
  by (simp add: arm_of_def touch_arm_def dict_get_or_def split: option.split)

lemma arm_of_bump [simp]:
  "arm_of (bump_arm j da db arms) k = (if k = j then (fst (arm_of arms j) + da, snd (arm_of arms j) + db) else arm_of arms k)"
  by (cases "arm_of arms j") (simp add: bump_arm_def arm_of_def touch_arm_def split: option.split)

text \<open>A session of the bandit: rewards observed for profiles and task kinds.\<close>

fun observe_all :: "(arm_key \<times> py_float) list \<Rightarrow> arms \<Rightarrow> (bandit_error, arms) py_result" where
  "observe_all [] arms = Inr arms"
| "observe_all (((p, k), r) # obs) arms = rbind (bandit_update p k r arms) (observe_all obs)"

lemma observe_all_arm:
  "observe_all obs arms = Inr arms' \<Longrightarrow>
     arm_of arms' k = (fst (arm_of arms k) + sum_list (map snd (filter (\<lambda>o'. fst o' = k) obs)),
       snd (arm_of arms k) + (real (length (filter (\<lambda>o'. fst o' = k) obs)) - sum_list (map snd (filter (\<lambda>o'. fst o' = k) obs))))
     \<and> list_all (\<lambda>o'. 0 \<le> snd o' \<and> snd o' \<le> 1) obs"
proof (induction obs arms rule: observe_all.induct)
  case (2 p j r obs arms)
  then obtain arms1 where "bandit_update p j r arms = Inr arms1" "observe_all obs arms1 = Inr arms'"
    by (auto simp: rbind_eq_Inr)
  with "2.IH" [of arms1] show ?case by (auto simp: bandit_update_def algebra_simps split: if_splits)
qed simp

text \<open>
  The bandit's beliefs are the counts. Starting from the uniform prior, after any series of
  observed rewards the mean of an arm is (1 + its rewards) / (2 + its observations), strictly
  between 0 and 1; no other arm's rewards count.
\<close>

theorem bandit_posterior:
  assumes "observe_all obs [] = Inr arms"
  shows "let mine = filter (\<lambda>o'. fst o' = (p, k)) obs in
    bandit_mean p k arms = (1 + sum_list (map snd mine)) / (2 + real (length mine)) \<and>
    0 < bandit_mean p k arms \<and> bandit_mean p k arms < 1"
proof -
  let ?mine = "filter (\<lambda>o'. fst o' = (p, k)) obs"
  have arm: "arm_of arms (p, k) = (1 + sum_list (map snd ?mine), 1 + (real (length ?mine) - sum_list (map snd ?mine)))"
    and r: "list_all (\<lambda>o'. 0 \<le> snd o' \<and> snd o' \<le> 1) obs"
    using observe_all_arm [OF assms, of "(p, k)"] by (simp_all add: arm_of_def dict_get_or_def)
  have "0 \<le> sum_list (map snd (filter P obs)) \<and> sum_list (map snd (filter P obs)) \<le> real (length (filter P obs))" for P
    using r by (induction obs) auto
  from this [of "\<lambda>o'. fst o' = (p, k)"] arm show ?thesis
    by (simp add: bandit_mean_def Let_def add.assoc divide_less_eq_1 add_pos_nonneg)
qed

theorem bandit_posterior_witness:
  "\<exists>arms. observe_all [((''cheap'', ''chat''), 1), ((''cheap'', ''chat''), 0), ((''big'', ''chat''), 1)] [] = Inr arms \<and>
     bandit_mean ''cheap'' ''chat'' arms = 1/2"
proof -
  obtain arms where o: "observe_all [((''cheap'', ''chat''), 1), ((''cheap'', ''chat''), 0), ((''big'', ''chat''), 1)] [] = Inr arms"
    by (simp add: bandit_update_def)
  from bandit_posterior [OF o, of "''cheap''" "''chat''"] o show ?thesis by (simp add: Let_def)
qed

text \<open>Picking returns an offered profile with the greatest draw and leaves every belief alone.\<close>

lemma sample_arms_arm: "arm_of (snd (sample_arms draw i kind ps b arms)) k = arm_of arms k"
  by (induction draw i kind ps b arms rule: sample_arms.induct) (simp_all add: Let_def)

lemma pick_keeps_beliefs: "bandit_pick draw kind ps arms = Inr (p, arms') \<Longrightarrow> arm_of arms' k = arm_of arms k"
  using sample_arms_arm [of draw 0 kind ps "(hd ps, - 1)" arms k]
  by (auto simp: bandit_pick_def split: list.splits)

text \<open>Seeding counts the recorded calls.\<close>

lemma sum_filter_keys:
  assumes "finite K" "key ` set rows \<subseteq> K"
  shows "(\<Sum>k\<in>K. length (filter (\<lambda>r. key r = k \<and> R r) rows)) = length (filter R rows)"
  using assms(2)
proof (induction rows)
  case (Cons r rows)
  have "(\<Sum>k\<in>K. length (filter (\<lambda>r. key r = k \<and> R r) (r # rows))) =
      (\<Sum>k\<in>K. (if key r = k then (if R r then 1 else 0) else 0) + length (filter (\<lambda>r. key r = k \<and> R r) rows))"
    by (rule sum.cong) auto
  also have "\<dots> = (\<Sum>k\<in>K. if key r = k then (if R r then 1 else 0) else 0) + length (filter R rows)"
    using Cons by (simp add: sum.distrib)
  also have "(\<Sum>k\<in>K. if key r = k then (if R r then 1 else 0) else 0) = (if R r then 1 else (0::nat))"
    using Cons.prems assms(1) by simp
  finally show ?case by simp
qed simp

lemma sorted_groups_count:
  "sum_list (map (\<lambda>(k, g). if P k then length (filter Q g) else 0) (sorted_groups key rows)) =
     length (filter (\<lambda>r. P (key r) \<and> Q r) rows)"
proof -
  let ?gs = "sorted_groups key rows" and ?f = "\<lambda>(k, g). if P k then length (filter Q g) else (0::nat)"
  have d: "distinct ?gs" "inj_on fst (set ?gs)" using sorted_groups_keys(2) [of key rows] by (simp_all add: distinct_map)
  have "k \<in> fst ` set ?gs \<longleftrightarrow> k \<in> key ` set rows" for k
    by (simp only: image_iff Bex_def split_paired_Ex sorted_groups_set fst_conv) blast
  then have keys: "fst ` set ?gs = key ` set rows" by (rule set_eqI)
  have "sum_list (map ?f ?gs) = (\<Sum>kg\<in>set ?gs. ?f kg)" using d(1) by (simp add: sum_list_distinct_conv_sum_set)
  also have "\<dots> = (\<Sum>kg\<in>set ?gs. length (filter (\<lambda>r. key r = fst kg \<and> (P (key r) \<and> Q r)) rows))"
  proof (rule sum.cong [OF refl])
    fix kg assume m: "kg \<in> set ?gs"
    obtain k g where kg: "kg = (k, g)" by (cases kg)
    have "g = filter (\<lambda>r. key r = k) rows" using m kg by (simp add: sorted_groups_set)
    then show "?f kg = length (filter (\<lambda>r. key r = fst kg \<and> (P (key r) \<and> Q r)) rows)"
      using kg by (auto simp: conj_commute intro!: arg_cong [of _ _ length] filter_cong)
  qed
  also have "\<dots> = (\<Sum>k\<in>key ` set rows. length (filter (\<lambda>r. key r = k \<and> (P (key r) \<and> Q r)) rows))"
    using d(2) by (simp add: sum.reindex keys [symmetric])
  also have "\<dots> = length (filter (\<lambda>r. P (key r) \<and> Q r) rows)" by (rule sum_filter_keys) simp_all
  finally show ?thesis .
qed

definition row_counts :: "(py_str, py_str) py_dict \<Rightarrow> arm_key \<Rightarrow> p50_row \<Rightarrow> bool" where
  "row_counts profile_of k r \<longleftrightarrow> dict_get profile_of (p50_model r) = Some (fst k) \<and> p50_task_kind r = snd k"

definition n_ok_of :: "p50_row \<Rightarrow> int" where
  "n_ok_of r = py_round (of_nat (p50_n r) * p50_success_pct r / 100)"

lemma seed_rows_arm:
  "arm_of (fst (fold (seed_row profile_of) rows (arms, n))) k =
     (fst (arm_of arms k) + of_int (\<Sum>r\<leftarrow>filter (row_counts profile_of k) rows. n_ok_of r),
      snd (arm_of arms k) + of_int (\<Sum>r\<leftarrow>filter (row_counts profile_of k) rows. int (p50_n r) - n_ok_of r))"
proof (induction rows arbitrary: arms n)
  case (Cons r rows)
  have "fst (seed_row profile_of r (arms, n)) =
      (case dict_get profile_of (p50_model r) of None \<Rightarrow> arms
       | Some p \<Rightarrow> bump_arm (p, p50_task_kind r) (of_int (n_ok_of r)) (of_int (int (p50_n r) - n_ok_of r)) arms)"
    by (simp add: seed_row_def n_ok_of_def Let_def split: option.split)
  moreover obtain arms1 n1 where one: "seed_row profile_of r (arms, n) = (arms1, n1)" by fastforce
  ultimately show ?case using Cons.IH [of arms1 n1]
    by (cases k) (auto simp: row_counts_def add.assoc split: option.splits simp del: map_of_eq_Some_iff)
qed simp

lemma n_ok_of_p50 [simp]: "n_ok_of (p50_of (j, g)) = int (length (filter rc_success g))"
  using py_round_of_nat [of 0] by (cases j; cases "g = []") (simp_all add: n_ok_of_def p50_of_def)

lemma p50_of_fields [simp]: "p50_n (p50_of (j, g)) = length g"
    "row_counts profile_of k (p50_of (j, g)) \<longleftrightarrow> dict_get profile_of (fst (snd j)) = Some (fst k) \<and> snd (snd j) = snd k"
  by (cases j; simp add: row_counts_def p50_of_def)+

text \<open>The recorded calls an arm stands for.\<close>

definition arm_calls :: "(py_str, py_str) py_dict \<Rightarrow> arm_key \<Rightarrow> router_db \<Rightarrow> router_call list" where
  "arm_calls profile_models k db =
     (case db of None \<Rightarrow> [] | Some rows \<Rightarrow>
        filter (\<lambda>c. dict_get (fold (\<lambda>(p, m). dict_set m p) profile_models []) (rc_model c) = Some (fst k) \<and>
          rc_task_kind c = snd k) rows)"

lemma p50_filtered_sum:
  assumes h: "\<And>j g. h (p50_of (j, g)) = int (length (filter Q g))"
  shows "(\<Sum>r\<leftarrow>filter (row_counts po k) (map p50_of gs). h r) =
    int (\<Sum>kg\<leftarrow>gs. (\<lambda>(j, g). if dict_get po (fst (snd j)) = Some (fst k) \<and> snd (snd j) = snd k
      then length (filter Q g) else 0) kg)"
proof (induction gs)
  case (Cons kg gs)
  then show ?case by (cases kg) (simp add: h del: map_of_eq_Some_iff)
qed simp

lemma p50_rows_sum:
  fixes Q :: "router_call \<Rightarrow> bool"
  assumes h: "\<And>j g. h (p50_of (j, g)) = int (length (filter Q g))"
  shows "(\<Sum>r\<leftarrow>filter (row_counts (fold (\<lambda>(p, m). dict_set m p) pm []) k) (p50_table db). h r) =
    int (length (filter Q (arm_calls pm k db)))"
proof (cases db)
  case None then show ?thesis by (simp add: p50_table_def arm_calls_def)
next
  case (Some rows)
  let ?po = "fold (\<lambda>(p, m). dict_set m p) pm []" and ?sorted = "sort_key (\<lambda>r. (call_key r, rc_latency_ms r)) rows"
  let ?P = "\<lambda>j. dict_get ?po (fst (snd j)) = Some (fst k) \<and> snd (snd j) = snd k"
  let ?gs = "sorted_groups call_key ?sorted"
  have "(\<Sum>r\<leftarrow>filter (row_counts ?po k) (p50_table db). h r) =
      int (\<Sum>kg\<leftarrow>?gs. (\<lambda>(j, g). if ?P j then length (filter Q g) else 0) kg)"
    unfolding Some p50_table_def option.case by (rule p50_filtered_sum [OF h])
  also have "\<dots> = int (length (filter (\<lambda>c. ?P (call_key c) \<and> Q c) ?sorted))"
    by (simp only: sorted_groups_count)
  also have "length (filter (\<lambda>c. ?P (call_key c) \<and> Q c) ?sorted) = length (filter (\<lambda>c. ?P (call_key c) \<and> Q c) rows)"
    by (simp add: filter_sort)
  finally show ?thesis
    by (simp add: arm_calls_def Some call_key_def conj_commute conj_left_commute del: map_of_eq_Some_iff)
qed

text \<open>
  Seeding counts the recorded calls. From an empty bandit, after \<open>seed_from_stats\<close> the belief
  about every arm is one plus the number of its successful recorded calls against one plus the
  number of its failed ones: the percentage column the statistics table keeps loses nothing, and
  the calls of every provider that serves the profile's model are pooled.
\<close>

theorem seed_from_stats_counts:
  "arm_of (snd (seed_from_stats profile_models db [])) k =
     (1 + real (length (filter rc_success (arm_calls profile_models k db))),
      1 + real (length (filter (\<lambda>c. \<not> rc_success c) (arm_calls profile_models k db))))"
proof -
  let ?po = "fold (\<lambda>(p, m). dict_set m p) profile_models []"
  have ok: "(\<Sum>r\<leftarrow>filter (row_counts ?po k) (p50_table db). n_ok_of r) = int (length (filter rc_success (arm_calls profile_models k db)))"
    by (rule p50_rows_sum) simp
  have "int (length g) - int (length (filter rc_success g)) = int (length (filter (\<lambda>c. \<not> rc_success c) g))" for g
    using sum_length_filter_compl [of rc_success g] by linarith
  then have failed: "(\<Sum>r\<leftarrow>filter (row_counts ?po k) (p50_table db). int (p50_n r) - n_ok_of r) =
      int (length (filter (\<lambda>c. \<not> rc_success c) (arm_calls profile_models k db)))"
    by (intro p50_rows_sum) simp
  show ?thesis
    by (simp only: seed_from_stats_def Let_def snd_conv seed_rows_arm ok failed of_int_of_nat_eq)
      (simp add: arm_of_def dict_get_or_def)
qed

end
