(* ===== verification/Gateway_Router.thy ===== *)
theory Gateway_Router
  imports Identity_Store Llm_Routing Skill_Registry
begin

text \<open>
  The gateway (\<open>sera/gateway/router.py\<close> and the request handler of \<open>sera/gateway/server.py\<close>):
  an inbound event passes the cost check, the bandit picks a profile, the session is resolved,
  the skills are reloaded, one agent turn runs, and the outcome is fed back to the bandit.
  \<open>dispatch\<close> composes the cost enforcer, the bandit, the session store, the skill registry and
  \<open>run_turn\<close>. Hooks, the provider behind a profile, the random draws and the rendering of
  messages and exceptions are arguments.
\<close>


section \<open>Events\<close>

record InboundEvent =
  ev_platform :: py_str
  ev_user_id :: py_str
  ev_channel_id :: py_str
  ev_text :: py_str
  ev_metadata :: "(py_str, py_value) py_dict"

definition task_kind_of :: "(py_value \<Rightarrow> py_str) \<Rightarrow> InboundEvent \<Rightarrow> py_str" where
  "task_kind_of render e =
     (case dict_get (ev_metadata e) ''task_kind'' of
        Some v \<Rightarrow> render v
      | None \<Rightarrow> if starts_with (ev_text e) ''/'' then ''command'' else ''chat'')"

record OutboundResponse =
  or_ok :: bool
  or_text :: py_str
  or_profile :: "py_str option"
  or_latency_ms :: int
  or_blocked :: bool
  or_error :: "py_str option"


section \<open>The router\<close>

record 'w router_env =
  re_profiles :: "py_str list"
  re_factory :: "py_str \<Rightarrow> (py_str, 'w env) py_result"
  re_max_iterations :: int
  re_latency_budget :: int
  re_cost_budget :: py_float
  re_on_inbound :: "(InboundEvent \<Rightarrow> 'w \<Rightarrow> 'w) option"
  re_on_response :: "(InboundEvent \<Rightarrow> OutboundResponse \<Rightarrow> 'w \<Rightarrow> 'w) option"
  re_resolver :: "(InboundEvent \<Rightarrow> gateway_db \<Rightarrow> Session option \<times> gateway_db) option"
  re_workspace :: py_str
  re_enforce :: bool
  re_day_total :: "'w \<Rightarrow> py_float"
  re_fresh_sid :: "'w \<Rightarrow> py_str"
  re_time :: "'w \<Rightarrow> py_float"
  re_elapsed_ms :: "'w \<Rightarrow> 'w \<Rightarrow> int"
  re_draw :: "'w \<Rightarrow> nat \<Rightarrow> py_float \<Rightarrow> py_float \<Rightarrow> py_float"
  re_yaml :: "py_str \<Rightarrow> (py_exc, py_value) py_result"
  re_str :: "py_value \<Rightarrow> py_str"
  re_skill_clock :: "py_str \<Rightarrow> py_float"
  re_skills_dir :: "'w \<Rightarrow> skills_dir option"
  re_sha :: "py_str \<Rightarrow> py_str"
  re_distill :: "distiller option"
  re_system :: py_str
  re_show_cost :: "cost_message option \<Rightarrow> py_str"
  re_describe :: "turn_result \<Rightarrow> py_exc"

record 'w router_state =
  rs_arms :: "arms option"
  rs_n_handled :: nat
  rs_cost :: cost_state
  rs_dbs :: gateway_db
  rs_skills :: skill_registry
  rs_tool_calls :: "tool_call_row list"
  rs_cache :: distill_db
  rs_world :: 'w

text \<open>What can leave \<open>dispatch\<close> as an exception.\<close>

datatype dispatch_error = SkillReload skill_error | BadIterations budget_error | NoSession session_error | BanditRaised bandit_error

definition blocked_response :: "py_str \<Rightarrow> OutboundResponse" where
  "blocked_response t =
     \<lparr>or_ok = False, or_text = ''[gateway] '' @ t, or_profile = None, or_latency_ms = 0, or_blocked = True,
      or_error = Some ''budget_hard_cap''\<rparr>"

definition factory_response :: "py_str \<Rightarrow> py_str \<Rightarrow> OutboundResponse" where
  "factory_response profile e =
     \<lparr>or_ok = False, or_text = ''[gateway] llm_factory error: '' @ e, or_profile = Some profile, or_latency_ms = 0,
      or_blocked = False, or_error = Some e\<rparr>"

text \<open>The environment of a gateway turn: \<open>AutoApproveGate(allow=True)\<close> and the router's enforcer.\<close>

definition gateway_turn_env :: "'w router_env \<Rightarrow> 'w env \<Rightarrow> 'w env" where
  "gateway_turn_env R E = E\<lparr>gate := (\<lambda>_ w. (True, w)), enforce_cost := re_enforce R\<rparr>"

definition pick_profile :: "'w router_env \<Rightarrow> py_str \<Rightarrow> 'w router_state \<Rightarrow> (dispatch_error, py_str \<times> 'w router_state) py_result" where
  "pick_profile R kind st =
     (case rs_arms st of
        None \<Rightarrow> Inr (''default'', st)
      | Some arms \<Rightarrow>
          if re_profiles R = [] then Inr (''default'', st)
          else (case bandit_pick (re_draw R (rs_world st)) kind (re_profiles R) arms of
                  Inl e \<Rightarrow> Inl (BanditRaised e)
                | Inr (p, arms') \<Rightarrow> Inr (p, st\<lparr>rs_arms := Some arms'\<rparr>)))"

definition create_session :: "'w router_env \<Rightarrow> 'w router_state \<Rightarrow> (dispatch_error, Session \<times> 'w router_state) py_result" where
  "create_session R st =
     (case session_create (re_fresh_sid R (rs_world st)) (re_workspace R) [] (re_time R (rs_world st)) (snd (rs_dbs st)) of
        Inl e \<Rightarrow> Inl (NoSession e)
      | Inr (s, sdb) \<Rightarrow> Inr (s, st\<lparr>rs_dbs := (fst (rs_dbs st), sdb)\<rparr>))"

definition resolve_session :: "'w router_env \<Rightarrow> InboundEvent \<Rightarrow> 'w router_state \<Rightarrow> (dispatch_error, Session \<times> 'w router_state) py_result" where
  "resolve_session R e st =
     (case re_resolver R of
        None \<Rightarrow> create_session R st
      | Some f \<Rightarrow>
          (case f e (rs_dbs st) of
             (Some s, dbs) \<Rightarrow> Inr (s, st\<lparr>rs_dbs := dbs\<rparr>)
           | (None, dbs) \<Rightarrow> create_session R (st\<lparr>rs_dbs := dbs\<rparr>)))"

definition reload_skills :: "'w router_env \<Rightarrow> 'w router_state \<Rightarrow> (dispatch_error, 'w router_state) py_result" where
  "reload_skills R st =
     (case refresh (re_yaml R) (re_str R) (re_skill_clock R) (re_skills_dir R (rs_world st)) (rs_skills st) of
        (Inl e, reg) \<Rightarrow> Inl (SkillReload e)
      | (Inr _, reg) \<Rightarrow> Inr (st\<lparr>rs_skills := reg\<rparr>))"

text \<open>The turn inside its \<open>try\<close>: the result and what the shared state became.\<close>

definition gateway_turn ::
  "'w router_env \<Rightarrow> 'w env \<Rightarrow> IterationBudget \<Rightarrow> Session \<Rightarrow> py_str \<Rightarrow> 'w router_state \<Rightarrow> turn_result \<times> Session \<times> 'w router_state"
where
  "gateway_turn R E budget s t st =
     (case run_turn (gateway_turn_env R E) (re_sha R) (re_distill R) (re_system R) t
            \<lparr>t_session = s, t_db = snd (rs_dbs st), t_budget = budget, t_cost = rs_cost st,
             t_disp = \<lparr>disp_registry = tool_registry (rs_skills st), tool_calls = rs_tool_calls st\<rparr>, t_sink = [],
             t_world = rs_world st, t_final = [], t_trace = []\<rparr> (rs_cache st) of
        (res, ts, cache) \<Rightarrow>
          (res, t_session ts,
           st\<lparr>rs_dbs := (fst (rs_dbs st), t_db ts), rs_cost := t_cost ts,
              rs_skills := (rs_skills st)\<lparr>tool_registry := disp_registry (t_disp ts)\<rparr>,
              rs_tool_calls := Tool_Layer.tool_calls (t_disp ts), rs_cache := cache, rs_world := t_world ts\<rparr>))"

definition turn_response :: "'w router_env \<Rightarrow> py_str \<Rightarrow> int \<Rightarrow> turn_result \<Rightarrow> OutboundResponse" where
  "turn_response R profile latency_ms res =
     (let r = (\<lambda>ok t err. \<lparr>or_ok = ok, or_text = t, or_profile = Some profile, or_latency_ms = latency_ms,
                 or_blocked = False, or_error = err\<rparr>)
      in case res of
           Answer t \<Rightarrow> r True t None
         | CachedAnswer t \<Rightarrow> r True t None
         | Aborted (TurnBlockedByCost m) \<Rightarrow> r False (''[gateway] '' @ re_show_cost R m) (Some ''budget_hard_cap'')
         | other \<Rightarrow>
             (let e = re_describe R other
              in r False (''[gateway] turn failed: '' @ exc_type e @ '': '' @ exc_text e) (Some (exc_text e))))"

definition learn :: "'w router_env \<Rightarrow> py_str \<Rightarrow> py_str \<Rightarrow> py_float \<Rightarrow> 'w router_state \<Rightarrow> (dispatch_error, 'w router_state) py_result" where
  "learn R profile kind reward st =
     (case rs_arms st of
        None \<Rightarrow> Inr st
      | Some arms \<Rightarrow>
          if re_profiles R = [] then Inr st
          else (case bandit_update profile kind reward arms of
                  Inl e \<Rightarrow> Inl (BanditRaised e)
                | Inr arms' \<Rightarrow> Inr (st\<lparr>rs_arms := Some arms'\<rparr>)))"

text \<open>A failing hook is logged and changes nothing the router looks at.\<close>

definition inbound_hook :: "'w router_env \<Rightarrow> InboundEvent \<Rightarrow> 'w router_state \<Rightarrow> 'w router_state" where
  "inbound_hook R e st = (case re_on_inbound R of None \<Rightarrow> st | Some f \<Rightarrow> st\<lparr>rs_world := f e (rs_world st)\<rparr>)"

definition response_hook :: "'w router_env \<Rightarrow> InboundEvent \<Rightarrow> OutboundResponse \<Rightarrow> 'w router_state \<Rightarrow> 'w router_state" where
  "response_hook R e r st = (case re_on_response R of None \<Rightarrow> st | Some f \<Rightarrow> st\<lparr>rs_world := f e r (rs_world st)\<rparr>)"

definition reward_of :: "'w router_env \<Rightarrow> OutboundResponse \<Rightarrow> Session \<Rightarrow> py_float" where
  "reward_of R r s = reward_signal (or_ok r) (or_latency_ms r) (last_turn_cost_usd s) (re_latency_budget R) (re_cost_budget R)"

definition dispatch_with ::
  "'w router_env \<Rightarrow> InboundEvent \<Rightarrow> py_str \<Rightarrow> py_str \<Rightarrow> 'w env \<Rightarrow> 'w router_state \<Rightarrow>
   (dispatch_error, OutboundResponse \<times> 'w router_state) py_result"
where
  "dispatch_with R e kind profile E st =
     rbind (resolve_session R e st) (\<lambda>(s, st1).
     rbind (reload_skills R st1) (\<lambda>st2.
       case budget_of (re_max_iterations R) of
         Inl err \<Rightarrow> Inl (BadIterations err)
       | Inr budget \<Rightarrow>
           (case gateway_turn R E budget s (ev_text e) st2 of
              (res, s', st3) \<Rightarrow>
                (let r = turn_response R profile (re_elapsed_ms R (rs_world st2) (rs_world st3)) res
                 in rbind (learn R profile kind (reward_of R r s') st3) (\<lambda>st4. Inr (r, response_hook R e r st4))))))"

definition dispatch :: "'w router_env \<Rightarrow> InboundEvent \<Rightarrow> 'w router_state \<Rightarrow> (dispatch_error, OutboundResponse \<times> 'w router_state) py_result" where
  "dispatch R e st0 =
     (let st = inbound_hook R e (st0\<lparr>rs_n_handled := Suc (rs_n_handled st0)\<rparr>);
          kind = task_kind_of (re_str R) e;
          chk = check kind (re_day_total R (rs_world st)) (enforcer (rs_cost st))
      in if re_enforce R \<and> blocked chk then Inr (blocked_response (re_show_cost R (check_message chk)), st)
         else rbind (pick_profile R kind st) (\<lambda>(profile, st1).
           case re_factory R profile of
             Inl err \<Rightarrow> Inr (factory_response profile err, st1)
           | Inr E \<Rightarrow> dispatch_with R e kind profile E st1))"

text \<open>\<open>serve\<close>: events until the first \<open>None\<close> or the maximum; an exception of \<open>dispatch\<close> ends it.\<close>

fun serve ::
  "'w router_env \<Rightarrow> nat option \<Rightarrow> InboundEvent option list \<Rightarrow> nat \<Rightarrow> 'w router_state \<Rightarrow> (dispatch_error, nat \<times> 'w router_state) py_result"
where
  "serve R max_events [] n st = Inr (n, st)"
| "serve R max_events (None # q) n st = Inr (n, st)"
| "serve R max_events (Some e # q) n st =
     rbind (dispatch R e st) (\<lambda>(r, st1).
       if (case max_events of None \<Rightarrow> False | Some m \<Rightarrow> m \<le> Suc n) then Inr (Suc n, st1)
       else serve R max_events q (Suc n) st1)"


section \<open>A turn keeps the conversation\<close>

lemma turn_loop_grows: "\<exists>new. msgs (t_session (snd (turn_loop E frozen st))) = msgs (t_session st) @ new"
proof (rule loop_induct [where P = "\<lambda>st e st'. \<exists>new. msgs (t_session st') = msgs (t_session st) @ new"])
  fix st st' :: "'a turn_state" and e assume "iteration E frozen st = Ended e st'"
  then show "\<exists>new. msgs (t_session st') = msgs (t_session st) @ new" using iteration_ended by (fastforce simp: grew_def)
next
  fix st st1 st' :: "'a turn_state"
  assume "iteration E frozen st = Continue st1" "\<exists>new. msgs (t_session st') = msgs (t_session st1) @ new"
  then show "\<exists>new. msgs (t_session st') = msgs (t_session st) @ new"
    using iteration_continue [of E frozen st st1] by (auto simp: grew_def)
qed

lemma freeze_keeps_messages:
  "freeze_system_prompt sha i p db = Inr (frozen, db') \<Longrightarrow> stored_messages j db' = stored_messages j db"
  by (auto simp: freeze_system_prompt_def stored_messages_def update_session_def split: option.splits if_splits)

lemma run_turn_keeps:
  assumes "run_turn E sha D combined user st cache = (res, st', cache')" "Agent_Loop.in_sync st"
  shows "Agent_Loop.in_sync st' \<and> (case res of SetupFailed e \<Rightarrow> st' = st
    | _ \<Rightarrow> \<exists>new. msgs (t_session st') = msgs (t_session st) @ user_msg user # new)"
proof (cases "freeze_system_prompt sha (sid (t_session st)) combined (t_db st)")
  case (Inl e)
  with assms show ?thesis by (auto simp: run_turn_def)
next
  case (Inr fd)
  obtain frozen db where fd: "fd = (frozen, db)" by (cases fd)
  define st2 where "st2 = (append_message E (user_msg user) (st\<lparr>t_db := db\<rparr>))\<lparr>t_disp := (t_disp st)\<lparr>disp_registry :=
      ensure_discovered (builtins E) (disp_registry (t_disp st))\<rparr>, t_final := [], t_cost := (t_cost st)\<lparr>turn_cost := 0\<rparr>\<rparr>"
  have "Agent_Loop.in_sync (st\<lparr>t_db := db\<rparr>)" using assms(2) Inr fd freeze_keeps_messages by (auto simp: Agent_Loop.in_sync_def)
  then have "Agent_Loop.in_sync (append_message E (user_msg user) (st\<lparr>t_db := db\<rparr>))" by simp
  then have sync: "Agent_Loop.in_sync st2" by (simp add: Agent_Loop.in_sync_def st2_def)
  have m2: "msgs (t_session st2) = msgs (t_session st) @ [user_msg user]" by (simp add: st2_def)
  obtain e st3 where l: "turn_loop E frozen st2 = (e, st3)" by fastforce
  then have st3: "Agent_Loop.in_sync st3" "\<exists>new. msgs (t_session st3) = msgs (t_session st) @ user_msg user # new"
    using turn_loop_sync [of E frozen st2] turn_loop_grows [of E frozen st2] sync m2 by auto
  have "(\<exists>evs. t_db st' = t_db st2 \<and> t_session st' = (t_session st2)\<lparr>last_turn_cost_usd := 0\<rparr> \<and> (\<exists>r. res = CachedAnswer r)) \<or>
      (t_db st' = t_db st3 \<and> (\<exists>c. t_session st' = t_session st3 \<or> t_session st' = (t_session st3)\<lparr>last_turn_cost_usd := c\<rparr>) \<and>
       (\<forall>e. res \<noteq> SetupFailed e))"
    using assms(1) Inr fd l
    by (auto simp: run_turn_def Let_def st2_def split: option.splits prod.splits turn_end.splits)
  with sync st3 m2 show ?thesis by (auto simp: Agent_Loop.in_sync_def split: turn_result.split)
qed



definition demo_env :: "unit env" where
  "demo_env = \<lparr>builtins = [], llm_name = ''openai'', llm_model = ''gpt-4o'', context_budget = 8000,
     llm_stream = (\<lambda>_ _ _ w. (([], Complete), w)), gate = (\<lambda>_ w. (False, w)), interrupted = (\<lambda>_. True), clock = (\<lambda>_. 1),
     day_total = (\<lambda>_. 0), latency = (\<lambda>_. 0), stats_fail = (\<lambda>_. False), encoder = None, summariser = (\<lambda>_. []),
     juice = (\<lambda>t. t), dumps_args = (\<lambda>_. []), council_skills = [], council = (\<lambda>_. []), approval_threshold = DANGEROUS,
     target_ratio = 1, aggressive_ratio = 1, enforce_cost = False\<rparr>"

definition demo_router :: "unit router_env" where
  "demo_router = \<lparr>re_profiles = [''cheap''], re_factory = (\<lambda>_. Inr demo_env), re_max_iterations = 3, re_latency_budget = 1000,
     re_cost_budget = 1, re_on_inbound = None, re_on_response = None, re_resolver = None, re_workspace = ''/w'',
     re_enforce = False, re_day_total = (\<lambda>_. 0), re_fresh_sid = (\<lambda>_. ''s''), re_time = (\<lambda>_. 1), re_elapsed_ms = (\<lambda>_ _. 5),
     re_draw = (\<lambda>_ _ _ _. 0), re_yaml = (\<lambda>_. Inr PyNone), re_str = (\<lambda>_. []), re_skill_clock = (\<lambda>_. 1), re_skills_dir = (\<lambda>_. None),
     re_sha = (\<lambda>t. t), re_distill = None, re_system = ''be kind'', re_show_cost = (\<lambda>_. []),
     re_describe = (\<lambda>_. \<lparr>exc_type = ''Interrupted'', exc_text = ''stop''\<rparr>)\<rparr>"

definition demo_state :: "unit router_state" where
  "demo_state = \<lparr>rs_arms = Some [], rs_n_handled = 0,
     rs_cost = \<lparr>enforcer = new_enforcer \<lparr>session_soft_usd = 1, session_hard_usd = 2, day_soft_usd = 3, day_hard_usd = 4, skill_limits = []\<rparr> 0,
       router_rows = None, turn_cost = 0\<rparr>,
     rs_dbs = (no_identities, \<lparr>sessions = [], messages = []\<rparr>),
     rs_skills = \<lparr>tracked = [], tool_registry = empty_registry, lifecycle = None\<rparr>, rs_tool_calls = [], rs_cache = [], rs_world = ()\<rparr>"


section \<open>What the gateway learns\<close>

lemma sample_arms_best: "fst (sample_arms draw i kind ps b arms) \<in> insert (fst b) (set ps)"
  by (induction draw i kind ps b arms rule: sample_arms.induct) (auto simp: Let_def split: if_splits)

lemma bandit_pick_offered: "bandit_pick draw kind ps arms = Inr (p, arms') \<Longrightarrow> p \<in> set ps"
  using sample_arms_best [of draw 0 kind ps "(hd ps, - 1)" arms]
  by (auto simp: bandit_pick_def split: list.splits)

lemma resolve_arms: "resolve_session R e st = Inr (s, st') \<Longrightarrow> rs_arms st' = rs_arms st \<and> rs_n_handled st' = rs_n_handled st"
  by (auto simp: resolve_session_def create_session_def split: option.splits prod.splits sum.splits)

lemma reload_arms: "reload_skills R st = Inr st' \<Longrightarrow> rs_arms st' = rs_arms st \<and> rs_n_handled st' = rs_n_handled st"
  by (auto simp: reload_skills_def split: prod.splits sum.splits)

lemma turn_arms: "gateway_turn R E b s t st = (res, s', st') \<Longrightarrow> rs_arms st' = rs_arms st \<and> rs_n_handled st' = rs_n_handled st"
  by (auto simp: gateway_turn_def split: prod.splits)

lemma reward_cases: "reward_of R r s = 0 \<or> (reward_of R r s = 1 \<and> or_ok r \<and> or_latency_ms r \<le> re_latency_budget R)"
  by (simp add: reward_of_def reward_signal_def)

lemma turn_response_fields [simp]:
  "or_profile (turn_response R p l res) = Some p" "\<not> or_blocked (turn_response R p l res)"
  by (simp_all add: turn_response_def Let_def split: turn_result.split turn_end.split)

lemma hook_simps [simp]:
  "rs_arms (response_hook R e r st) = rs_arms st" "rs_n_handled (response_hook R e r st) = rs_n_handled st"
  "rs_arms (inbound_hook R e st) = rs_arms st" "rs_n_handled (inbound_hook R e st) = rs_n_handled st"
  "rs_cost (inbound_hook R e st) = rs_cost st" "rs_dbs (inbound_hook R e st) = rs_dbs st"
  by (simp_all add: response_hook_def inbound_hook_def split: option.split)

text \<open>One observation of an arm.\<close>

definition observed :: "arm_key \<Rightarrow> py_float \<Rightarrow> arms \<Rightarrow> arms \<Rightarrow> bool" where
  "observed k0 reward arms arms' \<longleftrightarrow>
     (\<forall>k. arm_of arms' k =
        (if k = k0 then (fst (arm_of arms k) + reward, snd (arm_of arms k) + (1 - reward)) else arm_of arms k))"

lemma dispatch_with_learns:
  assumes "dispatch_with R e kind profile E st = Inr (r, st')" "rs_arms st = Some arms" "re_profiles R \<noteq> []"
  obtains arms' reward where "rs_arms st' = Some arms'" "observed (profile, kind) reward arms arms'"
    "reward = 0 \<or> (reward = 1 \<and> or_ok r \<and> or_latency_ms r \<le> re_latency_budget R)"
    "or_profile r = Some profile" "\<not> or_blocked r" "rs_n_handled st' = rs_n_handled st"
proof -
  obtain s st1 st2 where b: "resolve_session R e st = Inr (s, st1)" "reload_skills R st1 = Inr st2"
    and rest: "(case budget_of (re_max_iterations R) of Inl err \<Rightarrow> Inl (BadIterations err)
       | Inr budget \<Rightarrow> (case gateway_turn R E budget s (ev_text e) st2 of (res, s', st3) \<Rightarrow>
           (let r = turn_response R profile (re_elapsed_ms R (rs_world st2) (rs_world st3)) res
            in rbind (learn R profile kind (reward_of R r s') st3) (\<lambda>st4. Inr (r, response_hook R e r st4))))) = Inr (r, st')"
    using assms(1) by (auto simp: dispatch_with_def rbind_eq_Inr)
  from rest obtain budget where budget: "budget_of (re_max_iterations R) = Inr budget" by (auto split: sum.splits)
  obtain res s' st3 where t: "gateway_turn R E budget s (ev_text e) st2 = (res, s', st3)"
    by (cases "gateway_turn R E budget s (ev_text e) st2")
  let ?r = "turn_response R profile (re_elapsed_ms R (rs_world st2) (rs_world st3)) res"
  have arms: "rs_arms st3 = Some arms" "rs_n_handled st3 = rs_n_handled st"
    using resolve_arms [OF b(1)] reload_arms [OF b(2)] turn_arms [OF t] assms(2) by simp_all
  from rest budget t obtain st4 where l: "learn R profile kind (reward_of R ?r s') st3 = Inr st4" "r = ?r" "st' = response_hook R e ?r st4"
    by (auto simp: Let_def rbind_eq_Inr)
  have rew: "reward_of R ?r s' = 0 \<or> (reward_of R ?r s' = 1 \<and> or_ok ?r \<and> or_latency_ms ?r \<le> re_latency_budget R)"
    by (rule reward_cases)
  then have u: "bandit_update profile kind (reward_of R ?r s') arms =
      Inr (bump_arm (profile, kind) (reward_of R ?r s') (1 - reward_of R ?r s') arms)"
    by (auto simp: bandit_update_def)
  have "rs_arms st' = Some (bump_arm (profile, kind) (reward_of R ?r s') (1 - reward_of R ?r s') arms)"
    and "rs_n_handled st' = rs_n_handled st3" using l assms(3) arms(1) u by (auto simp: learn_def)
  moreover have "observed (profile, kind) x arms (bump_arm (profile, kind) x (1 - x) arms)" for x by (simp add: observed_def)
  ultimately show thesis
  proof (intro that)
    show "or_profile r = Some profile" "\<not> or_blocked r" by (simp_all add: l(2))
    show "reward_of R ?r s' = 0 \<or> (reward_of R ?r s' = 1 \<and> or_ok r \<and> or_latency_ms r \<le> re_latency_budget R)"
      using rew by (simp only: l(2))
  qed (use arms(2) in simp_all)
qed

text \<open>
  C27: every turn teaches the bandit exactly once. Dispatching an event counts it; an event refused
  by the cost check teaches nothing, changes no session and costs nothing; one whose model
  cannot be built teaches nothing; any other adds exactly one observation, of an offered
  profile and the event's task kind, rewarded only if the turn succeeded in time, and no other
  belief changes.
\<close>

theorem dispatch_learns_once:
  assumes "dispatch R e st = Inr (r, st')" "rs_arms st = Some arms" "re_profiles R \<noteq> []"
  shows "rs_n_handled st' = Suc (rs_n_handled st) \<and>
    (or_blocked r \<longrightarrow> rs_arms st' = Some arms \<and> rs_cost st' = rs_cost st \<and> rs_dbs st' = rs_dbs st) \<and>
    (\<not> or_blocked r \<longrightarrow> (\<exists>p arms'. or_profile r = Some p \<and> p \<in> set (re_profiles R) \<and> rs_arms st' = Some arms' \<and>
       (case re_factory R p of
          Inl err \<Rightarrow> (\<forall>k. arm_of arms' k = arm_of arms k) \<and> \<not> or_ok r
        | Inr E \<Rightarrow> \<exists>reward. observed (p, task_kind_of (re_str R) e) reward arms arms' \<and>
            (reward = 0 \<or> (reward = 1 \<and> or_ok r \<and> or_latency_ms r \<le> re_latency_budget R)))))"
proof -
  define st1 where "st1 = inbound_hook R e (st\<lparr>rs_n_handled := Suc (rs_n_handled st)\<rparr>)"
  define kind where "kind = task_kind_of (re_str R) e"
  define chk where "chk = check kind (re_day_total R (rs_world st1)) (enforcer (rs_cost st1))"
  have s1: "rs_arms st1 = Some arms" "rs_n_handled st1 = Suc (rs_n_handled st)" "rs_cost st1 = rs_cost st" "rs_dbs st1 = rs_dbs st"
    using assms(2) by (simp_all add: st1_def)
  have d: "dispatch R e st = (if re_enforce R \<and> blocked chk then Inr (blocked_response (re_show_cost R (check_message chk)), st1)
      else rbind (pick_profile R kind st1) (\<lambda>(profile, st2). case re_factory R profile of
             Inl err \<Rightarrow> Inr (factory_response profile err, st2) | Inr E \<Rightarrow> dispatch_with R e kind profile E st2))"
    unfolding dispatch_def Let_def st1_def kind_def chk_def by (rule refl)
  show ?thesis
  proof (cases "re_enforce R \<and> blocked chk")
    case True
    with d assms(1) s1 show ?thesis by (auto simp: blocked_response_def)
  next
    case False
    with d assms(1) have "rbind (pick_profile R kind st1) (\<lambda>(profile, st2). case re_factory R profile of
        Inl err \<Rightarrow> Inr (factory_response profile err, st2) | Inr E \<Rightarrow> dispatch_with R e kind profile E st2) = Inr (r, st')"
      by simp
    then obtain p st2 where p: "pick_profile R kind st1 = Inr (p, st2)"
      and k: "(case re_factory R p of Inl err \<Rightarrow> Inr (factory_response p err, st2) | Inr E \<Rightarrow> dispatch_with R e kind p E st2) = Inr (r, st')"
      unfolding rbind_eq_Inr by auto
    from p s1 assms(3) obtain arms2 where a2: "bandit_pick (re_draw R (rs_world st1)) kind (re_profiles R) arms = Inr (p, arms2)"
        "st2 = st1\<lparr>rs_arms := Some arms2\<rparr>"
      by (auto simp: pick_profile_def split: sum.splits prod.splits)
    have keep: "arm_of arms2 k = arm_of arms k" for k using pick_keeps_beliefs [OF a2(1)] .
    have mem: "p \<in> set (re_profiles R)" using bandit_pick_offered [OF a2(1)] .
    show ?thesis
    proof (cases "re_factory R p")
      case (Inl err)
      with k a2(2) keep mem s1 show ?thesis by (auto simp: factory_response_def)
    next
      case (Inr E)
      with k have w: "dispatch_with R e kind p E st2 = Inr (r, st')" by simp
      from dispatch_with_learns [OF w _ assms(3), of arms2] a2(2) obtain arms' reward where
        "rs_arms st' = Some arms'" "observed (p, kind) reward arms2 arms'"
        "reward = 0 \<or> (reward = 1 \<and> or_ok r \<and> or_latency_ms r \<le> re_latency_budget R)"
        "or_profile r = Some p" "\<not> or_blocked r" "rs_n_handled st' = rs_n_handled st2" by auto
      with Inr mem keep a2(2) s1(2) show ?thesis by (auto simp: observed_def kind_def)
    qed
  qed
qed

definition demo_event :: InboundEvent where
  "demo_event = \<lparr>ev_platform = ''slack'', ev_user_id = ''U'', ev_channel_id = ''c'', ev_text = ''hi'', ev_metadata = []\<rparr>"

lemma demo_turn:
  "\<exists>s st1 st2 b res s' st3. resolve_session demo_router demo_event (demo_state\<lparr>rs_n_handled := Suc 0\<rparr>) = Inr (s, st1) \<and>
     reload_skills demo_router st1 = Inr st2 \<and> budget_of 3 = Inr b \<and> msgs s = [] \<and> stored_messages (sid s) (snd (rs_dbs st2)) = [] \<and>
     gateway_turn demo_router demo_env b s ''hi'' st2 = (res, s', st3) \<and> rs_arms st3 = Some [] \<and> res = Aborted TurnInterrupted"
  by (simp add: resolve_session_def create_session_def session_create_def find_session_def demo_router_def demo_state_def
      no_identities_def reload_skills_def refresh_def discover_skills_def budget_of_def gateway_turn_def gateway_turn_env_def
      demo_env_def run_turn_def freeze_system_prompt_def update_session_def Let_def turn_loop.simps iteration_def
      append_message_def session_append_def stored_messages_def)


theorem dispatch_learns_once_witness:
  "\<exists>r st'. dispatch demo_router demo_event demo_state = Inr (r, st') \<and> rs_n_handled st' = 1 \<and>
     (\<exists>reward arms'. rs_arms st' = Some arms' \<and> observed (''cheap'', ''chat'') reward [] arms')"
proof -
  obtain s st1 st2 b s' st3 where t: "resolve_session demo_router demo_event (demo_state\<lparr>rs_n_handled := Suc 0\<rparr>) = Inr (s, st1)"
    "reload_skills demo_router st1 = Inr st2" "budget_of 3 = Inr b"
    "gateway_turn demo_router demo_env b s ''hi'' st2 = (Aborted TurnInterrupted, s', st3)" "rs_arms st3 = Some []"
    using demo_turn by blast
  have d: "re_max_iterations demo_router = 3" "ev_text demo_event = ''hi''" "re_profiles demo_router = [''cheap'']"
    "re_factory demo_router ''cheap'' = Inr demo_env" "\<not> re_enforce demo_router" "re_on_inbound demo_router = None"
    "rs_arms demo_state = Some []" "rs_n_handled demo_state = 0" "task_kind_of (re_str demo_router) demo_event = ''chat''"
    by (simp_all add: demo_router_def demo_event_def demo_state_def task_kind_of_def)
  have no: "reward_of demo_router (turn_response demo_router p l (Aborted TurnInterrupted)) s' = 0" for p l
    by (simp add: reward_of_def reward_signal_def turn_response_def Let_def)
  have p: "pick_profile demo_router ''chat'' (demo_state\<lparr>rs_n_handled := Suc 0\<rparr>) = Inr (''cheap'', demo_state\<lparr>rs_n_handled := Suc 0\<rparr>)"
    by (simp add: pick_profile_def bandit_pick_def d demo_state_def)
  obtain r st' where w: "dispatch_with demo_router demo_event ''chat'' ''cheap'' demo_env (demo_state\<lparr>rs_n_handled := Suc 0\<rparr>) = Inr (r, st')"
    using t by (simp add: dispatch_with_def d Let_def learn_def no bandit_update_def)
  then have run: "dispatch demo_router demo_event demo_state = Inr (r, st')" "or_profile r = Some ''cheap''" "\<not> or_blocked r"
    using t by (auto simp: dispatch_def Let_def inbound_hook_def d p dispatch_with_def learn_def no bandit_update_def)
  from dispatch_learns_once [OF run(1) d(7)] d run show ?thesis by auto
qed


section \<open>What the gateway lets through\<close>

text \<open>Nobody is asked: in a gateway turn the gate answers yes to every call, however dangerous.\<close>

lemma gateway_never_asks: "fst (ask_gate (gateway_turn_env R E) tier call st) = True"
  by (simp add: ask_gate_def gateway_turn_env_def)

text \<open>The skills are reloaded outside the \<open>try\<close> of the turn: one malformed manifest makes every
  event raise, and the consumer of the queue ends with the first of them.\<close>

lemma bad_manifest_stops_gateway:
  assumes "re_skills_dir R w = Some cs" "(n, Some f) \<in> set cs"
    "load_skill (re_yaml R) (re_str R) (manifest_path n) (mf_text f) = Inl err"
    "\<not> re_enforce R" "rs_arms st = None" "re_factory R ''default'' = Inr E" "re_on_inbound R = None"
    "re_resolver R = Some (\<lambda>e dbs. (Some s, dbs))" "rs_world st = w"
  shows "\<exists>err'. dispatch R e st = Inl (SkillReload err') \<and> serve R m (Some e # q) n0 st = Inl (SkillReload err')"
proof -
  obtain err' where "refresh (re_yaml R) (re_str R) (re_skill_clock R) (Some cs) (rs_skills st) = (Inl err', rs_skills st)"
    using bad_manifest_blocks_refresh [OF assms(2,3)] by blast
  then have "dispatch R e st = Inl (SkillReload err')"
    using assms by (simp add: dispatch_def Let_def pick_profile_def inbound_hook_def dispatch_with_def resolve_session_def reload_skills_def)
  then show ?thesis by simp
qed

end
