(* ===== verification/Gateway_Server.thy ===== *)
theory Gateway_Server
  imports Gateway_Router
begin

text \<open>
  The webhook server in front of the router (\<open>sera/gateway/server.py\<close>): the request handler
  with its size limit, signature check, body parsing and counters, and the default parser. A
  response is its status code. Reading the socket is reading the bytes that arrive until the
  peer closes; UTF-8 decoding followed by JSON parsing is one argument. The text of an event
  is whatever value the body held.
\<close>


section \<open>Requests\<close>

definition MAX_CONTENT_LENGTH :: int where
  "MAX_CONTENT_LENGTH = 1048576"

record http_request =
  rq_path :: py_str
  rq_headers :: "(py_str, py_str) py_dict"
  rq_incoming :: py_str

record raw_event =
  rw_platform :: py_str
  rw_user_id :: py_str
  rw_channel_id :: py_str
  rw_text :: py_value
  rw_raw :: "(py_str, py_value) py_dict"

text \<open>An event whose text is a string is one the router can look at.\<close>

definition routable :: "raw_event \<Rightarrow> InboundEvent option" where
  "routable e =
     (case rw_text e of
        PyStr t \<Rightarrow> Some \<lparr>ev_platform = rw_platform e, ev_user_id = rw_user_id e, ev_channel_id = rw_channel_id e,
                        ev_text = t, ev_metadata = [(''raw'', PyDict (rw_raw e))]\<rparr>
      | _ \<Rightarrow> None)"

text \<open>\<open>int(s)\<close> of ASCII text: white space around, a sign, digits with single underscores between.\<close>

definition int_digits_ok :: "py_str \<Rightarrow> bool" where
  "int_digits_ok ds \<longleftrightarrow>
     ds \<noteq> [] \<and> list_all (\<lambda>c. is_digit c \<or> c = CHR ''_'') ds \<and> is_digit (hd ds) \<and> is_digit (last ds) \<and>
     str_find ds ''__'' = None"

definition digits_value :: "py_str \<Rightarrow> int" where
  "digits_value ds = foldl (\<lambda>n c. n * 10 + int (code c - 48)) 0 (filter is_digit ds)"

definition int_of_str :: "py_str \<Rightarrow> int option" where
  "int_of_str s =
     (let t = str_strip s;
          (neg, ds) = (case t of [] \<Rightarrow> (False, []) | c # cs \<Rightarrow>
             if c = CHR ''-'' then (True, cs) else if c = CHR ''+'' then (False, cs) else (False, t))
      in if int_digits_ok ds then Some (if neg then - digits_value ds else digits_value ds) else None)"

definition PLATFORM_RE :: re where
  "PLATFORM_RE =
     Seqs [Bol, Plus (Ch ([Range (CHR ''a'') (CHR ''z''), Range (CHR ''0'') (CHR ''9'')] @ map One ''_-'')), Eol]"

definition strip_slashes :: "py_str \<Rightarrow> py_str" where
  "strip_slashes s = rev (dropWhile (\<lambda>c. c = CHR ''/'') (rev (dropWhile (\<lambda>c. c = CHR ''/'') s)))"

definition default_parser :: "(py_value \<Rightarrow> py_str) \<Rightarrow> py_str \<Rightarrow> (py_str, py_value) py_dict \<Rightarrow> raw_event option" where
  "default_parser show platform payload =
     (let get = (\<lambda>k. dict_get_or payload k PyNone);
          t = py_or (get ''text'') (py_or (get ''content'') (py_or (get ''body'') (PyStr [])))
      in if \<not> py_truth t then None
         else Some \<lparr>rw_platform = platform,
           rw_user_id = show (py_or (get ''user_id'') (py_or (get ''user'') (py_or (get ''from'') (PyStr ''anonymous'')))),
           rw_channel_id = show (py_or (get ''channel_id'') (py_or (get ''channel'') (py_or (get ''chat_id'') (PyStr ''default'')))),
           rw_text = t, rw_raw = payload\<rparr>)"


section \<open>The server\<close>

record server_stats =
  accepted_count :: nat
  rejected_count :: nat
  bad_request_count :: nat
  unauthorized_count :: nat

record gateway_server =
  gs_stats :: server_stats
  gs_queue :: "raw_event list"
  gs_loop_running :: bool
  gs_verifiers :: "(py_str, (py_str, py_str) py_dict \<Rightarrow> py_str \<Rightarrow> bool) py_dict"
  gs_parser :: "py_str \<Rightarrow> (py_str, py_value) py_dict \<Rightarrow> raw_event option"

datatype counter = Accepted | Rejected | BadRequest | Unauthorized

fun bump :: "counter \<Rightarrow> server_stats \<Rightarrow> server_stats" where
  "bump Accepted s = s\<lparr>accepted_count := Suc (accepted_count s)\<rparr>"
| "bump Rejected s = s\<lparr>rejected_count := Suc (rejected_count s)\<rparr>"
| "bump BadRequest s = s\<lparr>bad_request_count := Suc (bad_request_count s)\<rparr>"
| "bump Unauthorized s = s\<lparr>unauthorized_count := Suc (unauthorized_count s)\<rparr>"

text \<open>The handler's outcome: a response, or an exception that leaves it.\<close>

datatype handled = Responded int | HandlerRaised

definition refuse :: "counter \<Rightarrow> int \<Rightarrow> gateway_server \<Rightarrow> handled \<times> gateway_server" where
  "refuse c status srv = (Responded status, srv\<lparr>gs_stats := bump c (gs_stats srv)\<rparr>)"

text \<open>\<open>rfile.read(n)\<close>: exactly \<open>n\<close> bytes or all that arrive; everything for -1; an error below.\<close>

definition read_body :: "int \<Rightarrow> py_str \<Rightarrow> py_str option" where
  "read_body n incoming =
     (if 0 \<le> n then Some (take (nat n) incoming) else if n = - 1 then Some incoming else None)"

definition do_GET :: "py_str \<Rightarrow> gateway_server \<Rightarrow> int \<times> py_value" where
  "do_GET path srv =
     (if path = ''/healthz'' then (200, PyDict [(''ok'', PyBool True)])
      else if path = ''/stats'' then (200, PyDict
        [(''accepted'', PyInt (int (accepted_count (gs_stats srv)))), (''rejected'', PyInt (int (rejected_count (gs_stats srv)))),
         (''bad_request'', PyInt (int (bad_request_count (gs_stats srv)))),
         (''unauthorized'', PyInt (int (unauthorized_count (gs_stats srv))))])
      else (404, PyDict [(''error'', PyStr ''not found'')]))"

definition accept_payload ::
  "py_str \<Rightarrow> (py_str, py_value) py_dict \<Rightarrow> gateway_server \<Rightarrow> handled \<times> gateway_server"
where
  "accept_payload platform payload srv =
     (case gs_parser srv platform payload of
        None \<Rightarrow> refuse Rejected 422 srv
      | Some event \<Rightarrow>
          if \<not> gs_loop_running srv then refuse Rejected 503 srv
          else refuse Accepted 202 (srv\<lparr>gs_queue := gs_queue srv @ [event]\<rparr>))"

definition do_POST :: "(py_str \<Rightarrow> py_value option) \<Rightarrow> http_request \<Rightarrow> gateway_server \<Rightarrow> handled \<times> gateway_server" where
  "do_POST loads rq srv =
     (if \<not> starts_with (rq_path rq) ''/webhook/'' then (Responded 404, srv)
      else let platform = strip_slashes (drop (length ''/webhook/'') (rq_path rq))
           in if platform = [] \<or> match_at no_flags PLATFORM_RE platform 0 = None then refuse BadRequest 400 srv
              else case int_of_str (or_empty (dict_get_or (rq_headers rq) ''Content-Length'' ''0'') ''0'') of
                     None \<Rightarrow> (HandlerRaised, srv)
                   | Some n \<Rightarrow>
                       if MAX_CONTENT_LENGTH < n then refuse BadRequest 413 srv
                       else case (if n = 0 then Some [] else read_body n (rq_incoming rq)) of
                              None \<Rightarrow> refuse BadRequest 400 srv
                            | Some raw \<Rightarrow>
                                if (case dict_get (gs_verifiers srv) platform of
                                      None \<Rightarrow> False | Some verify \<Rightarrow> \<not> verify (rq_headers rq) raw)
                                then refuse Unauthorized 401 srv
                                else case (if raw = [] then Some (PyDict []) else loads raw) of
                                       Some (PyDict payload) \<Rightarrow> accept_payload platform payload srv
                                     | _ \<Rightarrow> refuse BadRequest 400 srv)"


section \<open>Nothing unverified reaches the queue\<close>

definition handled_total :: "server_stats \<Rightarrow> nat" where
  "handled_total s = accepted_count s + rejected_count s + bad_request_count s + unauthorized_count s"

lemma refuse_simps [simp]:
  "fst (refuse c n srv) = Responded n" "gs_queue (snd (refuse c n srv)) = gs_queue srv"
  "gs_stats (snd (refuse c n srv)) = bump c (gs_stats srv)" "gs_verifiers (snd (refuse c n srv)) = gs_verifiers srv"
  by (simp_all add: refuse_def)

lemma bump_simps [simp]:
  "handled_total (bump c s) = Suc (handled_total s)"
  "accepted_count (bump c s) = (if c = Accepted then Suc (accepted_count s) else accepted_count s)"
  by (cases c; simp add: handled_total_def)+

text \<open>Every way a POST can end: turned away, raised, or handed to the parser.\<close>

definition turned_away :: "gateway_server \<Rightarrow> handled \<times> gateway_server \<Rightarrow> bool" where
  "turned_away srv r \<longleftrightarrow>
     gs_queue (snd r) = gs_queue srv \<and> accepted_count (gs_stats (snd r)) = accepted_count (gs_stats srv) \<and>
     fst r \<noteq> Responded 202 \<and>
     handled_total (gs_stats (snd r)) \<le> Suc (handled_total (gs_stats srv))"

lemma refuse_turns_away [simp]: "c \<noteq> Accepted \<Longrightarrow> n \<noteq> 202 \<Longrightarrow> turned_away srv (refuse c n srv)"
  by (simp add: turned_away_def)

lemma same_server_turns_away [simp]: "turned_away srv (h, srv) \<longleftrightarrow> h \<noteq> Responded 202"
  by (simp add: turned_away_def)

definition checked_payload ::
  "(py_str \<Rightarrow> py_value option) \<Rightarrow> http_request \<Rightarrow> gateway_server \<Rightarrow> py_str \<Rightarrow> py_str \<Rightarrow> (py_str, py_value) py_dict \<Rightarrow> bool"
where
  "checked_payload loads rq srv platform raw payload \<longleftrightarrow>
     platform = strip_slashes (drop (length ''/webhook/'') (rq_path rq)) \<and> match_at no_flags PLATFORM_RE platform 0 \<noteq> None \<and>
     (if raw = [] then payload = [] else loads raw = Some (PyDict payload)) \<and>
     (case dict_get (gs_verifiers srv) platform of None \<Rightarrow> True | Some verify \<Rightarrow> verify (rq_headers rq) raw)"

lemma do_POST_cases:
  "turned_away srv (do_POST loads rq srv) \<or>
   (\<exists>platform raw payload. checked_payload loads rq srv platform raw payload \<and>
      do_POST loads rq srv = accept_payload platform payload srv)" (is "?T \<or> ?A")
proof (rule disjCI)
  assume nA: "\<not> ?A"
  define platform where "platform = strip_slashes (drop (length ''/webhook/'') (rq_path rq))"
  note D = do_POST_def Let_def platform_def [symmetric]
  show ?T
  proof (cases "starts_with (rq_path rq) ''/webhook/'' \<and> platform \<noteq> [] \<and> match_at no_flags PLATFORM_RE platform 0 \<noteq> None")
    case False
    then show ?thesis unfolding D
      by (cases "starts_with (rq_path rq) ''/webhook/''"; cases "platform = []"; simp del: not_None_eq)
  next
    case ok: True
    show ?thesis
    proof (cases "int_of_str (or_empty (dict_get_or (rq_headers rq) ''Content-Length'' ''0'') ''0'')")
      case None
      with ok show ?thesis unfolding D by simp
    next
      case len: (Some n)
      show ?thesis
      proof (cases "if n = 0 then Some [] else read_body n (rq_incoming rq)")
        case None
        with ok len show ?thesis unfolding D by simp
      next
        case raw: (Some raw)
        show ?thesis
        proof (cases "MAX_CONTENT_LENGTH < n \<or>
            (case dict_get (gs_verifiers srv) platform of None \<Rightarrow> False | Some verify \<Rightarrow> \<not> verify (rq_headers rq) raw)")
          case True
          then show ?thesis using ok len raw unfolding D by (cases "MAX_CONTENT_LENGTH < n"; simp)
        next
          case verified: False
          show ?thesis
          proof (cases "\<exists>payload. (if raw = [] then Some (PyDict []) else loads raw) = Some (PyDict payload)")
            case True
            then obtain payload where p: "(if raw = [] then Some (PyDict []) else loads raw) = Some (PyDict payload)" by blast
            have "do_POST loads rq srv = accept_payload platform payload srv"
              using ok len raw verified p unfolding D by (simp del: not_None_eq)
            moreover have "checked_payload loads rq srv platform raw payload"
              using ok verified p unfolding checked_payload_def platform_def
              by (simp split: if_split_asm option.split option.split_asm)
            ultimately show ?thesis using nA by blast
          next
            case False
            then show ?thesis using ok len raw verified
              unfolding D by (simp split: option.split py_value.split if_split_asm del: not_None_eq)
          qed
        qed
      qed
    qed
  qed
qed

lemma accept_payload_cases:
  "(case gs_parser srv platform payload of
      Some event \<Rightarrow> if gs_loop_running srv
        then accept_payload platform payload srv =
          (Responded 202, srv\<lparr>gs_queue := gs_queue srv @ [event], gs_stats := bump Accepted (gs_stats srv)\<rparr>)
        else turned_away srv (accept_payload platform payload srv)
    | None \<Rightarrow> turned_away srv (accept_payload platform payload srv))"
  by (simp add: accept_payload_def refuse_def turned_away_def handled_total_def split: option.split)



section \<open>The whole server\<close>

text \<open>A run of the server is the requests it handles, in the order their handlers finish.\<close>

fun serve_requests :: "(py_str \<Rightarrow> py_value option) \<Rightarrow> http_request list \<Rightarrow> gateway_server \<Rightarrow> gateway_server" where
  "serve_requests loads [] srv = srv"
| "serve_requests loads (rq # rqs) srv = serve_requests loads rqs (snd (do_POST loads rq srv))"

lemma do_POST_counts_queue:
  "length (gs_queue (snd (do_POST loads rq srv))) + accepted_count (gs_stats srv) =
   length (gs_queue srv) + accepted_count (gs_stats (snd (do_POST loads rq srv)))"
  using do_POST_cases [where loads = loads and rq = rq and srv = srv]
proof
  assume "turned_away srv (do_POST loads rq srv)"
  then show ?thesis by (simp add: turned_away_def)
next
  assume "\<exists>platform raw payload. checked_payload loads rq srv platform raw payload \<and>
      do_POST loads rq srv = accept_payload platform payload srv"
  then obtain platform payload where e: "do_POST loads rq srv = accept_payload platform payload srv" by blast
  show ?thesis
    unfolding e by (simp add: accept_payload_def refuse_def split: option.split)
qed

text \<open>
  The number the statistics page shows as accepted is the number of events that were handed to
  the router since the server started.
\<close>

lemma accepted_counts_queue:
  assumes "length (gs_queue srv) = accepted_count (gs_stats srv)"
  shows "length (gs_queue (serve_requests loads rqs srv)) = accepted_count (gs_stats (serve_requests loads rqs srv))"
  using assms
proof (induction rqs arbitrary: srv)
  case (Cons rq rqs)
  then show ?case using do_POST_counts_queue [where loads = loads and rq = rq and srv = srv] by simp
qed simp


section \<open>Where the checks do not reach\<close>

definition demo_server :: gateway_server where
  "demo_server = \<lparr>gs_stats = \<lparr>accepted_count = 0, rejected_count = 0, bad_request_count = 0, unauthorized_count = 0\<rparr>,
     gs_queue = [], gs_loop_running = True, gs_verifiers = [], gs_parser = default_parser (\<lambda>v. case v of PyStr s \<Rightarrow> s | _ \<Rightarrow> [])\<rparr>"

definition demo_post :: "py_str \<Rightarrow> py_str \<Rightarrow> http_request" where
  "demo_post len body =
     \<lparr>rq_path = ''/webhook/slack'', rq_headers = [(''Content-Length'', len)], rq_incoming = body\<rparr>"

text \<open>A length of -1 passes the limit, and the read then takes all that the peer sends.\<close>

lemma negative_length_unlimited:
  "int_of_str ''-1'' = Some (- 1)" "\<not> MAX_CONTENT_LENGTH < - 1" "read_body (- 1) body = Some body"
  by code_simp (simp_all add: MAX_CONTENT_LENGTH_def read_body_def)

text \<open>A length that is no number raises out of the handler; no counter moves.\<close>

lemma bad_length_raises: "do_POST loads (demo_post ''abc'' body) srv = (HandlerRaised, srv)"
proof -
  have "starts_with ''/webhook/slack'' ''/webhook/''" "strip_slashes (drop (length ''/webhook/'') ''/webhook/slack'') = ''slack''"
    "match_at no_flags PLATFORM_RE ''slack'' 0 \<noteq> None"
    "int_of_str (or_empty (dict_get_or [(''Content-Length'', ''abc'')] ''Content-Length'' ''0'') ''0'') = None"
    by code_simp+
  then show ?thesis unfolding do_POST_def demo_post_def Let_def by (simp del: not_None_eq)
qed

text \<open>A body whose text is a number is accepted, though no router step can read it.\<close>

lemma number_text_accepted:
  "let r = do_POST (\<lambda>_. Some (PyDict [(''text'', PyInt 5)])) (demo_post ''9'' ''{text: 5}'') demo_server
   in fst r = Responded 202 \<and> map routable (gs_queue (snd r)) = [None]"
  by code_simp

end
