(* ===== verification/Memory_Graph.thy ===== *)
theory Memory_Graph
  imports Memory_Tree
begin

text \<open>
  Entities and typed edges of the memory tree (\<open>sera/memory/graph.py\<close>): the two extractors, the
  validation of what a model answered, persistence, backfill and the causal walk. An extractor
  is a function of the text that may raise; the JSON parser, \<open>float()\<close> of a string and the
  conversion of a number to text by the database are arguments. The clock is read once per
  call.
\<close>


section \<open>Results\<close>

definition EDGE_KINDS :: "py_str list" where
  "EDGE_KINDS = [''mentions'', ''works_at'', ''parent_of'', ''caused'', ''refuted_by'', ''supersedes'', ''similar_to'']"

record ExtractedEntity =
  xe_name :: py_str
  xe_type :: py_value

record ExtractedEdge =
  xg_src :: py_str
  xg_dst :: py_str
  xg_kind :: py_str
  xg_confidence :: py_float

record ExtractionResult =
  xr_entities :: "ExtractedEntity list"
  xr_edges :: "ExtractedEdge list"

definition extraction_truth :: "ExtractionResult \<Rightarrow> bool" where
  "extraction_truth r \<longleftrightarrow> xr_entities r \<noteq> [] \<or> xr_edges r \<noteq> []"

datatype graph_error =
    UnknownEdgeKind py_str
  | ChunkMissing nat
  | TreeRaised tree_error
  | NotBindable
  | BadExtraction
  | ExtractorRaised py_str


section \<open>The stub extractor\<close>

definition capitalised :: re where
  "capitalised = Seq (Ch [Range (CHR ''A'') (CHR ''Z'')])
     (Plus (Ch [Range (CHR ''A'') (CHR ''Z''), Range (CHR ''a'') (CHR ''z''), Range (CHR ''0'') (CHR ''9''),
       One (CHR ''_''), One (CHR ''-'')]))"

definition NOUN :: re where
  "NOUN = Seq capitalised (UpTo 2 (Seq (Plus (Ch [Space])) capitalised))"

text \<open>The words of a verb form, with white space before, between and after them.\<close>

fun verb_words :: "py_str list \<Rightarrow> re" where
  "verb_words [] = Plus (Ch [Space])"
| "verb_words (w # ws) = Seqs [Plus (Ch [Space]), Lits w, verb_words ws]"

definition VERB_PATTERNS :: "(py_str \<times> re) list" where
  "VERB_PATTERNS =
    [(''caused'', verb_words [''caused'']),
     (''refuted_by'', verb_words [''was'', ''refuted'', ''by'']),
     (''refuted_by'', verb_words [''refuted'', ''by'']),
     (''supersedes'', verb_words [''supersedes'']),
     (''similar_to'', verb_words [''is'', ''similar'', ''to'']),
     (''works_at'', verb_words [''works'', ''at'']),
     (''parent_of'', Seqs [Plus (Ch [Space]), Lits ''is'', Plus (Ch [Space]),
        Opt (Seq (Lits ''the'') (Plus (Ch [Space]))), Lits ''parent'', verb_words [''of'']])]"

text \<open>Groups 1 and 2 of every match of noun, verb, noun.\<close>

definition noun_pairs :: "re \<Rightarrow> py_str \<Rightarrow> (py_str \<times> py_str) list" where
  "noun_pairs verb t =
     zip (re_findall1 no_flags (Seqs [Grp NOUN, verb, NOUN]) t) (re_findall1 no_flags (Seqs [NOUN, verb, Grp NOUN]) t)"

text \<open>\<open>" ".join(s.split())\<close>.\<close>

function str_split :: "py_str \<Rightarrow> py_str list" where
  "str_split s =
     (let t = dropWhile is_space s
      in if t = [] then [] else takeWhile (\<lambda>c. \<not> is_space c) t # str_split (dropWhile (\<lambda>c. \<not> is_space c) t))"
  by pat_completeness auto
termination
proof (relation "measure length")
  fix s t :: py_str
  assume s: "t = dropWhile is_space s" "t \<noteq> []"
  then have "\<not> is_space (hd t)" using hd_dropWhile [of is_space s] by simp
  with s(2) obtain c cs where t: "t = c # cs" "\<not> is_space c" by (cases t) simp_all
  then have "length (dropWhile (\<lambda>c. \<not> is_space c) t) < length t" by (simp add: le_imp_less_Suc length_dropWhile_le)
  also have "\<dots> \<le> length s" using s(1) by (simp add: length_dropWhile_le)
  finally show "(dropWhile (\<lambda>c. \<not> is_space c) t, s) \<in> measure length" by simp
qed simp

declare str_split.simps [simp del]

fun join_words :: "py_str list \<Rightarrow> py_str" where
  "join_words [] = []"
| "join_words [w] = w"
| "join_words (w # v # ws) = w @ '' '' @ join_words (v # ws)"

definition normalize_name :: "py_str \<Rightarrow> py_str" where
  "normalize_name s = join_words (str_split s)"

definition concept :: "py_str \<Rightarrow> ExtractedEntity" where
  "concept name = \<lparr>xe_name = name, xe_type = PyStr ''concept''\<rparr>"

definition stub_pair :: "py_str \<Rightarrow> py_float \<Rightarrow> py_str \<times> py_str \<Rightarrow>
    (py_str, ExtractedEntity) py_dict \<times> ExtractedEdge list \<Rightarrow> (py_str, ExtractedEntity) py_dict \<times> ExtractedEdge list" where
  "stub_pair kind confidence p acc =
     (let src = normalize_name (fst p); dst = normalize_name (snd p)
      in (dict_set dst (concept dst) (dict_set src (concept src) (fst acc)),
          snd acc @ [\<lparr>xg_src = src, xg_dst = dst, xg_kind = kind, xg_confidence = confidence\<rparr>]))"

definition stub_extract :: "py_float \<Rightarrow> py_str \<Rightarrow> ExtractionResult" where
  "stub_extract confidence t =
     (let acc = fold (\<lambda>(kind, verb). fold (stub_pair kind confidence) (noun_pairs verb t)) VERB_PATTERNS ([], [])
      in \<lparr>xr_entities = map snd (fst acc), xr_edges = snd acc\<rparr>)"


section \<open>What a model answered\<close>

text \<open>The items a \<open>for\<close> loop takes from a value; a number is not iterable.\<close>

fun iter_items :: "py_value \<Rightarrow> (graph_error, py_value list) py_result" where
  "iter_items (PyList vs) = Inr vs"
| "iter_items (PyDict kvs) = Inr (map (\<lambda>(k, v). PyStr k) kvs)"
| "iter_items (PyStr s) = Inr (map (\<lambda>c. PyStr [c]) s)"
| "iter_items v = Inl BadExtraction"

text \<open>\<open>(v or "").strip()\<close>: only strings have a \<open>strip\<close>.\<close>

definition stripped :: "py_value \<Rightarrow> (graph_error, py_str) py_result" where
  "stripped v = (case py_or v (PyStr []) of PyStr s \<Rightarrow> Inr (str_strip s) | _ \<Rightarrow> Inl BadExtraction)"

fun parse_entities :: "py_value list \<Rightarrow> (graph_error, ExtractedEntity list) py_result" where
  "parse_entities [] = Inr []"
| "parse_entities (PyDict ent # vs) =
     rbind (stripped (dict_get_or ent ''name'' PyNone)) (\<lambda>name.
       rbind (parse_entities vs) (\<lambda>rest.
         Inr (if name = [] then rest
              else \<lparr>xe_name = normalize_name name, xe_type = py_or (dict_get_or ent ''type'' PyNone) (PyStr ''concept'')\<rparr> # rest)))"
| "parse_entities (v # vs) = parse_entities vs"

text \<open>\<open>float(v)\<close> with its two exceptions caught; out-of-range values are clamped.\<close>

definition edge_confidence :: "(py_str \<Rightarrow> py_float option) \<Rightarrow> py_value \<Rightarrow> py_float" where
  "edge_confidence float_of v =
     max 0 (min 1 (case v of PyFloat x \<Rightarrow> x | PyInt i \<Rightarrow> of_int i | PyBool b \<Rightarrow> (if b then 1 else 0)
       | PyStr s \<Rightarrow> (case float_of s of None \<Rightarrow> 1 | Some x \<Rightarrow> x) | _ \<Rightarrow> 1))"

fun parse_edges :: "(py_str \<Rightarrow> py_float option) \<Rightarrow> py_value list \<Rightarrow> (graph_error, ExtractedEdge list) py_result" where
  "parse_edges float_of [] = Inr []"
| "parse_edges float_of (PyDict edge # vs) =
     (case dict_get_or edge ''kind'' PyNone of
        PyStr kind \<Rightarrow>
          if kind \<notin> set EDGE_KINDS then parse_edges float_of vs
          else rbind (stripped (dict_get_or edge ''src'' PyNone)) (\<lambda>src.
               rbind (stripped (dict_get_or edge ''dst'' PyNone)) (\<lambda>dst.
               rbind (parse_edges float_of vs) (\<lambda>rest.
                 Inr (if src = [] \<or> dst = [] then rest
                      else \<lparr>xg_src = normalize_name src, xg_dst = normalize_name dst, xg_kind = kind,
                            xg_confidence = edge_confidence float_of (dict_get_or edge ''confidence'' (PyFloat 1))\<rparr> # rest))))
      | _ \<Rightarrow> parse_edges float_of vs)"
| "parse_edges float_of (v # vs) = parse_edges float_of vs"

text \<open>\<open>loads\<close> parses JSON and gives nothing when it raises.\<close>

definition parse_llm_extraction ::
  "(py_str \<Rightarrow> py_value option) \<Rightarrow> (py_str \<Rightarrow> py_float option) \<Rightarrow> py_value \<Rightarrow> (graph_error, ExtractionResult) py_result"
where
  "parse_llm_extraction loads float_of raw =
     (case (case raw of PyStr s \<Rightarrow> loads s | PyDict d \<Rightarrow> Some (PyDict d) | _ \<Rightarrow> None) of
        Some (PyDict data) \<Rightarrow>
          rbind (iter_items (py_or (dict_get_or data ''entities'' PyNone) (PyList []))) (\<lambda>raw_entities.
          rbind (iter_items (py_or (dict_get_or data ''edges'' PyNone) (PyList []))) (\<lambda>raw_edges.
          rbind (parse_entities raw_entities) (\<lambda>entities.
          rbind (parse_edges float_of raw_edges) (\<lambda>edges.
            Inr \<lparr>xr_entities = entities, xr_edges = edges\<rparr>))))
      | _ \<Rightarrow> Inl BadExtraction)"

definition LLM_PROMPT :: py_str where
  "LLM_PROMPT =
     ''Extract named entities and typed relationships from the text below.'' @ [CHR 0x0A] @
     ''Allowed edge kinds (strict): '' @
     ''mentions, works_at, parent_of, caused, refuted_by, supersedes, similar_to'' @ ''.'' @ [CHR 0x0A] @
     ''Return JSON of the form:'' @ [CHR 0x0A] @ ''{'' @ [CHR 0x0A] @
     ''  '' @ [CHR 0x22] @ ''entities'' @ [CHR 0x22] @ '': [{'' @ [CHR 0x22] @ ''name'' @ [CHR 0x22] @ '': str, '' @
     [CHR 0x22] @ ''type'' @ [CHR 0x22] @ '': str}],'' @ [CHR 0x0A] @
     ''  '' @ [CHR 0x22] @ ''edges'' @ [CHR 0x22] @ '': [{'' @ [CHR 0x22] @ ''src'' @ [CHR 0x22] @ '': str, '' @
     [CHR 0x22] @ ''dst'' @ [CHR 0x22] @ '': str, '' @ [CHR 0x22] @ ''kind'' @ [CHR 0x22] @ '': str, '' @
     [CHR 0x22] @ ''confidence'' @ [CHR 0x22] @ '': float}]'' @ [CHR 0x0A] @ ''}'' @ [CHR 0x0A] @
     ''Confidence is in [0, 1]. Use canonical full names where possible.'' @ [CHR 0x0A] @
     ''Do not invent facts not stated in the text.'' @ [CHR 0x0A] @ ''Text:'' @ [CHR 0x0A]"

definition llm_extract ::
  "(py_str \<Rightarrow> (graph_error, py_value) py_result) \<Rightarrow> (py_str \<Rightarrow> py_value option) \<Rightarrow> (py_str \<Rightarrow> py_float option) \<Rightarrow> py_str \<Rightarrow>
   (graph_error, ExtractionResult) py_result"
where
  "llm_extract llm_call loads float_of t = rbind (llm_call (LLM_PROMPT @ t)) (parse_llm_extraction loads float_of)"


section \<open>Persistence\<close>

text \<open>The text SQLite stores for a bound value; lists and dicts cannot be bound.\<close>

fun bound_text :: "(py_value \<Rightarrow> py_str) \<Rightarrow> py_value \<Rightarrow> py_str option" where
  "bound_text text_of (PyStr s) = Some s"
| "bound_text text_of (PyList vs) = None"
| "bound_text text_of (PyDict kvs) = None"
| "bound_text text_of v = Some (text_of v)"

fun write_entities ::
  "(py_value \<Rightarrow> py_str) \<Rightarrow> py_float \<Rightarrow> ExtractedEntity list \<Rightarrow> memory_tree \<Rightarrow> (graph_error, unit) py_result \<times> memory_tree"
where
  "write_entities text_of now [] t = (Inr (), t)"
| "write_entities text_of now (e # es) t =
     (case bound_text text_of (py_or (xe_type e) (PyStr ''concept'')) of
        None \<Rightarrow> (Inl NotBindable, t)
      | Some type \<Rightarrow> write_entities text_of now es (fst (add_entity (xe_name e) type now t)))"

fun write_edges :: "py_float \<Rightarrow> nat \<Rightarrow> ExtractedEdge list \<Rightarrow> memory_tree \<Rightarrow> (graph_error, unit) py_result \<times> memory_tree" where
  "write_edges now chunk_id [] t = (Inr (), t)"
| "write_edges now chunk_id (e # es) t =
     (if xg_kind e \<notin> set EDGE_KINDS then (Inl (UnknownEdgeKind (xg_kind e)), t)
      else case add_relation (xg_src e) (xg_dst e) (xg_kind e) (xg_confidence e) (Some chunk_id) ''concept'' ''concept'' now t of
             Inl err \<Rightarrow> (Inl (TreeRaised err), t)
           | Inr (t1, i) \<Rightarrow> write_edges now chunk_id es t1)"

text \<open>What is written before an exception stays written.\<close>

type_synonym extractor = "py_str \<Rightarrow> (graph_error, ExtractionResult) py_result"

definition extract_and_persist ::
  "(py_value \<Rightarrow> py_str) \<Rightarrow> py_float \<Rightarrow> extractor \<Rightarrow> nat \<Rightarrow> memory_tree \<Rightarrow> (graph_error, ExtractionResult) py_result \<times> memory_tree"
where
  "extract_and_persist text_of now extract chunk_id t =
     (case get_chunk chunk_id False t of
        None \<Rightarrow> (Inl (ChunkMissing chunk_id), t)
      | Some chunk \<Rightarrow>
          (case extract (c_content chunk) of
             Inl err \<Rightarrow> (Inl err, t)
           | Inr result \<Rightarrow>
               (case write_entities text_of now (xr_entities result) t of
                  (Inl err, t1) \<Rightarrow> (Inl err, t1)
                | (Inr _, t1) \<Rightarrow>
                    (case write_edges now chunk_id (xr_edges result) t1 of
                       (Inl err, t2) \<Rightarrow> (Inl err, t2)
                     | (Inr _, t2) \<Rightarrow> (Inr result, fst (mark_extracted chunk_id now t2))))))"

record ExtractStats =
  chunks_processed :: nat
  entities_written :: nat
  edges_written :: nat
  chunks_skipped :: nat

definition backfill_one ::
  "(py_value \<Rightarrow> py_str) \<Rightarrow> py_float \<Rightarrow> extractor \<Rightarrow> nat \<Rightarrow> ExtractStats \<times> memory_tree \<Rightarrow> ExtractStats \<times> memory_tree"
where
  "backfill_one text_of now extract cid st =
     (case extract_and_persist text_of now extract cid (snd st) of
        (Inl err, t) \<Rightarrow> ((fst st)\<lparr>chunks_skipped := Suc (chunks_skipped (fst st))\<rparr>, t)
      | (Inr r, t) \<Rightarrow>
          ((fst st)\<lparr>chunks_processed := Suc (chunks_processed (fst st)),
              entities_written := entities_written (fst st) + length (xr_entities r),
              edges_written := edges_written (fst st) + length (xr_edges r)\<rparr>, t))"

definition backfill ::
  "(py_value \<Rightarrow> py_str) \<Rightarrow> py_float \<Rightarrow> extractor \<Rightarrow> nat \<Rightarrow> memory_tree \<Rightarrow> ExtractStats \<times> memory_tree"
where
  "backfill text_of now extract limit t =
     fold (backfill_one text_of now extract) (chunks_pending_extraction limit t)
       (\<lparr>chunks_processed = 0, entities_written = 0, edges_written = 0, chunks_skipped = 0\<rparr>, t)"


section \<open>The causal walk\<close>

record CausalLink =
  cl_src :: py_str
  cl_dst :: py_str
  cl_confidence :: py_float
  cl_provenance :: "nat option"

definition entity_name :: "memory_tree \<Rightarrow> nat \<Rightarrow> py_str option" where
  "entity_name t i = map_option en_name (get_entity i t)"

text \<open>The near end of a \<open>caused\<close> edge is its target when walking upstream.\<close>

definition near_end :: "bool \<Rightarrow> Relation \<Rightarrow> nat" where
  "near_end up r = (if up then rl_dst r else rl_src r)"

definition far_end :: "bool \<Rightarrow> Relation \<Rightarrow> nat" where
  "far_end up r = (if up then rl_src r else rl_dst r)"

definition caused_neighbors :: "memory_tree \<Rightarrow> bool \<Rightarrow> py_str \<Rightarrow> Relation list" where
  "caused_neighbors t up name =
     sort_key rl_id (filter (\<lambda>r. list_ex (\<lambda>e. en_id e = near_end up r \<and> en_name e = name) (entities t) \<and> rl_kind r = ''caused'')
       (relations t))"

definition link_of :: "bool \<Rightarrow> py_str \<Rightarrow> py_str \<Rightarrow> Relation \<Rightarrow> CausalLink" where
  "link_of up name other r =
     (if up then \<lparr>cl_src = other, cl_dst = name, cl_confidence = rl_confidence r, cl_provenance = rl_provenance r\<rparr>
      else \<lparr>cl_src = name, cl_dst = other, cl_confidence = rl_confidence r, cl_provenance = rl_provenance r\<rparr>)"

type_synonym walk = "py_str set \<times> py_str list \<times> CausalLink list"

definition visit_edge :: "memory_tree \<Rightarrow> bool \<Rightarrow> py_str \<Rightarrow> Relation \<Rightarrow> walk \<Rightarrow> walk" where
  "visit_edge t up name r w =
     (case w of (visited, next, out) \<Rightarrow>
        case entity_name t (far_end up r) of
          None \<Rightarrow> w
        | Some other \<Rightarrow>
            (let out' = out @ [link_of up name other r]
             in if other \<in> visited then (visited, next, out') else (insert other visited, next @ [other], out')))"

definition visit_name :: "memory_tree \<Rightarrow> bool \<Rightarrow> py_str \<Rightarrow> walk \<Rightarrow> walk" where
  "visit_name t up name = fold (visit_edge t up name) (caused_neighbors t up name)"

fun walk_levels :: "memory_tree \<Rightarrow> bool \<Rightarrow> nat \<Rightarrow> py_str set \<Rightarrow> py_str list \<Rightarrow> CausalLink list \<Rightarrow> CausalLink list" where
  "walk_levels t up 0 visited frontier out = out"
| "walk_levels t up (Suc d) visited frontier out =
     (case fold (visit_name t up) frontier (visited, [], out) of
        (visited', next, out') \<Rightarrow> if next = [] then out' else walk_levels t up d visited' next out')"

definition causal_chain :: "memory_tree \<Rightarrow> py_str \<Rightarrow> int \<Rightarrow> py_str \<Rightarrow> (py_str, CausalLink list) py_result" where
  "causal_chain t name depth direction =
     (if direction \<notin> {''upstream'', ''downstream''} then Inl direction
      else Inr (walk_levels t (direction = ''upstream'') (nat depth) {name} [name] []))"


section \<open>The walk finds every cause, and only causes\<close>

text \<open>The links out of a name, and one step along them.\<close>

definition links_from :: "memory_tree \<Rightarrow> bool \<Rightarrow> py_str \<Rightarrow> CausalLink set" where
  "links_from t up name =
     {link_of up name other r | r other. r \<in> set (caused_neighbors t up name) \<and> entity_name t (far_end up r) = Some other}"

definition cause_step :: "memory_tree \<Rightarrow> bool \<Rightarrow> (py_str \<times> py_str) set" where
  "cause_step t up = {(name, other). \<exists>r. r \<in> set (caused_neighbors t up name) \<and> entity_name t (far_end up r) = Some other}"

lemma visit_edges:
  assumes "fold (visit_edge t up name) rs (visited, next, out) = (visited', next', out')"
  defines "others \<equiv> {other. \<exists>r. r \<in> set rs \<and> entity_name t (far_end up r) = Some other}"
  shows "visited' = visited \<union> others" "set next' = set next \<union> (others - visited)"
    "set out' = set out \<union> {link_of up name other r | r other. r \<in> set rs \<and> entity_name t (far_end up r) = Some other}"
proof -
  have "visited' = visited \<union> others \<and> set next' = set next \<union> (others - visited) \<and>
    set out' = set out \<union> {link_of up name other r | r other. r \<in> set rs \<and> entity_name t (far_end up r) = Some other}"
    using assms(1) unfolding others_def
  proof (induction rs arbitrary: visited "next" out)
    case (Cons r rs)
    obtain v n out1 where v: "visit_edge t up name r (visited, next, out) = (v, n, out1)" by (metis prod_cases3)
    from Cons.IH [of v n out1] Cons.prems v have IH:
      "visited' = v \<union> {other. \<exists>r. r \<in> set rs \<and> entity_name t (far_end up r) = Some other}"
      "set next' = set n \<union> ({other. \<exists>r. r \<in> set rs \<and> entity_name t (far_end up r) = Some other} - v)"
      "set out' = set out1 \<union> {link_of up name other r | r other. r \<in> set rs \<and> entity_name t (far_end up r) = Some other}"
      by simp_all
    show ?case
    proof (cases "entity_name t (far_end up r)")
      case None
      with v IH show ?thesis by (auto simp: visit_edge_def)
    next
      case (Some other)
      with v have "v = insert other visited" "set n = set next \<union> ({other} - visited)" "out1 = out @ [link_of up name other r]"
        by (auto simp: visit_edge_def Let_def split: if_splits)
      with Some IH show ?thesis by auto
    qed
  qed simp
  then show "visited' = visited \<union> others" "set next' = set next \<union> (others - visited)"
    "set out' = set out \<union> {link_of up name other r | r other. r \<in> set rs \<and> entity_name t (far_end up r) = Some other}"
    by simp_all
qed

lemma visit_names:
  assumes "fold (visit_name t up) names (visited, next, out) = (visited', next', out')"
  shows "visited' = visited \<union> cause_step t up `` set names \<and> set next' = set next \<union> (cause_step t up `` set names - visited) \<and>
    set out' = set out \<union> \<Union> (links_from t up ` set names)"
  using assms
proof (induction names arbitrary: visited "next" out)
  case (Cons name names)
  obtain v n out1 where v: "visit_name t up name (visited, next, out) = (v, n, out1)" by (metis prod_cases3)
  have "v = visited \<union> cause_step t up `` {name}" "set n = set next \<union> (cause_step t up `` {name} - visited)"
    "set out1 = set out \<union> links_from t up name"
    using visit_edges [OF v [unfolded visit_name_def]] by (auto simp: cause_step_def links_from_def)
  with Cons.IH [of v n out1] Cons.prems v show ?case by auto
qed simp

text \<open>A path that starts among the visited either ends there or passes through the next level.\<close>

lemma path_leaves:
  assumes "(y, x) \<in> S ^^ j" "y \<in> V" "S `` (V - F) \<subseteq> V"
  shows "x \<in> V \<or> (\<exists>n m. n \<in> S `` F - V \<and> m < j \<and> (n, x) \<in> S ^^ m)"
  using assms(1)
proof (induction j arbitrary: x)
  case 0
  then show ?case using assms(2) by simp
next
  case (Suc j)
  then obtain w where w: "(y, w) \<in> S ^^ j" "(w, x) \<in> S" by auto
  from Suc.IH [OF w(1)] show ?case
  proof
    assume "w \<in> V"
    show ?thesis
    proof (cases "x \<in> V")
      case False
      with \<open>w \<in> V\<close> w(2) assms(3) have "x \<in> S `` F - V" by blast
      moreover have "(x, x) \<in> S ^^ 0" by simp
      ultimately show ?thesis by blast
    qed simp
  next
    assume "\<exists>n m. n \<in> S `` F - V \<and> m < j \<and> (n, w) \<in> S ^^ m"
    then obtain n m where n: "n \<in> S `` F - V" "m < j" "(n, w) \<in> S ^^ m" by blast
    with w(2) have "(n, x) \<in> S ^^ Suc m" by auto
    with n show ?thesis by (metis Suc_less_eq)
  qed
qed

lemma walk_levels_links:
  assumes "set frontier \<subseteq> visited" "cause_step t up `` (visited - set frontier) \<subseteq> visited"
    "\<Union> (links_from t up ` (visited - set frontier)) \<subseteq> set out"
  shows "set (walk_levels t up d visited frontier out) =
    set out \<union> {l. \<exists>k f x. k < d \<and> f \<in> set frontier \<and> (f, x) \<in> cause_step t up ^^ k \<and> l \<in> links_from t up x}"
  using assms
proof (induction d arbitrary: visited frontier out)
  case (Suc d)
  let ?S = "cause_step t up" and ?L = "links_from t up"
  obtain v n out1 where f: "fold (visit_name t up) frontier (visited, [], out) = (v, n, out1)" by (metis prod_cases3)
  note N = visit_names [OF f]
  from N have v: "v = visited \<union> ?S `` set frontier" and n: "set n = ?S `` set frontier - visited"
    and out1: "set out1 = set out \<union> \<Union> (?L ` set frontier)" by simp_all
  have inv: "set n \<subseteq> v" "v - set n = visited" using v n by blast+
  have closed: "?S `` (v - set n) \<subseteq> v" using Suc.prems(1,2) v inv(2) by blast
  have links: "\<Union> (?L ` (v - set n)) \<subseteq> set out1" using Suc.prems(3) out1 inv(2) by blast
  have e: "set (walk_levels t up (Suc d) visited frontier out) =
      set out1 \<union> {l. \<exists>k f x. k < d \<and> f \<in> set n \<and> (f, x) \<in> ?S ^^ k \<and> l \<in> ?L x}"
    using Suc.IH [OF inv(1) closed links] f by auto
  show ?case (is "_ = ?R")
  proof
    show "set (walk_levels t up (Suc d) visited frontier out) \<subseteq> ?R"
    proof
      fix l assume "l \<in> set (walk_levels t up (Suc d) visited frontier out)"
      with e out1 consider "l \<in> set out" | g where "g \<in> set frontier" "l \<in> ?L g"
        | k g x where "k < d" "g \<in> set n" "(g, x) \<in> ?S ^^ k" "l \<in> ?L x" by blast
      then show "l \<in> ?R"
      proof cases
        case 2
        then have "(g, g) \<in> ?S ^^ 0" by simp
        with 2 show ?thesis by blast
      next
        case 3
        then obtain g0 where "g0 \<in> set frontier" "(g0, g) \<in> ?S" using n by blast
        with 3 have "(g0, x) \<in> ?S ^^ Suc k" by (meson relpow_Suc_I2)
        with 3 \<open>g0 \<in> set frontier\<close> show ?thesis by (metis (mono_tags, lifting) Suc_less_eq UnI2 mem_Collect_eq)
      qed blast
    qed
  next
    show "?R \<subseteq> set (walk_levels t up (Suc d) visited frontier out)"
    proof
      fix l assume "l \<in> ?R"
      then consider "l \<in> set out" | k g x where "k < Suc d" "g \<in> set frontier" "(g, x) \<in> ?S ^^ k" "l \<in> ?L x" by blast
      then show "l \<in> set (walk_levels t up (Suc d) visited frontier out)"
      proof cases
        case 1
        with e out1 show ?thesis by blast
      next
        case 2
        from path_leaves [OF 2(3), of visited "set frontier"] 2(2) Suc.prems(1,2)
        consider "x \<in> visited" | m y where "y \<in> ?S `` set frontier - visited" "m < k" "(y, x) \<in> ?S ^^ m" by blast
        then show ?thesis
        proof cases
          case 1
          then show ?thesis using 2(4) links inv(2) e by blast
        next
          case (2 m y)
          then have "m < d" "y \<in> set n" using \<open>k < Suc d\<close> n by auto
          with 2(3) \<open>l \<in> ?L x\<close> show ?thesis unfolding e by blast
        qed
      qed
    qed
  qed
qed simp




section \<open>What extraction may read and write\<close>

text \<open>The kinds of all stored edges are in the closed vocabulary.\<close>

definition closed_kinds :: "memory_tree \<Rightarrow> bool" where
  "closed_kinds t \<longleftrightarrow> list_all (\<lambda>r. rl_kind r \<in> set EDGE_KINDS) (relations t)"

lemma add_relation_relations:
  assumes "add_relation src dst kind c p st dt now t = Inr (t', i)"
  shows "\<exists>r. relations t' = relations t @ [r] \<and> rl_kind r = kind \<and> rl_provenance r = p \<and> chunks t' = chunks t"
proof -
  have e: "relations (fst (add_entity n ty w x)) = relations x" "chunks (fst (add_entity n ty w x)) = chunks x" for n ty w x
    by (simp_all add: add_entity_def split: option.split)
  obtain t1 i1 t2 i2 where a: "add_entity src st now t = (t1, i1)" "add_entity dst dt now t1 = (t2, i2)" by fastforce
  then have "relations t2 = relations t" "chunks t2 = chunks t"
    using e [of src st now t] e [of dst dt now t1] by simp_all
  with assms a show ?thesis by (auto simp: add_relation_def split: if_splits)
qed

lemma write_entities_facts:
  assumes "write_entities text_of now es t = (r, t')"
  shows "tree_ok t \<Longrightarrow> tree_ok t'" "relations t' = relations t" "chunks t' = chunks t"
proof -
  have "(tree_ok t \<longrightarrow> tree_ok t') \<and> relations t' = relations t \<and> chunks t' = chunks t"
    using assms
  proof (induction text_of now es t rule: write_entities.induct)
    case (2 text_of now e es t)
    show ?case
    proof (cases "bound_text text_of (py_or (xe_type e) (PyStr ''concept''))")
      case None
      with 2 show ?thesis by simp
    next
      case (Some type)
      obtain t1 i where a: "add_entity (xe_name e) type now t = (t1, i)" by fastforce
      have "relations t1 = relations t" "chunks t1 = chunks t"
        using a by (auto simp: add_entity_def split: option.splits)
      moreover have "tree_ok t \<Longrightarrow> tree_ok t1" using add_entity_facts(1) a by blast
      ultimately show ?thesis using 2 Some a by simp
    qed
  qed simp
  then show "tree_ok t \<Longrightarrow> tree_ok t'" "relations t' = relations t" "chunks t' = chunks t" by simp_all
qed

lemma write_edges_facts:
  assumes "write_edges now c es t = (r, t')"
  shows "(tree_ok t \<longrightarrow> tree_ok t') \<and> chunks t' = chunks t \<and>
    (\<exists>new. relations t' = relations t @ new \<and> list_all (\<lambda>r. rl_kind r \<in> set EDGE_KINDS \<and> rl_provenance r = Some c) new)"
  using assms
proof (induction now c es t rule: write_edges.induct)
  case (2 now c e es t)
  show ?case
  proof (cases "xg_kind e \<in> set EDGE_KINDS")
    case False
    with 2 show ?thesis by simp
  next
    case kind: True
    show ?thesis
    proof (cases "add_relation (xg_src e) (xg_dst e) (xg_kind e) (xg_confidence e) (Some c) ''concept'' ''concept'' now t")
      case (Inl err)
      with 2 kind show ?thesis by simp
    next
      case (Inr ti)
      obtain t1 i where ti: "ti = (t1, i)" by fastforce
      note a = Inr [unfolded ti]
      from add_relation_relations [OF a] obtain rel where r: "relations t1 = relations t @ [rel]" "rl_kind rel = xg_kind e"
        "rl_provenance rel = Some c" "chunks t1 = chunks t" by blast
      have "write_edges now c es t1 = (r, t')" using "2.prems" kind a by simp
      from "2.IH" [OF _ a refl this] kind r add_relation_ok [OF _ a] show ?thesis by auto
    qed
  qed
qed simp

lemma extract_facts:
  assumes "extract_and_persist text_of now x c t = (r, t')"
  shows "(tree_ok t \<longrightarrow> tree_ok t') \<and> map ck_content (chunks t') = map ck_content (chunks t) \<and>
    (\<exists>new. relations t' = relations t @ new \<and> list_all (\<lambda>r. rl_kind r \<in> set EDGE_KINDS \<and> rl_provenance r = Some c) new)"
proof -
  have m: "map ck_content (chunks (fst (mark_extracted c now u))) = map ck_content (chunks u)"
    "relations (fst (mark_extracted c now u)) = relations u" for u
    by (simp_all add: mark_extracted_def update_chunks_def comp_def)
  show ?thesis
  proof (cases "get_chunk c False t")
    case None
    with assms show ?thesis by (simp add: extract_and_persist_def)
  next
    case chunk: (Some ch)
    show ?thesis
    proof (cases "x (c_content ch)")
      case (Inl err)
      with assms chunk show ?thesis by (simp add: extract_and_persist_def)
    next
      case res: (Inr result)
      obtain r1 t1 where w1: "write_entities text_of now (xr_entities result) t = (r1, t1)" by fastforce
      note f1 = write_entities_facts [OF w1]
      obtain r2 t2 where w2: "write_edges now c (xr_edges result) t1 = (r2, t2)" by fastforce
      note f2 = write_edges_facts [OF w2]
      from assms chunk res w1 w2 have "t' = t1 \<or> t' = t2 \<or> t' = fst (mark_extracted c now t2)"
        by (auto simp: extract_and_persist_def split: sum.splits)
      then show ?thesis using f1 f2 m mark_extracted_ok by auto
    qed
  qed
qed

text \<open>Backfill as a series of extractions.\<close>

lemma backfill_fold_facts:
  assumes "fold (backfill_one text_of now x) ids (st, t) = (st', t')" "tree_ok t" "closed_kinds t"
  shows "tree_ok t' \<and> closed_kinds t' \<and> map ck_content (chunks t') = map ck_content (chunks t) \<and>
    (\<exists>new. relations t' = relations t @ new \<and> list_all (\<lambda>r. \<exists>c. c \<in> set ids \<and> rl_provenance r = Some c) new)"
  using assms
proof (induction ids arbitrary: st t)
  case (Cons c ids)
  obtain r t1 where e: "extract_and_persist text_of now x c t = (r, t1)" by fastforce
  note f = extract_facts [OF e]
  then obtain new where new: "relations t1 = relations t @ new"
    "list_all (\<lambda>r. rl_kind r \<in> set EDGE_KINDS \<and> rl_provenance r = Some c) new" by blast
  obtain st1 where "backfill_one text_of now x c (st, t) = (st1, t1)" using e by (cases r) (simp_all add: backfill_one_def)
  then have "fold (backfill_one text_of now x) ids (st1, t1) = (st', t')" using Cons.prems(1) by simp
  moreover have "tree_ok t1" "closed_kinds t1" using f new Cons.prems(2,3) by (auto simp: closed_kinds_def list_all_iff)
  ultimately have "tree_ok t' \<and> closed_kinds t' \<and> map ck_content (chunks t') = map ck_content (chunks t1) \<and>
      (\<exists>more. relations t' = relations t1 @ more \<and> list_all (\<lambda>r. \<exists>c. c \<in> set ids \<and> rl_provenance r = Some c) more)"
    by (rule Cons.IH)
  then obtain more where "tree_ok t'" "closed_kinds t'" "map ck_content (chunks t') = map ck_content (chunks t)"
    "relations t' = relations t @ new @ more" "list_all (\<lambda>r. \<exists>c. c \<in> set ids \<and> rl_provenance r = Some c) more"
    using f new(1) by auto
  with new(2) show ?case by (auto simp: list_all_iff)
qed simp

text \<open>Changing hidden contents does not disturb the writes.\<close>

abbreviation masked :: "(nat \<Rightarrow> py_str) \<Rightarrow> memory_tree \<Rightarrow> memory_tree" where
  "masked g \<equiv> blind (\<lambda>r. g (ck_id r))"

lemma masked_simps [simp]:
  "entities (masked g t) = entities t" "relations (masked g t) = relations t" "next_entity (masked g t) = next_entity t"
  "next_relation (masked g t) = next_relation t"
  "masked g (t\<lparr>entities := es\<rparr>) = (masked g t)\<lparr>entities := es\<rparr>"
  "masked g (t\<lparr>next_entity := n\<rparr>) = (masked g t)\<lparr>next_entity := n\<rparr>"
  "masked g (t\<lparr>relations := rs\<rparr>) = (masked g t)\<lparr>relations := rs\<rparr>"
  "masked g (t\<lparr>next_relation := n\<rparr>) = (masked g t)\<lparr>next_relation := n\<rparr>"
  by (simp_all add: blind_def)

lemma add_entity_masked: "add_entity n ty w (masked g t) = (masked g (fst (add_entity n ty w t)), snd (add_entity n ty w t))"
  by (simp add: add_entity_def find_entity_def split: option.split)

lemma add_relation_masked:
  "add_relation src dst kind c p st dt now (masked g t) =
     (case add_relation src dst kind c p st dt now t of Inl e \<Rightarrow> Inl e | Inr (t', i) \<Rightarrow> Inr (masked g t', i))"
  by (simp add: add_relation_def add_entity_masked split: prod.split)

lemma mark_extracted_masked: "fst (mark_extracted c now (masked g t)) = masked g (fst (mark_extracted c now t))"
  by (simp add: mark_extracted_def update_chunks_def blind_def)

lemma write_entities_masked:
  "write_entities text_of now es (masked g t) =
     (fst (write_entities text_of now es t), masked g (snd (write_entities text_of now es t)))"
  by (induction text_of now es t rule: write_entities.induct) (simp_all add: add_entity_masked split: option.split)

lemma write_edges_masked:
  "write_edges now c es (masked g t) = (fst (write_edges now c es t), masked g (snd (write_edges now c es t)))"
  by (induction now c es t rule: write_edges.induct) (simp_all add: add_relation_masked split: sum.split)

lemma extract_masked:
  assumes "tree_ok t"
  shows "extract_and_persist text_of now x c (masked g t) =
    (fst (extract_and_persist text_of now x c t), masked g (snd (extract_and_persist text_of now x c t)))"
  by (simp add: extract_and_persist_def get_chunk_blind [OF assms] write_entities_masked write_edges_masked
      mark_extracted_masked split: option.split sum.split prod.split)

lemma backfill_one_masked:
  "tree_ok t \<Longrightarrow> backfill_one text_of now x c (st, masked g t) =
     (fst (backfill_one text_of now x c (st, t)), masked g (snd (backfill_one text_of now x c (st, t))))"
  by (simp add: backfill_one_def extract_masked split: sum.split prod.split)

lemma backfill_fold_masked:
  assumes "tree_ok t"
  shows "fold (backfill_one text_of now x) ids (st, masked g t) =
    (fst (fold (backfill_one text_of now x) ids (st, t)), masked g (snd (fold (backfill_one text_of now x) ids (st, t))))"
  using assms
proof (induction ids arbitrary: st t)
  case (Cons c ids)
  obtain st1 t1 where one: "backfill_one text_of now x c (st, t) = (st1, t1)" by fastforce
  obtain r t2 where e: "extract_and_persist text_of now x c t = (r, t2)" by fastforce
  with one have "t1 = t2" by (cases r) (simp_all add: backfill_one_def)
  with extract_facts [OF e] Cons.prems have "tree_ok t1" by simp
  from Cons.IH [OF this] one backfill_one_masked [OF Cons.prems] show ?case by simp
qed simp

lemma pending_masked: "chunks_pending_extraction limit (masked g t) = chunks_pending_extraction limit t"
  by (simp add: chunks_pending_extraction_def blind_def filter_map comp_def if_distrib cong: if_cong)

text \<open>
  C6: extraction leaks nothing and stays in its vocabulary. Take any tree the operations can build
  and any extractor, a hostile one included: whatever text stands in the chunks that hold
  personal data, the extractor learns nothing of it, so the statistics and everything written
  are the same; no chunk's content changes; the tables stay well formed; every edge added is of
  a known kind and names one of the processed chunks as its source.
\<close>

theorem backfill_confined:
  assumes "t = fold run_tree_op ops (new_tree d)" "closed_kinds t"
    and "backfill text_of now x limit t = (st, t')"
  shows "backfill text_of now x limit (masked g t) = (st, masked g t') \<and>
    map ck_content (chunks t') = map ck_content (chunks t) \<and> tree_ok t' \<and> closed_kinds t' \<and>
    (\<exists>new. relations t' = relations t @ new \<and>
       list_all (\<lambda>r. \<exists>c. c \<in> set (chunks_pending_extraction limit t) \<and> rl_provenance r = Some c) new)"
proof -
  have ok: "tree_ok t" using assms(1) run_tree_ops_ok [OF tree_ok_new] by simp
  show ?thesis
    using backfill_fold_facts [OF assms(3) [unfolded backfill_def] ok assms(2)]
      backfill_fold_masked [OF ok] assms(3) by (simp add: backfill_def pending_masked)
qed

theorem backfill_confined_witness:
  "\<exists>st t'. backfill (\<lambda>_. []) 2 (\<lambda>_. Inr (stub_extract 1 [])) 5 (fold run_tree_op [AddChunk ''a'' ''x'' [] 1 None 1] (new_tree 1)) =
     (st, t') \<and> map ck_content (chunks t') = [''x''] \<and> tree_ok t'"
proof -
  let ?t = "fold run_tree_op [AddChunk ''a'' ''x'' [] 1 None 1] (new_tree 1)"
  have t: "map ck_content (chunks ?t) = [''x'']" "closed_kinds ?t"
    by (simp_all add: add_chunk_def new_tree_def bad_confidence_def bad_dim_def kept_def closed_kinds_def)
  obtain st t' where "backfill (\<lambda>_. []) 2 (\<lambda>_. Inr (stub_extract 1 [])) 5 ?t = (st, t')" by fastforce
  with backfill_confined [OF refl t(2) this] t(1) show ?thesis by (metis (no_types))
qed


section \<open>Progress\<close>

definition pending :: "memory_tree \<Rightarrow> nat set" where
  "pending t = {i. \<exists>r. r \<in> set (chunks t) \<and> ck_id r = i \<and> ck_extracted_at r = None}"

lemma pending_cong: "chunks t' = chunks t \<Longrightarrow> pending t' = pending t"
  by (simp add: pending_def)

lemma pending_marked: "pending (fst (mark_extracted c now t)) = pending t - {c}"
proof -
  define mark where "mark = (\<lambda>r :: chunk_row. if ck_id r = c then r\<lparr>ck_extracted_at := Some now\<rparr> else r)"
  have m: "(ck_id (mark r) = i \<and> ck_extracted_at (mark r) = None) = (ck_id r = i \<and> ck_extracted_at r = None \<and> i \<noteq> c)" for r i
    by (auto simp: mark_def)
  have s: "set (chunks (fst (mark_extracted c now t))) = mark ` set (chunks t)"
    by (simp add: mark_extracted_def update_chunks_def mark_def del: if_image_distrib)
  have "pending (fst (mark_extracted c now t)) =
      {i. \<exists>r. r \<in> set (chunks t) \<and> ck_id (mark r) = i \<and> ck_extracted_at (mark r) = None}"
    unfolding pending_def s by blast
  then show ?thesis unfolding m pending_def by blast
qed

lemma pending_extraction: "set (chunks_pending_extraction limit t) \<subseteq> pending t"
  by (auto simp: chunks_pending_extraction_def pending_def dest!: in_set_takeD)

lemma pending_distinct: "tree_ok t \<Longrightarrow> distinct (chunks_pending_extraction limit t)"
proof -
  assume "tree_ok t"
  then have "distinct (map ck_id (chunks t))" by (auto simp: tree_ok_def dest: ids_below_distinct)
  then show ?thesis by (simp add: chunks_pending_extraction_def distinct_map_filter)
qed

lemma extract_pending:
  assumes "extract_and_persist text_of now x c t = (r, t')"
  shows "pending t' = (case r of Inl e \<Rightarrow> pending t | Inr res \<Rightarrow> pending t - {c})"
proof (cases "get_chunk c False t")
  case None
  with assms show ?thesis by (auto simp: extract_and_persist_def)
next
  case chunk: (Some ch)
  show ?thesis
  proof (cases "x (c_content ch)")
    case (Inl err)
    with assms chunk have "r = Inl err" "t' = t" by (simp_all add: extract_and_persist_def)
    then show ?thesis by simp
  next
    case res: (Inr result)
    obtain r1 t1 where w1: "write_entities text_of now (xr_entities result) t = (r1, t1)" by fastforce
    note f1 = write_entities_facts(3) [OF w1]
    obtain r2 t2 where w2: "write_edges now c (xr_edges result) t1 = (r2, t2)" by fastforce
    have f2: "chunks t2 = chunks t1" using write_edges_facts [OF w2] by blast
    have p: "pending t1 = pending t" "pending t2 = pending t" using f1 f2 pending_cong [of t1 t] pending_cong [of t2 t] by simp_all
    have e: "extract_and_persist text_of now x c t =
        (case r1 of Inl err \<Rightarrow> (Inl err, t1) | Inr _ \<Rightarrow> (case r2 of Inl err \<Rightarrow> (Inl err, t2)
          | Inr _ \<Rightarrow> (Inr result, fst (mark_extracted c now t2))))"
      by (simp add: extract_and_persist_def chunk res w1 w2 split: sum.split)
    show ?thesis
    proof (cases r1)
      case (Inl err)
      then have "r = Inl err" "t' = t1" using assms e by simp_all
      with p show ?thesis by simp
    next
      case r1: (Inr u)
      show ?thesis
      proof (cases r2)
        case (Inl err)
        then have "r = Inl err" "t' = t2" using assms e r1 by simp_all
        with p show ?thesis by simp
      next
        case (Inr u2)
        then have "r = Inr result" "t' = fst (mark_extracted c now t2)" using assms e r1 by simp_all
        with p pending_marked [of c now t2] show ?thesis by simp
      qed
    qed
  qed
qed

text \<open>
  backfill makes progress and never forgets. Every chunk it was to work on is counted once, as
  processed or as skipped; the processed ones, and no others, leave the queue of pending chunks.
\<close>

theorem backfill_progress:
  assumes "t = fold run_tree_op ops (new_tree d)" "backfill text_of now x limit t = (st, t')"
  shows "\<exists>done. distinct done \<and> set done \<subseteq> set (chunks_pending_extraction limit t) \<and> chunks_processed st = length done \<and>
    chunks_processed st + chunks_skipped st = length (chunks_pending_extraction limit t) \<and>
    pending t' = pending t - set done"
proof -
  have gen: "\<exists>done. distinct done \<and> set done \<subseteq> set ids \<and> chunks_processed st' = chunks_processed st0 + length done \<and>
      chunks_processed st' + chunks_skipped st' = chunks_processed st0 + chunks_skipped st0 + length ids \<and>
      pending u' = pending u - set done"
    if "fold (backfill_one text_of now x) ids (st0, u) = (st', u')" "distinct ids" for ids st0 u st' u'
    using that
  proof (induction ids arbitrary: st0 u)
    case (Cons c ids)
    obtain r u1 where e: "extract_and_persist text_of now x c u = (r, u1)" by fastforce
    obtain st1 where one: "backfill_one text_of now x c (st0, u) = (st1, u1)"
      "chunks_processed st1 = chunks_processed st0 + (case r of Inl _ \<Rightarrow> 0 | Inr _ \<Rightarrow> 1)"
      "chunks_processed st1 + chunks_skipped st1 = Suc (chunks_processed st0 + chunks_skipped st0)"
      using e by (cases r) (simp_all add: backfill_one_def)
    from Cons.IH [of st1 u1] Cons.prems one(1) obtain dn where dn: "distinct dn" "set dn \<subseteq> set ids"
      "chunks_processed st' = chunks_processed st1 + length dn"
      "chunks_processed st' + chunks_skipped st' = chunks_processed st1 + chunks_skipped st1 + length ids"
      "pending u' = pending u1 - set dn" by auto
    show ?case
    proof (cases r)
      case (Inl err)
      with dn one extract_pending [OF e] show ?thesis by (intro exI [of _ dn]) auto
    next
      case (Inr res)
      moreover have "c \<notin> set dn" using dn(2) Cons.prems(2) by auto
      ultimately show ?thesis using dn one extract_pending [OF e] by (intro exI [of _ "c # dn"]) auto
    qed
  qed simp
  have "distinct (chunks_pending_extraction limit t)"
    using assms(1) run_tree_ops_ok [OF tree_ok_new] pending_distinct by simp
  from gen [OF assms(2) [unfolded backfill_def] this] show ?thesis by simp
qed

theorem backfill_progress_witness:
  "\<exists>st t'. backfill (\<lambda>_. []) 2 (\<lambda>_. Inr (stub_extract 1 [])) 5 (fold run_tree_op [AddChunk ''a'' ''x'' [] 1 None 1] (new_tree 1)) =
     (st, t') \<and> chunks_processed st + chunks_skipped st = 1"
proof -
  let ?t = "fold run_tree_op [AddChunk ''a'' ''x'' [] 1 None 1] (new_tree 1)"
  have p: "chunks_pending_extraction 5 ?t = [1]"
    by (simp add: chunks_pending_extraction_def add_chunk_def new_tree_def bad_confidence_def bad_dim_def kept_def)
  obtain st t' where "backfill (\<lambda>_. []) 2 (\<lambda>_. Inr (stub_extract 1 [])) 5 ?t = (st, t')" by fastforce
  with backfill_progress [OF refl this] p show ?thesis by auto
qed

text \<open>Names keep their case: the two spellings of a name are two entities.\<close>

lemma normalize_keeps_case: "normalize_name ''Ada  Lovelace'' = ''Ada Lovelace''"
  by code_simp

end
