(* ===== verification/Rpc_Supervisor.thy ===== *)
theory Rpc_Supervisor
  imports Sera_Prelude
begin

text \<open>
  The crash-only supervisor of the sidecar (\<open>sera/rpc/supervisor.py\<close>): the restart policy, the
  decision, the loop of \<open>run\<close> and \<open>stop\<close>. The loop is a machine whose steps are the stretches
  between the points where the code waits or starts a process; a signal, which calls \<open>stop\<close>,
  is handled between two steps, and the child may die between any two. A process is its pid.
  The number of steps of the loop is not capped (\<open>max_steps\<close> is for tests), and the reason
  of a decision, a text for the log, is left out.
\<close>


section \<open>Policy and decision\<close>

record RestartPolicy =
  backoff_base_s :: py_float
  backoff_factor :: py_float
  backoff_max_s :: py_float
  jitter_frac :: py_float
  storm_threshold :: int
  storm_window_s :: py_float

definition default_policy :: RestartPolicy where
  "default_policy = \<lparr>backoff_base_s = 1/2, backoff_factor = 2, backoff_max_s = 30, jitter_frac = 1/10,
     storm_threshold = 5, storm_window_s = 60\<rparr>"

definition delay_for :: "RestartPolicy \<Rightarrow> nat \<Rightarrow> py_float \<Rightarrow> py_float" where
  "delay_for pol consecutive_failures draw =
     (let n = max 1 consecutive_failures;
          raw = min (backoff_base_s pol * backoff_factor pol ^ (n - 1)) (backoff_max_s pol);
          jitter = raw * jitter_frac pol * draw
      in raw + jitter)"

datatype SupervisorState = STOPPED | RUNNING | BACKOFF | CIRCUIT_OPEN

datatype Action = KEEP | RESTART | CIRCUIT_BREAK

record Decision =
  de_action :: Action
  de_delay :: py_float

record supervisor =
  sv_child :: "nat option"
  sv_state :: SupervisorState
  sv_restart_count :: nat
  sv_failures :: nat
  sv_stop :: bool
  sv_restart_times :: "py_float list"

definition new_supervisor :: supervisor where
  "new_supervisor = \<lparr>sv_child = None, sv_state = STOPPED, sv_restart_count = 0, sv_failures = 0, sv_stop = False,
     sv_restart_times = []\<rparr>"

definition record_restart :: "RestartPolicy \<Rightarrow> py_float \<Rightarrow> 'a supervisor_scheme \<Rightarrow> 'a supervisor_scheme" where
  "record_restart pol now s =
     s\<lparr>sv_restart_times := dropWhile (\<lambda>t. t < now - storm_window_s pol) (sv_restart_times s @ [now])\<rparr>"

definition storm_tripped :: "RestartPolicy \<Rightarrow> 'a supervisor_scheme \<Rightarrow> bool" where
  "storm_tripped pol s \<longleftrightarrow> storm_threshold pol \<le> int (length (sv_restart_times s))"

definition decide :: "RestartPolicy \<Rightarrow> bool \<Rightarrow> py_float \<Rightarrow> 'a supervisor_scheme \<Rightarrow> Decision" where
  "decide pol alive draw s =
     (if sv_stop s then \<lparr>de_action = CIRCUIT_BREAK, de_delay = 0\<rparr>
      else if sv_child s \<noteq> None \<and> alive then \<lparr>de_action = KEEP, de_delay = 0\<rparr>
      else if storm_tripped pol s then \<lparr>de_action = CIRCUIT_BREAK, de_delay = 0\<rparr>
      else \<lparr>de_action = RESTART, de_delay = delay_for pol (sv_failures s + 1) draw\<rparr>)"

definition mark_healthy :: "'a supervisor_scheme \<Rightarrow> 'a supervisor_scheme" where
  "mark_healthy s = s\<lparr>sv_failures := 0\<rparr>"


section \<open>The running supervisor\<close>

text \<open>Where \<open>run\<close> is; \<open>Sleeping d\<close> is the backoff of \<open>d\<close> seconds, \<open>Respawning\<close> is past its check.\<close>

datatype place = Entering | FirstSpawn | Deciding | Sleeping py_float | Respawning | Returned SupervisorState

text \<open>
  The machine: the supervisor, its place, the processes alive, and, for stating what happened,
  the last reading of the clock and the times of all restarts.
\<close>

record machine = supervisor +
  m_place :: place
  m_live :: "nat set"
  m_now :: py_float
  m_history :: "py_float list"

record reading =
  io_now :: py_float
  io_draw :: py_float
  io_pid :: nat

definition child_alive :: "machine \<Rightarrow> bool" where
  "child_alive m \<longleftrightarrow> (case sv_child m of None \<Rightarrow> False | Some p \<Rightarrow> p \<in> m_live m)"

definition start_once :: "nat \<Rightarrow> machine \<Rightarrow> machine" where
  "start_once pid m = m\<lparr>sv_child := Some pid, sv_state := RUNNING, m_live := insert pid (m_live m)\<rparr>"

text \<open>One step of \<open>run\<close>.\<close>

definition act_on :: "RestartPolicy \<Rightarrow> Decision \<Rightarrow> machine \<Rightarrow> machine" where
  "act_on pol d m =
     (case de_action d of
        KEEP \<Rightarrow> m\<lparr>sv_state := RUNNING, m_place := Deciding\<rparr>
      | CIRCUIT_BREAK \<Rightarrow>
          (let st = (if sv_stop m then STOPPED else CIRCUIT_OPEN) in m\<lparr>sv_state := st, m_place := Returned st\<rparr>)
      | RESTART \<Rightarrow> m\<lparr>sv_state := BACKOFF, sv_failures := Suc (sv_failures m), m_place := Sleeping (de_delay d)\<rparr>)"

definition respawn :: "RestartPolicy \<Rightarrow> py_float \<Rightarrow> nat \<Rightarrow> machine \<Rightarrow> machine" where
  "respawn pol now pid m =
     start_once pid ((record_restart pol now m)\<lparr>sv_restart_count := Suc (sv_restart_count m),
       m_history := m_history m @ [now], m_place := Deciding\<rparr>)"

definition advance :: "RestartPolicy \<Rightarrow> reading \<Rightarrow> machine \<Rightarrow> machine" where
  "advance pol io m0 =
     (let m = m0\<lparr>m_now := io_now io\<rparr>
      in case m_place m0 of
           Entering \<Rightarrow> m\<lparr>m_place := (if sv_child m = None \<and> \<not> sv_stop m then FirstSpawn else Deciding)\<rparr>
         | FirstSpawn \<Rightarrow> start_once (io_pid io) (m\<lparr>m_place := Deciding\<rparr>)
         | Deciding \<Rightarrow> act_on pol (decide pol (child_alive m) (io_draw io) m) m
         | Sleeping d \<Rightarrow>
             if sv_stop m then m\<lparr>sv_state := STOPPED, m_place := Returned STOPPED\<rparr> else m\<lparr>m_place := Respawning\<rparr>
         | Respawning \<Rightarrow> respawn pol (io_now io) (io_pid io) m
         | Returned st \<Rightarrow> m0)"

text \<open>\<open>stop\<close>: SIGTERM, then SIGKILL; the child is dead afterwards.\<close>

definition stop :: "machine \<Rightarrow> machine" where
  "stop m =
     (case sv_child m of
        None \<Rightarrow> m\<lparr>sv_stop := True, sv_state := STOPPED\<rparr>
      | Some p \<Rightarrow> m\<lparr>sv_stop := True, sv_state := STOPPED, m_live := m_live m - {p}\<rparr>)"

definition launched :: machine where
  "launched = \<lparr>sv_child = None, sv_state = STOPPED, sv_restart_count = 0, sv_failures = 0, sv_stop = False,
     sv_restart_times = [], m_place = Entering, m_live = {}, m_now = 0, m_history = []\<rparr>"

text \<open>What can happen: a step with a later clock and an unused pid, a crash, a signal, good health.\<close>

inductive sup_step :: "RestartPolicy \<Rightarrow> machine \<Rightarrow> machine \<Rightarrow> bool" for pol where
  Step: "m_now m \<le> io_now io \<Longrightarrow> io_pid io \<notin> m_live m \<Longrightarrow> sup_step pol m (advance pol io m)"
| Crash: "p \<in> m_live m \<Longrightarrow> sup_step pol m (m\<lparr>m_live := m_live m - {p}\<rparr>)"
| Signal: "sup_step pol m (stop m)"
| Healthy: "sup_step pol m (mark_healthy m)"

inductive sup_reach :: "RestartPolicy \<Rightarrow> machine \<Rightarrow> bool" for pol where
  Launch: "sup_reach pol launched"
| Next: "sup_reach pol m \<Longrightarrow> sup_step pol m m' \<Longrightarrow> sup_reach pol m'"

inductive_cases sup_stepE: "sup_step pol m m'"


section \<open>One child, and no storm\<close>

text \<open>
  No process but the current child is alive; the recorded restarts are those of the history
  within the window of the last one; past the decision to restart, no process is alive and the
  record is below the threshold.
\<close>

definition recent :: "py_float \<Rightarrow> py_float list \<Rightarrow> py_float list" where
  "recent w h = (if h = [] then [] else dropWhile (\<lambda>t. t < last h - w) h)"

definition spaced :: "nat \<Rightarrow> py_float \<Rightarrow> py_float list \<Rightarrow> bool" where
  "spaced n w h \<longleftrightarrow> (\<forall>k. k + n < length h \<longrightarrow> w < h ! (k + n - 1) - h ! k)"

definition committed :: "place \<Rightarrow> bool" where
  "committed pl \<longleftrightarrow> (case pl of Sleeping d \<Rightarrow> True | Respawning \<Rightarrow> True | _ \<Rightarrow> False)"

definition sup_ok :: "RestartPolicy \<Rightarrow> machine \<Rightarrow> bool" where
  "sup_ok pol m \<longleftrightarrow>
     m_live m \<subseteq> set_option (sv_child m) \<and>
     (m_place m = FirstSpawn \<longrightarrow> sv_child m = None) \<and>
     list_all (\<lambda>t. t \<le> m_now m) (m_history m) \<and>
     sv_restart_times m = recent (storm_window_s pol) (m_history m) \<and>
     sv_restart_count m = length (m_history m) \<and>
     (committed (m_place m) \<longrightarrow> m_live m = {} \<and> int (length (sv_restart_times m)) < storm_threshold pol) \<and>
     spaced (nat (storm_threshold pol)) (storm_window_s pol) (m_history m)"

lemma dropWhile_dropWhile:
  assumes "\<And>x. P x \<Longrightarrow> Q x" shows "dropWhile Q (dropWhile P xs @ ys) = dropWhile Q (xs @ ys)"
  using assms by (induction xs) auto

lemma recent_snoc:
  assumes "list_all (\<lambda>t. t \<le> now) h"
  shows "dropWhile (\<lambda>t. t < now - w) (recent w h @ [now]) = recent w (h @ [now])"
proof (cases "h = []")
  case False
  then have "last h \<le> now" using assms by (simp add: list_all_iff)
  then have "dropWhile (\<lambda>t. t < now - w) (dropWhile (\<lambda>t. t < last h - w) h @ [now]) = dropWhile (\<lambda>t. t < now - w) (h @ [now])"
    by (intro dropWhile_dropWhile) simp
  with False show ?thesis by (simp add: recent_def)
qed (simp add: recent_def)

lemma dropped_nth: "k < length xs - length (dropWhile P xs) \<Longrightarrow> P (xs ! k)"
proof -
  assume "k < length xs - length (dropWhile P xs)"
  moreover have "length xs = length (takeWhile P xs) + length (dropWhile P xs)"
    by (metis length_append takeWhile_dropWhile_id)
  ultimately have "k < length (takeWhile P xs)" by simp
  then show "P (xs ! k)" by (metis nth_mem set_takeWhileD takeWhile_nth)
qed

lemma spaced_snoc:
  assumes "spaced n w h" "length (recent w h) < n"
  shows "spaced n w (h @ [now])"
  unfolding spaced_def
proof (intro allI impI)
  fix k assume k: "k + n < length (h @ [now])"
  have n: "0 < n" using assms(2) by simp
  show "w < (h @ [now]) ! (k + n - 1) - (h @ [now]) ! k"
  proof (cases "k + n < length h")
    case True
    with assms(1) have "w < h ! (k + n - 1) - h ! k" by (simp add: spaced_def)
    moreover have "k + n - 1 < length h" using True n by linarith
    ultimately show ?thesis using True by (simp add: nth_append)
  next
    case False
    with k have k: "length h = k + n" by simp
    with n have "h \<noteq> []" by auto
    then have "h ! k < last h - w"
      using assms(2) k dropped_nth [of k h "\<lambda>t. t < last h - w"] by (simp add: recent_def)
    moreover have "last h = h ! (k + n - 1)" using k \<open>h \<noteq> []\<close> by (simp add: last_conv_nth)
    ultimately show ?thesis using k n by (simp add: nth_append)
  qed
qed

lemma sup_okI:
  assumes "m_live m \<subseteq> set_option (sv_child m)" "m_place m = FirstSpawn \<longrightarrow> sv_child m = None"
    and "list_all (\<lambda>t. t \<le> m_now m) (m_history m)" "sv_restart_times m = recent (storm_window_s pol) (m_history m)"
    and "sv_restart_count m = length (m_history m)"
    and "committed (m_place m) \<longrightarrow> m_live m = {} \<and> int (length (sv_restart_times m)) < storm_threshold pol"
    and "spaced (nat (storm_threshold pol)) (storm_window_s pol) (m_history m)"
  shows "sup_ok pol m"
  using assms by (simp add: sup_ok_def)

lemma sup_okD:
  assumes "sup_ok pol m"
  shows "m_live m \<subseteq> set_option (sv_child m)" "m_place m = FirstSpawn \<Longrightarrow> sv_child m = None"
    "list_all (\<lambda>t. t \<le> m_now m) (m_history m)" "sv_restart_times m = recent (storm_window_s pol) (m_history m)"
    "sv_restart_count m = length (m_history m)"
    "committed (m_place m) \<Longrightarrow> m_live m = {}"
    "committed (m_place m) \<Longrightarrow> int (length (sv_restart_times m)) < storm_threshold pol"
    "spaced (nat (storm_threshold pol)) (storm_window_s pol) (m_history m)"
  using assms by (auto simp: sup_ok_def)

lemma committed_simps [simp]:
  "\<not> committed Entering" "\<not> committed FirstSpawn" "\<not> committed Deciding" "committed (Sleeping d)"
  "committed Respawning" "\<not> committed (Returned st)"
  by (simp_all add: committed_def)

lemma clock_forward: "list_all (\<lambda>t. t \<le> a) h \<Longrightarrow> a \<le> b \<Longrightarrow> list_all (\<lambda>t. t \<le> (b::py_float)) h"
  by (auto simp: list_all_iff)

lemma decide_restart:
  assumes "de_action (decide pol (child_alive m) d m') = RESTART" "m_live m \<subseteq> set_option (sv_child m)"
    and "sv_child m' = sv_child m" "sv_restart_times m' = sv_restart_times m"
  shows "m_live m = {}" "int (length (sv_restart_times m)) < storm_threshold pol"
proof -
  from assms(1,3,4) have "\<not> (sv_child m \<noteq> None \<and> child_alive m)" "\<not> storm_tripped pol m"
    by (auto simp: decide_def storm_tripped_def split: if_splits)
  then show "m_live m = {}" "int (length (sv_restart_times m)) < storm_threshold pol"
    using assms(2) by (auto simp: child_alive_def storm_tripped_def split: option.splits)
qed

lemma advance_decides:
  assumes "m_place m = Deciding" "m' = m\<lparr>m_now := io_now io\<rparr>"
  shows "advance pol io m = act_on pol (decide pol (child_alive m') (io_draw io) m') m'"
  using assms by (simp add: advance_def Let_def)

lemma act_ok:
  assumes "sup_ok pol m" "m_place m = Deciding" "d = decide pol (child_alive m) draw m"
  shows "sup_ok pol (act_on pol d m)"
proof (cases "de_action d")
  case RESTART
  with assms have "m_live m = {}" "int (length (sv_restart_times m)) < storm_threshold pol"
    using decide_restart [of pol m draw m] sup_okD(1) [OF assms(1)] by simp_all
  with assms(1) RESTART show ?thesis by (simp add: sup_ok_def act_on_def)
qed (use assms(1) in \<open>simp_all add: sup_ok_def act_on_def Let_def\<close>)

lemma respawn_ok:
  assumes "sup_ok pol m" "m_place m = Respawning" "m_now m = now"
  shows "sup_ok pol (respawn pol now pid m)"
proof -
  note ok = sup_okD [OF assms(1)]
  have "sv_restart_times (respawn pol now pid m) = recent (storm_window_s pol) (m_history m @ [now])"
    using ok(3,4) assms(3) recent_snoc by (simp add: respawn_def start_once_def record_restart_def)
  moreover have "spaced (nat (storm_threshold pol)) (storm_window_s pol) (m_history m @ [now])"
    using spaced_snoc [OF ok(8)] ok(4,7) assms(2) by (simp add: zless_nat_eq_int_zless)
  ultimately show ?thesis
    using ok(1,3,5,6) assms(2,3) by (intro sup_okI) (simp_all add: respawn_def start_once_def record_restart_def)
qed

lemma advance_ok:
  assumes "sup_ok pol m" "m_now m \<le> io_now io"
  shows "sup_ok pol (advance pol io m)"
proof -
  let ?m = "m\<lparr>m_now := io_now io\<rparr>"
  have ok: "sup_ok pol ?m" using assms(1) clock_forward [OF sup_okD(3) [OF assms(1)] assms(2)] by (auto simp: sup_ok_def)
  note D = sup_okD [OF assms(1)]
  show ?thesis
  proof (cases "m_place m")
    case Deciding
    with act_ok [OF ok] show ?thesis by (simp add: advance_def Let_def)
  next
    case Respawning
    with respawn_ok [OF ok] show ?thesis by (simp add: advance_def Let_def)
  next
    case FirstSpawn
    with ok D(1,2) show ?thesis by (simp add: advance_def Let_def start_once_def sup_ok_def)
  next
    case (Sleeping d)
    with ok D(6,7) show ?thesis by (simp add: advance_def Let_def sup_ok_def)
  qed (use ok assms(1) in \<open>simp_all add: advance_def Let_def sup_ok_def\<close>)
qed

lemma stop_ok: "sup_ok pol m \<Longrightarrow> sup_ok pol (stop m)"
  by (cases "sv_child m") (auto simp: sup_ok_def stop_def)

lemma reach_ok: "sup_reach pol m \<Longrightarrow> sup_ok pol m"
proof (induction rule: sup_reach.induct)
  case Launch
  then show ?case by (simp add: sup_ok_def launched_def recent_def spaced_def)
next
  case (Next m m')
  from Next.hyps(2) Next.IH show ?case
  proof cases
    case (Step io)
    with Next.IH advance_ok show ?thesis by simp
  next
    case (Crash p)
    with Next.IH show ?thesis by (auto simp: sup_ok_def)
  next
    case Signal
    with Next.IH stop_ok show ?thesis by simp
  next
    case Healthy
    with Next.IH show ?thesis by (auto simp: mark_healthy_def sup_ok_def)
  qed
qed

text \<open>
  C30: at most one child, and never a storm. Whatever crashes and signals come, no two children are
  ever alive at once; the restart count is the number of restarts; and a run of as many
  restarts as the threshold that was followed by another took longer than the storm window.
\<close>

theorem never_a_storm:
  assumes "sup_reach pol m"
  shows "card (m_live m) \<le> 1 \<and> sv_restart_count m = length (m_history m) \<and>
    (\<forall>k. k + nat (storm_threshold pol) < length (m_history m) \<longrightarrow>
       storm_window_s pol < m_history m ! (k + nat (storm_threshold pol) - 1) - m_history m ! k)"
proof -
  note ok = sup_okD [OF reach_ok [OF assms]]
  have "card (m_live m) \<le> card (set_option (sv_child m))" using ok(1) by (intro card_mono) auto
  also have "\<dots> \<le> 1" by (cases "sv_child m") auto
  finally show ?thesis using ok(5,8) by (simp add: spaced_def)
qed


theorem never_a_storm_witness:
  "\<exists>m. sup_reach default_policy m \<and> m_place m = Deciding \<and> m_live m = {7} \<and> card (m_live m) \<le> 1 \<and>
     sv_restart_count m = length (m_history m)"
proof -
  define io where "io = \<lparr>io_now = 0, io_draw = 0, io_pid = 7 :: nat\<rparr>"
  define m where "m = advance default_policy io (advance default_policy io launched)"
  have "sup_reach default_policy (advance default_policy io launched)"
    by (rule sup_reach.Next [OF sup_reach.Launch sup_step.Step]) (simp_all add: launched_def io_def)
  then have r: "sup_reach default_policy m"
    unfolding m_def by (rule sup_reach.Next [OF _ sup_step.Step]) (simp_all add: advance_def launched_def io_def)
  have "m_place m = Deciding" "m_live m = {7}"
    by (simp_all add: m_def advance_def Let_def launched_def start_once_def io_def)
  with never_a_storm [OF r] r show ?thesis by blast
qed



section \<open>A child that never lives\<close>

text \<open>Steps between which the child always dies.\<close>

fun crash_loop :: "RestartPolicy \<Rightarrow> reading list \<Rightarrow> machine \<Rightarrow> machine" where
  "crash_loop pol [] m = m"
| "crash_loop pol (io # ios) m = crash_loop pol ios ((advance pol io m)\<lparr>m_live := {}\<rparr>)"

lemma crash_loop_returned: "m_place m = Returned st \<Longrightarrow> m_live m = {} \<Longrightarrow> crash_loop pol ios m = m"
proof (induction ios)
  case (Cons io ios)
  then have "(advance pol io m)\<lparr>m_live := {}\<rparr> = m" by (simp add: advance_def Let_def)
  with Cons show ?case by simp
qed simp

lemma decide_dead:
  "\<not> sv_stop m \<Longrightarrow> \<not> alive \<Longrightarrow> decide pol alive draw m =
     (if storm_threshold pol \<le> int (length (sv_restart_times m)) then \<lparr>de_action = CIRCUIT_BREAK, de_delay = 0\<rparr>
      else \<lparr>de_action = RESTART, de_delay = delay_for pol (sv_failures m + 1) draw\<rparr>)"
  by (simp add: decide_def storm_tripped_def)

text \<open>One round of the loop: decide, back off, respawn, die again.\<close>

lemma crash_round:
  assumes "m_place m = Deciding" "m_live m = {}" "\<not> sv_stop m"
    and "int (length (sv_restart_times m)) < storm_threshold pol"
    and "list_all (\<lambda>t. io_now c - storm_window_s pol \<le> t) (sv_restart_times m)" "0 \<le> storm_window_s pol"
  obtains m' where "crash_loop pol (a # b # c # ios) m = crash_loop pol ios m'"
    "m_place m' = Deciding" "m_live m' = {}" "\<not> sv_stop m'" "sv_restart_times m' = sv_restart_times m @ [io_now c]"
    "sv_restart_count m' = Suc (sv_restart_count m)"
proof -
  have "\<not> child_alive (m\<lparr>m_now := io_now a\<rparr>)" using assms(2) by (auto simp: child_alive_def split: option.split)
  then have one: "(advance pol a m)\<lparr>m_live := {}\<rparr> =
      m\<lparr>m_now := io_now a, sv_state := BACKOFF, sv_failures := Suc (sv_failures m), m_live := {},
        m_place := Sleeping (delay_for pol (sv_failures m + 1) (io_draw a))\<rparr>" (is "_ = ?m1")
    using assms(1,3,4) by (simp add: advance_def Let_def decide_dead act_on_def)
  have two: "(advance pol b ?m1)\<lparr>m_live := {}\<rparr> = ?m1\<lparr>m_now := io_now b, m_place := Respawning\<rparr>" (is "_ = ?m2")
    using assms(3) by (simp add: advance_def Let_def)
  have "dropWhile (\<lambda>t. t < io_now c - storm_window_s pol) (sv_restart_times m @ [io_now c]) = sv_restart_times m @ [io_now c]"
    using assms(5,6) by (cases "sv_restart_times m") auto
  then have r: "crash_loop pol (a # b # c # ios) m = crash_loop pol ios ((advance pol c ?m2)\<lparr>m_live := {}\<rparr>)"
    "sv_restart_times ((advance pol c ?m2)\<lparr>m_live := {}\<rparr>) = sv_restart_times m @ [io_now c]"
    using one two by (simp_all add: advance_def Let_def respawn_def start_once_def record_restart_def)
  show thesis
    using that [OF r(1)] r(2) assms(3) by (simp add: advance_def Let_def respawn_def start_once_def record_restart_def)
qed

lemma crash_loop_opens:
  assumes "m_place m = Deciding" "m_live m = {}" "\<not> sv_stop m"
    and "int (length (sv_restart_times m)) + int n = storm_threshold pol"
    and "list_all (\<lambda>t. since \<le> t) (sv_restart_times m)"
    and "list_all (\<lambda>io. since \<le> io_now io \<and> io_now io \<le> since + storm_window_s pol) ios"
    and "3 * n < length ios"
  shows "m_place (crash_loop pol ios m) = Returned CIRCUIT_OPEN \<and>
    sv_restart_count (crash_loop pol ios m) = sv_restart_count m + n"
  using assms
proof (induction n arbitrary: m ios)
  case 0
  then obtain a rest where ios: "ios = a # rest" by (cases ios) auto
  have "\<not> child_alive (m\<lparr>m_now := io_now a\<rparr>)" using 0(2) by (auto simp: child_alive_def split: option.split)
  then have "(advance pol a m)\<lparr>m_live := {}\<rparr> =
      m\<lparr>m_now := io_now a, sv_state := CIRCUIT_OPEN, m_place := Returned CIRCUIT_OPEN, m_live := {}\<rparr>"
    using 0(1,3,4) by (simp add: advance_def Let_def decide_dead act_on_def)
  then show ?case using ios by (simp add: crash_loop_returned)
next
  case (Suc n)
  then obtain a b c rest where ios: "ios = a # b # c # rest"
    by (cases ios; cases "tl ios"; cases "tl (tl ios)") auto
  with Suc.prems(6) have c: "since \<le> io_now c" "io_now c \<le> since + storm_window_s pol" by auto
  then have keep: "list_all (\<lambda>t. io_now c - storm_window_s pol \<le> t) (sv_restart_times m)" and w: "0 \<le> storm_window_s pol"
    using Suc.prems(5) by (auto simp: list_all_iff)
  have "int (length (sv_restart_times m)) < storm_threshold pol" using Suc.prems(4) by simp
  from crash_round [OF Suc.prems(1-3) this keep w, of a b rest] obtain m' where m':
    "crash_loop pol ios m = crash_loop pol rest m'" "m_place m' = Deciding" "m_live m' = {}" "\<not> sv_stop m'"
    "sv_restart_times m' = sv_restart_times m @ [io_now c]" "sv_restart_count m' = Suc (sv_restart_count m)"
    unfolding ios by metis
  have "int (length (sv_restart_times m')) + int n = storm_threshold pol" using Suc.prems(4) m'(5) by simp
  from Suc.IH [OF m'(2-4) this] Suc.prems(5-7) m' c ios show ?case by simp
qed

text \<open>
  C31: a crash storm ends. If the child dies each time before it is looked at, and the clock stays
  within one storm window, the supervisor gives up after exactly as many restarts as the
  threshold: within three steps per restart it has returned with the circuit open, and it
  stays so.
\<close>

theorem crash_storm_ends:
  assumes "0 \<le> storm_threshold pol" "3 * nat (storm_threshold pol) + 3 \<le> length ios"
    and "list_all (\<lambda>io. since \<le> io_now io \<and> io_now io \<le> since + storm_window_s pol) ios"
  shows "m_place (crash_loop pol ios launched) = Returned CIRCUIT_OPEN \<and>
    sv_restart_count (crash_loop pol ios launched) = nat (storm_threshold pol)"
proof -
  obtain a b rest where ios: "ios = a # b # rest" using assms(2) by (cases ios; cases "tl ios") auto
  define m where "m = (advance pol b ((advance pol a launched)\<lparr>m_live := {}\<rparr>))\<lparr>m_live := {}\<rparr>"
  have m: "m_place m = Deciding" "m_live m = {}" "\<not> sv_stop m" "sv_restart_times m = []" "sv_restart_count m = 0"
    by (simp_all add: m_def advance_def Let_def launched_def start_once_def)
  have "crash_loop pol ios launched = crash_loop pol rest m" by (simp add: ios m_def)
  moreover have "m_place (crash_loop pol rest m) = Returned CIRCUIT_OPEN \<and>
      sv_restart_count (crash_loop pol rest m) = sv_restart_count m + nat (storm_threshold pol)"
    using m assms ios by (intro crash_loop_opens [where since = since]) auto
  ultimately show ?thesis using m(5) by simp
qed

theorem crash_storm_ends_witness:
  "m_place (crash_loop default_policy (map (\<lambda>i. \<lparr>io_now = real i, io_draw = 0, io_pid = i\<rparr>) [0..<18]) launched) =
     Returned CIRCUIT_OPEN \<and>
   sv_restart_count (crash_loop default_policy (map (\<lambda>i. \<lparr>io_now = real i, io_draw = 0, io_pid = i\<rparr>) [0..<18]) launched) = 5"
  using crash_storm_ends [where pol = default_policy and since = 0 and
      ios = "map (\<lambda>i. \<lparr>io_now = real i, io_draw = 0, io_pid = i\<rparr>) [0..<18]"]
  by (simp add: default_policy_def list_all_iff)


section \<open>Delays\<close>

text \<open>The backoff lies between the base and the maximum, plus at most the jitter's share.\<close>

lemma delay_bounds:
  assumes "0 \<le> draw" "draw \<le> 1" "0 \<le> jitter_frac pol" "1 \<le> backoff_factor pol"
    "0 \<le> backoff_base_s pol" "backoff_base_s pol \<le> backoff_max_s pol"
  shows "backoff_base_s pol \<le> delay_for pol n draw \<and> delay_for pol n draw \<le> backoff_max_s pol * (1 + jitter_frac pol)"
proof -
  define raw where "raw = min (backoff_base_s pol * backoff_factor pol ^ (max 1 n - 1)) (backoff_max_s pol)"
  have "backoff_base_s pol * 1 \<le> backoff_base_s pol * backoff_factor pol ^ (max 1 n - 1)"
    using assms(4,5) by (intro mult_left_mono) simp_all
  then have raw: "backoff_base_s pol \<le> raw" "raw \<le> backoff_max_s pol" using assms(6) by (simp_all add: raw_def)
  have d: "delay_for pol n draw = raw + raw * jitter_frac pol * draw" by (simp add: delay_for_def raw_def Let_def)
  have r0: "0 \<le> raw" using raw(1) assms(5) by simp
  then have "0 \<le> raw * jitter_frac pol * draw" using assms(1,3) by simp
  moreover have "raw * jitter_frac pol * draw \<le> raw * jitter_frac pol * 1"
    using r0 assms(2,3) by (intro mult_left_mono) simp_all
  moreover have "raw * jitter_frac pol \<le> backoff_max_s pol * jitter_frac pol" using raw(2) assms(3) by (rule mult_right_mono)
  ultimately show ?thesis using d raw by (simp add: algebra_simps)
qed


section \<open>Stopping\<close>

text \<open>
  stopping works between the waits. If \<open>stop\<close> is called while the loop is about to decide or
  backs off, the next step returns with the supervisor stopped and nothing alive.
\<close>

lemma stop_prompt:
  assumes "sup_reach pol m" "m_place m = Deciding \<or> (\<exists>d. m_place m = Sleeping d)"
  shows "m_place (advance pol io (stop m)) = Returned STOPPED \<and> sv_state (advance pol io (stop m)) = STOPPED \<and>
    m_live (advance pol io (stop m)) = {}"
  using sup_okD(1) [OF reach_ok [OF assms(1)]] assms(2)
  by (cases "sv_child m") (auto simp: stop_def advance_def Let_def decide_def act_on_def Let_def)

text \<open>A signal that arrives between the check and the spawn leaves a child nobody stops.\<close>

lemma stop_can_orphan:
  "\<exists>m. sup_reach default_policy m \<and> m_place m = Returned STOPPED \<and> sv_state m = STOPPED \<and> m_live m = {7}"
proof -
  define io where "io = \<lparr>io_now = 0, io_draw = 0, io_pid = 7 :: nat\<rparr>"
  have step: "sup_reach default_policy (advance default_policy io m)"
    if "sup_reach default_policy m" "m_now m \<le> 0" "7 \<notin> m_live m" for m
    using that(1) by (rule sup_reach.Next) (rule sup_step.Step; use that(2,3) in \<open>simp add: io_def\<close>)
  define m1 where "m1 = stop (advance default_policy io launched)"
  have m1: "m1 = launched\<lparr>m_place := FirstSpawn, sv_stop := True\<rparr>"
    by (simp add: m1_def advance_def Let_def launched_def stop_def io_def)
  define m2 where "m2 = advance default_policy io m1"
  have m2: "m2 = m1\<lparr>sv_child := Some 7, sv_state := RUNNING, m_place := Deciding, m_live := {7}\<rparr>"
    by (simp add: m2_def m1 advance_def Let_def launched_def start_once_def io_def)
  define m3 where "m3 = advance default_policy (io\<lparr>io_pid := 8\<rparr>) m2"
  have r1: "sup_reach default_policy m1"
    unfolding m1_def by (rule sup_reach.Next [OF step [OF sup_reach.Launch] sup_step.Signal]) (simp_all add: launched_def)
  then have "sup_reach default_policy m2" unfolding m2_def by (rule step) (simp_all add: m1 launched_def)
  then have "sup_reach default_policy m3"
    unfolding m3_def by (rule sup_reach.Next) (rule sup_step.Step; simp add: m2 m1 launched_def io_def)
  moreover have "m_place m3 = Returned STOPPED \<and> sv_state m3 = STOPPED \<and> m_live m3 = {7}"
    by (simp add: m3_def m2 m1 advance_def Let_def decide_def act_on_def)
  ultimately show ?thesis by blast
qed

text \<open>
  The record of restarts is pruned only when a restart is added, so restarts of long ago still
  count: with a full record one crash opens the circuit, however long the child had lived.
\<close>

lemma stale_storm_trips:
  assumes "\<not> sv_stop m" "\<not> alive" "sv_restart_times m = [0, 1, 2, 3, 4]"
  shows "de_action (decide default_policy alive draw m) = CIRCUIT_BREAK"
  using assms by (simp add: decide_def storm_tripped_def default_policy_def)

end
