(* ===== verification/Llm_Adapters.thy ===== *)
theory Llm_Adapters
  imports Agent_Loop Declassify
begin

text \<open>
  The provider adapters (\<open>sera/llm/adapters/\<close>), the cache markers of \<open>sera/llm/cache.py\<close> and
  \<open>build_llm\<close> (\<open>sera/llm/router.py\<close>): how a session's messages become a provider's request and how
  a provider's events become the chunks the loop consumes. The SDK client is the list of its
  events with the exception that ended it; \<open>json.loads\<close> and the subprocess runner are arguments.
  Messages are the ones \<open>to_openai\<close> makes, whose call arguments are JSON texts.
\<close>


section \<open>Messages in Anthropic's form\<close>

datatype block =
    TextBlock py_str
  | ToolUse py_str py_str py_value
  | ToolOutput py_str py_str

text \<open>A block carries whether it has the \<open>cache_control\<close> key.\<close>

datatype anth_content = Plain py_str | Blocks "(block \<times> bool) list"

record anth_message =
  a_role :: py_str
  a_content :: anth_content

datatype adapter_error = KeyError | MissingKey | ProviderOverflow py_str | ProviderError py_exc | UnknownProvider py_str

type_synonym json_loads = "py_str \<Rightarrow> py_value option"

definition parse_args :: "json_loads \<Rightarrow> py_str \<Rightarrow> py_value" where
  "parse_args loads s = (case loads s of Some v \<Rightarrow> v | None \<Rightarrow> PyDict [(''_raw'', PyStr s)])"

definition content_or_empty :: "Message \<Rightarrow> py_str" where
  "content_or_empty m = (case content m of Some s \<Rightarrow> s | None \<Rightarrow> [])"

definition use_block :: "json_loads \<Rightarrow> tool_call_msg \<Rightarrow> block" where
  "use_block loads tc = ToolUse (mt_id tc) (mt_name tc) (parse_args loads (mt_args tc))"

definition convert_message :: "json_loads \<Rightarrow> Message \<Rightarrow> (adapter_error, anth_message list) py_result" where
  "convert_message loads m =
     (if role m = ''system'' then Inr []
      else if role m = ''tool'' then
        (case tool_call_id m of
           None \<Rightarrow> Inl KeyError
         | Some i \<Rightarrow> Inr [\<lparr>a_role = ''user'', a_content = Blocks [(ToolOutput i (content_or_empty m), False)]\<rparr>])
      else if role m = ''assistant'' \<and> tool_calls m \<noteq> [] then
        Inr [\<lparr>a_role = ''assistant'',
               a_content = Blocks (map (\<lambda>b. (b, False))
                 ((case truthy (content m) of Some s \<Rightarrow> [TextBlock s] | None \<Rightarrow> [])
                  @ map (use_block loads) (tool_calls m)))\<rparr>]
      else Inr [\<lparr>a_role = role m, a_content = Plain (content_or_empty m)\<rparr>])"

fun to_anthropic_messages :: "json_loads \<Rightarrow> Message list \<Rightarrow> (adapter_error, anth_message list) py_result" where
  "to_anthropic_messages loads [] = Inr []"
| "to_anthropic_messages loads (m # ms) =
     rbind (convert_message loads m) (\<lambda>xs. rbind (to_anthropic_messages loads ms) (\<lambda>ys. Inr (xs @ ys)))"


section \<open>Cache markers\<close>

definition ANTHROPIC_TOOL_RESULT_CACHE_WINDOW :: int where
  "ANTHROPIC_TOOL_RESULT_CACHE_WINDOW = 3"

text \<open>The slice \<open>xs[-window:]\<close>: a window of 0 is the whole list.\<close>

definition tail_slice :: "int \<Rightarrow> 'a list \<Rightarrow> 'a list" where
  "tail_slice w xs = (if 0 < w then drop (length xs - nat w) xs else drop (nat (- w)) xs)"

fun is_output :: "block \<Rightarrow> bool" where
  "is_output (ToolOutput _ _) = True"
| "is_output _ = False"

definition holds_output :: "anth_message \<Rightarrow> bool" where
  "holds_output m =
     (a_role m = ''user'' \<and> (case a_content m of Plain _ \<Rightarrow> False | Blocks bs \<Rightarrow> list_ex (is_output \<circ> fst) bs))"

definition mark_last :: "(block \<times> bool) list \<Rightarrow> (block \<times> bool) list" where
  "mark_last bs = (case rev bs of [] \<Rightarrow> [] | (b, _) # r \<Rightarrow> rev ((b, True) # r))"

definition mark_message :: "anth_message \<Rightarrow> anth_message" where
  "mark_message m = (case a_content m of Plain _ \<Rightarrow> m | Blocks bs \<Rightarrow> m\<lparr>a_content := Blocks (mark_last bs)\<rparr>)"

definition output_indices :: "anth_message list \<Rightarrow> nat list" where
  "output_indices ms = filter (\<lambda>i. holds_output (ms ! i)) [0..<length ms]"

definition apply_cache_control ::
  "int \<Rightarrow> py_str \<Rightarrow> anth_message list \<Rightarrow> (block \<times> bool) list \<times> anth_message list"
where
  "apply_cache_control window system ms =
     ([(TextBlock system, True)],
      fold (\<lambda>i out. out[i := mark_message (out ! i)]) (tail_slice window (output_indices ms)) ms)"

record anth_request =
  req_model :: py_str
  req_system :: "(block \<times> bool) list"
  req_messages :: "anth_message list"
  req_tools :: "py_value list"
  req_max_tokens :: nat

definition system_text :: "py_str option \<Rightarrow> Message list \<Rightarrow> py_str option" where
  "system_text system ms =
     (case truthy system of
        Some s \<Rightarrow> Some s
      | None \<Rightarrow> (case filter (\<lambda>m. role m = ''system'') ms of
                   [] \<Rightarrow> None
                 | m # _ \<Rightarrow> truthy (Some (content_or_empty m))))"

text \<open>An empty list of tools is left out of the request, so \<open>req_tools\<close> is \<open>[]\<close> for an absent key.\<close>

definition anthropic_request ::
  "json_loads \<Rightarrow> py_str \<Rightarrow> py_value list \<Rightarrow> py_str option \<Rightarrow> Message list \<Rightarrow> (adapter_error, anth_request) py_result"
where
  "anthropic_request loads model tools system ms =
     rbind (to_anthropic_messages loads ms) (\<lambda>am.
       let (sb, out) = (case system_text system ms of
                          Some s \<Rightarrow> apply_cache_control ANTHROPIC_TOOL_RESULT_CACHE_WINDOW s am
                        | None \<Rightarrow> ([], am))
       in Inr \<lparr>req_model = model, req_system = sb, req_messages = out, req_tools = tools, req_max_tokens = 4096\<rparr>)"

record CacheUsage =
  cu_input :: int
  cu_output :: int
  cu_read :: int
  cu_creation :: int

definition total_input :: "CacheUsage \<Rightarrow> int" where
  "total_input u = cu_input u + cu_read u + cu_creation u"

definition cache_hit_ratio :: "CacheUsage \<Rightarrow> py_float" where
  "cache_hit_ratio u = (if total_input u \<noteq> 0 then of_int (cu_read u) / of_int (total_input u) else 0)"

text \<open>The reported fields, absent ones included; \<open>int(v or 0)\<close> of an integer field.\<close>

definition parse_anthropic_usage :: "(py_str, int option) py_dict option \<Rightarrow> CacheUsage" where
  "parse_anthropic_usage usage =
     (let g = (\<lambda>name. case usage of None \<Rightarrow> 0
                      | Some d \<Rightarrow> (case dict_get d name of Some (Some v) \<Rightarrow> v | _ \<Rightarrow> 0))
      in \<lparr>cu_input = g ''input_tokens'', cu_output = g ''output_tokens'',
          cu_read = g ''cache_read_input_tokens'', cu_creation = g ''cache_creation_input_tokens''\<rparr>)"


section \<open>Assembling tool calls from indexed fragments\<close>

text \<open>
  Both adapters keep a dict from block index to the call under construction. An event
  addresses one index or none, and changes only the entry there.
\<close>

definition indexed_step ::
  "('ev \<Rightarrow> int option) \<Rightarrow> ('ev \<Rightarrow> 'b option \<Rightarrow> 'b option) \<Rightarrow> 'ev \<Rightarrow> (int, 'b) py_dict \<Rightarrow> (int, 'b) py_dict"
where
  "indexed_step slot upd e d =
     (case slot e of
        None \<Rightarrow> d
      | Some i \<Rightarrow> (case upd e (dict_get d i) of None \<Rightarrow> d | Some b \<Rightarrow> dict_set i b d))"

text \<open>The indices in the order their entries are opened.\<close>

fun opened :: "('ev \<Rightarrow> int option) \<Rightarrow> ('ev \<Rightarrow> 'b option \<Rightarrow> 'b option) \<Rightarrow> int list \<Rightarrow> 'ev list \<Rightarrow> int list" where
  "opened slot upd ks [] = []"
| "opened slot upd ks (e # es) =
     (case slot e of
        None \<Rightarrow> opened slot upd ks es
      | Some i \<Rightarrow> if i \<in> set ks \<or> upd e None = None then opened slot upd ks es
                  else i # opened slot upd (ks @ [i]) es)"

definition about :: "('ev \<Rightarrow> int option) \<Rightarrow> int \<Rightarrow> 'ev \<Rightarrow> bool" where
  "about slot i e \<longleftrightarrow> slot e = Some i"

text \<open>What one index makes of the events about it alone.\<close>

definition entry :: "('ev \<Rightarrow> int option) \<Rightarrow> ('ev \<Rightarrow> 'b option \<Rightarrow> 'b option) \<Rightarrow> 'ev list \<Rightarrow> int \<Rightarrow> 'b option" where
  "entry slot upd es i = fold upd (filter (about slot i) es) None"

lemma map_of_nth: "dict_wf d \<Longrightarrow> n < length d \<Longrightarrow> map_of d (fst (d ! n)) = Some (snd (d ! n))"
  by simp

lemma dict_eta: "dict_wf d \<Longrightarrow> d = map (\<lambda>i. (i, the (map_of d i))) (dict_keys d)"
  by (rule nth_equalityI) (simp_all add: map_of_nth)

locale indexed_assembly =
  fixes slot :: "'ev \<Rightarrow> int option"
    and upd :: "'ev \<Rightarrow> 'b option \<Rightarrow> 'b option"
  assumes keeps: "upd e (Some b) \<noteq> None"
begin

lemma step_get:
  "dict_get (indexed_step slot upd e d) i = (if about slot i e then upd e (dict_get d i) else dict_get d i)"
proof (cases "slot e")
  case (Some j)
  show ?thesis
  proof (cases "upd e (dict_get d j)")
    case None
    then have "dict_get d j = None" using keeps [of e] by (cases "dict_get d j") auto
    then show ?thesis using Some None by (auto simp: indexed_step_def about_def)
  qed (use Some in \<open>auto simp: indexed_step_def about_def\<close>)
qed (simp add: indexed_step_def about_def)

lemma step_keys:
  "dict_keys (indexed_step slot upd e d) =
     (case slot e of
        None \<Rightarrow> dict_keys d
      | Some i \<Rightarrow> if i \<in> set (dict_keys d) \<or> upd e None = None then dict_keys d else dict_keys d @ [i])"
proof (cases "slot e")
  case (Some i)
  show ?thesis
  proof (cases "i \<in> set (dict_keys d)")
    case True
    then obtain b where "map_of d i = Some b" by (cases "map_of d i") (auto simp: map_of_eq_None_iff)
    moreover obtain y where "upd e (Some b) = Some y" using keeps [of e b] by auto
    ultimately show ?thesis using Some True by (simp add: indexed_step_def update_keys del: set_map)
  next
    case False
    then have "map_of d i = None" by (simp add: map_of_eq_None_iff)
    then show ?thesis using Some False by (auto simp: indexed_step_def update_keys split: option.split)
  qed
qed (simp add: indexed_step_def)

lemma get_fold:
  "dict_get (fold (indexed_step slot upd) es d) i = fold upd (filter (about slot i) es) (dict_get d i)"
  by (induction es arbitrary: d) (simp_all add: step_get)

lemma wf_fold: "dict_wf d \<Longrightarrow> dict_wf (fold (indexed_step slot upd) es d)"
  by (induction es arbitrary: d) (auto simp: indexed_step_def split: option.split)

lemma keys_fold:
  "dict_keys (fold (indexed_step slot upd) es d) = dict_keys d @ opened slot upd (dict_keys d) es"
  by (induction es arbitrary: d) (simp_all add: step_keys del: set_map split: option.split)

text \<open>The entries, in order, are those of the opened indices, each a function of its own events.\<close>

theorem assembled:
  "fold (indexed_step slot upd) es [] = map (\<lambda>i. (i, the (entry slot upd es i))) (opened slot upd [] es)"
proof -
  let ?d = "fold (indexed_step slot upd) es []"
  have wf: "dict_wf ?d" by (rule wf_fold) simp
  have "?d = map (\<lambda>i. (i, the (map_of ?d i))) (dict_keys ?d)" by (rule dict_eta [OF wf])
  then show ?thesis by (simp add: keys_fold get_fold entry_def)
qed

end


section \<open>Streams\<close>

record tool_buf =
  buf_id :: "py_str option"
  buf_name :: py_str
  buf_raw :: py_str

text \<open>A chunk as an adapter yields it: parsed arguments may be any JSON value.\<close>

record tool_delta =
  td_id :: "py_str option"
  td_name :: py_str
  td_args :: py_value

record adapter_chunk =
  ch_text :: py_str
  ch_call :: "tool_delta option"
  ch_finish :: "py_str option"
  ch_usage :: "usage option"

definition text_chunk :: "py_str \<Rightarrow> adapter_chunk" where
  "text_chunk s = \<lparr>ch_text = s, ch_call = None, ch_finish = None, ch_usage = None\<rparr>"

definition buffered_args :: "json_loads \<Rightarrow> py_str \<Rightarrow> py_value" where
  "buffered_args loads raw =
     (case loads (if raw = [] then ''{}'' else raw) of Some v \<Rightarrow> v | None \<Rightarrow> PyDict [(''_raw'', PyStr raw)])"

definition call_chunk :: "json_loads \<Rightarrow> tool_buf \<Rightarrow> adapter_chunk" where
  "call_chunk loads b =
     \<lparr>ch_text = [], ch_call = Some \<lparr>td_id = buf_id b, td_name = buf_name b,
        td_args = buffered_args loads (buf_raw b)\<rparr>,
      ch_finish = None, ch_usage = None\<rparr>"

datatype anth_event =
    BlockStart int "(py_str \<times> py_str) option"
  | TextDelta py_str
  | JsonDelta int py_str
  | MessageStop
  | OtherEvent

record anth_final =
  stop_reason :: "py_str option"
  final_usage :: "(py_str, int option) py_dict option"

definition anth_buffer :: "anth_event \<Rightarrow> (int, tool_buf) py_dict \<Rightarrow> (int, tool_buf) py_dict" where
  "anth_buffer e d =
     (case e of
        BlockStart i (Some (x, n)) \<Rightarrow> dict_set i \<lparr>buf_id = Some x, buf_name = n, buf_raw = []\<rparr> d
      | JsonDelta i s \<Rightarrow> (case dict_get d i of None \<Rightarrow> d | Some b \<Rightarrow> dict_set i (b\<lparr>buf_raw := buf_raw b @ s\<rparr>) d)
      | _ \<Rightarrow> d)"

definition final_chunk :: "anth_final \<Rightarrow> adapter_chunk" where
  "final_chunk final =
     (let u = parse_anthropic_usage (final_usage final)
      in \<lparr>ch_text = [], ch_call = None,
          ch_finish = Some (case truthy (stop_reason final) of Some r \<Rightarrow> r | None \<Rightarrow> ''stop''),
          ch_usage = Some \<lparr>u_input = cu_input u, u_output = cu_output u, u_cache_read = cu_read u,
                           u_cache_creation = cu_creation u\<rparr>\<rparr>)"

definition anth_yield :: "json_loads \<Rightarrow> anth_final \<Rightarrow> (int, tool_buf) py_dict \<Rightarrow> anth_event \<Rightarrow> adapter_chunk list" where
  "anth_yield loads final d e =
     (case e of
        TextDelta s \<Rightarrow> [text_chunk s]
      | MessageStop \<Rightarrow> map (call_chunk loads \<circ> snd) d @ [final_chunk final]
      | _ \<Rightarrow> [])"

fun anth_events ::
  "json_loads \<Rightarrow> anth_final \<Rightarrow> (int, tool_buf) py_dict \<Rightarrow> anth_event list \<Rightarrow> adapter_chunk list"
where
  "anth_events loads final d [] = []"
| "anth_events loads final d (e # es) = anth_yield loads final d e @ anth_events loads final (anth_buffer e d) es"

definition is_context_overflow_anthropic :: "py_exc \<Rightarrow> bool" where
  "is_context_overflow_anthropic e =
     (let msg = str_lower (exc_text e)
      in str_contains msg ''prompt is too long'' \<or>
         (str_contains msg ''max_tokens'' \<and> str_contains msg ''exceed'') \<or>
         str_contains msg ''context window'')"

definition anth_ending :: "py_exc option \<Rightarrow> stream_end" where
  "anth_ending r =
     (case r of None \<Rightarrow> Complete
      | Some e \<Rightarrow> if is_context_overflow_anthropic e then RaisedOverflow else RaisedOther e)"

text \<open>The SDK: from a request to its events, the exception that ends them, and the final message.\<close>

type_synonym anth_client = "anth_request \<Rightarrow> anth_event list \<times> py_exc option \<times> anth_final"

definition anthropic_stream ::
  "json_loads \<Rightarrow> anth_client option \<Rightarrow> py_str \<Rightarrow> Message list \<Rightarrow> py_value list \<Rightarrow> py_str option
    \<Rightarrow> (adapter_error, adapter_chunk list \<times> stream_end) py_result"
where
  "anthropic_stream loads client model ms tools system =
     (case client of
        None \<Rightarrow> Inl MissingKey
      | Some sdk \<Rightarrow>
          rbind (anthropic_request loads model tools system ms) (\<lambda>req.
            case sdk req of (es, raised, final) \<Rightarrow> Inr (anth_events loads final [] es, anth_ending raised)))"


text \<open>OpenAI's events: a choice, or none; a delta may carry any part of a call.\<close>

record oa_delta =
  oa_index :: int
  oa_id :: "py_str option"
  oa_name :: "py_str option"
  oa_args :: "py_str option"

record oa_choice =
  oc_content :: "py_str option"
  oc_calls :: "oa_delta list"
  oc_finish :: "py_str option"

definition or_empty :: "py_str option \<Rightarrow> py_str" where
  "or_empty x = (case x of Some s \<Rightarrow> s | None \<Rightarrow> [])"

definition fresh_buf :: tool_buf where
  "fresh_buf = \<lparr>buf_id = None, buf_name = [], buf_raw = []\<rparr>"

definition extend_buf :: "oa_delta \<Rightarrow> tool_buf \<Rightarrow> tool_buf" where
  "extend_buf tc b =
     \<lparr>buf_id = (case truthy (oa_id tc) of Some x \<Rightarrow> Some x | None \<Rightarrow> buf_id b),
      buf_name = buf_name b @ or_empty (oa_name tc),
      buf_raw = buf_raw b @ or_empty (oa_args tc)\<rparr>"

definition openai_buffer :: "oa_delta \<Rightarrow> (int, tool_buf) py_dict \<Rightarrow> (int, tool_buf) py_dict" where
  "openai_buffer tc d = dict_set (oa_index tc) (extend_buf tc (dict_get_or d (oa_index tc) fresh_buf)) d"

fun openai_events :: "json_loads \<Rightarrow> (int, tool_buf) py_dict \<Rightarrow> oa_choice option list \<Rightarrow> adapter_chunk list" where
  "openai_events loads d [] = []"
| "openai_events loads d (None # es) = openai_events loads d es"
| "openai_events loads d (Some c # es) =
     (let d' = fold openai_buffer (oc_calls c) d
      in (case truthy (oc_content c) of None \<Rightarrow> [] | Some s \<Rightarrow> [text_chunk s])
         @ (case truthy (oc_finish c) of
              None \<Rightarrow> []
            | Some f \<Rightarrow> map (call_chunk loads \<circ> snd) d'
                         @ [\<lparr>ch_text = [], ch_call = None, ch_finish = Some f, ch_usage = None\<rparr>])
         @ openai_events loads d' es)"

record sdk_exc =
  sdk_raised :: py_exc
  exc_code :: "py_str option"
  body_code :: "py_str option"

definition is_context_overflow_openai :: "sdk_exc \<Rightarrow> bool" where
  "is_context_overflow_openai e =
     (let code = (case truthy (exc_code e) of Some c \<Rightarrow> Some c | None \<Rightarrow> body_code e);
          msg = str_lower (exc_text (sdk_raised e))
      in code = Some ''context_length_exceeded'' \<or>
         str_contains msg ''context length'' \<or> str_contains msg ''maximum context'' \<or> str_contains msg ''context_length'')"

record oa_request =
  or_model :: py_str
  or_messages :: "Message list"
  or_tools :: "py_value list"

text \<open>\<open>tool_choice = "auto"\<close> accompanies a non-empty list of tools.\<close>

definition openai_request :: "py_str \<Rightarrow> py_value list \<Rightarrow> py_str option \<Rightarrow> Message list \<Rightarrow> oa_request" where
  "openai_request model tools system ms =
     \<lparr>or_model = model,
      or_messages = (case truthy system of
          Some s \<Rightarrow> (if ms = [] \<or> role (hd ms) \<noteq> ''system''
                     then \<lparr>role = ''system'', content = Some s, tool_calls = [], tool_call_id = None,
                           msg_name = None, finish_reason = None\<rparr> # ms else ms)
        | None \<Rightarrow> ms),
      or_tools = tools\<rparr>"

type_synonym oa_client = "oa_request \<Rightarrow> sdk_exc + (oa_choice option list \<times> py_exc option)"

definition openai_stream ::
  "json_loads \<Rightarrow> oa_client option \<Rightarrow> py_str \<Rightarrow> Message list \<Rightarrow> py_value list \<Rightarrow> py_str option
    \<Rightarrow> (adapter_error, adapter_chunk list \<times> stream_end) py_result"
where
  "openai_stream loads client model ms tools system =
     (case client of
        None \<Rightarrow> Inl MissingKey
      | Some sdk \<Rightarrow>
          (case sdk (openai_request model tools system ms) of
             Inl e \<Rightarrow> Inr ([], if is_context_overflow_openai e then RaisedOverflow else RaisedOther (sdk_raised e))
           | Inr (es, raised) \<Rightarrow>
               Inr (openai_events loads [] es, case raised of None \<Rightarrow> Complete | Some x \<Rightarrow> RaisedOther x)))"


section \<open>What a stream yields\<close>

fun anth_slot :: "anth_event \<Rightarrow> int option" where
  "anth_slot (BlockStart i (Some _)) = Some i"
| "anth_slot (JsonDelta i _) = Some i"
| "anth_slot _ = None"

fun anth_upd :: "anth_event \<Rightarrow> tool_buf option \<Rightarrow> tool_buf option" where
  "anth_upd (BlockStart i (Some (x, n))) old = Some \<lparr>buf_id = Some x, buf_name = n, buf_raw = []\<rparr>"
| "anth_upd (JsonDelta i s) old = map_option (\<lambda>b. b\<lparr>buf_raw := buf_raw b @ s\<rparr>) old"
| "anth_upd _ old = old"

interpretation anth: indexed_assembly anth_slot anth_upd
proof unfold_locales
  show "anth_upd e (Some b) \<noteq> None" for e b
    by (cases "(e, Some b)" rule: anth_upd.cases) simp_all
qed

lemma anth_buffer_indexed: "anth_buffer e d = indexed_step anth_slot anth_upd e d"
  by (cases "(e, dict_get d i)" rule: anth_upd.cases)
    (auto simp: anth_buffer_def indexed_step_def split: option.split)

definition openai_slot :: "oa_delta \<Rightarrow> int option" where
  "openai_slot tc = Some (oa_index tc)"

definition openai_upd :: "oa_delta \<Rightarrow> tool_buf option \<Rightarrow> tool_buf option" where
  "openai_upd tc old = Some (extend_buf tc (case old of None \<Rightarrow> fresh_buf | Some b \<Rightarrow> b))"

interpretation openai: indexed_assembly openai_slot openai_upd
  by unfold_locales (simp add: openai_upd_def)

lemma openai_buffer_indexed: "openai_buffer tc d = indexed_step openai_slot openai_upd tc d"
  by (simp add: openai_buffer_def indexed_step_def openai_slot_def openai_upd_def dict_get_or_def split: option.split)

text \<open>The text and the calls of a list of chunks.\<close>

definition chunk_texts :: "adapter_chunk list \<Rightarrow> py_str" where
  "chunk_texts cs = concat (map ch_text cs)"

definition chunk_calls :: "adapter_chunk list \<Rightarrow> tool_delta list" where
  "chunk_calls cs = List.map_filter ch_call cs"

lemma chunk_simps [simp]:
  "chunk_texts [] = []" "chunk_calls [] = []"
  "chunk_texts (c # cs) = ch_text c @ chunk_texts cs"
  "chunk_calls (c # cs) = (case ch_call c of None \<Rightarrow> [] | Some x \<Rightarrow> [x]) @ chunk_calls cs"
  "chunk_texts (xs @ ys) = chunk_texts xs @ chunk_texts ys" "chunk_calls (xs @ ys) = chunk_calls xs @ chunk_calls ys"
  by (simp_all add: chunk_texts_def chunk_calls_def map_filter_def split: option.split)

lemma chunk_fields [simp]:
  "ch_text (text_chunk s) = s" "ch_call (text_chunk s) = None"
  "ch_text (final_chunk f) = []" "ch_call (final_chunk f) = None"
  "ch_text (call_chunk loads x) = []"
  "ch_call (call_chunk loads x) = Some \<lparr>td_id = buf_id x, td_name = buf_name x, td_args = buffered_args loads (buf_raw x)\<rparr>"
  by (simp_all add: text_chunk_def final_chunk_def call_chunk_def Let_def)

lemma chunk_flush [simp]:
  "chunk_texts (map (\<lambda>x. call_chunk loads (g x)) xs) = []"
  "chunk_calls (map (\<lambda>x. call_chunk loads (g x)) xs) =
     map (\<lambda>x. \<lparr>td_id = buf_id (g x), td_name = buf_name (g x), td_args = buffered_args loads (buf_raw (g x))\<rparr>) xs"
  by (induction xs) auto

fun delta_of :: "anth_event \<Rightarrow> py_str" where
  "delta_of (TextDelta s) = s"
| "delta_of _ = []"

lemma anth_events_append:
  "anth_events loads final d (es @ es') = anth_events loads final d es @ anth_events loads final (fold anth_buffer es d) es'"
  by (induction es arbitrary: d) simp_all

lemma anth_text: "chunk_texts (anth_events loads final d es) = concat (map delta_of es)"
proof (induction es arbitrary: d)
  case (Cons e es)
  then show ?case by (cases e) (simp_all add: anth_yield_def o_def)
qed simp

text \<open>Calls appear only when the message stops: a stream that ends before it yields none.\<close>

lemma anth_no_stop: "MessageStop \<notin> set es \<Longrightarrow> chunk_calls (anth_events loads final d es) = []"
proof (induction es arbitrary: d)
  case (Cons e es)
  then show ?case by (cases e) (simp_all add: anth_yield_def o_def)
qed simp


text \<open>A tool call as the provider sends it: index, id, name and the fragments of its JSON.\<close>

type_synonym tool_block = "int \<times> py_str \<times> py_str \<times> py_str list"

definition block_events :: "tool_block \<Rightarrow> anth_event list" where
  "block_events b = (case b of (i, x, n, fs) \<Rightarrow> BlockStart i (Some (x, n)) # map (JsonDelta i) fs)"

definition block_call :: "json_loads \<Rightarrow> tool_block \<Rightarrow> tool_delta" where
  "block_call loads b =
     (case b of (i, x, n, fs) \<Rightarrow> \<lparr>td_id = Some x, td_name = n, td_args = buffered_args loads (concat fs)\<rparr>)"

fun start_index :: "anth_event \<Rightarrow> int option" where
  "start_index (BlockStart i (Some _)) = Some i"
| "start_index _ = None"

lemma json_fragments:
  "fold anth_upd (map (JsonDelta i) fs) (Some b) = Some (b\<lparr>buf_raw := buf_raw b @ concat fs\<rparr>)"
  by (induction fs arbitrary: b) simp_all

lemma block_entry:
  assumes "filter (about anth_slot (fst b)) es = block_events b"
  shows "entry anth_slot anth_upd es (fst b) =
     (case b of (i, x, n, fs) \<Rightarrow> Some \<lparr>buf_id = Some x, buf_name = n, buf_raw = concat fs\<rparr>)"
  using assms by (cases b) (simp add: entry_def block_events_def json_fragments)

lemma opens_at_start: "anth_upd e None \<noteq> None \<longleftrightarrow> start_index e \<noteq> None" "start_index e = Some i \<Longrightarrow> anth_slot e = Some i"
  by (cases "(e, None :: tool_buf option)" rule: anth_upd.cases; simp)+

lemma opened_starts:
  "distinct (ks @ List.map_filter start_index es) \<Longrightarrow> opened anth_slot anth_upd ks es = List.map_filter start_index es"
proof (induction es arbitrary: ks)
  case (Cons e es)
  show ?case
  proof (cases "start_index e")
    case None
    then have "anth_upd e None = None" using opens_at_start(1) [of e] by simp
    then show ?thesis using Cons None by (auto simp: map_filter_def split: option.split)
  next
    case (Some i)
    then have "anth_upd e None \<noteq> None" "anth_slot e = Some i" using opens_at_start by simp_all
    then show ?thesis using Cons.IH [of "ks @ [i]"] Cons.prems Some by (auto simp: map_filter_def)
  qed
qed (simp add: map_filter_def)

lemma anth_calls:
  assumes "distinct (map fst bs)" and "List.map_filter start_index es = map fst bs"
    and "list_all (\<lambda>b. filter (about anth_slot (fst b)) es = block_events b) bs" and "MessageStop \<notin> set es"
  shows "chunk_calls (anth_events loads final [] (es @ [MessageStop])) = map (block_call loads) bs"
proof -
  have d: "fold anth_buffer es [] = map (\<lambda>i. (i, the (entry anth_slot anth_upd es i))) (map fst bs)"
    using anth.assembled [of es] opened_starts [of "[]" es] assms
    by (simp add: anth_buffer_indexed [abs_def])
  have e: "the (entry anth_slot anth_upd es (fst b)) =
      (case b of (i, x, n, fs) \<Rightarrow> \<lparr>buf_id = Some x, buf_name = n, buf_raw = concat fs\<rparr>)" if "b \<in> set bs" for b
    using block_entry [of b es] assms(3) that by (auto simp: list_all_iff split: prod.splits)
  have "chunk_calls (anth_events loads final [] (es @ [MessageStop])) =
     map (\<lambda>b. let x = the (entry anth_slot anth_upd es (fst b))
              in \<lparr>td_id = buf_id x, td_name = buf_name x, td_args = buffered_args loads (buf_raw x)\<rparr>) bs"
    using anth_no_stop [OF assms(4)] by (simp add: anth_events_append anth_yield_def d o_def Let_def)
  also have "\<dots> = map (block_call loads) bs"
    by (rule map_cong) (auto simp: e block_call_def split: prod.split)
  finally show ?thesis .
qed


section \<open>From an adapter to the loop\<close>

text \<open>The loop reads \<open>tc["arguments"]\<close> as a dict, so a chunk is usable when its arguments are one.\<close>

definition as_call :: "tool_delta \<Rightarrow> ToolCall option" where
  "as_call td =
     (case (td_id td, td_args td) of
        (Some x, PyDict kvs) \<Rightarrow> Some \<lparr>call_id = x, call_name = td_name td, call_args = kvs\<rparr>
      | _ \<Rightarrow> None)"

definition loop_chunk :: "adapter_chunk \<Rightarrow> StreamChunk" where
  "loop_chunk c =
     \<lparr>delta_text = ch_text c, tool_call_delta = Option.bind (ch_call c) as_call,
      chunk_finish = ch_finish c, chunk_usage = ch_usage c\<rparr>"

lemma consume_text_calls [simp]: "acc_calls (consume_text s a) = acc_calls a"
  by (simp add: consume_text_def split: prod.split)

lemma consume_end_calls [simp]: "acc_calls (consume_end a) = acc_calls a"
  by (simp add: consume_end_def split: prod.split)

lemma loop_calls:
  "acc_calls (consume_stream (map loop_chunk cs) ending) = List.map_filter as_call (chunk_calls cs)"
proof -
  have "acc_calls (fold consume_chunk (map loop_chunk cs) a) = acc_calls a @ List.map_filter as_call (chunk_calls cs)" for a
    by (induction cs arbitrary: a)
      (auto simp: consume_chunk_def loop_chunk_def Let_def map_filter_def split: option.split)
  then show ?thesis by (simp add: consume_stream_def fresh_acc_def Let_def)
qed

text \<open>
  C7: The loop runs exactly the tool calls Anthropic sent, in the order their blocks were opened,
  each with the arguments its JSON fragments spell, whatever the fragmentation and however
  the blocks, the text and other events are interleaved.
\<close>

theorem anthropic_calls_reach_loop:
  assumes "distinct (map fst bs)" and "List.map_filter start_index es = map fst bs"
    and "list_all (\<lambda>b. filter (about anth_slot (fst b)) es = block_events b) bs" and "MessageStop \<notin> set es"
    and "list_all2 (\<lambda>b kvs. buffered_args loads (concat (snd (snd (snd b)))) = PyDict kvs) bs argss"
  shows "acc_calls (consume_stream (map loop_chunk (anth_events loads final [] (es @ [MessageStop]))) Complete) =
     map (\<lambda>((i, x, n, fs), kvs). \<lparr>call_id = x, call_name = n, call_args = kvs\<rparr>) (zip bs argss)"
proof -
  have "List.map_filter as_call (map (block_call loads) bs) =
      map (\<lambda>((i, x, n, fs), kvs). \<lparr>call_id = x, call_name = n, call_args = kvs\<rparr>) (zip bs argss)"
    using assms(5) by (induction rule: list_all2_induct) (auto simp: map_filter_def block_call_def as_call_def split: prod.split)
  then show ?thesis using anth_calls [OF assms(1-4), of loads final] by (simp only: loop_calls)
qed

definition demo_loads :: json_loads where
  "demo_loads s =
     (if s = ''{}'' then Some (PyDict [])
      else if s = ''{q:1}'' then Some (PyDict [(''q'', PyInt 1)]) else None)"

lemma anthropic_calls_reach_loop_witness:
  "acc_calls (consume_stream (map loop_chunk (anth_events demo_loads \<lparr>stop_reason = None, final_usage = None\<rparr> []
      ([BlockStart 1 (Some (''a'', ''look'')), TextDelta ''hi'', JsonDelta 1 ''{q'', BlockStart 2 (Some (''b'', ''list'')),
        JsonDelta 1 '':1}''] @ [MessageStop]))) Complete) =
     map (\<lambda>((i, x, n, fs), kvs). \<lparr>call_id = x, call_name = n, call_args = kvs\<rparr>)
       (zip [(1 :: int, ''a'', ''look'', [''{q'', '':1}'']), (2, ''b'', ''list'', [])] [[(''q'', PyInt 1)], []])"
  by (rule anthropic_calls_reach_loop)
    (simp_all add: map_filter_def about_def block_events_def buffered_args_def demo_loads_def)


text \<open>
  OpenAI: the pieces of a call come in deltas under its index; its name and its arguments are
  concatenated and the last id counts. The first event with a finish reason flushes them all.
\<close>

definition joined_call :: "json_loads \<Rightarrow> oa_delta list \<Rightarrow> tool_delta" where
  "joined_call loads ds =
     \<lparr>td_id = (case List.map_filter (truthy \<circ> oa_id) ds of [] \<Rightarrow> None | x # xs \<Rightarrow> Some (List.last (x # xs))),
      td_name = concat (map (or_empty \<circ> oa_name) ds),
      td_args = buffered_args loads (concat (map (or_empty \<circ> oa_args) ds))\<rparr>"

definition all_deltas :: "oa_choice option list \<Rightarrow> oa_delta list" where
  "all_deltas es = concat (map (\<lambda>e. case e of None \<Rightarrow> [] | Some c \<Rightarrow> oc_calls c) es)"

fun first_seen :: "int list \<Rightarrow> int list" where
  "first_seen [] = []"
| "first_seen (i # is) = i # filter (\<lambda>j. j \<noteq> i) (first_seen is)"

lemma openai_entry:
  "fold openai_upd ds (Some b) =
     Some \<lparr>buf_id = (case List.map_filter (truthy \<circ> oa_id) ds of [] \<Rightarrow> buf_id b | x # xs \<Rightarrow> Some (List.last (x # xs))),
           buf_name = buf_name b @ concat (map (or_empty \<circ> oa_name) ds),
           buf_raw = buf_raw b @ concat (map (or_empty \<circ> oa_args) ds)\<rparr>"
proof (induction ds arbitrary: b)
  case (Cons d ds)
  then show ?case
    by (auto simp: openai_upd_def extend_buf_def map_filter_def split: option.split list.split)
qed (simp add: map_filter_def)

lemma openai_new_entry:
  "ds \<noteq> [] \<Longrightarrow> fold openai_upd ds None = fold openai_upd ds (Some fresh_buf)"
  by (cases ds) (simp_all add: openai_upd_def)

lemma openai_opened: "opened openai_slot openai_upd ks ds = filter (\<lambda>i. i \<notin> set ks) (first_seen (map oa_index ds))"
proof (induction ds arbitrary: ks)
  case (Cons d ds)
  then show ?case
    by (auto simp: openai_slot_def openai_upd_def intro!: filter_cong)
qed simp

lemma openai_assembled:
  "fold openai_buffer ds [] =
     map (\<lambda>i. (i, the (entry openai_slot openai_upd ds i))) (first_seen (map oa_index ds))"
  using openai.assembled [of ds] by (simp add: openai_buffer_indexed [abs_def] openai_opened)

lemma first_seen_set: "set (first_seen is) = set is"
  by (induction "is") auto

lemma openai_delta:
  assumes "i \<in> set (map oa_index ds)"
  defines "x \<equiv> the (entry openai_slot openai_upd ds i)"
  shows "\<lparr>td_id = buf_id x, td_name = buf_name x, td_args = buffered_args loads (buf_raw x)\<rparr> =
    joined_call loads (filter (\<lambda>d. oa_index d = i) ds)"
proof -
  let ?ds = "filter (\<lambda>d. oa_index d = i) ds"
  have "?ds \<noteq> []" using assms(1) by (auto simp: filter_empty_conv)
  then have "entry openai_slot openai_upd ds i = fold openai_upd ?ds (Some fresh_buf)"
    by (simp add: entry_def about_def [abs_def] openai_slot_def openai_new_entry)
  then show ?thesis by (simp add: x_def openai_entry joined_call_def fresh_buf_def split: list.split)
qed

text \<open>The prefix of events before the finish reason yields text only.\<close>

definition unfinished :: "oa_choice option \<Rightarrow> bool" where
  "unfinished e = (case e of None \<Rightarrow> True | Some c \<Rightarrow> truthy (oc_finish c) = None)"

lemma openai_unfinished:
  assumes "list_all unfinished es"
  shows "chunk_calls (openai_events loads d (es @ es')) =
    chunk_calls (openai_events loads (fold openai_buffer (all_deltas es) d) es')"
  using assms
proof (induction es arbitrary: d)
  case (Cons e es)
  show ?case
  proof (cases e)
    case (Some c)
    then show ?thesis using Cons by (simp add: unfinished_def all_deltas_def Let_def split: option.split)
  qed (use Cons in \<open>simp add: all_deltas_def\<close>)
qed (simp add: all_deltas_def)

theorem openai_calls_joined:
  assumes "list_all unfinished es" and "truthy (oc_finish c) = Some f"
  shows "chunk_calls (openai_events loads [] (es @ [Some c])) =
    (let ds = all_deltas (es @ [Some c])
     in map (\<lambda>i. joined_call loads (filter (\<lambda>d. oa_index d = i) ds)) (first_seen (map oa_index ds)))"
proof -
  let ?ds = "all_deltas (es @ [Some c])"
  have ds: "fold openai_buffer (oc_calls c) (fold openai_buffer (all_deltas es) []) = fold openai_buffer ?ds []"
    by (simp add: all_deltas_def)
  have "chunk_calls (openai_events loads [] (es @ [Some c])) =
      chunk_calls (map (call_chunk loads \<circ> snd) (fold openai_buffer ?ds []))"
    using assms(2) unfolding openai_unfinished [OF assms(1)]
    by (simp add: Let_def ds o_def del: fold_append split: option.split)
  also have "\<dots> = map (\<lambda>i. joined_call loads (filter (\<lambda>d. oa_index d = i) ?ds)) (first_seen (map oa_index ?ds))"
    using openai_delta [of _ ?ds loads]
    by (simp add: openai_assembled o_def first_seen_set)
  finally show ?thesis by (simp add: Let_def)
qed


lemma openai_calls_joined_witness:
  "chunk_calls (openai_events demo_loads []
      ([Some \<lparr>oc_content = Some ''hi'', oc_calls = [\<lparr>oa_index = 0, oa_id = Some ''a'', oa_name = Some ''look'', oa_args = Some ''{q''\<rparr>],
              oc_finish = None\<rparr>, None] @
       [Some \<lparr>oc_content = None, oc_calls = [\<lparr>oa_index = 0, oa_id = None, oa_name = None, oa_args = Some '':1}''\<rparr>],
              oc_finish = Some ''tool_calls''\<rparr>])) =
    (let ds = all_deltas
      ([Some \<lparr>oc_content = Some ''hi'', oc_calls = [\<lparr>oa_index = 0, oa_id = Some ''a'', oa_name = Some ''look'', oa_args = Some ''{q''\<rparr>],
              oc_finish = None\<rparr>, None] @
       [Some \<lparr>oc_content = None, oc_calls = [\<lparr>oa_index = 0, oa_id = None, oa_name = None, oa_args = Some '':1}''\<rparr>],
              oc_finish = Some ''tool_calls''\<rparr>])
     in map (\<lambda>i. joined_call demo_loads (filter (\<lambda>d. oa_index d = i) ds)) (first_seen (map oa_index ds)))"
  by (rule openai_calls_joined [where f = "''tool_calls''"]) (simp_all add: unfinished_def truthy_def)

text \<open>A second event with a finish reason yields the same calls once more.\<close>

lemma openai_finish_twice:
  "chunk_calls (openai_events demo_loads []
     [Some \<lparr>oc_content = None, oc_calls = [\<lparr>oa_index = 0, oa_id = Some ''a'', oa_name = Some ''look'', oa_args = None\<rparr>],
            oc_finish = Some ''tool_calls''\<rparr>,
      Some \<lparr>oc_content = None, oc_calls = [], oc_finish = Some ''stop''\<rparr>]) =
   (let c = \<lparr>td_id = Some ''a'', td_name = ''look'', td_args = PyDict []\<rparr> in [c, c])"
  by code_simp


section \<open>Properties of a request\<close>

definition unmarked :: "anth_message \<Rightarrow> anth_message" where
  "unmarked m = (case a_content m of Plain _ \<Rightarrow> m | Blocks bs \<Rightarrow> m\<lparr>a_content := Blocks (map (\<lambda>(b, _). (b, False)) bs)\<rparr>)"

definition marks :: "anth_message \<Rightarrow> nat" where
  "marks m = (case a_content m of Plain _ \<Rightarrow> 0 | Blocks bs \<Rightarrow> length (filter snd bs))"

definition breakpoints :: "anth_request \<Rightarrow> nat" where
  "breakpoints r = length (filter snd (req_system r)) + sum_list (map marks (req_messages r))"

lemma mark_last_snoc: "mark_last (bs @ [b]) = bs @ [(fst b, True)]"
  by (simp add: mark_last_def split: prod.split)

lemma unmark_mark: "unmarked (mark_message m) = unmarked m"
proof (cases "a_content m")
  case (Blocks bs)
  then show ?thesis
    by (cases bs rule: rev_cases) (auto simp: unmarked_def mark_message_def mark_last_snoc mark_last_def split: prod.split)
qed (simp add: mark_message_def)

lemma marks_mark: "marks (mark_message m) \<le> marks m + 1"
proof (cases "a_content m")
  case (Blocks bs)
  then show ?thesis
    by (cases bs rule: rev_cases) (auto simp: marks_def mark_message_def mark_last_snoc mark_last_def)
qed (simp add: mark_message_def)

lemma sum_marks_update:
  "i < length ms \<Longrightarrow> sum_list (map marks (ms[i := mark_message (ms ! i)])) \<le> sum_list (map marks ms) + 1"
proof (induction ms arbitrary: i)
  case (Cons m ms)
  then show ?case using marks_mark [of m] by (cases i) auto
qed simp

lemma marking:
  assumes "list_all (\<lambda>i. i < length ms) is"
  defines "out \<equiv> fold (\<lambda>i out. out[i := mark_message (out ! i)]) is ms"
  shows "map unmarked out = map unmarked ms \<and> sum_list (map marks out) \<le> sum_list (map marks ms) + length is"
  using assms(1) unfolding out_def
proof (induction "is" arbitrary: ms)
  case (Cons i "is")
  define ms' where "ms' = ms[i := mark_message (ms ! i)]"
  have i: "i < length ms" and l: "list_all (\<lambda>i. i < length ms') is" using Cons.prems by (simp_all add: ms'_def)
  have "map unmarked ms' = (map unmarked ms)[i := map unmarked ms ! i]"
    using i by (simp only: ms'_def map_update unmark_mark nth_map)
  then have u: "map unmarked ms' = map unmarked ms" by simp
  have n: "sum_list (map marks ms') \<le> sum_list (map marks ms) + 1"
    unfolding ms'_def by (rule sum_marks_update [OF i])
  show ?case using Cons.IH [OF l] u n by (simp flip: ms'_def)
qed simp

lemma tail_slice_three: "length (tail_slice 3 xs) \<le> 3" "set (tail_slice w xs) \<subseteq> set xs"
  by (auto simp: tail_slice_def dest: in_set_dropD)

lemma converted_unmarked:
  "to_anthropic_messages loads ms = Inr am \<Longrightarrow> list_all (\<lambda>m. marks m = 0 \<and> unmarked m = m) am"
proof (induction ms arbitrary: am)
  case (Cons m ms)
  then obtain xs ys where x: "convert_message loads m = Inr xs" and y: "to_anthropic_messages loads ms = Inr ys"
    and am: "am = xs @ ys" by (auto simp: rbind_eq_Inr)
  have "list_all (\<lambda>m. marks m = 0 \<and> unmarked m = m) xs"
    using x by (auto simp: convert_message_def marks_def unmarked_def o_def split: if_splits option.splits)
  then show ?case using Cons.IH [OF y] am by simp
qed simp

text \<open>
  C9: A request has at most four cache breakpoints, Anthropic's limit, and but for them its
  messages are the converted ones.
\<close>

theorem cache_markers_bounded:
  assumes "anthropic_request loads model tools system ms = Inr r"
  shows "breakpoints r \<le> 4 \<and> Inr (map unmarked (req_messages r)) = to_anthropic_messages loads ms"
proof -
  obtain am where am: "to_anthropic_messages loads ms = Inr am"
    using assms by (auto simp: anthropic_request_def rbind_eq_Inr)
  have z: "sum_list (map marks am) = 0" and u: "map unmarked am = am"
    using converted_unmarked [OF am] by (auto simp: list_all_iff intro: map_idI)
  let ?is = "tail_slice ANTHROPIC_TOOL_RESULT_CACHE_WINDOW (output_indices am)"
  have "list_all (\<lambda>i. i < length am) ?is"
    using tail_slice_three(2) [of ANTHROPIC_TOOL_RESULT_CACHE_WINDOW "output_indices am"]
    by (auto simp: list_all_iff output_indices_def)
  from marking [OF this] have "map unmarked (snd (apply_cache_control ANTHROPIC_TOOL_RESULT_CACHE_WINDOW s am)) = am \<and>
      sum_list (map marks (snd (apply_cache_control ANTHROPIC_TOOL_RESULT_CACHE_WINDOW s am))) \<le> 3" for s
    using tail_slice_three(1) [of "output_indices am"] z u
    by (simp add: apply_cache_control_def ANTHROPIC_TOOL_RESULT_CACHE_WINDOW_def)
  then have c: "map unmarked out = am \<and> sum_list (map marks out) \<le> 3"
    if "apply_cache_control ANTHROPIC_TOOL_RESULT_CACHE_WINDOW s am = (sb, out)" for s sb out
    using that by (metis snd_conv)
  show ?thesis
  proof (cases "system_text system ms")
    case None
    then have "req_system r = []" "req_messages r = am" using assms am by (auto simp: anthropic_request_def)
    then show ?thesis by (simp add: breakpoints_def z u am)
  next
    case (Some s)
    obtain sb out where a: "apply_cache_control ANTHROPIC_TOOL_RESULT_CACHE_WINDOW s am = (sb, out)" by force
    then have "req_system r = sb" "req_messages r = out" using assms am Some by (auto simp: anthropic_request_def)
    moreover have "sb = [(TextBlock s, True)]" using a by (simp add: apply_cache_control_def)
    ultimately show ?thesis using c [OF a] by (simp add: breakpoints_def am)
  qed
qed

lemma cache_markers_bounded_witness:
  "breakpoints \<lparr>req_model = ''m'', req_system = [(TextBlock ''sys'', True)],
       req_messages = [\<lparr>a_role = ''user'', a_content = Blocks [(ToolOutput ''a'' ''out'', True)]\<rparr>],
       req_tools = [], req_max_tokens = 4096\<rparr> \<le> 4 \<and>
   Inr (map unmarked (req_messages \<lparr>req_model = ''m'', req_system = [(TextBlock ''sys'', True)],
       req_messages = [\<lparr>a_role = ''user'', a_content = Blocks [(ToolOutput ''a'' ''out'', True)]\<rparr>],
       req_tools = [], req_max_tokens = 4096\<rparr>)) =
     to_anthropic_messages demo_loads [\<lparr>role = ''tool'', content = Some ''out'', tool_calls = [],
       tool_call_id = Some ''a'', msg_name = None, finish_reason = None\<rparr>]"
  by (rule cache_markers_bounded [where system = "Some ''sys''" and model = "''m''" and tools = "[]"]) code_simp

text \<open>A window of zero marks every tool result, since \<open>xs[-0:]\<close> is the whole list.\<close>

lemma window_zero_marks_all:
  "map marks (snd (apply_cache_control 0 ''s'' (replicate 5 \<lparr>a_role = ''user'', a_content = Blocks [(ToolOutput ''a'' [], False)]\<rparr>))) =
     replicate 5 1"
  by code_simp


text \<open>The calls and results of a conversation, in order, before and after conversion.\<close>

datatype traffic = Call py_str py_str | Result py_str py_str

fun block_traffic :: "block \<Rightarrow> traffic list" where
  "block_traffic (ToolUse i n _) = [Call i n]"
| "block_traffic (ToolOutput i t) = [Result i t]"
| "block_traffic (TextBlock _) = []"

definition anth_traffic :: "anth_message \<Rightarrow> traffic list" where
  "anth_traffic m = (case a_content m of Plain _ \<Rightarrow> [] | Blocks bs \<Rightarrow> concat (map (block_traffic \<circ> fst) bs))"

definition msg_traffic :: "Message \<Rightarrow> traffic list" where
  "msg_traffic m =
     (if role m = ''tool'' then [Result (or_empty (tool_call_id m)) (content_or_empty m)]
      else if role m = ''assistant'' then map (\<lambda>tc. Call (mt_id tc) (mt_name tc)) (tool_calls m)
      else [])"

lemma use_traffic: "concat (map (\<lambda>tc. block_traffic (use_block loads tc)) tcs) = map (\<lambda>tc. Call (mt_id tc) (mt_name tc)) tcs"
  by (induction tcs) (simp_all add: use_block_def)

lemma convert_traffic:
  "convert_message loads m = Inr xs \<Longrightarrow> concat (map anth_traffic xs) = msg_traffic m"
  by (auto simp: convert_message_def anth_traffic_def msg_traffic_def or_empty_def use_traffic o_def
      split: if_splits option.splits)

lemma convert_raises: "convert_message loads m = Inl e \<Longrightarrow> role m = ''tool'' \<and> tool_call_id m = None"
  by (auto simp: convert_message_def split: if_splits option.splits)

text \<open>
  C8: Conversion keeps every tool call and every tool result, in order and with its id; it raises
  only on a tool message without an id.
\<close>

theorem conversion_keeps_traffic:
  "case to_anthropic_messages loads ms of
     Inl e \<Rightarrow> list_ex (\<lambda>m. role m = ''tool'' \<and> tool_call_id m = None) ms
   | Inr am \<Rightarrow> concat (map anth_traffic am) = concat (map msg_traffic ms)"
proof (induction ms)
  case (Cons m ms)
  show ?case
  proof (cases "convert_message loads m")
    case (Inl e)
    then show ?thesis using convert_raises [OF Inl] by simp
  next
    case (Inr xs)
    then show ?thesis
      using Cons convert_traffic [OF Inr] by (cases "to_anthropic_messages loads ms") simp_all
  qed
qed simp

text \<open>
  A session whose tool messages carry the ids of their calls, as the loop's do, always
  converts.
\<close>

lemma loop_messages_convert:
  "convert_message loads (to_openai (tool_message call t)) =
     (if call_id call = [] then Inl KeyError
      else Inr [\<lparr>a_role = ''user'', a_content = Blocks [(ToolOutput (call_id call) t, False)]\<rparr>])"
  by (simp add: convert_message_def to_openai_def tool_message_def truthy_def content_or_empty_def)

end
