(* ===== verification/Memory_Chunker.thy ===== *)
theory Memory_Chunker
  imports Context_Compaction Declassify "HOL-Library.Sublist"
begin

text \<open>
  The heading-aware chunker (\<open>sera/memory/chunker.py\<close>). The document is its list of lines; the
  cursor of the main loop is the list of lines still to read together with the number of the
  next one. Token counts come from \<open>estimate\<close> of \<open>sera/context/tokens.py\<close>.
\<close>


section \<open>Headings\<close>

text \<open>
  \<open>^(#{1,6})\s+(.+?)\s*#*\s*$\<close>: the white space after the hashes is taken whole, giving one
  character back when nothing else is left; the text is the shortest one whose rest is
  white space around a run of hashes.
\<close>

definition closing :: "py_str \<Rightarrow> bool" where
  "closing s \<longleftrightarrow> dropWhile is_space (dropWhile (\<lambda>c. c = CHR ''#'') (dropWhile is_space s)) = []"

definition lazy_text :: "py_str \<Rightarrow> py_str" where
  "lazy_text s =
     (case filter (\<lambda>n. closing (drop n s)) [1..<Suc (length s)] of [] \<Rightarrow> s | n # _ \<Rightarrow> take n s)"

definition classify_heading :: "py_str \<Rightarrow> (nat \<times> py_str) option" where
  "classify_heading line =
     (let level = length (takeWhile (\<lambda>c. c = CHR ''#'') line);
          after = drop level line;
          ws = takeWhile is_space after;
          body = dropWhile is_space after
      in if level = 0 \<or> 6 < level \<or> ws = [] then None
         else if body \<noteq> [] then Some (level, str_strip (lazy_text body))
         else if 2 \<le> length ws then Some (level, str_strip [List.last ws])
         else None)"

definition update_path :: "py_str list \<Rightarrow> nat \<Rightarrow> py_str \<Rightarrow> py_str list" where
  "update_path path level t = take (level - 1) path @ [t]"


section \<open>Chunks\<close>

record Chunk =
  ck_content :: py_str
  ck_path :: "py_str list"
  ck_start :: nat
  ck_end :: nat
  ck_tokens :: nat

definition heading_chain :: "Chunk \<Rightarrow> py_str" where
  "heading_chain c = join '' > '' (ck_path c)"

record builder =
  b_path :: "py_str list"
  b_parts :: "py_str list"
  b_tokens :: nat
  b_start :: nat
  b_end :: nat

definition b_reset :: "py_str list \<Rightarrow> nat \<Rightarrow> builder" where
  "b_reset path start = \<lparr>b_path = path, b_parts = [], b_tokens = 0, b_start = start, b_end = start\<rparr>"

definition b_add :: "py_str \<Rightarrow> nat \<Rightarrow> nat \<Rightarrow> builder \<Rightarrow> builder" where
  "b_add t end_line cost b = b\<lparr>b_parts := b_parts b @ [t], b_tokens := b_tokens b + cost, b_end := end_line\<rparr>"

abbreviation lf :: py_str where
  "lf \<equiv> [CHR 0x0A]"

definition b_build :: "builder \<Rightarrow> Chunk" where
  "b_build b =
     \<lparr>ck_content = join (lf @ lf) (b_parts b), ck_path = b_path b, ck_start = b_start b, ck_end = b_end b,
      ck_tokens = b_tokens b\<rparr>"

definition blank :: "py_str \<Rightarrow> bool" where
  "blank line \<longleftrightarrow> str_strip line = []"

text \<open>\<open>str.split("\n")\<close>.\<close>

fun split_lf :: "py_str \<Rightarrow> py_str \<Rightarrow> py_str list" where
  "split_lf cur [] = [cur]"
| "split_lf cur (c # cs) = (if c = CHR 0x0A then cur # split_lf [] cs else split_lf (cur @ [c]) cs)"

text \<open>
  The pieces of a paragraph too long for one chunk: the state is the piece being gathered,
  its cost and the line it starts on.
\<close>

fun split_pieces ::
  "(py_str \<Rightarrow> nat) \<Rightarrow> nat \<Rightarrow> py_str list \<Rightarrow> nat \<Rightarrow> nat \<Rightarrow> nat \<Rightarrow> py_str list \<Rightarrow> (py_str \<times> nat \<times> nat) list"
where
  "split_pieces est max_tokens buf toks start lno [] =
     (if buf = [] then [] else [(join lf buf, start, lno - 1)])"
| "split_pieces est max_tokens buf toks start lno (l # ls) =
     (let cost = est l + 1
      in if buf \<noteq> [] \<and> max_tokens < toks + cost
         then (join lf buf, start, lno - 1) # split_pieces est max_tokens [l] cost lno (lno + 1) ls
         else split_pieces est max_tokens (buf @ [l]) (toks + cost) start (lno + 1) ls)"

definition split_paragraph_by_lines :: "(py_str \<Rightarrow> nat) \<Rightarrow> nat \<Rightarrow> py_str \<Rightarrow> nat \<Rightarrow> (py_str \<times> nat \<times> nat) list" where
  "split_paragraph_by_lines est max_tokens para start =
     split_pieces est max_tokens [] 0 start start (split_lf [] para)"

text \<open>The tail carried into the next chunk, gathered from the last line back.\<close>

fun carry_lines :: "(py_str \<Rightarrow> nat) \<Rightarrow> nat \<Rightarrow> py_str list \<Rightarrow> nat \<Rightarrow> py_str list \<Rightarrow> py_str list" where
  "carry_lines est target carried toks [] = carried"
| "carry_lines est target carried toks (l # ls) =
     (let cost = est l + 1
      in if target < toks + cost \<and> carried \<noteq> [] then carried
         else carry_lines est target (l # carried) (toks + cost) ls)"

definition carry_overlap :: "(py_str \<Rightarrow> nat) \<Rightarrow> nat \<Rightarrow> py_str \<Rightarrow> py_str" where
  "carry_overlap est target t =
     (if target = 0 \<or> t = [] then [] else join lf (carry_lines est target [] 0 (rev (split_lf [] t))))"


section \<open>The main loop\<close>

record chunker =
  k_chunks :: "Chunk list"
  k_stack :: "py_str list"
  k_builder :: builder

definition emit_chunk :: "chunker \<Rightarrow> chunker" where
  "emit_chunk st = st\<lparr>k_chunks := k_chunks st @ [b_build (k_builder st)]\<rparr>"

definition flush_with_overlap :: "(py_str \<Rightarrow> nat) \<Rightarrow> nat \<Rightarrow> chunker \<Rightarrow> chunker" where
  "flush_with_overlap est target st =
     (if b_parts (k_builder st) = [] then st
      else let c = b_build (k_builder st);
               tail = carry_overlap est target (ck_content c);
               next_start = b_end (k_builder st);
               b = b_reset (k_stack st) next_start
           in st\<lparr>k_chunks := k_chunks st @ [c],
                 k_builder := (if tail \<noteq> [] then b_add tail next_start (est tail) b else b)\<rparr>)"

definition heading_line :: "nat \<Rightarrow> py_str \<Rightarrow> py_str" where
  "heading_line level t = replicate level (CHR ''#'') @ '' '' @ t"

definition enter_heading :: "(py_str \<Rightarrow> nat) \<Rightarrow> nat \<Rightarrow> nat \<Rightarrow> py_str \<Rightarrow> chunker \<Rightarrow> chunker" where
  "enter_heading est lno level t st =
     (let st1 = (if b_parts (k_builder st) \<noteq> [] then emit_chunk st else st);
          stack = update_path (k_stack st) level t;
          head_line = heading_line level t
      in st1\<lparr>k_stack := stack, k_builder := b_add head_line lno (est head_line) (b_reset stack lno)\<rparr>)"

definition add_piece :: "(py_str \<Rightarrow> nat) \<Rightarrow> nat \<Rightarrow> nat \<Rightarrow> py_str \<times> nat \<times> nat \<Rightarrow> chunker \<Rightarrow> chunker" where
  "add_piece est max_tokens target piece st =
     (case piece of (t, ps, pe) \<Rightarrow>
        let st1 = (if b_parts (k_builder st) \<noteq> []
                   then (emit_chunk st)\<lparr>k_builder := b_reset (k_stack st) ps\<rparr> else st);
            st2 = st1\<lparr>k_builder := b_add t pe (est t) (k_builder st1)\<rparr>
        in if max_tokens \<le> b_tokens (k_builder st2) then flush_with_overlap est target st2 else st2)"

definition add_paragraph :: "(py_str \<Rightarrow> nat) \<Rightarrow> nat \<Rightarrow> nat \<Rightarrow> nat \<Rightarrow> py_str list \<Rightarrow> chunker \<Rightarrow> chunker" where
  "add_paragraph est max_tokens target start para_lines st =
     (let para = join lf para_lines; cost = est para
      in if max_tokens < cost then
           fold (add_piece est max_tokens target) (split_paragraph_by_lines est max_tokens para start)
             (flush_with_overlap est target st)
         else
           let st1 = (if max_tokens < b_tokens (k_builder st) + cost \<and> b_parts (k_builder st) \<noteq> []
                      then flush_with_overlap est target st else st)
           in st1\<lparr>k_builder := b_add para (start + length para_lines - 1) cost (k_builder st1)\<rparr>)"

definition in_paragraph :: "py_str \<Rightarrow> bool" where
  "in_paragraph line \<longleftrightarrow> \<not> blank line \<and> classify_heading line = None"

function chunk_loop :: "(py_str \<Rightarrow> nat) \<Rightarrow> nat \<Rightarrow> nat \<Rightarrow> nat \<Rightarrow> py_str list \<Rightarrow> chunker \<Rightarrow> chunker" where
  "chunk_loop est max_tokens target lno [] st = st"
| "chunk_loop est max_tokens target lno (line # rest) st =
     (case classify_heading line of
        Some (level, t) \<Rightarrow> chunk_loop est max_tokens target (lno + 1) rest (enter_heading est lno level t st)
      | None \<Rightarrow>
          if blank line then chunk_loop est max_tokens target (lno + 1) rest st
          else let para = takeWhile in_paragraph (line # rest)
               in chunk_loop est max_tokens target (lno + length para) (drop (length para) (line # rest))
                    (add_paragraph est max_tokens target lno para st))"
  by pat_completeness auto
termination
  by (relation "measure (\<lambda>(_, _, _, _, ls, _). length ls)") (auto simp: in_paragraph_def)

declare chunk_loop.simps(2) [simp del]

text \<open>Both are \<open>ValueError\<close>s.\<close>

datatype chunk_error = OverlapOutOfRange | MaxTokensTooSmall

definition DEFAULT_MAX_TOKENS :: int where
  "DEFAULT_MAX_TOKENS = 3000"

definition DEFAULT_OVERLAP_RATIO :: py_float where
  "DEFAULT_OVERLAP_RATIO = 1/10"

definition chunk_markdown ::
  "(py_str \<Rightarrow> nat) option \<Rightarrow> int \<Rightarrow> py_float \<Rightarrow> py_str \<Rightarrow> (chunk_error, Chunk list) py_result"
where
  "chunk_markdown enc max_tokens overlap_ratio t =
     (if str_strip t = [] then Inr []
      else if \<not> (0 \<le> overlap_ratio \<and> overlap_ratio < 1) then Inl OverlapOutOfRange
      else if max_tokens < 1 then Inl MaxTokensTooSmall
      else let target = nat \<lfloor>of_int max_tokens * overlap_ratio\<rfloor>;
               st = chunk_loop (estimate enc) (nat max_tokens) target 1 (splitlines t)
                      \<lparr>k_chunks = [], k_stack = [], k_builder = b_reset [] 1\<rparr>
           in Inr (k_chunks (if b_parts (k_builder st) \<noteq> [] then emit_chunk st else st)))"

text \<open>\<open>chunk_text\<close> calls \<open>chunk_markdown\<close>.\<close>

definition chunk_text ::
  "(py_str \<Rightarrow> nat) option \<Rightarrow> int \<Rightarrow> py_float \<Rightarrow> py_str \<Rightarrow> (chunk_error, Chunk list) py_result"
where
  "chunk_text = chunk_markdown"


section \<open>Lines and joins\<close>

lemma sublist_join: "x \<in> set xs \<Longrightarrow> sublist x (join sep xs)"
proof (induction sep xs rule: join.induct)
  case (3 sep x' y xs)
  then consider "x = x'" | "sublist x (join sep (y # xs))" by auto
  then show ?case
  proof cases
    case 2
    then obtain a b where "join sep (y # xs) = a @ x @ b" by (auto simp: sublist_def)
    then have "join sep (x' # y # xs) = (x' @ sep @ a) @ x @ b" by simp
    then show ?thesis unfolding sublist_def by blast
  qed simp
qed auto

lemma split_lf_append:
  "CHR 0x0A \<notin> set x \<Longrightarrow> split_lf cur (x @ rest) = split_lf (cur @ x) rest"
  by (induction x arbitrary: cur) auto

lemma split_join:
  "xs \<noteq> [] \<Longrightarrow> list_all (\<lambda>x. CHR 0x0A \<notin> set x) xs \<Longrightarrow> split_lf [] (join lf xs) = xs"
proof (induction lf xs rule: join.induct)
  case (2 x)
  then show ?case using split_lf_append [of x "[]" "[]"] by simp
next
  case (3 x y xs)
  then show ?case using split_lf_append [of x "[]" "lf @ join lf (y # xs)"] by simp
qed simp

lemma lines_have_no_lf: "CHR 0x0A \<notin> set cur \<Longrightarrow> list_all (\<lambda>x. CHR 0x0A \<notin> set x) (lines_of cur s)"
proof (induction cur s rule: lines_of.induct)
  case (2 cur c cs)
  have "line_break (c # cs) = 0 \<Longrightarrow> c \<noteq> CHR 0x0A" by (auto simp: line_break_def code_def)
  then show ?case using 2 by (auto simp: lines_of.simps(2) Let_def)
qed simp


section \<open>Pieces\<close>

text \<open>Pieces follow each other from line \<open>s\<close> to line \<open>e\<close> and hold their lines.\<close>

fun piece_chain :: "py_str list \<Rightarrow> nat \<Rightarrow> nat \<Rightarrow> (py_str \<times> nat \<times> nat) list \<Rightarrow> bool" where
  "piece_chain ls s e [] = (s = e + 1)"
| "piece_chain ls s e ((t, a, b) # ps) =
     (a = s \<and> a \<le> b \<and> (\<forall>k. a \<le> k + 1 \<and> k + 1 \<le> b \<longrightarrow> sublist (ls ! k) t) \<and> piece_chain ls (b + 1) e ps)"

lemma piece_chain_end: "piece_chain ls s e ps \<Longrightarrow> s \<le> e + 1"
proof (induction ps arbitrary: s)
  case (Cons p ps)
  then show ?case by (cases p) fastforce
qed simp

lemma buffered_lines:
  assumes "1 \<le> start" and "\<forall>j<length buf. ls ! (start - 1 + j) = buf ! j"
    and "start \<le> k + 1" and "k + 1 \<le> start + length buf - 1"
  shows "sublist (ls ! k) (join lf buf)"
proof -
  have j: "k + 1 - start < length buf" "start - 1 + (k + 1 - start) = k" using assms by linarith+
  then have "ls ! k = buf ! (k + 1 - start)" using assms(2) by metis
  then show ?thesis using j(1) by (simp add: sublist_join)
qed

lemma split_pieces_chain:
  assumes "1 \<le> start" and "lno = start + length buf"
    and "\<forall>j<length buf. ls ! (start - 1 + j) = buf ! j"
    and "\<forall>j<length rest. ls ! (lno - 1 + j) = rest ! j"
  shows "piece_chain ls start (lno + length rest - 1) (split_pieces est m buf toks start lno rest)"
  using assms
proof (induction est m buf toks start lno rest rule: split_pieces.induct)
  case (1 est m buf toks start lno)
  then show ?case using buffered_lines [of start buf ls] by (cases buf) auto
next
  case (2 est m buf toks start lno l rest)
  have l: "ls ! (lno - 1) = l" using 2(6) by force
  have r: "\<forall>j<length rest. ls ! (lno + 1 - 1 + j) = rest ! j"
  proof (intro allI impI)
    fix j assume "j < length rest"
    then have "ls ! (lno - 1 + Suc j) = (l # rest) ! Suc j" using 2(6) by auto
    moreover have "lno - 1 + Suc j = lno + 1 - 1 + j" using 2(3,4) by linarith
    ultimately show "ls ! (lno + 1 - 1 + j) = rest ! j" by simp
  qed
  show ?case
  proof (cases "buf \<noteq> [] \<and> m < toks + (est l + 1)")
    case True
    then have b: "0 < length buf" by simp
    have "piece_chain ls lno (lno + 1 + length rest - 1) (split_pieces est m [l] (est l + 1) lno (lno + 1) rest)"
      using 2(1) [of "est l + 1"] True l r 2(3,4) by simp
    moreover have "start \<le> lno - 1" "lno - 1 + 1 = lno" using 2(3,4) b by linarith+
    ultimately show ?thesis
      using True buffered_lines [OF 2(3,5)] 2(4) by (simp add: Let_def)
  next
    case False
    have "\<forall>j<length (buf @ [l]). ls ! (start - 1 + j) = (buf @ [l]) ! j"
    proof (intro allI impI)
      fix j assume "j < length (buf @ [l])"
      moreover have "start - 1 + length buf = lno - 1" using 2(3,4) by linarith
      ultimately show "ls ! (start - 1 + j) = (buf @ [l]) ! j"
        using l 2(5) by (cases "j < length buf") (auto simp: nth_append less_Suc_eq)
    qed
    then have "piece_chain ls start (lno + 1 + length rest - 1)
        (split_pieces est m (buf @ [l]) (toks + (est l + 1)) start (lno + 1) rest)"
      using 2(2) [of "est l + 1"] False r 2(3,4) by simp
    then show ?thesis by (simp only: split_pieces.simps Let_def if_not_P [OF False]) simp
  qed
qed


section \<open>The loop's invariant\<close>

definition push_heading :: "py_str list \<Rightarrow> py_str \<Rightarrow> py_str list" where
  "push_heading p l = (case classify_heading l of None \<Rightarrow> p | Some (n, t) \<Rightarrow> update_path p n t)"

text \<open>The headings open after the first \<open>k\<close> lines.\<close>

definition stack_at :: "py_str list \<Rightarrow> nat \<Rightarrow> py_str list" where
  "stack_at ls k = foldl push_heading [] (take k ls)"

definition covers :: "py_str list \<Rightarrow> nat \<Rightarrow> Chunk \<Rightarrow> bool" where
  "covers ls k c \<longleftrightarrow> ck_start c \<le> k + 1 \<and> k + 1 \<le> ck_end c \<and> sublist (ls ! k) (ck_content c)"

definition chunk_ok :: "py_str list \<Rightarrow> nat \<Rightarrow> Chunk \<Rightarrow> bool" where
  "chunk_ok ls m c \<longleftrightarrow> ck_path c = stack_at ls (ck_start c) \<and> 1 \<le> ck_start c \<and> ck_start c \<le> ck_end c \<and> ck_end c \<le> m"

definition held :: "py_str list \<Rightarrow> nat \<Rightarrow> builder \<Rightarrow> bool" where
  "held ls k b \<longleftrightarrow> b_start b \<le> k + 1 \<and> k + 1 \<le> b_end b \<and> (\<exists>t\<in>set (b_parts b). sublist (ls ! k) t)"

text \<open>
  Lines up to \<open>p\<close> are read, lines up to \<open>m\<close> belong to the current section, and the lines in
  \<open>K\<close> are in a chunk or in the builder.
\<close>

definition chunker_inv :: "py_str list \<Rightarrow> nat \<Rightarrow> nat \<Rightarrow> nat set \<Rightarrow> chunker \<Rightarrow> bool" where
  "chunker_inv ls m p K st \<longleftrightarrow>
     (let b = k_builder st
      in p \<le> m \<and> stack_at ls m = k_stack st \<and> b_path b = k_stack st \<and>
         1 \<le> b_start b \<and> b_start b \<le> p + 1 \<and> (b_parts b \<noteq> [] \<longrightarrow> b_start b \<le> b_end b \<and> b_end b \<le> p) \<and>
         (\<forall>k. b_start b \<le> k \<and> k \<le> m \<longrightarrow> stack_at ls k = k_stack st) \<and>
         list_all (chunk_ok ls m) (k_chunks st) \<and>
         (\<forall>k\<in>K. list_ex (covers ls k) (k_chunks st) \<or> held ls k b))"

lemma sublist_trans: "sublist x y \<Longrightarrow> sublist y z \<Longrightarrow> sublist x z"
proof -
  assume "sublist x y" "sublist y z"
  then obtain a b c d where "y = a @ x @ b" "z = c @ y @ d" by (auto simp: sublist_def)
  then have "z = (c @ a) @ x @ (b @ d)" by simp
  then show ?thesis unfolding sublist_def by blast
qed

lemma held_covers: "held ls k b \<Longrightarrow> covers ls k (b_build b)"
  using sublist_trans sublist_join by (fastforce simp: held_def covers_def b_build_def)

lemma built_ok:
  assumes "chunker_inv ls m p K st" and "b_parts (k_builder st) \<noteq> []"
  shows "chunk_ok ls m (b_build (k_builder st))"
  using assms by (auto simp: chunker_inv_def chunk_ok_def b_build_def Let_def)

text \<open>Starting a new chunk once the held lines are emitted.\<close>

lemma emitted_inv:
  assumes "chunker_inv ls m p K st" and "b_parts (k_builder st) \<noteq> []"
    and "b_path b = k_stack st" and "1 \<le> b_start b" and "b_start b \<le> p + 1"
    and "b_parts b \<noteq> [] \<longrightarrow> b_start b \<le> b_end b \<and> b_end b \<le> p"
    and "\<forall>k. b_start b \<le> k \<and> k \<le> m \<longrightarrow> stack_at ls k = k_stack st"
  shows "chunker_inv ls m p K ((emit_chunk st)\<lparr>k_builder := b\<rparr>)"
proof -
  have "\<forall>k\<in>K. list_ex (covers ls k) (k_chunks st @ [b_build (k_builder st)])"
    using assms(1) held_covers by (auto simp: chunker_inv_def Let_def)
  then show ?thesis
    using assms built_ok [OF assms(1,2)] by (simp add: chunker_inv_def emit_chunk_def Let_def)
qed

lemma flush_inv:
  assumes "chunker_inv ls m p K st"
  shows "chunker_inv ls m p K (flush_with_overlap est target st)"
proof (cases "b_parts (k_builder st) = []")
  case False
  define b where "b = (let tail = carry_overlap est target (ck_content (b_build (k_builder st)))
     in if tail \<noteq> [] then b_add tail (b_end (k_builder st)) (est tail) (b_reset (k_stack st) (b_end (k_builder st)))
        else b_reset (k_stack st) (b_end (k_builder st)))"
  have f: "flush_with_overlap est target st = (emit_chunk st)\<lparr>k_builder := b\<rparr>"
    using False by (simp add: flush_with_overlap_def emit_chunk_def b_def Let_def)
  have b: "b_path b = k_stack st" "b_start b = b_end (k_builder st)" "b_end b = b_end (k_builder st)"
    by (simp_all add: b_def b_add_def b_reset_def Let_def)
  have e: "b_start (k_builder st) \<le> b_end (k_builder st)" "b_end (k_builder st) \<le> p" "1 \<le> b_start (k_builder st)"
    "\<forall>k. b_start (k_builder st) \<le> k \<and> k \<le> m \<longrightarrow> stack_at ls k = k_stack st"
    using assms False by (auto simp: chunker_inv_def Let_def)
  show ?thesis unfolding f by (rule emitted_inv [OF assms False]) (use b e in auto)
qed (simp add: flush_with_overlap_def assms)

lemma add_inv:
  assumes "chunker_inv ls m p K st" and "p \<le> e" and "e \<le> m" and "b_start (k_builder st) \<le> e"
    and "\<forall>k\<in>J. b_start (k_builder st) \<le> k + 1 \<and> k + 1 \<le> e \<and> sublist (ls ! k) t"
  shows "chunker_inv ls m e (K \<union> J) (st\<lparr>k_builder := b_add t e cost (k_builder st)\<rparr>)"
proof -
  have "held ls k (b_add t e cost (k_builder st))" if "held ls k (k_builder st)" for k
    using that assms(1,2) by (cases "b_parts (k_builder st) = []") (auto simp: held_def b_add_def chunker_inv_def Let_def)
  moreover have "held ls k (b_add t e cost (k_builder st))" if "k \<in> J" for k
    using assms(5) that by (simp add: held_def b_add_def)
  ultimately show ?thesis
    using assms(1-4) by (auto simp: chunker_inv_def b_add_def Let_def)
qed

lemma advance_inv:
  "chunker_inv ls m p K st \<Longrightarrow> p \<le> q \<Longrightarrow> q \<le> m \<Longrightarrow> chunker_inv ls m q K st"
  by (auto simp: chunker_inv_def Let_def)

lemma stack_at_Suc: "k < length ls \<Longrightarrow> stack_at ls (Suc k) = push_heading (stack_at ls k) (ls ! k)"
  by (simp add: stack_at_def take_Suc_conv_app_nth)

lemma stack_at_const:
  assumes "n \<le> k" and "k \<le> length ls" and "\<forall>j. n \<le> j \<and> j < k \<longrightarrow> classify_heading (ls ! j) = None"
  shows "stack_at ls k = stack_at ls n"
  using assms
proof (induction k rule: dec_induct)
  case (step k)
  then show ?case by (simp add: stack_at_Suc push_heading_def)
qed simp

lemma chunk_ok_mono: "chunk_ok ls n c \<Longrightarrow> n \<le> m \<Longrightarrow> chunk_ok ls m c"
  by (auto simp: chunk_ok_def)

text \<open>Lines that are not headings stay in the section.\<close>

lemma extend_inv:
  assumes "chunker_inv ls n n K st" and "n \<le> m" and "m \<le> length ls"
    and "\<forall>j. n \<le> j \<and> j < m \<longrightarrow> classify_heading (ls ! j) = None"
  shows "chunker_inv ls m n K st"
proof -
  have c: "stack_at ls k = stack_at ls n" if "n \<le> k" "k \<le> m" for k
    using stack_at_const [of n k ls] that assms(3,4) by simp
  have n: "stack_at ls n = k_stack st" "\<forall>k. b_start (k_builder st) \<le> k \<and> k \<le> n \<longrightarrow> stack_at ls k = k_stack st"
    using assms(1) by (auto simp: chunker_inv_def Let_def)
  have s: "stack_at ls k = k_stack st" if "b_start (k_builder st) \<le> k" "k \<le> m" for k
    using n c [of k] that by (cases "k \<le> n") auto
  have o: "list_all (chunk_ok ls m) (k_chunks st)"
    using assms(1,2) chunk_ok_mono by (auto simp: chunker_inv_def Let_def list_all_iff)
  have e: "stack_at ls m = k_stack st" using c [of m] n(1) assms(2) by simp
  show ?thesis using assms(1,2) o e s unfolding chunker_inv_def Let_def by blast
qed

lemma add_piece_inv:
  assumes "chunker_inv ls m p K st" and "p + 1 \<le> e" and "e \<le> m"
    and "\<forall>k. p \<le> k \<and> k \<le> m \<longrightarrow> stack_at ls k = stack_at ls m"
    and "\<forall>k. p + 1 \<le> k + 1 \<and> k + 1 \<le> e \<longrightarrow> sublist (ls ! k) t"
  shows "chunker_inv ls m e (K \<union> {p..<e}) (add_piece est mt target (t, p + 1, e) st)"
proof -
  define st1 where "st1 = (if b_parts (k_builder st) \<noteq> []
      then (emit_chunk st)\<lparr>k_builder := b_reset (k_stack st) (p + 1)\<rparr> else st)"
  have k: "stack_at ls m = k_stack st" "b_start (k_builder st) \<le> p + 1" using assms(1) by (auto simp: chunker_inv_def Let_def)
  have i1: "chunker_inv ls m p K st1"
  proof (cases "b_parts (k_builder st) = []")
    case False
    have "chunker_inv ls m p K ((emit_chunk st)\<lparr>k_builder := b_reset (k_stack st) (p + 1)\<rparr>)"
      by (rule emitted_inv [OF assms(1) False]) (use assms(4) k in \<open>simp_all add: b_reset_def\<close>)
    then show ?thesis using False by (simp add: st1_def)
  qed (simp add: st1_def assms(1))
  have b1: "b_start (k_builder st1) \<le> p + 1" using i1 by (simp add: chunker_inv_def Let_def)
  define st2 where "st2 = st1\<lparr>k_builder := b_add t e (est t) (k_builder st1)\<rparr>"
  have i2: "chunker_inv ls m e (K \<union> {p..<e}) st2"
    unfolding st2_def by (rule add_inv [OF i1]) (use assms b1 in auto)
  have "add_piece est mt target (t, p + 1, e) st =
      (if mt \<le> b_tokens (k_builder st2) then flush_with_overlap est target st2 else st2)"
    by (simp add: add_piece_def st1_def st2_def Let_def)
  then show ?thesis using i2 flush_inv [OF i2] by simp
qed

lemma pieces_inv:
  assumes "piece_chain ls (p + 1) e ps" and "chunker_inv ls m p K st" and "e \<le> m"
    and "\<forall>k. p \<le> k \<and> k \<le> m \<longrightarrow> stack_at ls k = stack_at ls m"
  shows "chunker_inv ls m e (K \<union> {p..<e}) (fold (add_piece est mt target) ps st)"
  using assms
proof (induction ps arbitrary: p K st)
  case Nil
  show ?case using Nil.prems(1,2) by simp
next
  case (Cons piece ps)
  obtain t b where piece: "piece = (t, p + 1, b)" and b: "p + 1 \<le> b" and c: "piece_chain ls (b + 1) e ps"
    and l: "\<forall>k. p + 1 \<le> k + 1 \<and> k + 1 \<le> b \<longrightarrow> sublist (ls ! k) t"
    using Cons.prems(1) by (cases piece) auto
  have be: "b \<le> e" using piece_chain_end [OF c] by simp
  have i: "chunker_inv ls m b (K \<union> {p..<b}) (add_piece est mt target piece st)"
    unfolding piece by (rule add_piece_inv [OF Cons.prems(2) b _ Cons.prems(4) l]) (use be Cons.prems(3) in simp)
  have u: "K \<union> {p..<b} \<union> {b..<e} = K \<union> {p..<e}" using b be by auto
  have s: "\<forall>k. b \<le> k \<and> k \<le> m \<longrightarrow> stack_at ls k = stack_at ls m"
    using Cons.prems(4) b by (meson add_leD1 le_trans)
  show ?case using Cons.IH [OF c i Cons.prems(3) s] unfolding u fold_Cons comp_apply .
qed

lemma paragraph_inv:
  assumes "chunker_inv ls n n K st" and "para \<noteq> []" and "n + length para \<le> length ls"
    and "\<forall>j<length para. ls ! (n + j) = para ! j"
    and "list_all in_paragraph para" and "list_all (\<lambda>x. CHR 0x0A \<notin> set x) para"
  shows "chunker_inv ls (n + length para) (n + length para) (K \<union> {n..<n + length para})
    (add_paragraph est mt target (n + 1) para st)"
proof -
  let ?m = "n + length para"
  have line: "ls ! k \<in> set para \<and> classify_heading (ls ! k) = None" if "n \<le> k" "k < ?m" for k
  proof -
    define j where "j = k - n"
    have j: "k = n + j" "j < length para" using that by (simp_all add: j_def)
    have "ls ! k = para ! j" unfolding j(1) using assms(4) j(2) by blast
    moreover have "para ! j \<in> set para" by (rule nth_mem [OF j(2)])
    ultimately show ?thesis using assms(5) by (simp add: list_all_iff in_paragraph_def)
  qed
  have i: "chunker_inv ls ?m n K st" by (rule extend_inv [OF assms(1) le_add1 assms(3)]) (use line in blast)
  have sn: "stack_at ls k = stack_at ls n" if "n \<le> k" "k \<le> ?m" for k
    by (rule stack_at_const [OF that(1)]) (use that(2) line assms(3) in \<open>linarith, fastforce\<close>)
  have s: "\<forall>k. n \<le> k \<and> k \<le> ?m \<longrightarrow> stack_at ls k = stack_at ls ?m"
  proof (intro allI impI)
    fix k assume k: "n \<le> k \<and> k \<le> ?m"
    show "stack_at ls k = stack_at ls ?m"
      by (rule trans [OF sn sn [symmetric]]) (use k in simp_all)
  qed
  show ?thesis
  proof (cases "mt < est (join lf para)")
    case True
    have "piece_chain ls (n + 1) (n + 1 + length para - 1) (split_pieces est mt [] 0 (n + 1) (n + 1) para)"
      by (rule split_pieces_chain) (use assms(4) in auto)
    then have c: "piece_chain ls (n + 1) ?m (split_paragraph_by_lines est mt (join lf para) (n + 1))"
      by (simp add: split_paragraph_by_lines_def split_join assms(2,6))
    show ?thesis
      using pieces_inv [OF c flush_inv [OF i] order_refl s] True by (simp add: add_paragraph_def Let_def)
  next
    case False
    define st1 where "st1 = (if mt < b_tokens (k_builder st) + est (join lf para) \<and> b_parts (k_builder st) \<noteq> []
      then flush_with_overlap est target st else st)"
    have i1: "chunker_inv ls ?m n K st1" using i flush_inv [OF i] by (simp add: st1_def)
    have b: "b_start (k_builder st1) \<le> n + 1" using i1 by (simp add: chunker_inv_def Let_def)
    have "chunker_inv ls ?m ?m (K \<union> {n..<?m}) (st1\<lparr>k_builder := b_add (join lf para) ?m (est (join lf para)) (k_builder st1)\<rparr>)"
    proof (rule add_inv [OF i1])
      have "0 < length para" using assms(2) by simp
      then show "b_start (k_builder st1) \<le> ?m" using b by linarith
      show "\<forall>k\<in>{n..<?m}. b_start (k_builder st1) \<le> k + 1 \<and> k + 1 \<le> ?m \<and> sublist (ls ! k) (join lf para)"
        using b line by (auto intro: sublist_join)
    qed simp_all
    then show ?thesis using False by (simp add: add_paragraph_def st1_def Let_def)
  qed
qed

lemma heading_inv:
  assumes "chunker_inv ls n n K st" and "n < length ls" and "classify_heading (ls ! n) = Some (level, t)"
  shows "chunker_inv ls (n + 1) (n + 1) K (enter_heading est (n + 1) level t st)"
proof -
  define st1 where "st1 = (if b_parts (k_builder st) \<noteq> [] then emit_chunk st else st)"
  define stack where "stack = update_path (k_stack st) level t"
  have s: "stack_at ls (Suc n) = stack"
    using assms by (simp add: stack_at_Suc push_heading_def stack_def chunker_inv_def Let_def)
  have c: "list_all (chunk_ok ls n) (k_chunks st1) \<and> (\<forall>k\<in>K. list_ex (covers ls k) (k_chunks st1))"
  proof (cases "b_parts (k_builder st) = []")
    case True
    then show ?thesis using assms(1) by (simp add: st1_def chunker_inv_def held_def Let_def)
  next
    case False
    have "\<forall>k\<in>K. list_ex (covers ls k) (k_chunks st @ [b_build (k_builder st)])"
      using assms(1) held_covers by (auto simp: chunker_inv_def Let_def)
    then show ?thesis
      using assms(1) built_ok [OF assms(1) False] False by (simp add: st1_def emit_chunk_def chunker_inv_def Let_def)
  qed
  have "list_all (chunk_ok ls (Suc n)) (k_chunks st1)"
    using c chunk_ok_mono [of ls n _ "Suc n"] by (auto simp: list_all_iff)
  moreover have "k = Suc n" if "Suc n \<le> k" "k \<le> Suc n" for k using that by simp
  ultimately show ?thesis
    using s c unfolding enter_heading_def Let_def st1_def [symmetric] stack_def [symmetric] chunker_inv_def
    by (auto simp: b_add_def b_reset_def)
qed

lemma loop_inv:
  assumes "chunker_inv ls n n K st" and "n \<le> length ls" and "list_all (\<lambda>x. CHR 0x0A \<notin> set x) ls"
  shows "chunker_inv ls (length ls) (length ls) (K \<union> {k. n \<le> k \<and> k < length ls \<and> in_paragraph (ls ! k)})
    (chunk_loop est mt target (n + 1) (drop n ls) st)"
proof -
  have "chunker_inv ls (length ls) (length ls) (K \<union> {k. n \<le> k \<and> k < length ls \<and> in_paragraph (ls ! k)})
      (chunk_loop est mt target lno lns st)" if "lno = n + 1" "lns = drop n ls" for lno lns
    using that assms(1,2)
  proof (induction est mt target lno lns st arbitrary: n K rule: chunk_loop.induct)
    case (1 est mt target lno st)
    have n: "n = length ls" using 1(2,4) by simp
    have "{k. length ls \<le> k \<and> k < length ls \<and> in_paragraph (ls ! k)} = {}" by auto
    then show ?case using 1(3) by (simp only: n chunk_loop.simps Un_empty_right)
  next
    case (2 est mt target lno line rest st)
    have n: "n < length ls" using 2(5) by (metis drop_all list.distinct(1) not_le_imp_less)
    have "line # rest = ls ! n # drop (Suc n) ls" unfolding Cons_nth_drop_Suc [OF n] by (rule 2(5))
    then have line: "line = ls ! n" and rest: "rest = drop (n + 1) ls" by simp_all
    let ?K = "\<lambda>n. {k. n \<le> k \<and> k < length ls \<and> in_paragraph (ls ! k)}"
    have skip: "?K n = ?K (n + 1)" if "\<not> in_paragraph line"
      using that line by (auto simp: le_eq_less_or_eq Suc_le_eq)
    show ?case
    proof (cases "classify_heading line")
      case (Some h)
      then obtain level t where h: "classify_heading line = Some (level, t)" by (cases h) auto
      have "chunker_inv ls (n + 1) (n + 1) K (enter_heading est (n + 1) level t st)"
        by (rule heading_inv [OF 2(6) n]) (use h line in simp)
      then show ?thesis
        using 2(3) [OF h refl, of "n + 1" K] h 2(4) rest n skip
        by (simp add: chunk_loop.simps(2) in_paragraph_def)
    next
      case None
      show ?thesis
      proof (cases "blank line")
        case True
        have "chunker_inv ls (n + 1) n K st" by (rule extend_inv [OF 2(6)]) (use n None line in \<open>auto simp: less_Suc_eq\<close>)
        then have "chunker_inv ls (n + 1) (n + 1) K st" by (rule advance_inv) simp_all
        then show ?thesis
          using 2(1) [OF None True, of "n + 1" K] None True 2(4) rest n skip
          by (simp add: chunk_loop.simps(2) in_paragraph_def)
      next
        case False
        define para where "para = takeWhile in_paragraph (line # rest)"
        have p: "in_paragraph line" using None False by (simp add: in_paragraph_def)
        then have ne: "para \<noteq> []" by (simp add: para_def)
        have dr: "line # rest = drop n ls" using 2(5) .
        have len: "n + length para \<le> length ls"
          using length_takeWhile_le [of in_paragraph "drop n ls"] n unfolding para_def dr by simp
        have nth: "\<forall>j<length para. ls ! (n + j) = para ! j"
          using takeWhile_nth [of _ in_paragraph "drop n ls"] n len unfolding para_def dr by auto
        have all: "list_all in_paragraph para" unfolding para_def by (auto simp: list_all_iff dest: set_takeWhileD)
        have lf: "list_all (\<lambda>x. CHR 0x0A \<notin> set x) para"
          using assms(3) unfolding para_def dr by (auto simp: list_all_iff dest: set_takeWhileD in_set_dropD)
        have i: "chunker_inv ls (n + length para) (n + length para) (K \<union> {n..<n + length para})
            (add_paragraph est mt target (n + 1) para st)"
          by (rule paragraph_inv [OF 2(6) ne len nth all lf])
        have "in_paragraph (ls ! k)" if "n \<le> k" "k < n + length para" for k
        proof -
          define j where "j = k - n"
          have j: "k = n + j" "j < length para" using that by (simp_all add: j_def)
          then have "ls ! k = para ! j" using nth by blast
          then show ?thesis using all j(2) by (simp add: list_all_length)
        qed
        then have u: "K \<union> {n..<n + length para} \<union> ?K (n + length para) = K \<union> ?K n" using len by auto
        have "drop (length para) (line # rest) = drop (n + length para) ls" unfolding dr by (simp add: add.commute)
        then have "chunker_inv ls (length ls) (length ls) (K \<union> {n..<n + length para} \<union> ?K (n + length para))
            (chunk_loop est mt target (lno + length para) (drop (length para) (line # rest)) (add_paragraph est mt target lno para st))"
          using 2(2) [OF None False para_def, of "n + length para" "K \<union> {n..<n + length para}"] 2(4) i len by simp
        then show ?thesis using None False unfolding u by (simp add: chunk_loop.simps(2) para_def Let_def)
      qed
    qed
  qed
  then show ?thesis by simp
qed


section \<open>What chunking keeps\<close>

lemma initial_inv: "chunker_inv ls 0 0 {} \<lparr>k_chunks = [], k_stack = [], k_builder = b_reset [] 1\<rparr>"
  by (simp add: chunker_inv_def b_reset_def stack_at_def)


abbreviation gap :: py_str where
  "gap \<equiv> [CHR 0x0A, CHR 0x0A]"


text \<open>Sibling headings nest when the document does not start at level one.\<close>

lemma sibling_sections_nest:
  "map_sum id (map ck_path) (chunk_markdown (Some length) 10 0 (''## A'' @ gap @ ''x'' @ gap @ ''## B'' @ gap @ ''y'')) =
   Inr [[''A''], [''A'', ''B'']]"
  by code_simp

text \<open>With overlap a chunk can be longer than the bound.\<close>

lemma overlap_exceeds_bound:
  "map_sum id (map ck_tokens) (chunk_markdown (Some length) 6 (1/2) (''abcde'' @ gap @ ''fghij'')) = Inr [5, 10]"
  by code_simp

text \<open>The overlap kept after the last piece of a long paragraph is emitted as a chunk of its own.\<close>

lemma overlap_only_chunk:
  "map_sum id (map ck_content) (chunk_markdown (Some length) 6 (1/2) ''cdefghijk'') = Inr [''cdefghijk'', ''cdefghijk'']"
  by code_simp

text \<open>Without overlap a chunk still claims to start on the last line of the one before.\<close>

lemma start_line_of_previous:
  "map_sum id (map (\<lambda>c. (ck_content c, ck_start c))) (chunk_markdown (Some length) 6 0 (''abcde'' @ gap @ ''fghij'')) =
   Inr [(''abcde'', 1), (''fghij'', 1)]"
  by code_simp

end
