(* ===== verification/Memory_Migrations.thy ===== *)
theory Memory_Migrations
  imports Sera_Prelude
begin

text \<open>
  The migration runner of the memory database (\<open>sera/memory/migrations/runner.py\<close>). A schema is
  the columns of each table and the indexes; the bookkeeping table is a list of rows. SQLite
  commits each DDL statement by itself, so what a failing migration has done before its error
  stays. The clock is an argument.
\<close>


section \<open>Schemas\<close>

record schema =
  tables :: "(py_str, py_str list) py_dict"
  indexes :: "py_str list"

datatype sql_error = OperationalError py_str | IntegrityError

type_synonym statement = "schema \<Rightarrow> (sql_error, schema) py_result"

definition create_table :: "py_str \<Rightarrow> py_str list \<Rightarrow> statement" where
  "create_table name cols s = Inr (if dict_get (tables s) name = None then s\<lparr>tables := dict_set name cols (tables s)\<rparr> else s)"

definition has_column :: "schema \<Rightarrow> py_str \<Rightarrow> py_str \<Rightarrow> bool" where
  "has_column s table col = (case dict_get (tables s) table of Some cols \<Rightarrow> col \<in> set cols | None \<Rightarrow> False)"

definition create_index :: "py_str \<Rightarrow> py_str \<Rightarrow> py_str \<Rightarrow> statement" where
  "create_index name table col s =
     (if name \<in> set (indexes s) then Inr s
      else if has_column s table col then Inr (s\<lparr>indexes := indexes s @ [name]\<rparr>)
      else Inl (OperationalError (''no such column: '' @ col)))"

text \<open>\<open>ALTER TABLE ... ADD COLUMN\<close>, with the duplicate column tolerated.\<close>

definition add_column :: "py_str \<Rightarrow> py_str \<Rightarrow> statement" where
  "add_column table col s =
     (case dict_get (tables s) table of
        None \<Rightarrow> Inl (OperationalError (''no such table: '' @ table))
      | Some cols \<Rightarrow> Inr (if col \<in> set cols then s else s\<lparr>tables := dict_set table (cols @ [col]) (tables s)\<rparr>))"

text \<open>Statements run in order; the state reached before an error is kept.\<close>

fun run_script :: "statement list \<Rightarrow> schema \<Rightarrow> sql_error option \<times> schema" where
  "run_script [] s = (None, s)"
| "run_script (q # qs) s = (case q s of Inl e \<Rightarrow> (Some e, s) | Inr s' \<Rightarrow> run_script qs s')"

record Migration =
  version :: int
  mig_description :: py_str
  up :: "statement list"

definition v1_initial_schema :: "statement list" where
  "v1_initial_schema =
     [create_table ''chunks'' [''id'', ''source'', ''content'', ''summary'', ''confidence'', ''embedding'', ''pii_tags'',
        ''freshness'', ''extracted_at'', ''canonical_id''],
      create_index ''idx_chunks_source'' ''chunks'' ''source'',
      create_index ''idx_chunks_confidence'' ''chunks'' ''confidence'',
      create_table ''entities'' [''id'', ''name'', ''kind''],
      create_table ''relations'' [''id'', ''src_entity_id'', ''dst_entity_id'', ''kind'', ''confidence'', ''provenance_chunk_id''],
      create_index ''idx_relations_src'' ''relations'' ''src_entity_id'',
      create_index ''idx_relations_dst'' ''relations'' ''dst_entity_id'',
      create_index ''idx_relations_kind'' ''relations'' ''kind'']"

definition MIGRATIONS :: "Migration list" where
  "MIGRATIONS =
     [\<lparr>version = 1, mig_description = ''P-11 baseline schema'', up = v1_initial_schema\<rparr>,
      \<lparr>version = 2, mig_description = ''chunks.tags column'', up = [add_column ''chunks'' ''tags'']\<rparr>,
      \<lparr>version = 3, mig_description = ''entities.aliases'', up = [add_column ''entities'' ''aliases'']\<rparr>,
      \<lparr>version = 4, mig_description = ''relations.created_at'', up = [add_column ''relations'' ''created_at'']\<rparr>]"

definition CURRENT_VERSION :: int where
  "CURRENT_VERSION = version (List.last MIGRATIONS)"


section \<open>The runner\<close>

record mig_db =
  db_schema :: schema
  book :: "(int \<times> py_str \<times> py_float) list"

definition versions :: "mig_db \<Rightarrow> int set" where
  "versions db = fst ` set (book db)"

definition applied_versions :: "mig_db \<Rightarrow> int list" where
  "applied_versions db = sort (map fst (book db))"

definition current_version :: "mig_db \<Rightarrow> int" where
  "current_version db = (case applied_versions db of [] \<Rightarrow> 0 | v # vs \<Rightarrow> List.last (v # vs))"

definition apply_one :: "(int \<Rightarrow> py_float) \<Rightarrow> Migration \<Rightarrow> mig_db \<Rightarrow> sql_error option \<times> mig_db" where
  "apply_one clock m db =
     (case run_script (up m) (db_schema db) of
        (Some e, s) \<Rightarrow> (Some e, db\<lparr>db_schema := s\<rparr>)
      | (None, s) \<Rightarrow>
          (if version m \<in> versions db then (Some IntegrityError, db\<lparr>db_schema := s\<rparr>)
           else (None, db\<lparr>db_schema := s, book := book db @ [(version m, mig_description m, clock (version m))]\<rparr>)))"

fun migrate_loop ::
  "(int \<Rightarrow> py_float) \<Rightarrow> int \<Rightarrow> int set \<Rightarrow> Migration list \<Rightarrow> int list \<Rightarrow> mig_db \<Rightarrow> (sql_error, int list) py_result \<times> mig_db"
where
  "migrate_loop clock target already [] acc db = (Inr acc, db)"
| "migrate_loop clock target already (m # ms) acc db =
     (if target < version m then (Inr acc, db)
      else if version m \<in> already then migrate_loop clock target already ms acc db
      else (case apply_one clock m db of
              (Some e, db') \<Rightarrow> (Inl e, db')
            | (None, db') \<Rightarrow> migrate_loop clock target already ms (acc @ [version m]) db'))"

definition migrate ::
  "Migration list \<Rightarrow> (int \<Rightarrow> py_float) \<Rightarrow> int option \<Rightarrow> mig_db \<Rightarrow> (sql_error, int list) py_result \<times> mig_db"
where
  "migrate migs clock target db =
     migrate_loop clock (case target of Some t \<Rightarrow> t | None \<Rightarrow> CURRENT_VERSION) (versions db) (sort_key version migs) [] db"

text \<open>A runner without a path opens a new in-memory database for every connection.\<close>

definition empty_db :: mig_db where
  "empty_db = \<lparr>db_schema = \<lparr>tables = [], indexes = []\<rparr>, book = []\<rparr>"

definition open_db :: "mig_db option \<Rightarrow> mig_db" where
  "open_db file = (case file of Some db \<Rightarrow> db | None \<Rightarrow> empty_db)"

definition runner_migrate ::
  "Migration list \<Rightarrow> (int \<Rightarrow> py_float) \<Rightarrow> int option \<Rightarrow> mig_db option \<Rightarrow> (sql_error, int list) py_result \<times> mig_db option"
where
  "runner_migrate migs clock target file =
     (case migrate migs clock target (open_db file) of (r, db) \<Rightarrow> (r, map_option (\<lambda>_. db) file))"


section \<open>Each pending migration once, in order\<close>

definition pending :: "int \<Rightarrow> int set \<Rightarrow> Migration list \<Rightarrow> Migration list" where
  "pending target already ms = filter (\<lambda>m. version m \<le> target \<and> version m \<notin> already) ms"

text \<open>The reference: run the given migrations one after the other.\<close>

fun run_all ::
  "(int \<Rightarrow> py_float) \<Rightarrow> Migration list \<Rightarrow> int list \<Rightarrow> mig_db \<Rightarrow> (sql_error, int list) py_result \<times> mig_db"
where
  "run_all clock [] acc db = (Inr acc, db)"
| "run_all clock (m # ms) acc db =
     (case apply_one clock m db of
        (Some e, db') \<Rightarrow> (Inl e, db')
      | (None, db') \<Rightarrow> run_all clock ms (acc @ [version m]) db')"

lemma loop_pending:
  "sorted (map version ms) \<Longrightarrow>
   migrate_loop clock target already ms acc db = run_all clock (pending target already ms) acc db"
proof (induction ms arbitrary: acc db)
  case (Cons m ms)
  show ?case
  proof (cases "target < version m")
    case True
    then have "pending target already (m # ms) = []"
      using Cons.prems by (auto simp: pending_def filter_empty_conv)
    then show ?thesis using True by simp
  next
    case False
    then show ?thesis using Cons by (auto simp: pending_def split: prod.split option.split)
  qed
qed (simp add: pending_def)

lemma run_all_ok:
  assumes "run_all clock ms acc db = (Inr vs, db')"
  shows "vs = acc @ map version ms \<and> map fst (book db') = map fst (book db) @ map version ms"
  using assms
proof (induction ms arbitrary: acc db)
  case (Cons m ms)
  obtain db1 where a: "apply_one clock m db = (None, db1)" and r: "run_all clock ms (acc @ [version m]) db1 = (Inr vs, db')"
    using Cons.prems by (auto split: prod.splits option.splits)
  have "map fst (book db1) = map fst (book db) @ [version m]"
    using a by (auto simp: apply_one_def split: prod.splits option.splits if_splits)
  then show ?case using Cons.IH [OF r] by simp
qed simp

lemma run_all_append:
  "run_all clock (ms @ ms') acc db =
     (case run_all clock ms acc db of
        (Inl e, db') \<Rightarrow> (Inl e, db')
      | (Inr vs, db') \<Rightarrow> run_all clock ms' vs db')"
  by (induction ms arbitrary: acc db) (auto split: prod.split option.split sum.split)

text \<open>
  A run that succeeds returns the pending versions up to the target in increasing order, and
  records exactly those; run again with the same target it does nothing.
\<close>

theorem migrate_once_in_order:
  assumes "migrate migs clock target db = (Inr vs, db')"
  shows "sorted vs \<and> set vs = {version m |m. m \<in> set migs \<and> version m \<le> (case target of Some t \<Rightarrow> t | None \<Rightarrow> CURRENT_VERSION)} - versions db
    \<and> versions db' = versions db \<union> set vs \<and> migrate migs clock target db' = (Inr [], db')"
proof -
  define t where "t = (case target of Some t \<Rightarrow> t | None \<Rightarrow> CURRENT_VERSION)"
  have m: "migrate migs clock target d = run_all clock (pending t (versions d) (sort_key version migs)) [] d" for d
    by (simp add: migrate_def t_def loop_pending)
  let ?p = "pending t (versions db) (sort_key version migs)"
  have vs: "vs = map version ?p" and b: "map fst (book db') = map fst (book db) @ map version ?p"
    using run_all_ok [of clock ?p "[]" db vs db'] assms m by simp_all
  have v: "versions db' = versions db \<union> set vs"
    using arg_cong [OF b, of set] vs by (simp add: versions_def)
  have "pending t (versions db') (sort_key version migs) = []"
    unfolding v vs by (auto simp: pending_def filter_empty_conv)
  then have "migrate migs clock target db' = (Inr [], db')" by (simp add: m)
  moreover have "sorted vs" unfolding vs pending_def by (simp add: sorted_filter)
  moreover have "set vs = {version m |m. m \<in> set migs \<and> version m \<le> t} - versions db"
    unfolding vs by (auto simp: pending_def)
  ultimately show ?thesis using v by (simp add: t_def)
qed

definition upgraded :: mig_db where
  "upgraded = snd (migrate MIGRATIONS (\<lambda>_. 0) None empty_db)"

lemma migrate_once_in_order_witness:
  "sorted [1, 2, 3, 4 :: int] \<and>
   set [1, 2, 3, 4] = {version m |m. m \<in> set MIGRATIONS \<and> version m \<le> (case None of Some t \<Rightarrow> t | None \<Rightarrow> CURRENT_VERSION)} - versions empty_db
   \<and> versions upgraded = versions empty_db \<union> set [1, 2, 3, 4] \<and> migrate MIGRATIONS (\<lambda>_. 0) None upgraded = (Inr [], upgraded)"
  by (rule migrate_once_in_order [of MIGRATIONS "\<lambda>_. 0" None empty_db]) code_simp


section \<open>Upgrading in stages\<close>

lemma filter_split_sorted:
  assumes "sorted (map version ms)" and "a \<le> b"
  shows "filter (\<lambda>m. version m \<le> b \<and> P m) ms =
    filter (\<lambda>m. version m \<le> a \<and> P m) ms @ filter (\<lambda>m. a < version m \<and> version m \<le> b \<and> P m) ms"
  using assms(1)
proof (induction ms)
  case (Cons m ms)
  show ?case
  proof (cases "version m \<le> a")
    case False
    then have "filter (\<lambda>m. version m \<le> a \<and> P m) ms = []" using Cons.prems by (auto simp: filter_empty_conv)
    then show ?thesis using Cons False by auto
  qed (use Cons assms(2) in auto)
qed simp

lemma run_all_acc:
  "run_all clock ms acc db = (case run_all clock ms [] db of (Inr ws, d) \<Rightarrow> (Inr (acc @ ws), d) | (Inl e, d) \<Rightarrow> (Inl e, d))"
proof (induction ms arbitrary: acc db)
  case (Cons m ms)
  have "run_all clock ms (acc @ [version m]) d = (case run_all clock ms [version m] d of (Inr ws, d) \<Rightarrow> (Inr (acc @ ws), d) | (Inl e, d) \<Rightarrow> (Inl e, d))" for d
    unfolding Cons.IH [of "acc @ [version m]"] Cons.IH [of "[version m]"] by (auto split: prod.split sum.split)
  then show ?case by (auto split: prod.split option.split)
qed simp

text \<open>
  C20: Upgrading first to one version and then to a later one gives the same database and the same
  report as upgrading at once, errors included.
\<close>

theorem migrate_staged:
  assumes "migrate migs clock (Some a) db = (Inr vs, db1)" and "a \<le> b"
  shows "migrate migs clock (Some b) db =
    (case migrate migs clock (Some b) db1 of (Inr ws, d) \<Rightarrow> (Inr (vs @ ws), d) | (Inl e, d) \<Rightarrow> (Inl e, d))"
proof -
  let ?ms = "sort_key version migs"
  let ?A = "pending a (versions db) ?ms" and ?B = "filter (\<lambda>m. a < version m \<and> version m \<le> b \<and> version m \<notin> versions db) ?ms"
  have m: "migrate migs clock (Some t) d = run_all clock (pending t (versions d) ?ms) [] d" for t d
    by (simp add: migrate_def loop_pending)
  have r: "run_all clock ?A [] db = (Inr vs, db1)" using assms(1) m by simp
  have v: "versions db1 = versions db \<union> set (map version ?A)"
    using run_all_ok [OF r] arg_cong [of _ _ set] by (simp add: versions_def flip: set_map)
  have "pending b (versions db1) ?ms = ?B"
    unfolding pending_def v by (rule filter_cong [OF refl]) (auto simp: pending_def)
  moreover have "pending b (versions db) ?ms = ?A @ ?B"
    unfolding pending_def by (rule filter_split_sorted) (simp_all add: assms(2))
  ultimately show ?thesis unfolding m by (simp add: run_all_append r run_all_acc [of _ _ vs] del: filter_append)
qed

lemma migrate_staged_witness:
  "migrate MIGRATIONS (\<lambda>_. 0) (Some 4) empty_db =
    (case migrate MIGRATIONS (\<lambda>_. 0) (Some 4) (snd (migrate MIGRATIONS (\<lambda>_. 0) (Some 2) empty_db)) of
       (Inr ws, d) \<Rightarrow> (Inr ([1, 2] @ ws), d) | (Inl e, d) \<Rightarrow> (Inl e, d))"
  by (rule migrate_staged [where a = 2]) code_simp+

text \<open>The catalogue brings an empty database to the current schema.\<close>

lemma catalogue_upgrades:
  "map_of (tables (db_schema upgraded)) ''chunks'' =
     Some [''id'', ''source'', ''content'', ''summary'', ''confidence'', ''embedding'', ''pii_tags'', ''freshness'', ''extracted_at'',
           ''canonical_id'', ''tags''] \<and>
   has_column (db_schema upgraded) ''entities'' ''aliases'' \<and> has_column (db_schema upgraded) ''relations'' ''created_at'' \<and>
   current_version upgraded = CURRENT_VERSION"
  by code_simp

text \<open>
  The default target is the version of the built-in catalogue: an injected migration beyond
  it stays pending.
\<close>

lemma default_target_ignores_injected:
  "fst (migrate (MIGRATIONS @ [\<lparr>version = 5, mig_description = ''new'', up = []\<rparr>]) (\<lambda>_. 0) None empty_db) = Inr [1, 2, 3, 4]"
  by code_simp

text \<open>Without a path every connection sees an empty database, so nothing is ever recorded.\<close>

lemma memory_runner_forgets:
  "fst (runner_migrate migs clock target (snd (runner_migrate migs clock target None))) = fst (runner_migrate migs clock target None)"
  by (simp add: runner_migrate_def open_db_def split: prod.split)

end
