(* ===== verification/Memory_Vault.thy ===== *)
theory Memory_Vault
  imports Memory_Tree Py_Strings "HOL-Library.List_Lexorder" "HOL-Library.Char_ord"
begin

text \<open>
  The markdown vault (\<open>sera/memory/vault.py\<close>): chunks mirrored to files with YAML front matter,
  files read back into the tree, and the watcher that polls modification times. A vault is a
  dict from paths, as lists of segments below the vault directory, to texts. YAML, the
  embedder, SQLite's conversion of a value to text and Python's \<open>float\<close> of a string are
  arguments.
\<close>


section \<open>Front matter\<close>

datatype vault_error =
    ChunkMissing nat
  | FileMissing
  | YamlError
  | BadFloat
  | TreeError tree_error

record codec =
  yaml_load :: "py_str \<Rightarrow> (vault_error, py_value) py_result"
  yaml_dump :: "(py_str, py_value) py_dict \<Rightarrow> py_str"
  sql_text :: "py_value \<Rightarrow> py_str"
  parse_float :: "py_str \<Rightarrow> (vault_error, py_float) py_result"

abbreviation newline :: char where
  "newline \<equiv> CHR 0x0A"

definition FENCE_END :: py_str where
  "FENCE_END = [newline] @ ''---''"

text \<open>
  \<open>^---\s*\n(.*?)\n---\s*\n?\<close> with DOTALL. The white space after the first dashes is given back
  newline by newline, last one first; the front matter ends at the first newline followed by
  dashes, and all white space after those is skipped.
\<close>

definition front_from :: "py_str \<Rightarrow> (py_str \<times> py_str) option" where
  "front_from s = map_option (\<lambda>k. (take k s, str_lstrip (drop (k + 4) s))) (str_find s FENCE_END)"

definition match_frontmatter :: "py_str \<Rightarrow> (py_str \<times> py_str) option" where
  "match_frontmatter t =
     (if starts_with t ''---'' then
        (let after = drop 3 t;
             ws = takeWhile is_space after;
             starts = rev (filter (\<lambda>i. ws ! (i - 1) = newline) [1..<Suc (length ws)])
         in (case List.map_filter (\<lambda>i. front_from (drop i after)) starts of [] \<Rightarrow> None | r # _ \<Rightarrow> Some r))
      else None)"

definition split_frontmatter ::
  "codec \<Rightarrow> py_str \<Rightarrow> (vault_error, (py_str, py_value) py_dict \<times> py_str) py_result"
where
  "split_frontmatter C t =
     (case match_frontmatter t of
        None \<Rightarrow> Inr ([], t)
      | Some (front, body) \<Rightarrow>
          rbind (yaml_load C front) (\<lambda>v. Inr (case v of PyDict kvs \<Rightarrow> kvs | _ \<Rightarrow> [], body)))"

definition render_file :: "codec \<Rightarrow> (py_str, py_value) py_dict \<Rightarrow> py_str \<Rightarrow> py_str" where
  "render_file C meta body =
     ''---'' @ [newline] @ str_strip (yaml_dump C meta) @ [newline] @ ''---'' @ [newline, newline] @ str_lstrip body"


section \<open>Mirroring chunks\<close>

type_synonym path = "py_str list"
type_synonym vault = "(path, py_str) py_dict"

fun safe_sub :: "bool \<Rightarrow> py_str \<Rightarrow> py_str" where
  "safe_sub inside [] = []"
| "safe_sub inside (c # cs) =
     (if is_word c \<or> c = CHR ''.'' \<or> c = CHR ''-'' then c # safe_sub False cs
      else if inside then safe_sub True cs else CHR ''-'' # safe_sub True cs)"

definition str_or :: "py_str \<Rightarrow> py_str \<Rightarrow> py_str" where
  "str_or s t = (if s = [] then t else s)"

definition safe_segment :: "py_str \<Rightarrow> py_str" where
  "safe_segment name =
     (let cleaned = str_or (safe_sub False (str_strip (str_or name ''default''))) ''default''
      in str_or (strip_chars {CHR ''-'', CHR ''.''} cleaned) ''default'')"

fun show_id :: "nat \<Rightarrow> py_str" where
  "show_id n = (if n < 10 then [char_of (48 + n)] else show_id (n div 10) @ [char_of (48 + n mod 10)])"

declare show_id.simps [simp del]

definition path_for :: "py_str \<Rightarrow> nat \<Rightarrow> path" where
  "path_for source i = [safe_segment source, show_id i @ ''.md'']"

definition chunk_meta :: "Chunk \<Rightarrow> (py_str, py_value) py_dict" where
  "chunk_meta c =
     [(''id'', PyInt (int (c_id c))), (''source'', PyStr (c_source c)), (''summary'', PyStr (c_summary c)),
      (''confidence'', PyFloat (c_confidence c)), (''created_at'', PyFloat (c_created_at c))]"

definition write_chunk :: "codec \<Rightarrow> memory_tree \<Rightarrow> nat \<Rightarrow> vault \<Rightarrow> (vault_error, path \<times> vault) py_result" where
  "write_chunk C t i v =
     (case get_chunk i True t of
        None \<Rightarrow> Inl (ChunkMissing i)
      | Some c \<Rightarrow>
          (let p = path_for (c_source c) (c_id c)
           in Inr (p, dict_set p (render_file C (chunk_meta c) (c_content c)) v)))"

fun export_ids :: "codec \<Rightarrow> memory_tree \<Rightarrow> nat list \<Rightarrow> path list \<Rightarrow> vault \<Rightarrow> (vault_error, path list) py_result \<times> vault" where
  "export_ids C t [] acc v = (Inr acc, v)"
| "export_ids C t (i # is) acc v =
     (case write_chunk C t i v of
        Inl e \<Rightarrow> (Inl e, v)
      | Inr (p, v') \<Rightarrow> export_ids C t is (acc @ [p]) v')"

definition export_all :: "codec \<Rightarrow> memory_tree \<Rightarrow> vault \<Rightarrow> (vault_error, path list) py_result \<times> vault" where
  "export_all C t v = export_ids C t (map ck_id (chunks t)) [] v"


section \<open>Reading files back\<close>

datatype action = Inserted | Updated

record IngestResult =
  in_path :: path
  in_chunk :: nat
  in_action :: action

fun to_float :: "codec \<Rightarrow> py_value \<Rightarrow> (vault_error, py_float) py_result" where
  "to_float C (PyFloat x) = Inr x"
| "to_float C (PyInt i) = Inr (of_int i)"
| "to_float C (PyBool b) = Inr (if b then 1 else 0)"
| "to_float C (PyStr s) = parse_float C s"
| "to_float C v = Inl BadFloat"

definition meta_get :: "(py_str, py_value) py_dict \<Rightarrow> py_str \<Rightarrow> py_value" where
  "meta_get meta k = dict_get_or meta k PyNone"

text \<open>A boolean is an integer to \<open>isinstance\<close>; ids in the tree are natural numbers.\<close>

definition int_id :: "py_value \<Rightarrow> int option" where
  "int_id v = (case v of PyInt i \<Rightarrow> Some i | PyBool b \<Rightarrow> Some (if b then 1 else 0) | _ \<Rightarrow> None)"

definition set_default :: "py_str \<Rightarrow> py_value \<Rightarrow> (py_str, py_value) py_dict \<Rightarrow> (py_str, py_value) py_dict" where
  "set_default k x meta = (if dict_get meta k = None then dict_set k x meta else meta)"

text \<open>The name of a file's parent directory; \<open>root\<close> is the name of the vault directory.\<close>

definition parent_name :: "py_str \<Rightarrow> path \<Rightarrow> py_str" where
  "parent_name vault_name p = (if 2 \<le> length p then p ! (length p - 2) else vault_name)"

record ingest_env =
  env_codec :: codec
  vault_name :: py_str
  embed :: "(py_str \<Rightarrow> py_float list) option"
  now :: py_float

definition source_of :: "ingest_env \<Rightarrow> path \<Rightarrow> (py_str, py_value) py_dict \<Rightarrow> py_value" where
  "source_of E p meta =
     py_or (py_or (meta_get meta ''source'') (PyStr (parent_name (vault_name E) p))) (PyStr ''default'')"

definition try_update ::
  "memory_tree \<Rightarrow> py_value \<Rightarrow> py_str \<Rightarrow> py_str \<Rightarrow> py_float \<Rightarrow> py_float list option \<Rightarrow>
   (vault_error, (memory_tree \<times> nat) option) py_result"
where
  "try_update t existing body summary confidence embedding =
     (case int_id existing of
        None \<Rightarrow> Inr None
      | Some i \<Rightarrow>
          if i < 0 then Inr None
          else (case update_chunk (nat i) (Some body) (Some summary) (Some confidence) embedding t of
                  Inl e \<Rightarrow> Inl (TreeError e)
                | Inr (t', True) \<Rightarrow> Inr (Some (t', nat i))
                | Inr (_, False) \<Rightarrow> Inr None))"

definition txt_of :: "codec \<Rightarrow> py_value \<Rightarrow> py_str" where
  "txt_of C v = (case v of PyStr s \<Rightarrow> s | _ \<Rightarrow> sql_text C v)"

text \<open>The metadata rewritten with the id of the new chunk.\<close>

definition stamp :: "nat \<Rightarrow> py_value \<Rightarrow> py_float \<Rightarrow> (py_str, py_value) py_dict \<Rightarrow> (py_str, py_value) py_dict" where
  "stamp i source confidence meta =
     set_default ''confidence'' (PyFloat confidence) (set_default ''source'' source (dict_set ''id'' (PyInt (int i)) meta))"

definition ingest_text ::
  "ingest_env \<Rightarrow> path \<Rightarrow> py_str \<Rightarrow> memory_tree \<Rightarrow> vault \<Rightarrow>
   (vault_error, IngestResult \<times> memory_tree \<times> vault) py_result"
where
  "ingest_text E p txt t v =
     rbind (split_frontmatter (env_codec E) txt) (\<lambda>(meta, body).
       let source = source_of E p meta;
           summary = py_or (meta_get meta ''summary'') (PyStr [])
       in rbind (to_float (env_codec E) (py_or (meta_get meta ''confidence'') (PyFloat 1))) (\<lambda>confidence.
          let embedding = map_option (\<lambda>f. f body) (embed E)
          in rbind (try_update t (meta_get meta ''id'') body (txt_of (env_codec E) summary) confidence embedding) (\<lambda>updated.
             case updated of
               Some (t', i) \<Rightarrow> Inr (\<lparr>in_path = p, in_chunk = i, in_action = Updated\<rparr>, t', v)
             | None \<Rightarrow>
                 (case add_chunk (txt_of (env_codec E) source) body (txt_of (env_codec E) summary) confidence embedding (now E) t of
                    Inl e \<Rightarrow> Inl (TreeError e)
                  | Inr (t', i) \<Rightarrow>
                      Inr (\<lparr>in_path = p, in_chunk = i, in_action = Inserted\<rparr>, t',
                           dict_set p (render_file (env_codec E) (stamp i source confidence meta) body) v)))))"

definition ingest_file ::
  "ingest_env \<Rightarrow> path \<Rightarrow> memory_tree \<Rightarrow> vault \<Rightarrow> (vault_error, IngestResult \<times> memory_tree \<times> vault) py_result"
where
  "ingest_file E p t v =
     (case dict_get v p of None \<Rightarrow> Inl FileMissing | Some txt \<Rightarrow> ingest_text E p txt t v)"

fun ingest_files ::
  "ingest_env \<Rightarrow> path list \<Rightarrow> IngestResult list \<Rightarrow> memory_tree \<Rightarrow> vault \<Rightarrow>
   (vault_error, IngestResult list) py_result \<times> memory_tree \<times> vault"
where
  "ingest_files E [] acc t v = (Inr acc, t, v)"
| "ingest_files E (p # ps) acc t v =
     (case ingest_file E p t v of
        Inl e \<Rightarrow> (Inl e, t, v)
      | Inr (r, t', v') \<Rightarrow> ingest_files E ps (acc @ [r]) t' v')"

definition is_markdown :: "path \<Rightarrow> bool" where
  "is_markdown p = (p \<noteq> [] \<and> starts_with (rev (List.last p)) (rev ''.md''))"

definition sync_from_disk ::
  "ingest_env \<Rightarrow> memory_tree \<Rightarrow> vault \<Rightarrow> (vault_error, IngestResult list) py_result \<times> memory_tree \<times> vault"
where
  "sync_from_disk E t v = ingest_files E (filter is_markdown (sort (dict_keys v))) [] t v"


section \<open>Rendering and splitting\<close>

text \<open>
  What the vault needs of YAML for one set of metadata: the dump loads as what was dumped, is
  not blank and holds no line of dashes.
\<close>

definition yaml_faithful :: "codec \<Rightarrow> (py_str, py_value) py_dict \<Rightarrow> bool" where
  "yaml_faithful C meta \<longleftrightarrow>
     yaml_load C (str_strip (yaml_dump C meta)) = Inr (PyDict meta) \<and> str_strip (yaml_dump C meta) \<noteq> [] \<and>
     \<not> str_contains (str_strip (yaml_dump C meta)) FENCE_END"

text \<open>Splitting a rendered file gives back the metadata, and the body without its leading white space.\<close>

theorem vault_file_round_trip:
  assumes "yaml_faithful C meta"
  shows "split_frontmatter C (render_file C meta body) = Inr (meta, str_lstrip body)"
proof -
  define front where "front = str_strip (yaml_dump C meta)"
  define rest where "rest = [newline, newline] @ str_lstrip body"
  have t: "render_file C meta body = ''---'' @ newline # front @ FENCE_END @ rest"
    by (simp add: render_file_def front_def rest_def FENCE_END_def)
  have f: "front \<noteq> []" "\<not> is_space (hd front)" using assms lstrip_strip by (simp_all add: front_def yaml_faithful_def)
  have nl: "is_space newline" by (simp add: is_space_def code_def)
  have ws: "takeWhile is_space (newline # front @ FENCE_END @ rest) = [newline]"
    using f nl by (cases front) simp_all
  have "str_find (front @ FENCE_END @ rest) FENCE_END = Some (length front)"
    using find_first [of front newline "''---''" rest] assms by (simp add: FENCE_END_def front_def yaml_faithful_def)
  then have "front_from (front @ FENCE_END @ rest) = Some (front, str_lstrip body)"
    using nl by (simp add: front_from_def FENCE_END_def rest_def str_lstrip_def)
  then have "match_frontmatter (render_file C meta body) = Some (front, str_lstrip body)"
    unfolding t match_frontmatter_def using ws by (simp add: Let_def map_filter_def)
  then show ?thesis using assms by (simp add: split_frontmatter_def front_def yaml_faithful_def)
qed

text \<open>A codec whose YAML is \<open>k=v\<close> pairs of digits, for the examples.\<close>

definition demo_dump :: "(py_str, py_value) py_dict \<Rightarrow> py_str" where
  "demo_dump meta = (if meta = [(''id'', PyInt 7)] then ''id: 7'' else ''{}'')"

definition demo_codec :: codec where
  "demo_codec =
     \<lparr>yaml_load = (\<lambda>s. if s = ''id: 7'' then Inr (PyDict [(''id'', PyInt 7)]) else Inr (PyDict [])),
      yaml_dump = demo_dump, sql_text = (\<lambda>_. []), parse_float = (\<lambda>_. Inl BadFloat)\<rparr>"

lemma vault_file_round_trip_witness:
  "split_frontmatter demo_codec (render_file demo_codec [(''id'', PyInt 7)] '' text'') = Inr ([(''id'', PyInt 7)], str_lstrip '' text'')"
  by (rule vault_file_round_trip) code_simp+


section \<open>From the tree to a file and back\<close>

text \<open>
  Writing a chunk and reading its file back updates that chunk in place: it keeps its summary,
  loses the leading white space of its content, and a confidence of zero becomes one.
\<close>

theorem chunk_round_trip:
  assumes "chunk_at t i = Some r" and "write_chunk (env_codec E) t i v = Inr (p, v')"
    and "yaml_faithful (env_codec E) (chunk_meta (the (get_chunk i True t)))"
    and "0 \<le> ck_confidence r" and "ck_confidence r \<le> 1" and "embed E = None"
  shows "ingest_file E p t v' =
    Inr (\<lparr>in_path = p, in_chunk = i, in_action = Updated\<rparr>,
         update_chunks i (\<lambda>r'. r'\<lparr>ck_content := str_lstrip (ck_content r), ck_pii_tags := pii_kinds (str_lstrip (ck_content r)),
           ck_summary := ck_summary r, ck_confidence := (if ck_confidence r = 0 then 1 else ck_confidence r)\<rparr>) t, v')"
proof -
  obtain c where c: "get_chunk i True t = Some c" and f: "c_id c = i" "c_content c = ck_content r" "c_summary c = ck_summary r"
    "c_confidence c = ck_confidence r"
    using assms(1) chunk_at_id [OF assms(1)] by (auto simp: get_chunk_def)
  have w: "dict_get v' p = Some (render_file (env_codec E) (chunk_meta c) (ck_content r))"
    using assms(2) c f by (auto simp: write_chunk_def Let_def)
  have s: "split_frontmatter (env_codec E) (render_file (env_codec E) (chunk_meta c) (ck_content r)) =
      Inr (chunk_meta c, str_lstrip (ck_content r))"
    by (rule vault_file_round_trip) (use assms(3) c in simp)
  have m: "meta_get (chunk_meta c) ''id'' = PyInt (int i)" "meta_get (chunk_meta c) ''summary'' = PyStr (ck_summary r)"
    "meta_get (chunk_meta c) ''confidence'' = PyFloat (ck_confidence r)"
    by (simp_all add: meta_get_def dict_get_or_def chunk_meta_def f)
  define k where "k = (if ck_confidence r = 0 then 1 else ck_confidence r)"
  have k: "to_float (env_codec E) (py_or (PyFloat (ck_confidence r)) (PyFloat 1)) = Inr k" "\<not> bad_confidence k"
    using assms(4,5) by (simp_all add: py_or_def k_def bad_confidence_def)
  have sm: "py_or (PyStr x) (PyStr []) = PyStr x" for x by (simp add: py_or_def)
  show ?thesis
    unfolding ingest_file_def w option.case ingest_text_def s rbind_simps prod.case Let_def m k(1) sm txt_of_def py_value.case
    using assms(1,6) k(2) by (simp add: try_update_def int_id_def update_chunk_def bad_dim_def k_def)
qed

definition demo_row :: chunk_row where
  "demo_row =
     \<lparr>ck_id = 1, ck_source = ''notes'', ck_content = '' indented'', ck_summary = ''s'', ck_confidence = 0, ck_embedding = None,
      ck_extracted_at = None, ck_freshness = 1, ck_last_accessed = None, ck_merged_into = None, ck_merged_from = [],
      ck_pii_tags = [], ck_created_at = 0\<rparr>"

definition demo_tree :: memory_tree where
  "demo_tree = (new_tree 2)\<lparr>chunks := [demo_row], next_chunk := 2\<rparr>"

text \<open>A codec that knows two documents.\<close>

definition two_doc_codec :: "(py_str, py_value) py_dict \<Rightarrow> (py_str, py_value) py_dict \<Rightarrow> codec" where
  "two_doc_codec a b =
     \<lparr>yaml_load = (\<lambda>s. if s = ''a'' then Inr (PyDict a) else if s = ''b'' then Inr (PyDict b) else Inl YamlError),
      yaml_dump = (\<lambda>m. if m = a then ''a'' else ''b''), sql_text = (\<lambda>_. []), parse_float = (\<lambda>_. Inl BadFloat)\<rparr>"

lemma two_docs_faithful: "yaml_faithful (two_doc_codec a b) a" "yaml_faithful (two_doc_codec a b) b"
proof -
  have "str_strip ''a'' = ''a''" "str_strip ''b'' = ''b''" "\<not> str_contains ''a'' FENCE_END" "\<not> str_contains ''b'' FENCE_END"
    by code_simp+
  then show "yaml_faithful (two_doc_codec a b) a" "yaml_faithful (two_doc_codec a b) b"
    by (auto simp: yaml_faithful_def two_doc_codec_def)
qed

definition demo_env :: ingest_env where
  "demo_env =
     \<lparr>env_codec = two_doc_codec (chunk_meta (the (get_chunk 1 True demo_tree))) [], vault_name = ''vault'', embed = None, now = 5\<rparr>"

lemma chunk_round_trip_witness:
  "ingest_file demo_env (path_for ''notes'' 1) demo_tree
     (dict_set (path_for ''notes'' 1) (render_file (env_codec demo_env) (chunk_meta (the (get_chunk 1 True demo_tree))) '' indented'') []) =
    Inr (\<lparr>in_path = path_for ''notes'' 1, in_chunk = 1, in_action = Updated\<rparr>,
         update_chunks 1 (\<lambda>r'. r'\<lparr>ck_content := str_lstrip (ck_content demo_row), ck_pii_tags := pii_kinds (str_lstrip (ck_content demo_row)),
           ck_summary := ck_summary demo_row, ck_confidence := (if ck_confidence demo_row = 0 then 1 else ck_confidence demo_row)\<rparr>) demo_tree,
         dict_set (path_for ''notes'' 1) (render_file (env_codec demo_env) (chunk_meta (the (get_chunk 1 True demo_tree))) '' indented'') [])"
proof (rule chunk_round_trip)
  show "chunk_at demo_tree 1 = Some demo_row" by (simp add: chunk_at_def demo_tree_def demo_row_def)
  then show "write_chunk (env_codec demo_env) demo_tree 1 [] =
      Inr (path_for ''notes'' 1, dict_set (path_for ''notes'' 1)
        (render_file (env_codec demo_env) (chunk_meta (the (get_chunk 1 True demo_tree))) '' indented'') [])"
    by (simp add: write_chunk_def get_chunk_def demo_row_def Let_def)
  show "yaml_faithful (env_codec demo_env) (chunk_meta (the (get_chunk 1 True demo_tree)))"
    by (simp add: demo_env_def two_docs_faithful)
qed (simp_all add: demo_row_def demo_env_def)

lemma stamp_gets:
  "meta_get (stamp i source k meta) ''id'' = PyInt (int i)"
  "meta_get (stamp i source k meta) ''summary'' = meta_get meta ''summary''"
  "meta_get (stamp i source k meta) ''confidence'' =
     (if dict_get meta ''confidence'' = None then PyFloat k else meta_get meta ''confidence'')"
  by (auto simp: stamp_def set_default_def meta_get_def dict_get_or_def)

lemma stamped_confidence:
  assumes "to_float C (py_or (meta_get meta ''confidence'') (PyFloat 1)) = Inr k"
  shows "to_float C (py_or (meta_get (stamp i source k meta) ''confidence'') (PyFloat 1)) = Inr k"
proof (cases "dict_get meta ''confidence''")
  case None
  then have "k = 1" using assms by (simp add: meta_get_def dict_get_or_def py_or_def)
  then show ?thesis using None by (simp add: stamp_gets py_or_def)
qed (use assms in \<open>simp add: stamp_gets\<close>)

text \<open>
  A file that was inserted carries the id of its chunk: reading it again updates that chunk and
  inserts nothing.
\<close>

theorem inserted_file_is_known:
  assumes "dict_get v p = Some txt" and "split_frontmatter (env_codec E) txt = Inr (meta, body)"
    and "ingest_file E p t v = Inr (r, t', v')" and "in_action r = Inserted"
    and "list_all (\<lambda>k. yaml_faithful (env_codec E) (stamp (in_chunk r) (source_of E p meta) k meta))
           (case to_float (env_codec E) (py_or (meta_get meta ''confidence'') (PyFloat 1)) of Inr k \<Rightarrow> [k] | Inl _ \<Rightarrow> [])"
    and "\<not> bad_dim t (map_option (\<lambda>f. f (str_lstrip body)) (embed E))"
  shows "\<exists>t''. ingest_file E p t' v' = Inr (\<lparr>in_path = p, in_chunk = in_chunk r, in_action = Updated\<rparr>, t'', v') \<and>
    map ck_id (chunks t'') = map ck_id (chunks t')"
proof -
  define x where "x = txt_of (env_codec E) (py_or (meta_get meta ''summary'') (PyStr []))"
  define src where "src = txt_of (env_codec E) (source_of E p meta)"
  have e: "ingest_text E p txt t v = Inr (r, t', v')" using assms(1,3) by (simp add: ingest_file_def)
  obtain k where k: "to_float (env_codec E) (py_or (meta_get meta ''confidence'') (PyFloat 1)) = Inr k"
    using e unfolding ingest_text_def assms(2) by (auto simp: Let_def rbind_eq_Inr)
  obtain i where a: "add_chunk src body x k (map_option (\<lambda>f. f body) (embed E)) (now E) t = Inr (t', i)"
    and r: "r = \<lparr>in_path = p, in_chunk = i, in_action = Inserted\<rparr>"
    and v': "v' = dict_set p (render_file (env_codec E) (stamp i (source_of E p meta) k meta) body) v"
    using e assms(4) unfolding ingest_text_def assms(2)
    by (auto simp: Let_def k x_def src_def rbind_eq_Inr split: option.splits sum.splits)
  have i: "chunk_at t' i \<noteq> None" "embedding_dim t' = embedding_dim t" "\<not> bad_confidence k"
    using a by (auto simp: add_chunk_def chunk_at_def find_None_iff split: if_splits)
  have s: "split_frontmatter (env_codec E) (render_file (env_codec E) (stamp i (source_of E p meta) k meta) body) =
      Inr (stamp i (source_of E p meta) k meta, str_lstrip body)"
    by (rule vault_file_round_trip) (use assms(5) k r in simp)
  have d: "\<not> bad_dim t' (map_option (\<lambda>f. f (str_lstrip body)) (embed E))"
    using assms(6) i(2) by (simp add: bad_dim_def split: option.splits)
  have w: "dict_get v' p = Some (render_file (env_codec E) (stamp i (source_of E p meta) k meta) body)"
    by (simp add: v')
  obtain t'' where u: "update_chunk i (Some (str_lstrip body)) (Some x) (Some k) (map_option (\<lambda>f. f (str_lstrip body)) (embed E)) t' = Inr (t'', True)"
    and ids: "map ck_id (chunks t'') = map ck_id (chunks t')"
    using i d by (auto simp: update_chunk_def update_chunks_def Let_def split: option.split)
  have "ingest_file E p t' v' = Inr (\<lparr>in_path = p, in_chunk = i, in_action = Updated\<rparr>, t'', v')"
    unfolding ingest_file_def w option.case ingest_text_def s rbind_simps prod.case Let_def stamped_confidence [OF k] stamp_gets(1,2)
      x_def [symmetric]
    by (simp add: try_update_def int_id_def u)
  then show ?thesis using ids r by auto
qed

definition demo_file_env :: ingest_env where
  "demo_file_env =
     \<lparr>env_codec = two_doc_codec [(''source'', PyStr ''n''), (''confidence'', PyFloat 1)]
        (stamp 1 (PyStr ''n'') 1 [(''source'', PyStr ''n''), (''confidence'', PyFloat 1)]),
      vault_name = ''vault'', embed = None, now = 5\<rparr>"

definition demo_file :: py_str where
  "demo_file = ''---'' @ [newline] @ ''a'' @ [newline] @ ''---'' @ [newline] @ ''hello''"

definition demo_ingested :: "IngestResult \<times> memory_tree \<times> vault" where
  "demo_ingested = (case ingest_file demo_file_env [''n.md''] (new_tree 2) [([''n.md''], demo_file)] of
     Inr x \<Rightarrow> x | Inl _ \<Rightarrow> (\<lparr>in_path = [], in_chunk = 0, in_action = Updated\<rparr>, new_tree 2, []))"

lemma demo_splits:
  "split_frontmatter (env_codec demo_file_env) demo_file =
     Inr ([(''source'', PyStr ''n''), (''confidence'', PyFloat 1)], ''hello'')"
proof -
  have "match_frontmatter demo_file = Some (''a'', ''hello'')" by code_simp
  then show ?thesis by (simp add: split_frontmatter_def demo_file_env_def two_doc_codec_def)
qed

lemma demo_ingest:
  "ingest_file demo_file_env [''n.md''] (new_tree 2) [([''n.md''], demo_file)] = Inr demo_ingested \<and>
   in_action (fst demo_ingested) = Inserted \<and> in_chunk (fst demo_ingested) = 1"
  by (simp add: demo_ingested_def ingest_file_def ingest_text_def demo_splits Let_def source_of_def meta_get_def dict_get_or_def
      py_or_def try_update_def int_id_def add_chunk_def bad_confidence_def bad_dim_def new_tree_def demo_file_env_def [THEN arg_cong, of embed])

lemma inserted_file_is_known_witness:
  "\<exists>t''. ingest_file demo_file_env [''n.md''] (fst (snd demo_ingested)) (snd (snd demo_ingested)) =
     Inr (\<lparr>in_path = [''n.md''], in_chunk = in_chunk (fst demo_ingested), in_action = Updated\<rparr>, t'', snd (snd demo_ingested)) \<and>
   map ck_id (chunks t'') = map ck_id (chunks (fst (snd demo_ingested)))"
proof (rule inserted_file_is_known [OF _ demo_splits])
  show "ingest_file demo_file_env [''n.md''] (new_tree 2) [([''n.md''], demo_file)] =
      Inr (fst demo_ingested, fst (snd demo_ingested), snd (snd demo_ingested))"
    using demo_ingest by simp
  show "in_action (fst demo_ingested) = Inserted" using demo_ingest by simp
qed (simp_all add: demo_ingest source_of_def meta_get_def dict_get_or_def py_or_def two_docs_faithful bad_dim_def demo_file_env_def)


section \<open>Paths stay inside the vault\<close>

definition safe_char :: "char \<Rightarrow> bool" where
  "safe_char c \<longleftrightarrow> is_word c \<or> c = CHR ''.'' \<or> c = CHR ''-''"

lemma safe_sub_chars: "list_all safe_char (safe_sub b s)"
  by (induction b s rule: safe_sub.induct) (auto simp: safe_char_def)

text \<open>
  The folder of a chunk's file is one ordinary path segment whatever the source is called: it
  has no separator, is not empty, and is neither the current nor the parent directory.
\<close>

theorem safe_segment_contained:
  "list_all safe_char (safe_segment name) \<and> safe_segment name \<noteq> [] \<and> hd (safe_segment name) \<noteq> CHR ''.''"
proof -
  define c where "c = str_or (safe_sub False (str_strip (str_or name ''default''))) ''default''"
  define s where "s = strip_chars {CHR ''-'', CHR ''.''} c"
  have d: "list_all safe_char ''default''" by code_simp
  have "list_all safe_char c" using safe_sub_chars d by (simp add: c_def str_or_def)
  then have "list_all safe_char s" using strip_chars_edges(1) [of "{CHR ''-'', CHR ''.''}" c] by (auto simp: s_def list_all_iff)
  moreover have "s \<noteq> [] \<Longrightarrow> hd s \<noteq> CHR ''.''" using strip_chars_edges(2) [of "{CHR ''-'', CHR ''.''}" c] by (auto simp: s_def)
  moreover have "safe_segment name = str_or s ''default''" by (simp only: safe_segment_def Let_def s_def c_def)
  ultimately show ?thesis using d by (cases "s = []") (simp_all add: str_or_def)
qed


section \<open>The watcher\<close>

text \<open>A scan gives every file with its modification time, or none when it vanished meanwhile.\<close>

type_synonym scan = "(path \<times> py_float option) list"

record watcher =
  mtimes :: "(path, py_float) py_dict"
  pending :: "(path, py_float) py_dict"

definition visit :: "path \<times> py_float option \<Rightarrow> watcher \<times> path list \<Rightarrow> watcher \<times> path list" where
  "visit x acc =
     (case (x, acc) of ((f, st), (w, fired)) \<Rightarrow>
        (case st of
           None \<Rightarrow> (w, fired)
         | Some m \<Rightarrow>
             (case dict_get (mtimes w) f of
                None \<Rightarrow> (w\<lparr>pending := dict_set f m (pending w)\<rparr>, fired)
              | Some prev \<Rightarrow>
                  if m \<noteq> prev then (w\<lparr>pending := dict_set f m (pending w)\<rparr>, fired)
                  else if dict_get (pending w) f = Some m
                  then (w\<lparr>mtimes := dict_set f m (mtimes w), pending := dict_del f (pending w)\<rparr>, fired @ [f])
                  else (w, fired))))"

definition promote :: "watcher \<Rightarrow> watcher" where
  "promote w =
     w\<lparr>mtimes := fold (\<lambda>(f, m) d. if dict_get d f = None then dict_set f m d else d) (pending w) (mtimes w)\<rparr>"

definition tick :: "scan \<Rightarrow> watcher \<Rightarrow> watcher \<times> path list" where
  "tick files w = (case fold visit files (w, []) of (w1, fired) \<Rightarrow> (promote w1, fired))"

fun watch :: "scan list \<Rightarrow> watcher \<Rightarrow> path list list" where
  "watch [] w = []"
| "watch (d # ds) w = (case tick d w of (w', fired) \<Rightarrow> fired # watch ds w')"

text \<open>What the watcher knows of one file.\<close>

definition knows :: "watcher \<Rightarrow> path \<Rightarrow> py_float option \<times> py_float option" where
  "knows w f = (dict_get (mtimes w) f, dict_get (pending w) f)"

fun visited :: "py_float option \<times> py_float option \<Rightarrow> py_float option \<Rightarrow> (py_float option \<times> py_float option) \<times> bool" where
  "visited k None = (k, False)"
| "visited (None, pd) (Some m) = ((None, Some m), False)"
| "visited (Some prev, pd) (Some m) =
     (if m \<noteq> prev then ((Some prev, Some m), False)
      else if pd = Some m then ((Some m, None), True) else ((Some prev, pd), False))"

lemma visit_same:
  "visit (f, st) (w, fired) = (w', fired') \<Longrightarrow>
   knows w' f = fst (visited (knows w f) st) \<and> (f \<in> set fired' \<longleftrightarrow> f \<in> set fired \<or> snd (visited (knows w f) st))"
  by (cases st) (auto simp: visit_def knows_def split: option.splits if_splits)

lemma visit_other:
  "f \<noteq> g \<Longrightarrow> visit (g, st) (w, fired) = (w', fired') \<Longrightarrow> knows w' f = knows w f \<and> (f \<in> set fired' \<longleftrightarrow> f \<in> set fired)"
  by (cases st) (auto simp: visit_def knows_def split: option.splits if_splits)

lemma visits_other:
  "f \<notin> fst ` set d \<Longrightarrow> fold visit d (w, fired) = (w', fired') \<Longrightarrow>
   knows w' f = knows w f \<and> (f \<in> set fired' \<longleftrightarrow> f \<in> set fired)"
proof (induction d arbitrary: w fired)
  case (Cons x d)
  obtain g st where x: "x = (g, st)" by (cases x)
  obtain w1 fired1 where v: "visit x (w, fired) = (w1, fired1)" by force
  show ?case
    using visit_other [of f g st w fired w1 fired1] Cons.IH [of w1 fired1] Cons.prems v x by auto
qed simp

lemma visits_one:
  assumes "distinct (map fst d)" and "map_of d f = Some st" and "fold visit d (w, []) = (w', fired)"
  shows "knows w' f = fst (visited (knows w f) st) \<and> (f \<in> set fired \<longleftrightarrow> snd (visited (knows w f) st))"
proof -
  have "(f, st) \<in> set d" using assms(2) by (rule map_of_SomeD)
  then obtain xs ys where d: "d = xs @ (f, st) # ys" by (auto dest: split_list)
  then have n: "f \<notin> fst ` set xs" "f \<notin> fst ` set ys" using assms(1) by auto
  obtain w1 fs1 where 1: "fold visit xs (w, []) = (w1, fs1)" by force
  obtain w2 fs2 where 2: "visit (f, st) (w1, fs1) = (w2, fs2)" by force
  have 3: "fold visit ys (w2, fs2) = (w', fired)" using assms(3) d 1 2 by simp
  show ?thesis
    using visits_other [OF n(1) 1] visit_same [OF 2] visits_other [OF n(2) 3] by simp
qed

lemma promote_fold:
  "map_of (fold (\<lambda>(f, m) d. if dict_get d f = None then dict_set f m d else d) ps d) f =
     (case map_of d f of Some m \<Rightarrow> Some m | None \<Rightarrow> map_of ps f)"
proof (induction ps arbitrary: d)
  case (Cons x ps)
  obtain g m where x: "x = (g, m)" by (cases x)
  have "map_of (if dict_get d g = None then dict_set g m d else d) f =
      (if f = g \<and> map_of d f = None then Some m else map_of d f)" by auto
  then show ?case by (simp add: x Cons.IH split: option.split)
qed (simp split: option.split)

lemma promote_knows:
  "knows (promote w) f = (case knows w f of (Some m, pd) \<Rightarrow> (Some m, pd) | (None, pd) \<Rightarrow> (pd, pd))"
  by (auto simp: knows_def promote_def promote_fold split: option.split)

lemma tick_knows:
  assumes "distinct (map fst d)" and "map_of d f = Some st" and "tick d w = (w', fired)"
  shows "knows w' f = (case fst (visited (knows w f) st) of (Some m, pd) \<Rightarrow> (Some m, pd) | (None, pd) \<Rightarrow> (pd, pd))
    \<and> (f \<in> set fired \<longleftrightarrow> snd (visited (knows w f) st))"
proof -
  obtain w1 fs where v: "fold visit d (w, []) = (w1, fs)" by force
  then have "w' = promote w1" "fired = fs" using assms(3) by (simp_all add: tick_def)
  then show ?thesis using visits_one [OF assms(1,2) v] by (simp add: promote_knows)
qed

lemma settled_never_fires:
  assumes "list_all (\<lambda>d. distinct (map fst d) \<and> map_of d f = Some (Some m)) ds" and "knows w f = (Some m, None)"
  shows "list_all (\<lambda>fired. f \<notin> set fired) (watch ds w)"
  using assms
proof (induction ds arbitrary: w)
  case (Cons d ds)
  obtain w' fired where t: "tick d w = (w', fired)" by force
  have "knows w' f = (Some m, None)" "f \<notin> set fired"
    using tick_knows [of d f "Some m" w w' fired] Cons.prems t by auto
  then show ?case using Cons.IH [of w'] Cons.prems t by simp
qed simp

text \<open>A new file that is left alone fires at the second poll, and never again.\<close>

theorem new_file_fires_once:
  assumes "list_all (\<lambda>d. distinct (map fst d) \<and> map_of d f = Some (Some m)) (d1 # d2 # ds)"
    and "dict_get (mtimes w) f = None" and "dict_get (pending w) f = None"
  shows "map (\<lambda>fired. f \<in> set fired) (watch (d1 # d2 # ds) w) = False # True # replicate (length ds) False"
proof -
  obtain w1 fs1 where 1: "tick d1 w = (w1, fs1)" by force
  obtain w2 fs2 where 2: "tick d2 w1 = (w2, fs2)" by force
  have k: "knows w f = (None, None)" using assms(2,3) by (simp add: knows_def)
  have k1: "knows w1 f = (Some m, Some m)" "f \<notin> set fs1"
    using tick_knows [of d1 f "Some m" w w1 fs1] assms(1) 1 k by auto
  have k2: "knows w2 f = (Some m, None)" "f \<in> set fs2"
    using tick_knows [of d2 f "Some m" w1 w2 fs2] assms(1) 2 k1 by auto
  have "list_all (\<lambda>fired. f \<notin> set fired) (watch ds w2)"
    by (rule settled_never_fires [OF _ k2(1)]) (use assms(1) in simp)
  moreover have "length (watch ds w) = length ds" for w by (induction ds arbitrary: w) (auto split: prod.split)
  ultimately have "map (\<lambda>fired. f \<in> set fired) (watch ds w2) = replicate (length ds) False"
    by (auto simp: list_all_length intro: nth_equalityI)
  then show ?thesis using 1 2 k1(2) k2(2) by simp
qed

lemma new_file_fires_once_witness:
  "map (\<lambda>fired. [''a.md''] \<in> set fired)
     (watch ([([''a.md''], Some 1)] # [([''a.md''], Some 1)] # [[([''a.md''], Some 1)]]) \<lparr>mtimes = [], pending = []\<rparr>) =
   False # True # replicate (length [[([''a.md''], Some (1 :: real))]]) False"
  by (rule new_file_fires_once) simp_all

text \<open>
  An edit of a known file never fires: the recorded modification time is not moved on, so
  every later poll sees a change and waits for a confirmation that cannot come.
\<close>

theorem edits_never_fire:
  assumes "dict_get (mtimes w) f = Some m"
    and "list_all (\<lambda>d. distinct (map fst d) \<and> (\<exists>st. map_of d f = Some st \<and> st \<noteq> Some m)) ds"
  shows "list_all (\<lambda>fired. f \<notin> set fired) (watch ds w)"
  using assms
proof (induction ds arbitrary: w)
  case (Cons d ds)
  obtain w' fired where t: "tick d w = (w', fired)" by force
  obtain st where st: "map_of d f = Some st" "st \<noteq> Some m" using Cons.prems(2) by auto
  obtain pd where k: "knows w f = (Some m, pd)" using Cons.prems(1) by (simp add: knows_def)
  have "fst (knows w' f) = Some m" "f \<notin> set fired"
    using tick_knows [of d f st w w' fired] Cons.prems(2) t st k by (cases st; auto)+
  then show ?case using Cons.IH [of w'] Cons.prems(2) t by (simp add: knows_def)
qed simp

text \<open>The three polls after an edit of a file seen before.\<close>

lemma edit_missed:
  "watch [[([''a.md''], Some 1)], [([''a.md''], Some 1)], [([''a.md''], Some 2)], [([''a.md''], Some 2)], [([''a.md''], Some 2)]]
     \<lparr>mtimes = [], pending = []\<rparr> = [[], [[''a.md'']], [], [], []]"
  by (simp add: tick_def visit_def promote_def)

end
