(* ===== verification/Memory_Embedder.thy ===== *)
theory Memory_Embedder
  imports Complex_Main Py_Regex "HOL-Library.Multiset"
begin

text \<open>
  Embedders (\<open>sera/memory/embedder.py\<close>): the bag-of-words stub, the batching of the OpenAI
  embedder, and captions of images. MD5 is an argument that gives the little-endian integer
  of the first four bytes; the embedding service and the captioner are arguments. Vectors are
  exact reals.
\<close>


section \<open>The stub\<close>

text \<open>\<open>[A-Za-z0-9_]+\<close>: the maximal runs of word characters.\<close>

fun words_of :: "py_str \<Rightarrow> py_str \<Rightarrow> py_str list" where
  "words_of cur [] = (if cur = [] then [] else [cur])"
| "words_of cur (c # cs) =
     (if is_word c then words_of (cur @ [c]) cs
      else if cur = [] then words_of [] cs else cur # words_of [] cs)"

definition find_words :: "py_str \<Rightarrow> py_str list" where
  "find_words s = words_of [] s"

definition count_word :: "(py_str \<Rightarrow> nat) \<Rightarrow> nat \<Rightarrow> py_str \<Rightarrow> py_float list \<Rightarrow> py_float list" where
  "count_word md5 d w vec = (let i = md5 w mod d in vec[i := vec ! i + 1])"

definition vec_length :: "py_float list \<Rightarrow> py_float" where
  "vec_length v = sqrt (\<Sum>x\<leftarrow>v. x * x)"

definition bag_of_words_vector :: "(py_str \<Rightarrow> nat) \<Rightarrow> py_str \<Rightarrow> nat \<Rightarrow> py_float list" where
  "bag_of_words_vector md5 t d =
     (let vec = fold (count_word md5 d) (find_words (str_lower t)) (replicate d 0);
          norm = vec_length vec
      in if 0 < norm then map (\<lambda>x. x / norm) vec else vec)"

definition stub_embed :: "(py_str \<Rightarrow> nat) \<Rightarrow> nat \<Rightarrow> py_str \<Rightarrow> py_float list" where
  "stub_embed md5 d t = bag_of_words_vector md5 t d"

definition stub_embed_batch :: "(py_str \<Rightarrow> nat) \<Rightarrow> nat \<Rightarrow> py_str list \<Rightarrow> py_float list list" where
  "stub_embed_batch md5 d ts = map (\<lambda>t. bag_of_words_vector md5 t d) ts"


section \<open>The service\<close>

datatype embed_error = MissingKey | ServiceError py_str

type_synonym service = "py_str \<Rightarrow> nat \<Rightarrow> py_str list \<Rightarrow> (embed_error, py_float list list) py_result"

definition embed_batch :: "service option \<Rightarrow> py_str \<Rightarrow> nat \<Rightarrow> py_str list \<Rightarrow> (embed_error, py_float list list) py_result" where
  "embed_batch client model d ts =
     (if ts = [] then Inr []
      else case client of
             None \<Rightarrow> Inl MissingKey
           | Some call \<Rightarrow> call model d (map (\<lambda>t. if t = [] then '' '' else t) ts))"

definition embed_one :: "service option \<Rightarrow> py_str \<Rightarrow> nat \<Rightarrow> py_str \<Rightarrow> (embed_error, py_float list) py_result" where
  "embed_one client model d t =
     rbind (embed_batch client model d [t]) (\<lambda>vs. case vs of [] \<Rightarrow> Inl (ServiceError ''IndexError'') | v # _ \<Rightarrow> Inr v)"

definition IMAGE_PREFIX :: py_str where
  "IMAGE_PREFIX = ''[image] ''"

definition embed_with_image :: "(py_str \<Rightarrow> 'v) \<Rightarrow> ('i \<Rightarrow> py_str) \<Rightarrow> 'i \<Rightarrow> py_str \<times> 'v" where
  "embed_with_image encode captioner img =
     (let annotated = IMAGE_PREFIX @ captioner img in (annotated, encode annotated))"


section \<open>Stub vectors\<close>

lemma count_word_nth:
  "j < length vec \<Longrightarrow> count_word md5 d w vec ! j = vec ! j + (if md5 w mod d = j then 1 else 0)"
  by (simp add: count_word_def Let_def nth_list_update)

lemma count_word_length [simp]: "length (count_word md5 d w vec) = length vec"
  by (simp add: count_word_def Let_def)

lemma counts_length [simp]: "length (fold (count_word md5 d) ws vec) = length vec"
  by (induction ws arbitrary: vec) simp_all

text \<open>A coordinate counts the words that hash to it.\<close>

lemma counts_nth:
  "j < length vec \<Longrightarrow> fold (count_word md5 d) ws vec ! j = vec ! j + real (length (filter (\<lambda>w. md5 w mod d = j) ws))"
  by (induction ws arbitrary: vec) (simp_all add: count_word_nth)

lemma length_scaled: "0 < k \<Longrightarrow> vec_length (map (\<lambda>x. x / k) v) = vec_length v / k"
proof -
  assume k: "0 < k"
  have "(\<Sum>x\<leftarrow>v. x / k * (x / k)) = (\<Sum>x\<leftarrow>v. x * x) / (k * k)"
    by (induction v) (simp_all add: add_divide_distrib)
  then show ?thesis using k by (simp add: vec_length_def real_sqrt_divide o_def)
qed

lemma square_le_sum: "x \<in> set v \<Longrightarrow> x * x \<le> (\<Sum>y\<leftarrow>v. y * y)" for x :: real
proof (induction v)
  case (Cons y v)
  have "0 \<le> (\<Sum>y\<leftarrow>v. y * y)" by (rule sum_list_nonneg) auto
  then show ?case using Cons by (auto intro: add_increasing)
qed simp

text \<open>
  The stub's vectors have the promised dimension, no negative coordinate, and length one or,
  when no word is found, zero; they depend on the words of the text but not on their order.
\<close>

theorem stub_vector:
  assumes "0 < d"
  shows "length (bag_of_words_vector md5 t d) = d \<and> list_all (\<lambda>x. 0 \<le> x) (bag_of_words_vector md5 t d) \<and>
    vec_length (bag_of_words_vector md5 t d) = (if find_words (str_lower t) = [] then 0 else 1)"
proof -
  let ?ws = "find_words (str_lower t)"
  define vec where "vec = fold (count_word md5 d) ?ws (replicate d 0)"
  have l: "length vec = d" by (simp add: vec_def)
  have n: "vec ! j = real (length (filter (\<lambda>w. md5 w mod d = j) ?ws))" if "j < d" for j
    using counts_nth [of j "replicate d 0" md5 d ?ws] that by (simp add: vec_def)
  then have pos: "list_all (\<lambda>x. 0 \<le> x) vec" by (simp add: list_all_length l)
  have norm: "vec_length vec = sqrt (\<Sum>x\<leftarrow>vec. x * x)" by (simp add: vec_length_def)
  have "0 < (\<Sum>x\<leftarrow>vec. x * x) \<longleftrightarrow> ?ws \<noteq> []"
  proof (cases ?ws)
    case Nil
    then show ?thesis by (simp add: vec_def sum_list_replicate map_replicate)
  next
    case (Cons w ws)
    define j where "j = md5 w mod d"
    have j: "j < d" using assms by (simp add: j_def)
    have "1 \<le> vec ! j" using n [OF j] Cons by (simp add: j_def)
    then have "1 * 1 \<le> vec ! j * vec ! j" by (intro mult_mono) simp_all
    moreover have "vec ! j * vec ! j \<le> (\<Sum>x\<leftarrow>vec. x * x)"
      by (rule square_le_sum) (simp add: l j)
    ultimately show ?thesis using Cons by simp
  qed
  then have z: "0 < vec_length vec \<longleftrightarrow> ?ws \<noteq> []" by (simp add: norm)
  have b: "bag_of_words_vector md5 t d = (if 0 < vec_length vec then map (\<lambda>x. x / vec_length vec) vec else vec)"
    by (simp add: bag_of_words_vector_def vec_def Let_def)
  show ?thesis
  proof (cases "0 < vec_length vec")
    case True
    then show ?thesis using l pos z by (simp add: b length_scaled list_all_iff)
  next
    case False
    have "0 \<le> (\<Sum>x\<leftarrow>vec. x * x)" by (rule sum_list_nonneg) auto
    then have "0 \<le> vec_length vec" by (simp add: norm)
    then show ?thesis using False l pos z by (simp add: b)
  qed
qed

lemma stub_vector_witness:
  "length (bag_of_words_vector length ''a b'' 4) = 4 \<and> list_all (\<lambda>x. 0 \<le> x) (bag_of_words_vector length ''a b'' 4) \<and>
    vec_length (bag_of_words_vector length ''a b'' 4) = (if find_words (str_lower ''a b'') = [] then 0 else 1)"
  by (rule stub_vector) simp

lemma stub_order_blind:
  assumes "mset (find_words (str_lower s)) = mset (find_words (str_lower t))"
  shows "bag_of_words_vector md5 s d = bag_of_words_vector md5 t d"
proof -
  have "length (filter P (find_words (str_lower s))) = length (filter P (find_words (str_lower t)))" for P
    using assms by (metis mset_filter size_mset)
  then have "fold (count_word md5 d) (find_words (str_lower s)) (replicate d 0) =
      fold (count_word md5 d) (find_words (str_lower t)) (replicate d 0)"
    by (intro nth_equalityI) (simp_all add: counts_nth)
  then show ?thesis by (simp add: bag_of_words_vector_def)
qed

end
