(* ===== verification/Federation.thy ===== *)
theory Federation
  imports Py_Regex
begin

text \<open>
  Federated questions between peers (\<open>sera/federation/protocol.py\<close>,
  \<open>sera/federation/node.py\<close>): signed requests, a consent gate, signed answers and the audit
  log. Ed25519 and the canonical JSON encoder are arguments; a key that does not load as one
  of the scheme has no result. The person behind the gate is a function of a state \<open>'w\<close>.
\<close>


section \<open>Hexadecimal text\<close>

definition hex_digit :: "nat \<Rightarrow> char" where
  "hex_digit n = (if n < 10 then char_of (48 + n) else char_of (87 + n))"

definition to_hex :: "py_str \<Rightarrow> py_str" where
  "to_hex s = concat (map (\<lambda>c. [hex_digit (code c div 16), hex_digit (code c mod 16)]) s)"

definition hex_value :: "char \<Rightarrow> nat option" where
  "hex_value c =
     (if is_digit c then Some (code c - 48)
      else if 97 \<le> code c \<and> code c \<le> 102 then Some (code c - 87)
      else if 65 \<le> code c \<and> code c \<le> 70 then Some (code c - 55)
      else None)"

text \<open>\<open>bytes.fromhex\<close>: white space between the bytes is skipped.\<close>

function from_hex :: "py_str \<Rightarrow> py_str option" where
  "from_hex [] = Some []"
| "from_hex (c # cs) =
     (if is_space c then from_hex cs
      else case cs of
             [] \<Rightarrow> None
           | d # ds \<Rightarrow>
               (case (hex_value c, hex_value d) of
                  (Some h, Some l) \<Rightarrow> map_option ((#) (char_of (16 * h + l))) (from_hex ds)
                | _ \<Rightarrow> None))"
  by pat_completeness auto
termination by (relation "measure length") auto

declare from_hex.simps(2) [simp del]

lemma hex_digit_facts:
  assumes "n < 16"
  shows "\<not> is_space (hex_digit n) \<and> hex_value (hex_digit n) = Some n"
proof -
  have "code (char_of k) = k" if "k < 256" for k :: nat using that by (simp add: code_def)
  then have "code (hex_digit n) = (if n < 10 then 48 + n else 87 + n)" using assms by (simp add: hex_digit_def)
  then show ?thesis using assms by (simp add: hex_value_def is_space_def is_digit_def)
qed

lemma from_to_hex: "from_hex (to_hex s) = Some s"
proof (induction s)
  case (Cons c s)
  have c: "code c < 256" by (simp add: code_def)
  then have d: "code c div 16 < 16" "code c mod 16 < 16" by simp_all
  have e: "to_hex (c # s) = hex_digit (code c div 16) # hex_digit (code c mod 16) # to_hex s" by (simp add: to_hex_def)
  have "16 * (code c div 16) + code c mod 16 = code c" by simp
  then have "char_of (16 * (code c div 16) + code c mod 16) = c" by (simp add: code_def)
  then show ?case
    unfolding e using hex_digit_facts [OF d(1)] hex_digit_facts [OF d(2)] Cons by (simp add: from_hex.simps(2))
qed (simp add: to_hex_def)


section \<open>Messages\<close>

datatype federation_error =
    BadKey
  | BadSignature
  | Unsigned
  | NoMemorySearch
  | ValueError
  | Malformed

datatype ConsentDecision = APPROVED | DENIED

definition decision_value :: "ConsentDecision \<Rightarrow> py_str" where
  "decision_value d = (case d of APPROVED \<Rightarrow> ''approved'' | DENIED \<Rightarrow> ''denied'')"

text \<open>
  Signing with a private key, checking with a public one, and the canonical JSON text of a
  value.
\<close>

record scheme =
  sign_with :: "py_str \<Rightarrow> py_str \<Rightarrow> py_str option"
  check_with :: "py_str \<Rightarrow> py_str \<Rightarrow> py_str \<Rightarrow> bool option"
  canonical :: "py_value \<Rightarrow> py_str"

definition sign_data :: "scheme \<Rightarrow> py_str \<Rightarrow> py_str \<Rightarrow> (federation_error, py_str) py_result" where
  "sign_data S data priv = (case sign_with S priv data of None \<Rightarrow> Inl BadKey | Some sig \<Rightarrow> Inr sig)"

definition verify_data :: "scheme \<Rightarrow> py_str \<Rightarrow> py_str \<Rightarrow> py_str \<Rightarrow> (federation_error, unit) py_result" where
  "verify_data S data sig pub =
     (case check_with S pub data sig of
        None \<Rightarrow> Inl BadKey
      | Some ok \<Rightarrow> if ok then Inr () else Inl BadSignature)"

record FederationRequest =
  rq_question :: py_str
  rq_requester :: py_str
  rq_pubkey :: py_str
  rq_id :: py_str
  rq_created :: py_float
  rq_signature :: py_str

record FederationResponse =
  rs_request :: py_str
  rs_decision :: py_str
  rs_answer :: py_str
  rs_responder :: py_str
  rs_pubkey :: py_str
  rs_snippets :: "py_str list"
  rs_created :: py_float
  rs_signature :: py_str

definition rq_signable :: "scheme \<Rightarrow> FederationRequest \<Rightarrow> py_str" where
  "rq_signable S r =
     canonical S (PyDict [(''question'', PyStr (rq_question r)), (''requester_id'', PyStr (rq_requester r)),
       (''requester_pubkey_pem'', PyStr (rq_pubkey r)), (''request_id'', PyStr (rq_id r)),
       (''created_at'', PyFloat (rq_created r))])"

definition rs_signable :: "scheme \<Rightarrow> FederationResponse \<Rightarrow> py_str" where
  "rs_signable S r =
     canonical S (PyDict [(''request_id'', PyStr (rs_request r)), (''decision'', PyStr (rs_decision r)),
       (''answer'', PyStr (rs_answer r)), (''responder_id'', PyStr (rs_responder r)),
       (''responder_pubkey_pem'', PyStr (rs_pubkey r)), (''snippets'', PyList (map PyStr (rs_snippets r))),
       (''created_at'', PyFloat (rs_created r))])"

definition rq_sign :: "scheme \<Rightarrow> py_str \<Rightarrow> FederationRequest \<Rightarrow> (federation_error, FederationRequest) py_result" where
  "rq_sign S priv r = rbind (sign_data S (rq_signable S r) priv) (\<lambda>sig. Inr (r\<lparr>rq_signature := to_hex sig\<rparr>))"

definition rs_sign :: "scheme \<Rightarrow> py_str \<Rightarrow> FederationResponse \<Rightarrow> (federation_error, FederationResponse) py_result" where
  "rs_sign S priv r = rbind (sign_data S (rs_signable S r) priv) (\<lambda>sig. Inr (r\<lparr>rs_signature := to_hex sig\<rparr>))"

definition verify_signed :: "scheme \<Rightarrow> py_str \<Rightarrow> py_str \<Rightarrow> py_str \<Rightarrow> (federation_error, unit) py_result" where
  "verify_signed S signature data pub =
     (if signature = [] then Inl Unsigned
      else case from_hex signature of None \<Rightarrow> Inl ValueError | Some sig \<Rightarrow> verify_data S data sig pub)"

definition rq_verify :: "scheme \<Rightarrow> FederationRequest \<Rightarrow> (federation_error, unit) py_result" where
  "rq_verify S r = verify_signed S (rq_signature r) (rq_signable S r) (rq_pubkey r)"

definition rs_verify :: "scheme \<Rightarrow> FederationResponse \<Rightarrow> (federation_error, unit) py_result" where
  "rs_verify S r = verify_signed S (rs_signature r) (rs_signable S r) (rs_pubkey r)"

definition rs_approved :: "FederationResponse \<Rightarrow> bool" where
  "rs_approved r = (rs_decision r = decision_value APPROVED)"


section \<open>The node\<close>

record AuditEntry =
  au_request :: py_str
  au_requester :: py_str
  au_question :: py_str
  au_decision :: py_str
  au_at :: py_float

type_synonym 'w consent_gate = "FederationRequest \<Rightarrow> 'w \<Rightarrow> ConsentDecision \<times> 'w"
type_synonym memory_search = "py_str \<Rightarrow> py_str \<times> py_str list"

definition deny_all :: "'w consent_gate" where
  "deny_all r w = (DENIED, w)"

record 'w node =
  node_id :: py_str
  node_priv :: py_str
  node_pub :: py_str
  consent :: "'w consent_gate"
  memory :: "memory_search option"
  audit_log :: "AuditEntry list"

definition new_node ::
  "py_str \<Rightarrow> py_str \<Rightarrow> py_str \<Rightarrow> 'w consent_gate option \<Rightarrow> memory_search option \<Rightarrow> 'w node"
where
  "new_node i priv pub gate search =
     \<lparr>node_id = i, node_priv = priv, node_pub = pub,
      consent = (case gate of Some g \<Rightarrow> g | None \<Rightarrow> deny_all), memory = search, audit_log = []\<rparr>"

definition audit_entry :: "py_float \<Rightarrow> FederationRequest \<Rightarrow> ConsentDecision \<Rightarrow> AuditEntry" where
  "audit_entry now r d =
     \<lparr>au_request = rq_id r, au_requester = rq_requester r, au_question = rq_question r, au_decision = decision_value d, au_at = now\<rparr>"

definition response :: "'w node \<Rightarrow> py_float \<Rightarrow> FederationRequest \<Rightarrow> ConsentDecision \<Rightarrow> py_str \<Rightarrow> py_str list \<Rightarrow> FederationResponse" where
  "response N now r d answer snippets =
     \<lparr>rs_request = rq_id r, rs_decision = decision_value d, rs_answer = answer, rs_responder = node_id N,
      rs_pubkey = node_pub N, rs_snippets = snippets, rs_created = now, rs_signature = []\<rparr>"

text \<open>The node after the request, and what the asker gets.\<close>

definition handle ::
  "scheme \<Rightarrow> py_float \<Rightarrow> FederationRequest \<Rightarrow> 'w node \<Rightarrow> 'w \<Rightarrow> (federation_error, FederationResponse) py_result \<times> 'w node \<times> 'w"
where
  "handle S now r N w =
     (case rq_verify S r of
        Inl e \<Rightarrow> (Inl e, N, w)
      | Inr _ \<Rightarrow>
          (case consent N r w of (d, w1) \<Rightarrow>
             let N1 = N\<lparr>audit_log := audit_log N @ [audit_entry now r d]\<rparr>
             in if d \<noteq> APPROVED then (rs_sign S (node_priv N) (response N now r DENIED [] []), N1, w1)
                else case memory N of
                       None \<Rightarrow> (Inl NoMemorySearch, N1, w1)
                     | Some search \<Rightarrow>
                         (case search (rq_question r) of (answer, snippets) \<Rightarrow>
                            (rs_sign S (node_priv N) (response N now r APPROVED answer snippets), N1, w1))))"

text \<open>JSON in, JSON out; the parser with the constructor, and the printer, are arguments.\<close>

definition handle_json ::
  "scheme \<Rightarrow> (py_str \<Rightarrow> FederationRequest option) \<Rightarrow> (FederationResponse \<Rightarrow> py_str) \<Rightarrow> py_float \<Rightarrow> py_str \<Rightarrow> 'w node \<Rightarrow> 'w
    \<Rightarrow> (federation_error, py_str) py_result \<times> 'w node \<times> 'w"
where
  "handle_json S from_json to_json now raw N w =
     (case from_json raw of
        None \<Rightarrow> (Inl Malformed, N, w)
      | Some r \<Rightarrow> (case handle S now r N w of (res, N', w') \<Rightarrow> (rbind res (\<lambda>x. Inr (to_json x)), N', w')))"

definition new_request :: "py_str \<Rightarrow> py_str \<Rightarrow> py_str \<Rightarrow> py_str \<Rightarrow> py_float \<Rightarrow> FederationRequest" where
  "new_request question requester pub uuid now =
     \<lparr>rq_question = question, rq_requester = requester, rq_pubkey = pub, rq_id = uuid, rq_created = now, rq_signature = []\<rparr>"

definition ask_peer ::
  "scheme \<Rightarrow> py_str \<Rightarrow> py_float \<Rightarrow> py_str \<Rightarrow> py_str \<Rightarrow> py_str \<Rightarrow> py_str \<Rightarrow> 'w node \<Rightarrow> 'w
    \<Rightarrow> (federation_error, FederationResponse) py_result \<times> 'w node \<times> 'w"
where
  "ask_peer S uuid now question requester priv pub peer w =
     (case rq_sign S priv (new_request question requester pub uuid now) of
        Inl e \<Rightarrow> (Inl e, peer, w)
      | Inr r \<Rightarrow>
          (case handle S now r peer w of
             (Inl e, N, w') \<Rightarrow> (Inl e, N, w')
           | (Inr resp, N, w') \<Rightarrow> (rbind (rs_verify S resp) (\<lambda>_. Inr resp), N, w')))"


section \<open>Signatures that check\<close>

text \<open>A key pair: whatever the private key signs, the public key accepts.\<close>

definition key_pair :: "scheme \<Rightarrow> py_str \<Rightarrow> py_str \<Rightarrow> bool" where
  "key_pair S priv pub \<longleftrightarrow>
     (\<forall>data. \<exists>sig. sign_with S priv data = Some sig \<and> sig \<noteq> [] \<and> check_with S pub data sig = Some True)"

lemma key_pairD:
  assumes "key_pair S priv pub"
  obtains sig where "sign_with S priv data = Some sig" "verify_signed S (to_hex sig) data pub = Inr ()"
proof -
  obtain sig where s: "sign_with S priv data = Some sig" "sig \<noteq> []" "check_with S pub data sig = Some True"
    using assms by (auto simp: key_pair_def)
  then have "to_hex sig \<noteq> []" by (cases sig) (simp_all add: to_hex_def)
  then show ?thesis using that s by (simp add: verify_signed_def from_to_hex verify_data_def)
qed

lemma rq_signable_signature [simp]: "rq_signable S (r\<lparr>rq_signature := x\<rparr>) = rq_signable S r"
  by (simp add: rq_signable_def)

lemma rs_signable_signature [simp]: "rs_signable S (r\<lparr>rs_signature := x\<rparr>) = rs_signable S r"
  by (simp add: rs_signable_def)

lemma rq_signed_verifies:
  assumes "key_pair S priv (rq_pubkey r)"
  obtains x where "rq_sign S priv r = Inr (r\<lparr>rq_signature := x\<rparr>)" "rq_verify S (r\<lparr>rq_signature := x\<rparr>) = Inr ()"
  by (rule key_pairD [OF assms, of "rq_signable S r"])
    (auto simp: rq_sign_def sign_data_def rq_verify_def intro: that)

lemma rs_signed_verifies:
  assumes "key_pair S priv (rs_pubkey r)"
  obtains x where "rs_sign S priv r = Inr (r\<lparr>rs_signature := x\<rparr>)" "rs_verify S (r\<lparr>rs_signature := x\<rparr>) = Inr ()"
  by (rule key_pairD [OF assms, of "rs_signable S r"])
    (auto simp: rs_sign_def sign_data_def rs_verify_def intro: that)

text \<open>
  C11: An honest exchange completes: the answer verifies, answers this request, is approved exactly
  when the gate said so, shows memory only then, and the decision is on record.
\<close>

theorem ask_peer_completes:
  assumes "key_pair S priv pub" and "key_pair S (node_priv N) (node_pub N)" and "memory N = Some search"
  shows "\<exists>r resp d w'. consent N r w = (d, w') \<and> rq_question r = question \<and> rq_id r = uuid \<and>
    ask_peer S uuid now question requester priv pub N w = (Inr resp, N\<lparr>audit_log := audit_log N @ [audit_entry now r d]\<rparr>, w') \<and>
    rs_verify S resp = Inr () \<and> rs_request resp = uuid \<and> rs_approved resp = (d = APPROVED) \<and>
    (rs_answer resp, rs_snippets resp) = (if d = APPROVED then search question else ([], []))"
proof -
  let ?q = "new_request question requester pub uuid now"
  obtain x where x: "rq_sign S priv ?q = Inr (?q\<lparr>rq_signature := x\<rparr>)" "rq_verify S (?q\<lparr>rq_signature := x\<rparr>) = Inr ()"
    using rq_signed_verifies [of S priv ?q] assms(1) by (auto simp: new_request_def)
  define r where "r = ?q\<lparr>rq_signature := x\<rparr>"
  have r: "rq_question r = question" "rq_id r = uuid" by (simp_all add: r_def new_request_def)
  obtain d w' where d: "consent N r w = (d, w')" by force
  define a where "a = (if d = APPROVED then search question else ([], []))"
  let ?resp = "response N now r d (fst a) (snd a)"
  obtain y where y: "rs_sign S (node_priv N) ?resp = Inr (?resp\<lparr>rs_signature := y\<rparr>)"
    "rs_verify S (?resp\<lparr>rs_signature := y\<rparr>) = Inr ()"
    using rs_signed_verifies [of S "node_priv N" ?resp] assms(2) by (auto simp: response_def)
  have h: "handle S now r N w = (Inr (?resp\<lparr>rs_signature := y\<rparr>), N\<lparr>audit_log := audit_log N @ [audit_entry now r d]\<rparr>, w')"
    using x(2) y(1) d r assms(3)
    by (cases d; cases "search question") (simp_all add: handle_def r_def [symmetric] a_def)
  have "ask_peer S uuid now question requester priv pub N w =
      (Inr (?resp\<lparr>rs_signature := y\<rparr>), N\<lparr>audit_log := audit_log N @ [audit_entry now r d]\<rparr>, w')"
    using x(1) h y(2) by (simp add: ask_peer_def r_def [symmetric])
  moreover have "rs_approved (?resp\<lparr>rs_signature := y\<rparr>) = (d = APPROVED)"
    by (cases d) (simp_all add: rs_approved_def response_def decision_value_def)
  ultimately show ?thesis
    using d r y(2) by (intro exI [of _ r] exI [of _ "?resp\<lparr>rs_signature := y\<rparr>"] exI [of _ d] exI [of _ w'])
      (simp add: response_def a_def)
qed

definition demo_scheme :: scheme where
  "demo_scheme = \<lparr>sign_with = (\<lambda>k m. Some (k @ m)), check_with = (\<lambda>k m s. Some (s = k @ m)), canonical = (\<lambda>_. [])\<rparr>"

lemma demo_key_pair: "k \<noteq> [] \<Longrightarrow> key_pair demo_scheme k k"
  by (simp add: key_pair_def demo_scheme_def)

definition demo_node :: "unit node" where
  "demo_node = new_node ''bob'' ''k'' ''k'' (Some (\<lambda>_ w. (APPROVED, w))) (Some (\<lambda>q. (''yes'', [q])))"

lemma ask_peer_completes_witness:
  "\<exists>r resp d w'. consent demo_node r () = (d, w') \<and> rq_question r = ''up?'' \<and> rq_id r = ''7'' \<and>
    ask_peer demo_scheme ''7'' 1 ''up?'' ''alice'' ''a'' ''a'' demo_node () =
      (Inr resp, demo_node\<lparr>audit_log := audit_log demo_node @ [audit_entry 1 r d]\<rparr>, w') \<and>
    rs_verify demo_scheme resp = Inr () \<and> rs_request resp = ''7'' \<and> rs_approved resp = (d = APPROVED) \<and>
    (rs_answer resp, rs_snippets resp) = (if d = APPROVED then (\<lambda>q. (''yes'', [q])) ''up?'' else ([], []))"
  by (rule ask_peer_completes) (simp_all add: demo_key_pair demo_node_def new_node_def)

text \<open>
  The name in a request is not bound to its key: whoever holds a key pair can ask under any
  name, and the signature checks.
\<close>

lemma any_name_verifies:
  "key_pair S priv pub \<Longrightarrow> \<exists>r. rq_sign S priv (new_request question anyone pub uuid now) = Inr r \<and> rq_verify S r = Inr () \<and> rq_requester r = anyone"
  using rq_signed_verifies [of S priv "new_request question anyone pub uuid now"] by (fastforce simp: new_request_def)


section \<open>A node over many requests\<close>

text \<open>What the gate said of a request; none when its signature did not check.\<close>

definition gate_said :: "scheme \<Rightarrow> FederationRequest \<Rightarrow> 'w node \<Rightarrow> 'w \<Rightarrow> ConsentDecision option" where
  "gate_said S r N w = (case rq_verify S r of Inl _ \<Rightarrow> None | Inr _ \<Rightarrow> Some (fst (consent N r w)))"

type_synonym exchange = "py_float \<times> FederationRequest \<times> ConsentDecision option \<times> (federation_error, FederationResponse) py_result"

fun serve ::
  "scheme \<Rightarrow> (py_float \<times> FederationRequest) list \<Rightarrow> 'w node \<Rightarrow> 'w \<Rightarrow> exchange list \<times> 'w node \<times> 'w"
where
  "serve S [] N w = ([], N, w)"
| "serve S ((now, r) # qs) N w =
     (case handle S now r N w of
        (res, N1, w1) \<Rightarrow>
          (case serve S qs N1 w1 of (xs, N2, w2) \<Rightarrow> ((now, r, gate_said S r N w, res) # xs, N2, w2)))"

text \<open>Nodes that differ in their memory, and agreement wherever nothing was approved.\<close>

definition same_but_memory :: "'w node \<Rightarrow> 'w node \<Rightarrow> bool" where
  "same_but_memory N M \<longleftrightarrow> M = N\<lparr>memory := memory M\<rparr>"

definition agree :: "exchange \<Rightarrow> exchange \<Rightarrow> bool" where
  "agree x y =
     (case (x, y) of ((now, r, d, res), (now', r', d', res')) \<Rightarrow>
        now = now' \<and> r = r' \<and> d = d' \<and> (d = Some APPROVED \<or> res = res'))"

lemma same_but_memory_fields:
  "same_but_memory N M \<Longrightarrow> node_priv M = node_priv N \<and> node_id M = node_id N \<and> node_pub M = node_pub N \<and>
     consent M = consent N \<and> audit_log M = audit_log N"
  unfolding same_but_memory_def by (cases N; cases M) simp

lemma handle_memory:
  assumes "same_but_memory N M"
  shows "case (handle S now r N w, handle S now r M w) of ((x, N1, w1), (y, M1, v1)) \<Rightarrow>
    same_but_memory N1 M1 \<and> w1 = v1 \<and> gate_said S r N w = gate_said S r M w \<and> (gate_said S r N w = Some APPROVED \<or> x = y)"
proof (cases "rq_verify S r")
  case (Inl e)
  then show ?thesis using assms by (simp add: handle_def gate_said_def)
next
  case (Inr u)
  obtain d w1 where d: "consent N r w = (d, w1)" by force
  note f = same_but_memory_fields [OF assms]
  have s: "same_but_memory (N\<lparr>audit_log := l\<rparr>) (M\<lparr>audit_log := l\<rparr>)" for l
    using assms unfolding same_but_memory_def by (cases N; cases M) simp
  show ?thesis
  proof (cases "d = APPROVED")
    case True
    then show ?thesis
      using Inr d f s by (auto simp: handle_def gate_said_def Let_def split: option.split prod.split)
  next
    case False
    then show ?thesis using Inr d f s by (simp add: handle_def gate_said_def response_def Let_def)
  qed
qed

lemma serve_memory:
  assumes "same_but_memory N M"
  shows "case (serve S qs N w, serve S qs M w) of ((xs, N1, w1), (ys, M1, v1)) \<Rightarrow>
    list_all2 agree xs ys \<and> same_but_memory N1 M1 \<and> w1 = v1"
  using assms
proof (induction qs arbitrary: N M w)
  case (Cons q qs)
  obtain now r where q: "q = (now, r)" by (cases q)
  obtain x N1 w1 where n: "handle S now r N w = (x, N1, w1)" by (metis prod_cases3)
  obtain y M1 v1 where m: "handle S now r M w = (y, M1, v1)" by (metis prod_cases3)
  have h: "same_but_memory N1 M1" "w1 = v1" "agree (now, r, gate_said S r N w, x) (now, r, gate_said S r M w, y)"
    using handle_memory [OF Cons.prems, where S = S and now = now and r = r and w = w] n m by (auto simp: agree_def)
  show ?case using Cons.IH [OF h(1), of w1] h n m q by (auto split: prod.splits)
qed simp

text \<open>
  C10: Only approved answers depend on the memory: whatever is asked, two nodes that differ in what
  they remember give the same replies wherever the gate did not approve, keep the same log
  and leave the person behind the gate in the same state.
\<close>

theorem memory_shown_only_when_approved:
  "case (serve S qs (N\<lparr>memory := m\<rparr>) w, serve S qs (N\<lparr>memory := m'\<rparr>) w) of
     ((xs, N1, w1), (ys, M1, v1)) \<Rightarrow> list_all2 agree xs ys \<and> audit_log N1 = audit_log M1 \<and> w1 = v1"
proof -
  have "same_but_memory (N\<lparr>memory := m\<rparr>) (N\<lparr>memory := m'\<rparr>)" by (simp add: same_but_memory_def)
  from serve_memory [OF this, where S = S and qs = qs and w = w] show ?thesis
    by (auto dest: same_but_memory_fields split: prod.splits)
qed

text \<open>The log holds every request whose signature checked, with its decision, in order.\<close>

theorem audit_is_complete:
  "case serve S qs N w of
     (xs, N1, w1) \<Rightarrow> map (\<lambda>(now, r, d, res). (now, r)) xs = qs \<and>
       audit_log N1 = audit_log N @ List.map_filter (\<lambda>(now, r, d, res). map_option (audit_entry now r) d) xs"
proof (induction qs arbitrary: N w)
  case (Cons q qs)
  obtain now r where q: "q = (now, r)" by (cases q)
  obtain x N1 w1 where n: "handle S now r N w = (x, N1, w1)" by (metis prod_cases3)
  have "audit_log N1 = audit_log N @ (case gate_said S r N w of None \<Rightarrow> [] | Some d \<Rightarrow> [audit_entry now r d])"
    using n by (auto simp: handle_def gate_said_def Let_def split: sum.splits prod.splits if_splits option.splits)
  then show ?case using Cons.IH [of N1 w1] n q by (auto simp: map_filter_def split: prod.splits option.splits)
qed (simp add: map_filter_def)

end
