(* ===== verification/Py_Base64.thy ===== *)
theory Py_Base64
  imports Py_Regex
begin

text \<open>
  \<open>base64.b64encode\<close> and \<open>base64.b64decode\<close> of the Python library, which the signed packs and
  manifests go through. The decoder is the lenient one: it skips bytes outside the alphabet and
  stops at a complete padding.
\<close>


section \<open>Encoding\<close>

definition b64_char :: "nat \<Rightarrow> char" where
  "b64_char n =
     (if n < 26 then char_of (65 + n) else if n < 52 then char_of (71 + n)
      else if n < 62 then char_of (n - 4) else if n = 62 then CHR ''+'' else CHR ''/'')"

definition b64_value :: "char \<Rightarrow> nat option" where
  "b64_value c =
     (if is_upper c then Some (code c - 65) else if is_lower c then Some (code c - 71)
      else if is_digit c then Some (code c + 4)
      else if c = CHR ''+'' then Some 62 else if c = CHR ''/'' then Some 63 else None)"

abbreviation pad :: char where
  "pad \<equiv> CHR ''=''"

fun b64encode :: "py_str \<Rightarrow> py_str" where
  "b64encode [] = []"
| "b64encode [a] = [b64_char (code a div 4), b64_char (code a mod 4 * 16), pad, pad]"
| "b64encode [a, b] =
     [b64_char (code a div 4), b64_char (code a mod 4 * 16 + code b div 16), b64_char (code b mod 16 * 4), pad]"
| "b64encode (a # b # c # s) =
     b64_char (code a div 4) # b64_char (code a mod 4 * 16 + code b div 16)
       # b64_char (code b mod 16 * 4 + code c div 64) # b64_char (code c mod 64) # b64encode s"


section \<open>Decoding\<close>

text \<open>
  \<open>q\<close> counts the characters read of the current group of four, \<open>rest\<close> holds the bits not yet
  put out, \<open>pads\<close> the padding characters in a row.
\<close>

fun decode_from :: "nat \<Rightarrow> nat \<Rightarrow> nat \<Rightarrow> py_str \<Rightarrow> py_str option" where
  "decode_from q pads rest [] = (if q = 0 then Some [] else None)"
| "decode_from q pads rest (c # cs) =
     (if c = pad
      then (if 2 \<le> q \<and> 4 \<le> q + (pads + 1) then Some []
            else decode_from q (if 2 \<le> q then pads + 1 else pads) rest cs)
      else case b64_value c of
             None \<Rightarrow> decode_from q pads rest cs
           | Some v \<Rightarrow>
               (if q = 0 then decode_from 1 0 v cs
                else if q = 1 then map_option ((#) (char_of (rest * 4 + v div 16))) (decode_from 2 0 (v mod 16) cs)
                else if q = 2 then map_option ((#) (char_of (rest * 16 + v div 4))) (decode_from 3 0 (v mod 4) cs)
                else map_option ((#) (char_of (rest * 64 + v))) (decode_from 0 0 0 cs)))"

definition is_ascii :: "py_str \<Rightarrow> bool" where
  "is_ascii s = list_all (\<lambda>c. code c < 128) s"

text \<open>A text must be ASCII; bytes may be anything.\<close>

definition b64decode :: "py_str \<Rightarrow> py_str option" where
  "b64decode s = decode_from 0 0 0 s"

definition b64decode_text :: "py_str \<Rightarrow> py_str option" where
  "b64decode_text s = (if is_ascii s then b64decode s else None)"


section \<open>Round trip\<close>

lemma code_of [simp]: "n < 256 \<Longrightarrow> code (char_of n) = n"
  by (simp add: code_def)

lemma of_code [simp]: "char_of (code c) = c"
  by (simp add: code_def)

lemma code_less [simp]: "code c < 256"
  by (simp add: code_def)

lemma code_parts [simp]: "code c div 16 mod 16 = code c div 16" "code c div 64 mod 4 = code c div 64"
proof -
  have "code c div 16 < 16" "code c div 64 < 4" using code_less [of c] by linarith+
  then show "code c div 16 mod 16 = code c div 16" "code c div 64 mod 4 = code c div 64" by simp_all
qed

lemma code_of_literals [simp]:
  "code CHR ''+'' = 43" "code CHR ''/'' = 47" "code CHR ''='' = 61"
  by (simp_all add: code_def)

lemma b64_char_code:
  assumes "n < 64"
  shows "code (b64_char n) =
    (if n < 26 then 65 + n else if n < 52 then 71 + n else if n < 62 then n - 4 else if n = 62 then 43 else 47)"
  using assms by (simp add: b64_char_def)

lemma b64_char_facts:
  assumes "n < 64"
  shows "b64_char n \<noteq> pad \<and> b64_value (b64_char n) = Some n \<and> code (b64_char n) < 128"
proof -
  note c = b64_char_code [OF assms]
  have "code (b64_char n) \<noteq> 61" using c assms by (auto split: if_splits)
  then have p: "b64_char n \<noteq> pad" by auto
  consider "n < 26" | "26 \<le> n" "n < 52" | "52 \<le> n" "n < 62" | "n = 62" | "n = 63" using assms by linarith
  then have "b64_value (b64_char n) = Some n"
    by cases (auto simp: b64_value_def is_upper_def is_lower_def is_digit_def c, simp_all add: b64_char_def)
  moreover have "code (b64_char n) < 128" using c assms by (auto split: if_splits)
  ultimately show ?thesis using p by blast
qed

lemma decode_char [simp]:
  assumes "n < 64"
  shows "decode_from q pads rest (b64_char n # cs) =
    (if q = 0 then decode_from 1 0 n cs
     else if q = 1 then map_option ((#) (char_of (rest * 4 + n div 16))) (decode_from 2 0 (n mod 16) cs)
     else if q = 2 then map_option ((#) (char_of (rest * 16 + n div 4))) (decode_from 3 0 (n mod 4) cs)
     else map_option ((#) (char_of (rest * 64 + n))) (decode_from 0 0 0 cs))"
  using b64_char_facts [OF assms] by simp

lemma decode_pad [simp]:
  "decode_from q pads rest (pad # cs) =
     (if 2 \<le> q \<and> 3 \<le> q + pads then Some []
      else decode_from q (if 2 \<le> q then pads + 1 else pads) rest cs)"
  by simp

declare decode_from.simps(2) [simp del]

lemma b64_parts:
  fixes n m :: nat
  assumes "n < 256" and "m < 256"
  shows "n div 4 < 64" "n mod 4 * 16 + m div 16 < 64" "n mod 16 * 4 + m div 64 < 64"
    "n div 4 * 4 + (n mod 4 * 16 + m div 16) div 16 = n"
    "(n mod 4 * 16 + m div 16) mod 16 = m div 16"
    "n div 16 * 16 + (n mod 16 * 4 + m div 64) div 4 = n"
    "(n mod 16 * 4 + m div 64) mod 4 = m div 64"
    "m div 64 * 64 + m mod 64 = m"
proof -
  have m: "m div 16 < 16" "m div 64 < 4" using assms(2) by simp_all
  show "n div 4 < 64" using assms(1) by simp
  show "n mod 4 * 16 + m div 16 < 64" "n mod 16 * 4 + m div 64 < 64"
    using m mod_less_divisor [of 4 n] mod_less_divisor [of 16 n] by linarith+
  show "n div 4 * 4 + (n mod 4 * 16 + m div 16) div 16 = n" "n div 16 * 16 + (n mod 16 * 4 + m div 64) div 4 = n"
    using m by (simp_all add: div_mult_mod_eq)
  show "(n mod 4 * 16 + m div 16) mod 16 = m div 16" "(n mod 16 * 4 + m div 64) mod 4 = m div 64" using m by simp_all
  show "m div 64 * 64 + m mod 64 = m" by simp
qed

lemma b64_round_trip: "b64decode (b64encode s) = Some s"
proof -
  have "decode_from 0 0 0 (b64encode s) = Some s"
  proof (induction s rule: b64encode.induct)
    case (2 a)
    then show ?case using b64_parts [of "code a" 0] by simp
  next
    case (3 a b)
    then show ?case using b64_parts [of "code a" "code b"] b64_parts [of "code b" 0] by simp
  next
    case (4 a b c s)
    then show ?case
      using b64_parts [of "code a" "code b"] b64_parts [of "code b" "code c"] by simp
  qed simp
  then show ?thesis by (simp add: b64decode_def)
qed

lemma b64encode_ascii: "is_ascii (b64encode s)"
proof (induction s rule: b64encode.induct)
  case (2 a)
  then show ?case using b64_parts [of "code a" 0] b64_char_facts by (simp add: is_ascii_def)
next
  case (3 a b)
  then show ?case using b64_parts [of "code a" "code b"] b64_parts [of "code b" 0] b64_char_facts
    by (simp add: is_ascii_def)
next
  case (4 a b c s)
  then show ?case
    using b64_parts [of "code a" "code b"] b64_parts [of "code b" "code c"] b64_char_facts by (simp add: is_ascii_def)
qed (simp add: is_ascii_def)

lemma b64_text_round_trip: "b64decode_text (b64encode s) = Some s"
  by (simp add: b64decode_text_def b64encode_ascii b64_round_trip)

end
