(* ===== verification/Skill_Pack.thy ===== *)
theory Skill_Pack
  imports Py_Base64 Federation Declassify
begin

text \<open>
  Signed \<open>.skillpack\<close> files (\<open>sera/skills/pack.py\<close>). A zip archive is the list of its entries,
  of which the last of a name is the one that is read; \<open>None\<close> is a file that is no zip. Ed25519,
  SHA-256, the JSON codec and \<open>Path.resolve\<close> are arguments. File contents are UTF-8 texts.
\<close>


section \<open>Archives, paths and signatures\<close>

type_synonym archive = "(py_str \<times> py_str) list"
type_synonym path = "py_str list"
type_synonym files = "(path, py_str) py_dict"

datatype pack_error =
    SkillMissing path
  | NotZip
  | NoManifest
  | NoSignature
  | BadKey
  | BadSignature
  | BadBase64
  | BadJson
  | ManifestShape
  | MissingFile py_str
  | HashMismatch py_str
  | NoSkillEntry
  | BadName py_str
  | Escapes path

record pack_env =
  crypto :: scheme
  sha256 :: "py_str \<Rightarrow> py_str"
  dumps :: "py_value \<Rightarrow> py_str"
  loads :: "py_str \<Rightarrow> py_value option"
  resolve :: "path \<Rightarrow> path"

definition read_entry :: "archive \<Rightarrow> py_str \<Rightarrow> py_str option" where
  "read_entry a n = map_of (rev a) n"

text \<open>\<open>Path / text\<close>: the components of the text, which replace the path when it is absolute.\<close>

fun segments :: "py_str \<Rightarrow> py_str \<Rightarrow> path" where
  "segments cur [] = (if cur = [] \<or> cur = ''.'' then [] else [cur])"
| "segments cur (c # cs) =
     (if c = CHR ''/'' then (if cur = [] \<or> cur = ''.'' then [] else [cur]) @ segments [] cs
      else segments (cur @ [c]) cs)"

definition path_join :: "path \<Rightarrow> py_str \<Rightarrow> path" where
  "path_join p s = (if starts_with s ''/'' then [] else p) @ segments [] s"

definition SIG_FILE :: py_str where
  "SIG_FILE = ''SIGNATURE.b64''"

definition MANIFEST :: py_str where
  "MANIFEST = ''manifest.json''"

definition SKILL_MD :: py_str where
  "SKILL_MD = ''SKILL.md''"

lemmas entry_names [simp] = SIG_FILE_def MANIFEST_def SKILL_MD_def

definition sign_bytes :: "pack_env \<Rightarrow> py_str \<Rightarrow> py_str \<Rightarrow> (pack_error, py_str) py_result" where
  "sign_bytes E data priv = (case sign_with (crypto E) priv data of None \<Rightarrow> Inl BadKey | Some sig \<Rightarrow> Inr sig)"

definition check_bytes :: "pack_env \<Rightarrow> py_str \<Rightarrow> py_str \<Rightarrow> py_str \<Rightarrow> (pack_error, unit) py_result" where
  "check_bytes E data sig pub =
     (case check_with (crypto E) pub data sig of
        None \<Rightarrow> Inl BadKey
      | Some ok \<Rightarrow> if ok then Inr () else Inl BadSignature)"


section \<open>Packing\<close>

definition skill_manifest :: "pack_env \<Rightarrow> py_str \<Rightarrow> py_value" where
  "skill_manifest E content = PyDict [(SKILL_MD, PyStr (sha256 E content))]"

definition pack_skill ::
  "pack_env \<Rightarrow> files \<Rightarrow> path \<Rightarrow> py_str \<Rightarrow> py_str option \<Rightarrow> (pack_error, archive) py_result"
where
  "pack_skill E fs dir skill_name priv =
     (let md = path_join (path_join dir skill_name) SKILL_MD
      in case dict_get fs md of
           None \<Rightarrow> Inl (SkillMissing md)
         | Some content \<Rightarrow>
             (let mb = dumps E (skill_manifest E content);
                  items = [(SKILL_MD, content), (MANIFEST, mb)]
              in case priv of
                   None \<Rightarrow> Inr items
                 | Some k \<Rightarrow> rbind (sign_bytes E mb k) (\<lambda>sig. Inr (items @ [(SIG_FILE, b64encode sig)]))))"

text \<open>Every entry is written back with the bytes its name reads as.\<close>

definition sign_pack :: "pack_env \<Rightarrow> archive option \<Rightarrow> py_str \<Rightarrow> (pack_error, archive) py_result" where
  "sign_pack E pack priv =
     (case pack of
        None \<Rightarrow> Inl NotZip
      | Some a \<Rightarrow>
          (case read_entry a MANIFEST of
             None \<Rightarrow> Inl NoManifest
           | Some mb \<Rightarrow>
               rbind (sign_bytes E mb priv) (\<lambda>sig.
                 Inr (map (\<lambda>(n, d). (n, case read_entry a n of None \<Rightarrow> d | Some x \<Rightarrow> x))
                        (filter (\<lambda>(n, d). n \<noteq> SIG_FILE) a) @ [(SIG_FILE, b64encode sig)]))))"

definition verify_pack :: "pack_env \<Rightarrow> archive option \<Rightarrow> py_str \<Rightarrow> (pack_error, unit) py_result" where
  "verify_pack E pack pub =
     (case pack of
        None \<Rightarrow> Inl NotZip
      | Some a \<Rightarrow>
          (case read_entry a SIG_FILE of
             None \<Rightarrow> Inl NoSignature
           | Some sig_b64 \<Rightarrow>
               (case read_entry a MANIFEST of
                  None \<Rightarrow> Inl NoManifest
                | Some mb \<Rightarrow>
                    (case b64decode sig_b64 of
                       None \<Rightarrow> Inl BadBase64
                     | Some sig \<Rightarrow> check_bytes E mb sig pub))))"


section \<open>Unpacking\<close>

text \<open>The loop over the manifest. A hash that is no text never equals the digest.\<close>

fun check_hashes :: "pack_env \<Rightarrow> archive \<Rightarrow> (py_str \<times> py_value) list \<Rightarrow> (pack_error, unit) py_result" where
  "check_hashes E a [] = Inr ()"
| "check_hashes E a ((filename, expected) # items) =
     (case read_entry a filename of
        None \<Rightarrow> Inl (MissingFile filename)
      | Some data \<Rightarrow>
          if PyStr (sha256 E data) \<noteq> expected then Inl (HashMismatch filename)
          else check_hashes E a items)"

definition parse_skill_name :: "py_str \<Rightarrow> py_str" where
  "parse_skill_name content =
     (case List.find (\<lambda>l. starts_with (str_strip l) ''name:'') (splitlines content) of
        None \<Rightarrow> ''unknown''
      | Some l \<Rightarrow> str_strip (drop 5 (str_strip l)))"

definition SKILL_NAME_RE :: re where
  "SKILL_NAME_RE =
     Seqs [Bol, Ch [Range CHR ''a'' CHR ''z'', Range CHR ''0'' CHR ''9''],
       Between 0 127 (Ch [Range CHR ''a'' CHR ''z'', Range CHR ''0'' CHR ''9'', One CHR ''_'', One CHR ''-'']), Eol]"

definition skill_name_ok :: "py_str \<Rightarrow> bool" where
  "skill_name_ok n \<longleftrightarrow> match_at no_flags SKILL_NAME_RE n 0 \<noteq> None"

text \<open>What a pack releases once its hashes match: the content of \<open>SKILL.md\<close>.\<close>

definition checked_content :: "pack_env \<Rightarrow> archive \<Rightarrow> (pack_error, py_str) py_result" where
  "checked_content E a =
     (case read_entry a MANIFEST of
        None \<Rightarrow> Inl NoManifest
      | Some mb \<Rightarrow>
          (case loads E mb of
             None \<Rightarrow> Inl BadJson
           | Some (PyDict items) \<Rightarrow>
               rbind (check_hashes E a items) (\<lambda>_.
                 case read_entry a SKILL_MD of None \<Rightarrow> Inl NoSkillEntry | Some content \<Rightarrow> Inr content)
           | Some _ \<Rightarrow> Inl ManifestShape))"

definition place_skill :: "pack_env \<Rightarrow> files \<Rightarrow> path \<Rightarrow> py_str \<Rightarrow> (pack_error, py_str \<times> files) py_result" where
  "place_skill E fs dir content =
     (let skill_name = parse_skill_name content
      in if \<not> skill_name_ok skill_name then Inl (BadName skill_name)
         else let dest = resolve E (path_join dir skill_name)
              in if resolve E dir \<noteq> butlast dest then Inl (Escapes dest)
                 else Inr (skill_name, dict_set (path_join dest SKILL_MD) content fs))"

definition unpack_skill ::
  "pack_env \<Rightarrow> files \<Rightarrow> archive option \<Rightarrow> path \<Rightarrow> py_str option \<Rightarrow> (pack_error, py_str \<times> files) py_result"
where
  "unpack_skill E fs pack dir pub =
     rbind (case pub of None \<Rightarrow> Inr () | Some k \<Rightarrow> verify_pack E pack k) (\<lambda>_.
       case pack of
         None \<Rightarrow> Inl NotZip
       | Some a \<Rightarrow> rbind (checked_content E a) (place_skill E fs dir))"


section \<open>Names that pass\<close>

definition name_char :: "char \<Rightarrow> bool" where
  "name_char c \<longleftrightarrow> is_lower c \<or> is_digit c \<or> c = CHR ''_'' \<or> c = CHR ''-''"

lemma spans_UpTo_class:
  assumes "spans f s (UpTo n (Ch is)) i j"
  shows "j \<le> i + n \<and> (\<forall>k. i \<le> k \<longrightarrow> k < j \<longrightarrow> items_have f is (s ! k))"
  using assms
proof (induction n arbitrary: i)
  case (Suc n)
  then consider "j = i" | "items_have f is (s ! i)" "spans f s (UpTo n (Ch is)) (Suc i) j" by auto
  then show ?case
  proof cases
    case 2
    have "items_have f is (s ! k)" if "i \<le> k" "k < j" for k
      using that 2 Suc.IH by (cases "k = i") auto
    then show ?thesis using Suc.IH [OF 2(2)] by simp
  qed simp
qed simp

lemma strip_last:
  assumes "str_strip s \<noteq> []"
  shows "\<not> is_space (last (str_strip s))"
proof -
  let ?r = "dropWhile is_space (rev (dropWhile is_space s))"
  have "?r \<noteq> []" using assms by (simp add: str_strip_def)
  then have "\<not> is_space (hd ?r)" by (rule hd_dropWhile)
  then show ?thesis by (simp add: str_strip_def last_rev)
qed

lemma class_char:
  "items_have no_flags [Range CHR ''a'' CHR ''z'', Range CHR ''0'' CHR ''9''] c \<longleftrightarrow> is_lower c \<or> is_digit c"
  "items_have no_flags [Range CHR ''a'' CHR ''z'', Range CHR ''0'' CHR ''9'', One CHR ''_'', One CHR ''-''] c \<longleftrightarrow> name_char c"
  by (auto simp: items_have_def no_flags_def is_lower_def is_digit_def name_char_def code_def)

text \<open>\<open>$\<close> would let a newline pass; the name it is applied to has been stripped.\<close>

lemma skill_name_safe:
  assumes "skill_name_ok (str_strip s)"
  defines "n \<equiv> str_strip s"
  shows "n \<noteq> [] \<and> length n \<le> 128 \<and> list_all name_char n \<and> (is_lower (hd n) \<or> is_digit (hd n))"
proof -
  have "\<exists>j. spans no_flags n SKILL_NAME_RE 0 j"
    using assms(1) unfolding skill_name_ok_def n_def match_at_iff by simp
  then obtain j where "spans no_flags n SKILL_NAME_RE 0 j" ..
  then have first: "0 < length n" "is_lower (n ! 0) \<or> is_digit (n ! 0)"
    and tail: "spans no_flags n (UpTo 127 (Ch [Range CHR ''a'' CHR ''z'', Range CHR ''0'' CHR ''9'', One CHR ''_'', One CHR ''-''])) (Suc 0) j"
    and stop: "line_end no_flags n j"
    by (auto simp: SKILL_NAME_RE_def Between_def class_char)
  have "n ! (length n - 1) \<noteq> CHR 0x0A"
    using strip_last [of s] first(1) by (auto simp: n_def last_conv_nth is_space_def code_def)
  then have "n ! j \<noteq> CHR 0x0A" if "Suc j = length n" using that by (metis diff_Suc_1)
  then have j: "j = length n"
    using stop by (auto simp: line_end_def char_at_def no_flags_def split: if_splits)
  note t = spans_UpTo_class [OF tail, unfolded class_char j]
  have "name_char (n ! k)" if "k < length n" for k
    using t that first(2) by (cases "k = 0") (auto simp: name_char_def)
  then show ?thesis using t first by (auto simp: list_all_length hd_conv_nth)
qed

lemma parsed_name_stripped: "\<exists>s. parse_skill_name c = str_strip s"
proof (cases "List.find (\<lambda>l. starts_with (str_strip l) ''name:'') (splitlines c)")
  case None
  have "''unknown'' = str_strip ''unknown''" by (simp add: str_strip_def is_space_def code_def)
  then show ?thesis using None by (auto simp: parse_skill_name_def)
qed (auto simp: parse_skill_name_def)

lemma name_is_one_segment:
  assumes "list_all name_char n" and "n \<noteq> []"
  shows "path_join p n = p @ [n]"
proof -
  have nc: "c \<noteq> CHR ''/'' \<and> c \<noteq> CHR ''.''" if "name_char c" for c
    using that by (auto simp: name_char_def is_lower_def is_digit_def code_def)
  have "segments cur n = (if cur @ n = [] \<or> cur @ n = ''.'' then [] else [cur @ n])" for cur
    using assms(1)
  proof (induction n arbitrary: cur)
    case (Cons c n)
    then show ?case using nc [of c] by simp
  qed simp
  moreover have "n \<noteq> ''.''" using assms nc [of "CHR ''.''"] by auto
  moreover have "\<not> starts_with n ''/''" using assms nc by (cases n) auto
  ultimately show ?thesis using assms(2) by (simp add: path_join_def)
qed

lemma place_skill_confined:
  assumes "place_skill E fs dir c = Inr (n, fs')"
  shows "n = parse_skill_name c \<and> fs' = dict_set (resolve E (dir @ [n]) @ [SKILL_MD]) c fs \<and>
    butlast (resolve E (dir @ [n])) = resolve E dir \<and>
    list_all name_char n \<and> (is_lower (hd n) \<or> is_digit (hd n)) \<and> n \<noteq> [] \<and> length n \<le> 128"
proof -
  have c: "skill_name_ok n" "n = parse_skill_name c" "resolve E dir = butlast (resolve E (path_join dir n))"
    "fs' = dict_set (path_join (resolve E (path_join dir n)) SKILL_MD) c fs"
    using assms by (auto simp: place_skill_def Let_def split: if_splits)
  obtain s where "n = str_strip s" using parsed_name_stripped c(2) by metis
  then have n: "n \<noteq> [] \<and> length n \<le> 128 \<and> list_all name_char n \<and> (is_lower (hd n) \<or> is_digit (hd n))"
    using skill_name_safe c(1) by metis
  have "path_join p SKILL_MD = p @ [SKILL_MD]" for p by (simp add: path_join_def)
  then show ?thesis using n c name_is_one_segment [of n dir] by auto
qed

text \<open>Unpacking writes one file: \<open>SKILL.md\<close> in a directory right under the skills directory.\<close>

theorem unpack_confined:
  assumes "unpack_skill E fs pack dir pub = Inr (n, fs')"
  shows "\<exists>content. fs' = dict_set (resolve E (dir @ [n]) @ [SKILL_MD]) content fs \<and>
    butlast (resolve E (dir @ [n])) = resolve E dir \<and>
    list_all name_char n \<and> (is_lower (hd n) \<or> is_digit (hd n)) \<and> n \<noteq> [] \<and> length n \<le> 128"
proof -
  obtain c where "place_skill E fs dir c = Inr (n, fs')"
    using assms by (auto simp: unpack_skill_def rbind_eq_Inr split: option.splits)
  then show ?thesis using place_skill_confined by blast
qed


section \<open>What a signature binds\<close>

text \<open>
  The contract of a signed bundle: content released under a key has a signed manifest, and the
  manifest, where it names a digest at all, names the digest of that content.
\<close>

locale signed_bundle =
  fixes S :: scheme
    and digest :: "py_str \<Rightarrow> py_str"
    and named :: "py_str \<Rightarrow> py_str option"
    and opens :: "archive \<Rightarrow> py_str \<Rightarrow> py_str option"
  assumes opens_signed: "opens a pub = Some c \<Longrightarrow>
    \<exists>m sig. check_with S pub m sig = Some True \<and> (named m = None \<or> named m = Some (digest c))"
begin

text \<open>
  When the holder of the key signed manifests of the contents in \<open>C\<close> only, and nothing else
  has the digest of one of these, whatever opens is one of them.
\<close>

lemma authentic:
  assumes "\<forall>m sig. check_with S pub m sig = Some True \<longrightarrow> (\<exists>c\<in>C. named m = Some (digest c))"
    and "\<forall>c\<in>C. \<forall>x. digest x = digest c \<longrightarrow> x = c"
    and "opens a pub = Some c"
  shows "c \<in> C"
proof -
  obtain m sig where m: "check_with S pub m sig = Some True" "named m = None \<or> named m = Some (digest c)"
    using opens_signed [OF assms(3)] by blast
  obtain c' where "c' \<in> C" "named m = Some (digest c')" using assms(1) m(1) by blast
  then show ?thesis using m(2) assms(2) by (metis option.distinct(1) option.inject)
qed

end

text \<open>The digest a manifest text gives to an entry.\<close>

definition named_digest :: "(py_str \<Rightarrow> py_value option) \<Rightarrow> py_str \<Rightarrow> py_str \<Rightarrow> py_str option" where
  "named_digest parse entry m =
     (case parse m of
        Some (PyDict items) \<Rightarrow> (case dict_get items entry of Some (PyStr h) \<Rightarrow> Some h | _ \<Rightarrow> None)
      | _ \<Rightarrow> None)"

definition skill_opens :: "pack_env \<Rightarrow> archive \<Rightarrow> py_str \<Rightarrow> py_str option" where
  "skill_opens E a pub =
     (case rbind (verify_pack E (Some a) pub) (\<lambda>_. checked_content E a) of Inl e \<Rightarrow> None | Inr c \<Rightarrow> Some c)"

lemma check_hashes_all:
  "check_hashes E a items = Inr () \<longleftrightarrow>
     list_all (\<lambda>(n, h). \<exists>d. read_entry a n = Some d \<and> h = PyStr (sha256 E d)) items"
  by (induction items) (auto split: option.splits if_splits)

lemma skill_opens_signed:
  assumes "skill_opens E a pub = Some c"
  shows "\<exists>m sig. check_with (crypto E) pub m sig = Some True \<and>
    (named_digest (loads E) SKILL_MD m = None \<or> named_digest (loads E) SKILL_MD m = Some (sha256 E c))"
proof -
  have v: "verify_pack E (Some a) pub = Inr ()" and o: "checked_content E a = Inr c"
    using assms by (auto simp: skill_opens_def rbind_eq_Inr split: sum.splits)
  from o obtain m items where m: "read_entry a MANIFEST = Some m" "loads E m = Some (PyDict items)"
    "check_hashes E a items = Inr ()" "read_entry a SKILL_MD = Some c"
    by (auto simp: checked_content_def rbind_eq_Inr split: option.splits py_value.splits)
  obtain sig where s: "check_with (crypto E) pub m sig = Some True"
    using v m(1) by (auto simp: verify_pack_def check_bytes_def split: option.splits if_splits)
  have "dict_get items SKILL_MD = None \<or> dict_get items SKILL_MD = Some (PyStr (sha256 E c))"
  proof (cases "dict_get items SKILL_MD")
    case (Some h)
    then have "(SKILL_MD, h) \<in> set items" by (rule map_of_SomeD)
    then show ?thesis using Some m by (auto simp: check_hashes_all list_all_iff)
  qed simp
  then show ?thesis using s m by (auto simp: named_digest_def)
qed

interpretation skill_bundle: signed_bundle "crypto E" "sha256 E" "named_digest (loads E) SKILL_MD" "skill_opens E"
  for E :: pack_env
  by unfold_locales (rule skill_opens_signed)

lemma unpack_with_key:
  "unpack_skill E fs (Some a) dir (Some k) = Inr r \<longleftrightarrow> (\<exists>c. skill_opens E a k = Some c \<and> place_skill E fs dir c = Inr r)"
  by (auto simp: unpack_skill_def skill_opens_def rbind_eq_Inr split: sum.splits)

text \<open>
  C12: A tampered pack is refused: when the publisher signed only the manifests of the contents in
  \<open>C\<close>, an archive that unpacks under the publisher's key writes one of them.
\<close>

theorem signed_unpack_authentic:
  assumes "\<forall>m sig. check_with (crypto E) pub m sig = Some True \<longrightarrow> (\<exists>c\<in>set C. m = dumps E (skill_manifest E c))"
    and "\<forall>c\<in>set C. loads E (dumps E (skill_manifest E c)) = Some (skill_manifest E c)"
    and "\<forall>c\<in>set C. \<forall>x. sha256 E x = sha256 E c \<longrightarrow> x = c"
    and "unpack_skill E fs pack dir (Some pub) = Inr (n, fs')"
  shows "list_ex (\<lambda>c. n = parse_skill_name c \<and> fs' = dict_set (resolve E (dir @ [n]) @ [SKILL_MD]) c fs) C"
proof -
  obtain a where a: "pack = Some a"
    using assms(4) by (auto simp: unpack_skill_def verify_pack_def split: option.splits)
  then obtain c where c: "skill_opens E a pub = Some c" "place_skill E fs dir c = Inr (n, fs')"
    using assms(4) by (auto simp: unpack_with_key)
  have "\<forall>m sig. check_with (crypto E) pub m sig = Some True \<longrightarrow>
      (\<exists>c\<in>set C. named_digest (loads E) SKILL_MD m = Some (sha256 E c))"
    using assms(1,2) by (fastforce simp: named_digest_def skill_manifest_def)
  from skill_bundle.authentic [OF this assms(3) c(1)] have "c \<in> set C" .
  then show ?thesis using place_skill_confined [OF c(2)] by (auto simp: list_ex_iff)
qed

text \<open>One pack of a demo skill, with the digest of a text its length and a single signature.\<close>

definition demo_skill :: py_str where
  "demo_skill = ''---'' @ [CHR 0x0A] @ ''name: tidy'' @ [CHR 0x0A] @ ''---'' @ [CHR 0x0A]"

definition demo_env :: "(py_str \<Rightarrow> bool) \<Rightarrow> pack_env" where
  "demo_env signs =
     \<lparr>crypto = \<lparr>sign_with = (\<lambda>k m. if k = ''priv'' then Some (''s'' @ m) else None),
                check_with = (\<lambda>k m s. if k = ''pub'' then Some (signs m \<and> s = ''s'' @ m) else None),
                canonical = (\<lambda>v. [])\<rparr>,
      sha256 = (\<lambda>d. d), dumps = (\<lambda>v. ''{tidy}''),
      loads = (\<lambda>m. if m = ''{tidy}'' then Some (PyDict [(''SKILL.md'', PyStr demo_skill)]) else None),
      resolve = (\<lambda>p. p)\<rparr>"

definition demo_pack :: archive where
  "demo_pack = [(''SKILL.md'', demo_skill), (''manifest.json'', ''{tidy}''), (''SIGNATURE.b64'', b64encode ''s{tidy}'')]"

lemma demo_facts:
  "parse_skill_name demo_skill = ''tidy''" "skill_name_ok ''tidy''"
  "path_join [d] ''tidy'' = [d, ''tidy'']" "path_join [d, ''tidy''] ''SKILL.md'' = [d, ''tidy'', ''SKILL.md'']"
  by (code_simp, code_simp, simp_all add: path_join_def)

lemma demo_unpack:
  "signs ''{tidy}'' \<Longrightarrow> unpack_skill (demo_env signs) [] (Some demo_pack) [''skills''] (Some ''pub'') =
     Inr (''tidy'', [([''skills'', ''tidy'', ''SKILL.md''], demo_skill)])"
  by (simp add: unpack_skill_def verify_pack_def demo_pack_def read_entry_def b64_round_trip check_bytes_def demo_env_def
      checked_content_def place_skill_def Let_def demo_facts del: b64encode.simps)

theorem signed_unpack_authentic_witness:
  "unpack_skill (demo_env (\<lambda>m. m = ''{tidy}'')) [] (Some demo_pack) [''skills''] (Some ''pub'') =
     Inr (''tidy'', [([''skills'', ''tidy'', ''SKILL.md''], demo_skill)]) \<and>
   list_ex (\<lambda>c. ''tidy'' = parse_skill_name c \<and>
     [([''skills'', ''tidy'', ''SKILL.md''], demo_skill)] =
       dict_set (resolve (demo_env (\<lambda>m. m = ''{tidy}'')) ([''skills''] @ [''tidy'']) @ [SKILL_MD]) c []) [demo_skill]"
proof -
  let ?E = "demo_env (\<lambda>m. m = ''{tidy}'')"
  have u: "unpack_skill ?E [] (Some demo_pack) [''skills''] (Some ''pub'') = Inr (''tidy'', [([''skills'', ''tidy'', ''SKILL.md''], demo_skill)])"
    by (rule demo_unpack) simp
  have a: "\<forall>m sig. check_with (crypto ?E) ''pub'' m sig = Some True \<longrightarrow> (\<exists>c\<in>set [demo_skill]. m = dumps ?E (skill_manifest ?E c))"
    "\<forall>c\<in>set [demo_skill]. loads ?E (dumps ?E (skill_manifest ?E c)) = Some (skill_manifest ?E c)"
    "\<forall>c\<in>set [demo_skill]. \<forall>x. sha256 ?E x = sha256 ?E c \<longrightarrow> x = c"
    by (simp_all add: demo_env_def skill_manifest_def)
  show ?thesis using signed_unpack_authentic [OF a u] u by (rule conjI [rotated])
qed


section \<open>Round trip\<close>




section \<open>Without a key\<close>

text \<open>A pack whose manifest names no file unpacks whatever it holds, when no key is given.\<close>

lemma unsigned_anything_unpacks:
  assumes "loads E m = Some (PyDict [])"
  shows "unpack_skill E fs (Some [(SKILL_MD, content), (MANIFEST, m)]) dir None = place_skill E fs dir content"
  using assms by (simp add: unpack_skill_def checked_content_def read_entry_def)

end
