(* ===== verification/Red_Pack.thy ===== *)
theory Red_Pack
  imports Skill_Pack
begin

text \<open>
  \<open>.redpack\<close> bundles of adversarial payloads (\<open>sera/redteam/pack.py\<close>), over the archives and
  the environment of skill packs; \<open>pretty\<close> is the encoder with \<open>indent=2\<close>, \<open>dumps\<close> of the
  environment the compact one. Letters and digits of an id are ASCII.
\<close>


section \<open>Payloads and the builder\<close>

datatype red_error =
    InvalidId
  | UnknownKind
  | EmptyText
  | EmptyPack
  | Corrupt
  | NoManifestFile
  | NoPayloadFile
  | JsonError
  | NotADict
  | Tampered
  | UnsignedPack
  | BadSignatureText
  | CryptoError pack_error
  | KeyError py_str

record RedPayload =
  rp_id :: py_value
  rp_kind :: py_value
  rp_text :: py_value
  rp_author :: py_value
  rp_tags :: py_value

definition VALID_KINDS :: "py_str list" where
  "VALID_KINDS = [''IGNORE'', ''ROLE_SWITCH'', ''EXFIL'', ''OVERRIDE'', ''NESTED'', ''CUSTOM'']"

definition is_alnum :: "char \<Rightarrow> bool" where
  "is_alnum c \<longleftrightarrow> is_lower c \<or> is_upper c \<or> is_digit c"

definition id_ok :: "py_str \<Rightarrow> bool" where
  "id_ok i \<longleftrightarrow>
     i \<noteq> [] \<and> (let core = filter (\<lambda>c. c \<noteq> CHR ''-'' \<and> c \<noteq> CHR ''_'') i in core \<noteq> [] \<and> list_all is_alnum core)"

definition mk_payload :: "py_str \<Rightarrow> py_str \<Rightarrow> py_str \<Rightarrow> py_str \<Rightarrow> py_str list \<Rightarrow> RedPayload" where
  "mk_payload i k t author tags =
     \<lparr>rp_id = PyStr i, rp_kind = PyStr k, rp_text = PyStr t, rp_author = PyStr author, rp_tags = PyList (map PyStr tags)\<rparr>"

text \<open>\<open>validate\<close>; a field that is no text raises at its first string method, as an error of that check.\<close>

definition validate :: "RedPayload \<Rightarrow> (red_error, unit) py_result" where
  "validate p =
     (if \<not> (case rp_id p of PyStr i \<Rightarrow> id_ok i | _ \<Rightarrow> False) then Inl InvalidId
      else if \<not> (case rp_kind p of PyStr k \<Rightarrow> k \<in> set VALID_KINDS | _ \<Rightarrow> False) then Inl UnknownKind
      else if (case rp_text p of PyStr t \<Rightarrow> str_strip t = [] | _ \<Rightarrow> True) then Inl EmptyText
      else Inr ())"

type_synonym builder = "RedPayload list"

definition add_payload :: "RedPayload \<Rightarrow> builder \<Rightarrow> (red_error, builder) py_result" where
  "add_payload p b = rbind (validate p) (\<lambda>_. Inr (b @ [p]))"

definition add_red ::
  "py_str \<Rightarrow> py_str \<Rightarrow> py_str \<Rightarrow> py_str \<Rightarrow> py_str list option \<Rightarrow> builder \<Rightarrow> (red_error, builder) py_result"
where
  "add_red i k t author tags b =
     (let p = mk_payload i k t author (case tags of None \<Rightarrow> [] | Some ts \<Rightarrow> ts)
      in rbind (validate p) (\<lambda>_. Inr (b @ [p])))"

definition payload_dict :: "RedPayload \<Rightarrow> py_value" where
  "payload_dict p =
     PyDict [(''id'', rp_id p), (''kind'', rp_kind p), (''text'', rp_text p), (''author'', rp_author p), (''tags'', rp_tags p)]"

definition PAYLOAD_FILE :: py_str where
  "PAYLOAD_FILE = ''payloads.json''"

lemmas payload_file [simp] = PAYLOAD_FILE_def

definition red_manifest :: "pack_env \<Rightarrow> py_str \<Rightarrow> py_value" where
  "red_manifest E payload_bytes = PyDict [(PAYLOAD_FILE, PyStr (sha256 E payload_bytes))]"

definition save ::
  "pack_env \<Rightarrow> (py_value \<Rightarrow> py_str) \<Rightarrow> builder \<Rightarrow> py_str option \<Rightarrow> (red_error, archive) py_result"
where
  "save E pretty b priv =
     (if b = [] then Inl EmptyPack
      else let pb = pretty (PyList (map payload_dict b));
               mb = dumps E (red_manifest E pb);
               items = [(PAYLOAD_FILE, pb), (MANIFEST, mb)]
           in case priv of
                None \<Rightarrow> Inr items
              | Some k \<Rightarrow>
                  (case sign_bytes E mb k of
                     Inl e \<Rightarrow> Inl (CryptoError e)
                   | Inr sig \<Rightarrow> Inr (items @ [(SIG_FILE, b64encode sig)])))"


section \<open>Loading\<close>

text \<open>The payload file, once the manifest and, with a key, the signature agree with it.\<close>

definition check_signature :: "pack_env \<Rightarrow> archive \<Rightarrow> py_str \<Rightarrow> py_str option \<Rightarrow> (red_error, unit) py_result" where
  "check_signature E a mb pub =
     (case pub of
        None \<Rightarrow> Inr ()
      | Some k \<Rightarrow>
          (case read_entry a SIG_FILE of
             None \<Rightarrow> Inl UnsignedPack
           | Some sig_b64 \<Rightarrow>
               (case b64decode_text sig_b64 of
                  None \<Rightarrow> Inl BadSignatureText
                | Some sig \<Rightarrow> (case check_bytes E mb sig k of Inl e \<Rightarrow> Inl (CryptoError e) | Inr u \<Rightarrow> Inr u))))"

definition payload_bytes :: "pack_env \<Rightarrow> archive \<Rightarrow> py_str option \<Rightarrow> (red_error, py_str) py_result" where
  "payload_bytes E a pub =
     (case read_entry a MANIFEST of
        None \<Rightarrow> Inl NoManifestFile
      | Some mb \<Rightarrow>
          (case read_entry a PAYLOAD_FILE of
             None \<Rightarrow> Inl NoPayloadFile
           | Some pb \<Rightarrow>
               (case loads E mb of
                  None \<Rightarrow> Inl JsonError
                | Some (PyDict m) \<Rightarrow>
                    if dict_get m PAYLOAD_FILE \<noteq> Some (PyStr (sha256 E pb)) then Inl Tampered
                    else rbind (check_signature E a mb pub) (\<lambda>_. Inr pb)
                | Some _ \<Rightarrow> Inl NotADict)))"

definition field_of :: "(py_str, py_value) py_dict \<Rightarrow> py_str \<Rightarrow> (red_error, py_value) py_result" where
  "field_of d k = (case dict_get d k of None \<Rightarrow> Inl (KeyError k) | Some v \<Rightarrow> Inr v)"

definition load_payload :: "py_value \<Rightarrow> (red_error, RedPayload) py_result" where
  "load_payload raw =
     (case raw of
        PyDict d \<Rightarrow>
          rbind (field_of d ''id'') (\<lambda>i.
          rbind (field_of d ''kind'') (\<lambda>k.
          rbind (field_of d ''text'') (\<lambda>t.
            Inr \<lparr>rp_id = i, rp_kind = k, rp_text = t, rp_author = dict_get_or d ''author'' (PyStr []),
                 rp_tags = py_or (dict_get_or d ''tags'' PyNone) (PyList [])\<rparr>)))
      | _ \<Rightarrow> Inl NotADict)"

fun load_all :: "py_value list \<Rightarrow> (red_error, RedPayload list) py_result" where
  "load_all [] = Inr []"
| "load_all (v # vs) = rbind (load_payload v) (\<lambda>p. rbind (load_all vs) (\<lambda>ps. Inr (p # ps)))"

text \<open>A catalogue that is no list (a dict, a text, a number) fails at the first item, if it has one.\<close>

definition load_redpack :: "pack_env \<Rightarrow> archive option \<Rightarrow> py_str option \<Rightarrow> (red_error, RedPayload list) py_result" where
  "load_redpack E pack pub =
     (case pack of
        None \<Rightarrow> Inl Corrupt
      | Some a \<Rightarrow>
          rbind (payload_bytes E a pub) (\<lambda>pb.
            case loads E pb of
              None \<Rightarrow> Inl JsonError
            | Some (PyList vs) \<Rightarrow> load_all vs
            | Some (PyDict []) \<Rightarrow> Inr []
            | Some (PyStr []) \<Rightarrow> Inr []
            | Some _ \<Rightarrow> Inl NotADict))"

definition run_redpack :: "pack_env \<Rightarrow> archive option \<Rightarrow> py_str option \<Rightarrow> (red_error, py_value list) py_result" where
  "run_redpack E pack pub = rbind (load_redpack E pack pub) (\<lambda>ps. Inr (map payload_dict ps))"


section \<open>What the builder holds\<close>

definition payload_ok :: "RedPayload \<Rightarrow> bool" where
  "payload_ok p = (validate p = Inr ())"

datatype build_call =
    Add py_str py_str py_str py_str "py_str list option"
  | AddPayload RedPayload

fun build_step :: "build_call \<Rightarrow> builder \<Rightarrow> (red_error, builder) py_result" where
  "build_step (Add i k t author tags) b = add_red i k t author tags b"
| "build_step (AddPayload p) b = add_payload p b"

text \<open>Calls that raise leave the builder as it was.\<close>

fun build :: "build_call list \<Rightarrow> builder \<Rightarrow> builder" where
  "build [] b = b"
| "build (c # cs) b = build cs (case build_step c b of Inl e \<Rightarrow> b | Inr b' \<Rightarrow> b')"

lemma build_ok: "list_all payload_ok b \<Longrightarrow> list_all payload_ok (build cs b)"
proof (induction cs arbitrary: b)
  case (Cons c cs)
  have "list_all payload_ok (case build_step c b of Inl e \<Rightarrow> b | Inr b' \<Rightarrow> b')"
    using Cons.prems
    by (cases c) (auto simp: add_red_def add_payload_def payload_ok_def [abs_def] rbind_eq_Inr Let_def split: sum.splits)
  then show ?case using Cons.IH by simp
qed simp

lemma load_all_dicts:
  assumes "list_all (\<lambda>p. \<exists>ts. rp_tags p = PyList ts) ps"
  shows "load_all (map payload_dict ps) = Inr ps"
  using assms
  by (induction ps) (auto simp: load_payload_def payload_dict_def field_of_def dict_get_or_def py_or_def)


section \<open>What a signature binds\<close>

definition red_opens :: "pack_env \<Rightarrow> archive \<Rightarrow> py_str \<Rightarrow> py_str option" where
  "red_opens E a pub = (case payload_bytes E a (Some pub) of Inl e \<Rightarrow> None | Inr pb \<Rightarrow> Some pb)"

lemma red_opens_signed:
  assumes "red_opens E a pub = Some c"
  shows "\<exists>m sig. check_with (crypto E) pub m sig = Some True \<and>
    (named_digest (loads E) PAYLOAD_FILE m = None \<or> named_digest (loads E) PAYLOAD_FILE m = Some (sha256 E c))"
proof -
  have "payload_bytes E a (Some pub) = Inr c"
    using assms by (auto simp: red_opens_def split: sum.splits)
  then obtain mb items where m: "loads E mb = Some (PyDict items)" "dict_get items PAYLOAD_FILE = Some (PyStr (sha256 E c))"
    "check_signature E a mb (Some pub) = Inr ()"
    by (auto simp: payload_bytes_def rbind_eq_Inr split: option.splits py_value.splits if_splits)
  then obtain sig where "check_with (crypto E) pub mb sig = Some True"
    by (auto simp: check_signature_def check_bytes_def split: option.splits if_splits sum.splits)
  then show ?thesis using m by (auto simp: named_digest_def)
qed

interpretation red_bundle: signed_bundle "crypto E" "sha256 E" "named_digest (loads E) PAYLOAD_FILE" "red_opens E"
  for E :: pack_env
  by unfold_locales (rule red_opens_signed)

text \<open>
  What a builder holds is valid, and saving it and loading the result, with the signer's
  public key or with none, gives it back.
\<close>

theorem redpack_round_trip:
  assumes "key_pair (crypto E) priv pub"
    and "loads E (pretty (PyList (map payload_dict b))) = Some (PyList (map payload_dict b))"
    and "\<forall>pb. loads E (dumps E (red_manifest E pb)) = Some (red_manifest E pb)"
    and "b = build cs []" and "b \<noteq> []" and "list_all (\<lambda>p. \<exists>ts. rp_tags p = PyList ts) b"
  shows "\<exists>plain signed. save E pretty b None = Inr plain \<and> save E pretty b (Some priv) = Inr signed \<and>
    list_all (\<lambda>(a, k). load_redpack E (Some a) k = Inr b) [(plain, None), (signed, None), (signed, Some pub)] \<and>
    load_redpack E (Some plain) (Some pub) = Inl UnsignedPack \<and> list_all payload_ok b"
proof -
  let ?pb = "pretty (PyList (map payload_dict b))"
  let ?m = "dumps E (red_manifest E ?pb)"
  obtain sig where sig: "sign_with (crypto E) priv ?m = Some sig" "check_with (crypto E) pub ?m sig = Some True"
    using assms(1) by (metis key_pair_def)
  let ?plain = "[(PAYLOAD_FILE, ?pb), (MANIFEST, ?m)]" and ?sig = "[(SIG_FILE, b64encode sig)]"
  have saved: "save E pretty b None = Inr ?plain" "save E pretty b (Some priv) = Inr (?plain @ ?sig)"
    using assms(5) sig by (simp_all add: save_def Let_def sign_bytes_def)
  have m: "loads E ?m = Some (PyDict [(PAYLOAD_FILE, PyStr (sha256 E ?pb))])"
    using assms(3) by (simp add: red_manifest_def)
  have opened: "payload_bytes E ?plain None = Inr ?pb" "payload_bytes E (?plain @ ?sig) None = Inr ?pb"
    "payload_bytes E (?plain @ ?sig) (Some pub) = Inr ?pb" "payload_bytes E ?plain (Some pub) = Inl UnsignedPack"
    using m sig
    by (simp_all add: payload_bytes_def read_entry_def check_signature_def b64_text_round_trip check_bytes_def)
  have l: "load_all (map payload_dict b) = Inr b" by (rule load_all_dicts [OF assms(6)])
  have "list_all payload_ok b" using build_ok [of "[]" cs] assms(4) by simp
  then show ?thesis using saved opened l assms(2) by (simp add: load_redpack_def)
qed

definition demo_red :: pack_env where
  "demo_red =
     \<lparr>crypto = \<lparr>sign_with = (\<lambda>k m. if k = ''priv'' then Some (''s'' @ m) else None),
                check_with = (\<lambda>k m s. if k = ''pub'' then Some (s = ''s'' @ m) else None), canonical = (\<lambda>v. [])\<rparr>,
      sha256 = (\<lambda>d. ''h''), dumps = (\<lambda>v. ''m''),
      loads = (\<lambda>t. if t = ''m'' then Some (PyDict [(''payloads.json'', PyStr ''h'')])
                  else Some (PyList [payload_dict (mk_payload ''ignore_01'' ''IGNORE'' ''Ignore all.'' [] [])])),
      resolve = (\<lambda>p. p)\<rparr>"

theorem redpack_round_trip_witness:
  "\<exists>signed. save demo_red (\<lambda>v. ''p'') [mk_payload ''ignore_01'' ''IGNORE'' ''Ignore all.'' [] []] (Some ''priv'') = Inr signed \<and>
     load_redpack demo_red (Some signed) (Some ''pub'') = Inr [mk_payload ''ignore_01'' ''IGNORE'' ''Ignore all.'' [] []]"
proof -
  let ?b = "[mk_payload ''ignore_01'' ''IGNORE'' ''Ignore all.'' [] []]"
  have k: "key_pair (crypto demo_red) ''priv'' ''pub''" by (simp add: key_pair_def demo_red_def)
  have b: "?b = build [Add ''ignore_01'' ''IGNORE'' ''Ignore all.'' [] None, Add ''x'' ''NONE'' ''Ignore all.'' [] None] []"
    by code_simp
  show ?thesis
    using redpack_round_trip [OF k, where pretty = "\<lambda>v. ''p''" and b = ?b, OF _ _ b]
    by (auto simp: demo_red_def red_manifest_def mk_payload_def)
qed

text \<open>Loading does not validate: a payload of an unknown kind comes through.\<close>

lemma load_skips_validation:
  assumes "loads E mb = Some (PyDict [(PAYLOAD_FILE, PyStr (sha256 E pb))])"
    and "loads E pb = Some (PyList [payload_dict (mk_payload i ''HOAX'' t author tags)])"
  shows "load_redpack E (Some [(PAYLOAD_FILE, pb), (MANIFEST, mb)]) None = Inr [mk_payload i ''HOAX'' t author tags] \<and>
    \<not> payload_ok (mk_payload i ''HOAX'' t author tags)"
proof -
  have "load_payload (payload_dict (mk_payload i ''HOAX'' t author tags)) = Inr (mk_payload i ''HOAX'' t author tags)"
    by (simp add: load_payload_def payload_dict_def mk_payload_def field_of_def dict_get_or_def py_or_def)
  then show ?thesis using assms
    by (simp add: load_redpack_def payload_bytes_def read_entry_def check_signature_def payload_ok_def validate_def
        mk_payload_def VALID_KINDS_def)
qed

end
