(* ===== verification/Marketplace.thy ===== *)
theory Marketplace
  imports Red_Pack
begin

text \<open>
  The catalogue of packs (\<open>sera/marketplace/registry.py\<close>) and its client
  (\<open>sera/marketplace/client.py\<close>), which installs through \<open>unpack_skill\<close> and \<open>load_redpack\<close>. The
  table is the list of its rows in insertion order, which also breaks ties of the sort by
  time; ids and clock readings are arguments, and so is the JSON text of the tags.
\<close>


section \<open>The registry\<close>

record PackEntry =
  pk_id :: py_str
  pk_name :: py_str
  pk_kind :: py_str
  pk_path :: path
  pk_pubkey :: "py_str option"
  pk_description :: py_str
  pk_tags :: "py_str list"
  pk_published :: py_float
  pk_installed :: bool

datatype market_error =
    BadKind py_str
  | EmptyName
  | DuplicateId
  | FileNotFound path
  | NoSuchPack py_str
  | CannotInfer py_str
  | SkillPackFailed pack_error
  | RedPackFailed red_error

definition MARKET_KINDS :: "py_str list" where
  "MARKET_KINDS = [''skillpack'', ''redpack'']"

definition find_id :: "PackEntry list \<Rightarrow> py_str \<Rightarrow> PackEntry option" where
  "find_id rows i = List.find (\<lambda>r. pk_id r = i) rows"

definition publish ::
  "py_str \<Rightarrow> py_float \<Rightarrow> py_str \<Rightarrow> py_str \<Rightarrow> path \<Rightarrow> py_str option \<Rightarrow> py_str \<Rightarrow> py_str list \<Rightarrow> PackEntry list
    \<Rightarrow> (market_error, PackEntry \<times> PackEntry list) py_result"
where
  "publish uuid now name kind path pub descr tags rows =
     (if kind \<notin> set MARKET_KINDS then Inl (BadKind kind)
      else if str_strip name = [] then Inl EmptyName
      else if find_id rows uuid \<noteq> None then Inl DuplicateId
      else let e = \<lparr>pk_id = uuid, pk_name = name, pk_kind = kind, pk_path = path, pk_pubkey = pub,
                    pk_description = descr, pk_tags = tags, pk_published = now, pk_installed = False\<rparr>
           in Inr (e, rows @ [e]))"

definition mark_installed :: "py_str \<Rightarrow> PackEntry list \<Rightarrow> PackEntry list" where
  "mark_installed i rows = map (\<lambda>r. if pk_id r = i then r\<lparr>pk_installed := True\<rparr> else r) rows"

text \<open>\<open>ORDER BY published_at DESC\<close>.\<close>

definition newest_first :: "PackEntry list \<Rightarrow> PackEntry list" where
  "newest_first rows = sort_key (\<lambda>r. - pk_published r) rows"

definition kind_matches :: "py_str option \<Rightarrow> PackEntry \<Rightarrow> bool" where
  "kind_matches kind r = (case kind of None \<Rightarrow> True | Some k \<Rightarrow> k = [] \<or> pk_kind r = k)"

definition blob :: "(py_str list \<Rightarrow> py_str) \<Rightarrow> PackEntry \<Rightarrow> py_str" where
  "blob tags_text r = str_lower (pk_name r @ '' '' @ pk_description r @ '' '' @ tags_text (pk_tags r))"

definition search :: "(py_str list \<Rightarrow> py_str) \<Rightarrow> py_str \<Rightarrow> py_str option \<Rightarrow> PackEntry list \<Rightarrow> PackEntry list" where
  "search tags_text query kind rows =
     filter (\<lambda>r. kind_matches kind r \<and> str_contains (blob tags_text r) (str_lower query)) (newest_first rows)"

definition list_all_packs :: "py_str option \<Rightarrow> PackEntry list \<Rightarrow> PackEntry list" where
  "list_all_packs kind rows = newest_first (filter (kind_matches kind) rows)"

definition list_installed :: "PackEntry list \<Rightarrow> PackEntry list" where
  "list_installed rows = newest_first (filter pk_installed rows)"

definition get_by_name :: "py_str \<Rightarrow> py_str option \<Rightarrow> PackEntry list \<Rightarrow> PackEntry option" where
  "get_by_name name kind rows =
     (case newest_first (filter (\<lambda>r. pk_name r = name \<and> kind_matches kind r) rows) of
        [] \<Rightarrow> None | r # _ \<Rightarrow> Some r)"


section \<open>The client\<close>

text \<open>\<open>Path.suffix\<close> and \<open>Path.stem\<close> of a file name.\<close>

definition dot_index :: "py_str \<Rightarrow> nat option" where
  "dot_index n =
     (case str_find (rev n) ''.'' of
        None \<Rightarrow> None
      | Some k \<Rightarrow> (let i = length n - 1 - k in if 0 < i \<and> 0 < k then Some i else None))"

definition suffix_of :: "py_str \<Rightarrow> py_str" where
  "suffix_of n = (case dot_index n of None \<Rightarrow> [] | Some i \<Rightarrow> drop i n)"

definition stem_of :: "py_str \<Rightarrow> py_str" where
  "stem_of n = (case dot_index n of None \<Rightarrow> n | Some i \<Rightarrow> take i n)"

definition file_name :: "path \<Rightarrow> py_str" where
  "file_name p = (if p = [] then [] else List.last p)"

definition infer_kind :: "path \<Rightarrow> (market_error, py_str) py_result" where
  "infer_kind p =
     (let n = file_name p; suffix = str_lower (suffix_of n); stem = str_lower (stem_of n)
      in if suffix = ''.skillpack'' \<or> str_contains stem ''skill'' then Inr ''skillpack''
         else if suffix = ''.redpack'' \<or> str_contains stem ''red'' then Inr ''redpack''
         else Inl (CannotInfer n))"

text \<open>The pack files, the skill files, and the catalogue.\<close>

record market =
  packs :: "(path, archive option) py_dict"
  skill_files :: files
  rows :: "PackEntry list"

record InstallResult =
  in_name :: py_str
  in_kind :: py_str
  in_pack_id :: py_str
  in_dest :: path
  in_verified :: bool

record PublishResult =
  pb_entry :: PackEntry
  pb_signed :: bool

definition client_publish ::
  "py_str \<Rightarrow> py_float \<Rightarrow> path \<Rightarrow> py_str option \<Rightarrow> py_str \<Rightarrow> py_str list \<Rightarrow> py_str option \<Rightarrow> market
    \<Rightarrow> (market_error, PublishResult \<times> market) py_result"
where
  "client_publish uuid now p name descr tags pub M =
     (if dict_get (packs M) p = None then Inl (FileNotFound p)
      else rbind (infer_kind p) (\<lambda>kind.
        let pack_name = (case name of Some n \<Rightarrow> if n = [] then stem_of (file_name p) else n | None \<Rightarrow> stem_of (file_name p));
            key = (case pub of Some k \<Rightarrow> if k = [] then None else Some k | None \<Rightarrow> None)
        in rbind (publish uuid now pack_name kind p key descr tags (rows M)) (\<lambda>(e, rs).
             Inr (\<lparr>pb_entry = e, pb_signed = (pub \<noteq> None)\<rparr>, M\<lparr>rows := rs\<rparr>))))"

definition install_skillpack ::
  "pack_env \<Rightarrow> path \<Rightarrow> archive option \<Rightarrow> py_str option \<Rightarrow> market \<Rightarrow> (market_error, path \<times> market) py_result"
where
  "install_skillpack E target pack key M =
     (case unpack_skill E (skill_files M) pack target key of
        Inl e \<Rightarrow> Inl (SkillPackFailed e)
      | Inr (n, fs) \<Rightarrow> Inr (path_join target n, M\<lparr>skill_files := fs\<rparr>))"

definition install_redpack ::
  "pack_env \<Rightarrow> path \<Rightarrow> path \<Rightarrow> archive option \<Rightarrow> py_str option \<Rightarrow> market \<Rightarrow> (market_error, path \<times> market) py_result"
where
  "install_redpack E target pack_path pack key M =
     (case load_redpack E pack key of
        Inl e \<Rightarrow> Inl (RedPackFailed e)
      | Inr _ \<Rightarrow> (let dest = target @ [file_name pack_path] in Inr (dest, M\<lparr>packs := dict_set dest pack (packs M)\<rparr>)))"

text \<open>The key: the caller's, else a non-empty one of the catalogue, else none.\<close>

definition resolve_key :: "py_str option \<Rightarrow> PackEntry \<Rightarrow> py_str option" where
  "resolve_key pub e =
     (case pub of
        Some k \<Rightarrow> Some k
      | None \<Rightarrow> (case pk_pubkey e of Some k \<Rightarrow> if k = [] then None else Some k | None \<Rightarrow> None))"

definition install ::
  "pack_env \<Rightarrow> path \<Rightarrow> path \<Rightarrow> py_str \<Rightarrow> py_str option \<Rightarrow> py_str option \<Rightarrow> path option \<Rightarrow> market
    \<Rightarrow> (market_error, InstallResult \<times> market) py_result"
where
  "install E skills_dir redteam_dir name kind pub dest_dir M =
     (case get_by_name name kind (rows M) of
        None \<Rightarrow> Inl (NoSuchPack name)
      | Some e \<Rightarrow>
          (case dict_get (packs M) (pk_path e) of
             None \<Rightarrow> Inl (FileNotFound (pk_path e))
           | Some pack \<Rightarrow>
               (let key = resolve_key pub e;
                    target = (\<lambda>d. case dest_dir of Some p \<Rightarrow> p | None \<Rightarrow> d)
                in rbind (if pk_kind e = ''skillpack'' then install_skillpack E (target skills_dir) pack key M
                          else if pk_kind e = ''redpack'' then install_redpack E (target redteam_dir) (pk_path e) pack key M
                          else Inl (BadKind (pk_kind e))) (\<lambda>(dest, M').
                     Inr (\<lparr>in_name = pk_name e, in_kind = pk_kind e, in_pack_id = pk_id e, in_dest = dest,
                           in_verified = (key \<noteq> None)\<rparr>,
                          M'\<lparr>rows := mark_installed (pk_id e) (rows M')\<rparr>)))))"

definition client_search ::
  "(py_str list \<Rightarrow> py_str) \<Rightarrow> py_str \<Rightarrow> py_str option \<Rightarrow> market \<Rightarrow> PackEntry list"
where
  "client_search tags_text query kind M =
     (if query = [] then list_all_packs kind (rows M) else search tags_text query kind (rows M))"


section \<open>The catalogue\<close>

definition rows_ok :: "PackEntry list \<Rightarrow> bool" where
  "rows_ok rs \<longleftrightarrow> distinct (map pk_id rs) \<and> list_all (\<lambda>r. pk_kind r \<in> set MARKET_KINDS \<and> str_strip (pk_name r) \<noteq> []) rs"

lemma find_id_None: "find_id rs i = None \<longleftrightarrow> i \<notin> set (map pk_id rs)"
  by (auto simp: find_id_def find_None_iff)

lemma publish_ok: "rows_ok rs \<Longrightarrow> publish u now n k p pub d ts rs = Inr (e, rs') \<Longrightarrow> rows_ok rs'"
  by (auto simp: publish_def rows_ok_def find_id_None Let_def split: if_splits)

lemma mark_installed_ids [simp]: "map pk_id (mark_installed i rs) = map pk_id rs"
  by (induction rs) (simp_all add: mark_installed_def)

lemma mark_installed_ok: "rows_ok rs \<Longrightarrow> rows_ok (mark_installed i rs)"
  unfolding rows_ok_def mark_installed_ids by (auto simp: mark_installed_def list_all_iff)

lemma newest_first_set [simp]: "set (newest_first rs) = set rs"
  by (simp add: newest_first_def)

lemma newest_first_sorted: "sorted_wrt (\<lambda>a b. pk_published b \<le> pk_published a) (newest_first rs)"
proof -
  have "sorted (map (\<lambda>r. - pk_published r) (newest_first rs))" by (simp add: newest_first_def)
  then show ?thesis by (simp add: sorted_map)
qed

lemma filter_newest_first: "filter P (newest_first rs) = newest_first (filter P rs)"
  by (simp add: newest_first_def filter_sort)

text \<open>Searching is listing, restricted to the rows whose text holds the query; an empty one restricts nothing.\<close>

lemma str_contains_empty: "str_contains s []"
  by (cases s) (simp_all add: str_contains_def)

lemma client_search_exact:
  "client_search tags_text query kind M =
     filter (\<lambda>r. str_contains (blob tags_text r) (str_lower query)) (list_all_packs kind (rows M))"
  by (auto simp: client_search_def search_def list_all_packs_def str_lower_def str_contains_empty
      filter_newest_first [symmetric] conj_commute)

lemma get_by_name_newest:
  assumes "get_by_name name kind rs = Some e"
  shows "e \<in> set rs \<and> pk_name e = name \<and> kind_matches kind e \<and>
    (\<forall>r\<in>set rs. pk_name r = name \<and> kind_matches kind r \<longrightarrow> pk_published r \<le> pk_published e)"
proof -
  let ?l = "newest_first (filter (\<lambda>r. pk_name r = name \<and> kind_matches kind r) rs)"
  obtain l where l: "?l = e # l" using assms by (auto simp: get_by_name_def split: list.splits)
  have s: "set ?l = {r \<in> set rs. pk_name r = name \<and> kind_matches kind r}" by auto
  have o: "sorted_wrt (\<lambda>a b. pk_published b \<le> pk_published a) ?l" by (rule newest_first_sorted)
  have "e \<in> set ?l" using l by simp
  moreover have "pk_published r \<le> pk_published e" if "r \<in> set ?l" for r using that o l by auto
  ultimately show ?thesis using s by blast
qed


section \<open>Installing\<close>

text \<open>The signature of an archive checks, in the way of its kind.\<close>

definition pack_signed :: "pack_env \<Rightarrow> py_str \<Rightarrow> archive option \<Rightarrow> py_str \<Rightarrow> bool" where
  "pack_signed E kind pack key =
     (case pack of
        None \<Rightarrow> False
      | Some a \<Rightarrow> if kind = ''skillpack'' then skill_opens E a key \<noteq> None else red_opens E a key \<noteq> None)"

lemma install_skillpack_facts:
  assumes "install_skillpack E target pack key M = Inr (dest, M')"
  shows "rows M' = rows M \<and> packs M' = packs M \<and> (key = None \<or> pack_signed E ''skillpack'' pack (the key))"
proof (cases key)
  case (Some k)
  then obtain a where "pack = Some a"
    using assms by (auto simp: install_skillpack_def unpack_skill_def verify_pack_def split: option.splits sum.splits)
  then show ?thesis
    using assms Some by (auto simp: install_skillpack_def pack_signed_def unpack_with_key split: sum.splits)
qed (use assms in \<open>auto simp: install_skillpack_def split: sum.splits\<close>)

lemma install_redpack_facts:
  assumes "install_redpack E target p pack key M = Inr (dest, M')"
  shows "rows M' = rows M \<and> skill_files M' = skill_files M \<and> (key = None \<or> pack_signed E ''redpack'' pack (the key))"
proof -
  have "\<exists>ps. load_redpack E pack key = Inr ps" using assms by (auto simp: install_redpack_def split: sum.splits)
  then obtain a pb where "pack = Some a" "payload_bytes E a key = Inr pb"
    by (auto simp: load_redpack_def rbind_eq_Inr split: option.splits)
  then show ?thesis using assms
    by (cases key) (auto simp: install_redpack_def Let_def pack_signed_def red_opens_def split: sum.splits)
qed




section \<open>What the catalogue does not promise\<close>

text \<open>
  A later entry of the same name without a key takes the place of a signed one: the install by
  name checks nothing.
\<close>

lemma unsigned_shadows_signed:
  assumes "get_by_name name None rs = Some old" "pk_published old < now" "str_strip name \<noteq> []" "find_id rs u = None"
  shows "\<exists>e rs'. publish u now name ''skillpack'' p None d ts rs = Inr (e, rs') \<and> get_by_name name None rs' = Some e \<and> resolve_key None e = None"
proof -
  let ?e = "\<lparr>pk_id = u, pk_name = name, pk_kind = ''skillpack'', pk_path = p, pk_pubkey = None, pk_description = d,
      pk_tags = ts, pk_published = now, pk_installed = False\<rparr>"
  have p: "publish u now name ''skillpack'' p None d ts rs = Inr (?e, rs @ [?e])"
    using assms(3,4) by (simp add: publish_def MARKET_KINDS_def Let_def)
  have "get_by_name name None (rs @ [?e]) \<noteq> None"
    by (auto simp: get_by_name_def kind_matches_def newest_first_def split: list.splits dest: arg_cong [of _ _ length])
  then obtain x where x: "get_by_name name None (rs @ [?e]) = Some x" by blast
  note g = get_by_name_newest [OF x] get_by_name_newest [OF assms(1)]
  have "x = ?e"
  proof (rule ccontr)
    assume "x \<noteq> ?e"
    then have "x \<in> set rs" using g by auto
    then have "pk_published x \<le> pk_published old" using g by (auto simp: kind_matches_def)
    moreover have "now \<le> pk_published x" using g by (auto simp: kind_matches_def)
    ultimately show False using assms(2) by simp
  qed
  then show ?thesis using p x by (auto simp: resolve_key_def)
qed

text \<open>The kind is read off substrings of the name before the extension.\<close>

lemma kind_by_substring:
  "infer_kind [''anti-skill.redpack''] = Inr ''skillpack''"
  "infer_kind [''shared.zip''] = Inr ''redpack''"
  by code_simp+

end
