(* ===== verification/Plugin_Manifest.thy ===== *)
theory Plugin_Manifest
  imports Py_Base64 Federation Skill_Registry
begin

text \<open>
  Plugins (\<open>sera/plugins/manifest.py\<close>): the manifest, its signature, and the loader that
  registers the declared tools in the registry of \<open>Tool_Layer\<close>. The YAML parser, Ed25519, the
  canonical JSON encoder, \<open>str()\<close> of values other than texts and the importer are arguments;
  importing has no effect on the registry.
\<close>


section \<open>Capabilities\<close>

definition KNOWN_CAPABILITY_ROOTS :: "py_str list" where
  "KNOWN_CAPABILITY_ROOTS =
     [''net.fetch'', ''net.serve'', ''fs.read'', ''fs.write'', ''shell.execute'', ''tools.register'', ''mcp.connect'',
      ''composio.connect'', ''browser.use'', ''llm.call'']"

definition parse_capability :: "py_str \<Rightarrow> py_str \<times> py_str" where
  "parse_capability raw =
     (case str_find raw '':'' of
        Some i \<Rightarrow> (str_strip (take i raw), str_strip (drop (Suc i) raw))
      | None \<Rightarrow> (str_strip raw, []))"

definition validate_capabilities :: "py_str list \<Rightarrow> py_str list" where
  "validate_capabilities caps = filter (\<lambda>raw. fst (parse_capability raw) \<notin> set KNOWN_CAPABILITY_ROOTS) caps"


section \<open>Manifests\<close>

record ToolEntry =
  te_name :: py_value
  te_attr :: py_value
  te_permission :: py_value
  te_description :: py_value
  te_parameters :: py_value

record SignatureBlock =
  sb_algorithm :: py_value
  sb_public_key :: py_value
  sb_signature :: py_value

record PluginManifest =
  pm_name :: py_value
  pm_version :: py_value
  pm_entrypoint :: py_value
  pm_author :: py_value
  pm_description :: py_value
  pm_capabilities :: "py_str list"
  pm_tools :: "ToolEntry list"
  pm_signature :: "SignatureBlock option"

text \<open>\<open>ManifestError\<close> with its reason, and the exceptions of other types that come out.\<close>

datatype plugin_error =
    MissingFields "py_str list"
  | UnknownCapabilities "py_str list"
  | ToolMissingFields py_value
  | InvalidPermission tool_error
  | SignatureMissingFields py_value
  | NoManifest py_str
  | NoMapping
  | UnsupportedAlgorithm py_value
  | VerificationFailed
  | BadSignature
  | Unsigned
  | CannotImport
  | NoAttr py_value
  | NotCallable py_value
  | TypeRaised
  | ImportRaised py_exc
  | YamlRaised py_exc

definition REQUIRED_FIELDS :: "py_str list" where
  "REQUIRED_FIELDS = [''entrypoint'', ''name'', ''version'']"

definition default_parameters :: py_value where
  "default_parameters = PyDict [(''type'', PyStr ''object''), (''properties'', PyDict [])]"

text \<open>\<open>raw.get(k, []) or []\<close> as a list of items: a dict gives its keys, a text its characters.\<close>

function characters :: "py_str \<Rightarrow> py_str list" where
  "characters [] = []"
| "characters (c # s) = (c # takeWhile continuation_byte s) # characters (dropWhile continuation_byte s)"
  by pat_completeness auto
termination by (relation "measure length") (auto simp: le_imp_less_Suc length_dropWhile_le)

definition items_of :: "py_value \<Rightarrow> py_value list option" where
  "items_of v =
     (if \<not> py_truth v then Some []
      else case v of
             PyList vs \<Rightarrow> Some vs
           | PyDict kvs \<Rightarrow> Some (map (\<lambda>kv. PyStr (fst kv)) kvs)
           | PyStr s \<Rightarrow> Some (map PyStr (characters s))
           | _ \<Rightarrow> None)"

fun texts_of :: "py_value list \<Rightarrow> py_str list option" where
  "texts_of [] = Some []"
| "texts_of (PyStr s # vs) = map_option ((#) s) (texts_of vs)"
| "texts_of (v # vs) = None"

text \<open>\<open>all(k in v for k in ks)\<close>: keys of a dict, items of a list, substrings of a text.\<close>

definition has_all :: "py_value \<Rightarrow> py_str list \<Rightarrow> (plugin_error, bool) py_result" where
  "has_all v ks =
     (case v of
        PyDict d \<Rightarrow> Inr (list_all (\<lambda>k. dict_get d k \<noteq> None) ks)
      | PyList vs \<Rightarrow> Inr (list_all (\<lambda>k. PyStr k \<in> set vs) ks)
      | PyStr s \<Rightarrow> Inr (list_all (\<lambda>k. str_contains s k) ks)
      | _ \<Rightarrow> Inl TypeRaised)"

definition field :: "(py_str, py_value) py_dict \<Rightarrow> py_str \<Rightarrow> py_value" where
  "field d k = dict_get_or d k PyNone"

definition tool_entry :: "(py_value \<Rightarrow> py_str) \<Rightarrow> py_value \<Rightarrow> (plugin_error, ToolEntry) py_result" where
  "tool_entry render t =
     rbind (has_all t [''name'', ''attr'', ''permission'']) (\<lambda>ok.
       if \<not> ok then Inl (ToolMissingFields t)
       else case t of
              PyDict d \<Rightarrow>
                (case parse_permission (permission_spec render (field d ''permission'')) of
                   Inl e \<Rightarrow> Inl (InvalidPermission e)
                 | Inr _ \<Rightarrow>
                     Inr \<lparr>te_name = field d ''name'', te_attr = field d ''attr'', te_permission = field d ''permission'',
                          te_description = dict_get_or d ''description'' (PyStr []),
                          te_parameters = dict_get_or d ''parameters'' default_parameters\<rparr>)
            | _ \<Rightarrow> Inl TypeRaised)"

fun tool_entries :: "(py_value \<Rightarrow> py_str) \<Rightarrow> py_value list \<Rightarrow> (plugin_error, ToolEntry list) py_result" where
  "tool_entries render [] = Inr []"
| "tool_entries render (t # ts) =
     rbind (tool_entry render t) (\<lambda>e. rbind (tool_entries render ts) (\<lambda>es. Inr (e # es)))"

definition signature_block :: "py_value \<Rightarrow> (plugin_error, SignatureBlock option) py_result" where
  "signature_block v =
     (if \<not> py_truth v then Inr None
      else rbind (has_all v [''algorithm'', ''public_key'', ''signature'']) (\<lambda>ok.
        if \<not> ok then Inl (SignatureMissingFields v)
        else case v of
               PyDict d \<Rightarrow>
                 Inr (Some \<lparr>sb_algorithm = field d ''algorithm'', sb_public_key = field d ''public_key'', sb_signature = field d ''signature''\<rparr>)
             | _ \<Rightarrow> Inl TypeRaised))"

definition load_manifest_dict ::
  "(py_value \<Rightarrow> py_str) \<Rightarrow> (py_str, py_value) py_dict \<Rightarrow> (plugin_error, PluginManifest) py_result"
where
  "load_manifest_dict render raw =
     (let missing = filter (\<lambda>k. dict_get raw k = None) REQUIRED_FIELDS
      in if missing \<noteq> [] then Inl (MissingFields missing)
         else case Option.bind (items_of (dict_get_or raw ''capabilities'' (PyList []))) texts_of of
                None \<Rightarrow> Inl TypeRaised
              | Some caps \<Rightarrow>
                  (let bad = validate_capabilities caps
                   in if bad \<noteq> [] then Inl (UnknownCapabilities bad)
                      else case items_of (dict_get_or raw ''tools'' (PyList [])) of
                             None \<Rightarrow> Inl TypeRaised
                           | Some ts \<Rightarrow>
                               rbind (tool_entries render ts) (\<lambda>tools.
                               rbind (signature_block (field raw ''signature'')) (\<lambda>sig.
                                 Inr \<lparr>pm_name = field raw ''name'', pm_version = field raw ''version'',
                                      pm_entrypoint = field raw ''entrypoint'',
                                      pm_author = dict_get_or raw ''author'' (PyStr []),
                                      pm_description = dict_get_or raw ''description'' (PyStr []),
                                      pm_capabilities = caps, pm_tools = tools, pm_signature = sig\<rparr>))))"

text \<open>The file, if it exists, through the YAML parser.\<close>

definition load_manifest_file ::
  "(py_str \<Rightarrow> (py_exc, py_value) py_result) \<Rightarrow> (py_value \<Rightarrow> py_str) \<Rightarrow> (py_str, py_str) py_dict \<Rightarrow> py_str
    \<Rightarrow> (plugin_error, PluginManifest) py_result"
where
  "load_manifest_file yaml render fs p =
     (case dict_get fs p of
        None \<Rightarrow> Inl (NoManifest p)
      | Some txt \<Rightarrow>
          (case yaml txt of
             Inl e \<Rightarrow> Inl (YamlRaised e)
           | Inr v \<Rightarrow> (case py_or v (PyDict []) of PyDict raw \<Rightarrow> load_manifest_dict render raw | _ \<Rightarrow> Inl NoMapping)))"


section \<open>Signatures\<close>

definition entry_dict :: "ToolEntry \<Rightarrow> py_value" where
  "entry_dict e =
     PyDict [(''name'', te_name e), (''attr'', te_attr e), (''permission'', te_permission e),
       (''description'', te_description e), (''parameters'', te_parameters e)]"

definition canonical_payload :: "scheme \<Rightarrow> PluginManifest \<Rightarrow> py_str" where
  "canonical_payload S m =
     canonical S (PyDict [(''name'', pm_name m), (''version'', pm_version m), (''entrypoint'', pm_entrypoint m),
       (''author'', pm_author m), (''description'', pm_description m),
       (''capabilities'', PyList (map PyStr (pm_capabilities m))), (''tools'', PyList (map entry_dict (pm_tools m)))])"

definition manifest_digest :: "scheme \<Rightarrow> (py_str \<Rightarrow> py_str) \<Rightarrow> PluginManifest \<Rightarrow> py_str" where
  "manifest_digest S sha256 m = sha256 (canonical_payload S m)"

text \<open>\<open>public_of\<close> gives the raw public key of raw private key bytes, none when they are no key.\<close>

definition sign_manifest ::
  "scheme \<Rightarrow> (py_str \<Rightarrow> py_str option) \<Rightarrow> PluginManifest \<Rightarrow> py_str \<Rightarrow> SignatureBlock option"
where
  "sign_manifest S public_of m priv =
     (case (public_of priv, sign_with S priv (canonical_payload S m)) of
        (Some pub, Some sig) \<Rightarrow>
          Some \<lparr>sb_algorithm = PyStr ''ed25519'', sb_public_key = PyStr (b64encode pub), sb_signature = PyStr (b64encode sig)\<rparr>
      | _ \<Rightarrow> None)"

definition decoded :: "py_value \<Rightarrow> py_str option" where
  "decoded v = (case v of PyStr s \<Rightarrow> b64decode_text s | _ \<Rightarrow> None)"

definition verify_signature :: "scheme \<Rightarrow> PluginManifest \<Rightarrow> (plugin_error, bool) py_result" where
  "verify_signature S m =
     (case pm_signature m of
        None \<Rightarrow> Inr False
      | Some sb \<Rightarrow>
          if sb_algorithm sb \<noteq> PyStr ''ed25519'' then Inl (UnsupportedAlgorithm (sb_algorithm sb))
          else case (decoded (sb_public_key sb), decoded (sb_signature sb)) of
                 (Some pub, Some sig) \<Rightarrow>
                   (case check_with S pub (canonical_payload S m) sig of
                      None \<Rightarrow> Inl VerificationFailed
                    | Some ok \<Rightarrow> Inr ok)
               | _ \<Rightarrow> Inl VerificationFailed)"


section \<open>The loader\<close>

text \<open>An attribute of a module: a value that cannot be called, or a function.\<close>

datatype attribute = Plain | Function "arguments \<Rightarrow> ToolContext \<Rightarrow> (py_exc, py_value) py_result"

datatype import_result = Module "py_str \<Rightarrow> attribute option" | ImportFailed | Raised py_exc

record LoadResult =
  lr_plugin :: py_value
  lr_tools :: "py_str list"
  lr_capabilities :: "py_str list"
  lr_signed :: bool

record process =
  sys_path :: "py_str list"
  tools :: registry

definition plugin_tool_name :: "(py_value \<Rightarrow> py_str) \<Rightarrow> py_value \<Rightarrow> ToolEntry \<Rightarrow> py_str" where
  "plugin_tool_name render plugin e = ''plugin_'' @ py_text render plugin @ ''__'' @ py_text render (te_name e)"

definition attr_to_tool ::
  "(py_value \<Rightarrow> py_str) \<Rightarrow> ToolEntry \<Rightarrow> (arguments \<Rightarrow> ToolContext \<Rightarrow> (py_exc, py_value) py_result) \<Rightarrow> py_value
    \<Rightarrow> (plugin_error, Tool) py_result"
where
  "attr_to_tool render e f plugin =
     (case parse_permission (permission_spec render (te_permission e)) of
        Inl err \<Rightarrow> Inl (InvalidPermission err)
      | Inr p \<Rightarrow>
          Inr \<lparr>tool_name = plugin_tool_name render plugin e,
               description = ''[Plugin:'' @ py_text render plugin @ ''] '' @ py_text render (te_description e),
               parameters = te_parameters e, tool_permission = p, tool_scope = INTEGRATION,
               handler = (\<lambda>args ctx. rbind (f args ctx) (\<lambda>v. Inr (py_text render v)))\<rparr>)"

definition resolve_entry ::
  "(py_value \<Rightarrow> py_str) \<Rightarrow> (py_str \<Rightarrow> attribute option) \<Rightarrow> py_value \<Rightarrow> ToolEntry \<Rightarrow> (plugin_error, Tool) py_result"
where
  "resolve_entry render members plugin e =
     (case te_attr e of
        PyStr a \<Rightarrow>
          (case members a of
             None \<Rightarrow> Inl (NoAttr (te_attr e))
           | Some Plain \<Rightarrow> Inl (NotCallable (te_attr e))
           | Some (Function f) \<Rightarrow> attr_to_tool render e f plugin)
      | _ \<Rightarrow> Inl TypeRaised)"

text \<open>The loop: the names registered so far, and the registry also when an entry fails.\<close>

fun register_entries ::
  "(py_value \<Rightarrow> py_str) \<Rightarrow> (py_str \<Rightarrow> attribute option) \<Rightarrow> py_value \<Rightarrow> ToolEntry list \<Rightarrow> registry
    \<Rightarrow> (plugin_error, py_str list) py_result \<times> registry"
where
  "register_entries render members plugin [] r = (Inr [], r)"
| "register_entries render members plugin (e # es) r =
     (case resolve_entry render members plugin e of
        Inl err \<Rightarrow> (Inl err, r)
      | Inr t \<Rightarrow>
          (case register_entries render members plugin es (register t r) of
             (Inl err, r') \<Rightarrow> (Inl err, r')
           | (Inr ns, r') \<Rightarrow> (Inr (tool_name t # ns), r')))"

definition signature_gate :: "scheme \<Rightarrow> PluginManifest \<Rightarrow> bool \<Rightarrow> (plugin_error, bool) py_result" where
  "signature_gate S m require_signature =
     (if pm_signature m \<noteq> None
      then rbind (verify_signature S m) (\<lambda>ok. if ok then Inr True else Inl BadSignature)
      else if require_signature then Inl Unsigned else Inr False)"

text \<open>\<open>sys.path\<close> with the plugin directory in front, and the entry to take out again on failure.\<close>

definition with_dir :: "py_str option \<Rightarrow> py_str list \<Rightarrow> py_str option \<times> py_str list" where
  "with_dir dir sp =
     (case dir of
        None \<Rightarrow> (None, sp)
      | Some p \<Rightarrow> if p \<in> set sp then (None, sp) else (Some p, p # sp))"

definition rollback :: "py_str option \<Rightarrow> py_str list \<Rightarrow> py_str list" where
  "rollback front sp = (case front of None \<Rightarrow> sp | Some p \<Rightarrow> if p = [] then sp else remove1 p sp)"

definition load_plugin ::
  "(py_value \<Rightarrow> py_str) \<Rightarrow> scheme \<Rightarrow> (py_str list \<Rightarrow> py_value \<Rightarrow> import_result) \<Rightarrow> PluginManifest \<Rightarrow> py_str option \<Rightarrow> bool
    \<Rightarrow> process \<Rightarrow> (plugin_error, LoadResult) py_result \<times> process"
where
  "load_plugin render S import_module m dir require_signature w =
     (case signature_gate S m require_signature of
        Inl e \<Rightarrow> (Inl e, w)
      | Inr signed \<Rightarrow>
          (case with_dir dir (sys_path w) of (front, sp) \<Rightarrow>
             let w1 = w\<lparr>sys_path := sp\<rparr>;
                 undo = (\<lambda>w'. w'\<lparr>sys_path := rollback front (sys_path w')\<rparr>)
             in (case import_module sp (pm_entrypoint m) of
                   ImportFailed \<Rightarrow> (Inl CannotImport, undo w1)
                 | Raised e \<Rightarrow> (Inl (ImportRaised e), undo w1)
                 | Module members \<Rightarrow>
                     (case register_entries render members (pm_name m) (pm_tools m) (tools w1) of
                        (Inl e, r) \<Rightarrow> (Inl e, undo (w1\<lparr>tools := r\<rparr>))
                      | (Inr names, r) \<Rightarrow>
                          (Inr \<lparr>lr_plugin = pm_name m, lr_tools = names, lr_capabilities = pm_capabilities m, lr_signed = signed\<rparr>,
                           w1\<lparr>tools := r\<rparr>)))))"

fun unregister_all :: "py_str list \<Rightarrow> registry \<Rightarrow> nat \<times> registry" where
  "unregister_all [] r = (0, r)"
| "unregister_all (n # ns) r =
     (case unregister n r of (was, r1) \<Rightarrow>
        (case unregister_all ns r1 of (k, r2) \<Rightarrow> ((if was then 1 else 0) + k, r2)))"

definition unload_plugin :: "LoadResult \<Rightarrow> process \<Rightarrow> nat \<times> process" where
  "unload_plugin res w = (case unregister_all (lr_tools res) (tools w) of (k, r) \<Rightarrow> (k, w\<lparr>tools := r\<rparr>))"


section \<open>Parsed manifests\<close>

text \<open>A manifest that parses claims known capabilities only, and every tool in it has a permission tier.\<close>

definition manifest_ok :: "(py_value \<Rightarrow> py_str) \<Rightarrow> PluginManifest \<Rightarrow> bool" where
  "manifest_ok render m \<longleftrightarrow>
     list_all (\<lambda>c. fst (parse_capability c) \<in> set KNOWN_CAPABILITY_ROOTS) (pm_capabilities m) \<and>
     list_all (\<lambda>e. \<exists>p. parse_permission (permission_spec render (te_permission e)) = Inr p) (pm_tools m)"

lemma tool_entries_ok:
  "tool_entries render ts = Inr es \<Longrightarrow> length es = length ts \<and>
     list_all (\<lambda>e. \<exists>p. parse_permission (permission_spec render (te_permission e)) = Inr p) es"
proof (induction ts arbitrary: es)
  case (Cons t ts)
  from Cons.prems obtain e es' where e: "tool_entry render t = Inr e" "tool_entries render ts = Inr es'" "es = e # es'"
    by (auto simp: rbind_eq_Inr)
  then have "\<exists>p. parse_permission (permission_spec render (te_permission e)) = Inr p"
    by (auto simp: tool_entry_def rbind_eq_Inr split: if_splits py_value.splits sum.splits)
  then show ?case using Cons.IH e by simp
qed simp

lemma parsed_manifest_ok:
  assumes "load_manifest_dict render raw = Inr m"
  shows "manifest_ok render m"
proof -
  from assms obtain ts where "validate_capabilities (pm_capabilities m) = []" "tool_entries render ts = Inr (pm_tools m)"
    by (auto simp: load_manifest_dict_def Let_def rbind_eq_Inr split: if_splits option.splits)
  then show ?thesis using tool_entries_ok
    by (auto simp: manifest_ok_def validate_capabilities_def filter_empty_conv list_all_iff)
qed


section \<open>Loading and unloading\<close>

lemma register_entries_fold:
  "case register_entries render members plugin es r of (res, r') \<Rightarrow>
     (case res of
        Inr ns \<Rightarrow> \<exists>ts. map (resolve_entry render members plugin) es = map Inr ts \<and> ns = map tool_name ts \<and> r' = fold register ts r
      | Inl e \<Rightarrow> \<exists>ts rest. map (resolve_entry render members plugin) es = map Inr ts @ Inl e # rest \<and> r' = fold register ts r)"
proof (induction es arbitrary: r)
  case (Cons e es)
  show ?case
  proof (cases "resolve_entry render members plugin e")
    case (Inl err)
    then show ?thesis by (auto intro: exI [of _ "[]"])
  next
    case (Inr t)
    obtain res r' where rr: "register_entries render members plugin es (register t r) = (res, r')" by fastforce
    note IH = Cons.IH [of "register t r", unfolded rr prod.case]
    show ?thesis
    proof (cases res)
      case Inl: (Inl err)
      then obtain ts rest where "map (resolve_entry render members plugin) es = map Inr ts @ Inl err # rest"
        "r' = fold register ts (register t r)" using IH by auto
      then show ?thesis using Inl Inr rr by (auto intro!: exI [of _ "t # ts"])
    next
      case Ok: (Inr ns)
      then obtain ts where "map (resolve_entry render members plugin) es = map Inr ts" "ns = map tool_name ts"
        "r' = fold register ts (register t r)" using IH by auto
      then show ?thesis using Ok Inr rr by (auto intro!: exI [of _ "t # ts"])
    qed
  qed
qed simp

lemma rollback_with_dir: "with_dir dir sp = (front, sp') \<Longrightarrow> rollback front sp' = (if dir = Some [] \<and> [] \<notin> set sp then [] # sp else sp)"
  by (auto simp: with_dir_def rollback_def split: option.splits if_splits)


lemma unregister_all_facts:
  "case unregister_all ns r of (k, r') \<Rightarrow>
     (\<forall>n. dict_get (reg_tools r') n = (if n \<in> set ns then None else dict_get (reg_tools r) n)) \<and>
     k = card {n \<in> set ns. dict_get (reg_tools r) n \<noteq> None}"
proof (induction ns arbitrary: r)
  case (Cons n ns)
  let ?r1 = "snd (unregister n r)"
  obtain k r' where u: "unregister_all ns ?r1 = (k, r')" by fastforce
  note IH = Cons.IH [of ?r1, unfolded u prod.case]
  have g: "dict_get (reg_tools ?r1) x = (if x = n then None else dict_get (reg_tools r) x)" for x
    by (simp add: unregister_def)
  let ?A = "{x \<in> set ns. dict_get (reg_tools ?r1) x \<noteq> None}"
  have n: "n \<notin> ?A" "finite ?A" by (simp_all add: g)
  have "{x \<in> set (n # ns). dict_get (reg_tools r) x \<noteq> None} =
      (if dict_get (reg_tools r) n \<noteq> None then insert n ?A else ?A)" by (auto simp: g)
  then have "card {x \<in> set (n # ns). dict_get (reg_tools r) x \<noteq> None} =
      (if dict_get (reg_tools r) n \<noteq> None then 1 else 0) + card ?A" using n by simp
  moreover have "unregister_all (n # ns) r = ((if dict_get (reg_tools r) n \<noteq> None then 1 else 0) + k, r')"
    using u by (simp add: unregister_def)
  ultimately show ?case using IH g by simp
qed simp

lemma fold_register_get:
  "n \<in> set (map tool_name ts) \<Longrightarrow> dict_get (reg_tools (fold register ts r)) n \<noteq> None"
proof (induction ts rule: rev_induct)
  case (snoc t ts)
  then show ?case by auto
qed simp

text \<open>
  Unloading takes out what loading put in: afterwards no tool of the plugin is registered,
  every other name means what it meant before the load, and the count is that of the names.
\<close>

theorem unload_undoes_load:
  assumes "load_plugin render S imp m dir require_signature w = (Inr res, w1)"
  shows "case unload_plugin res w1 of (k, w2) \<Rightarrow>
    k = card (set (lr_tools res)) \<and> sys_path w2 = sys_path w1 \<and>
    dict_get (reg_tools (tools w2)) n = (if n \<in> set (lr_tools res) then None else dict_get (reg_tools (tools w)) n)"
proof -
  obtain ts where ts: "tools w1 = fold register ts (tools w)" "lr_tools res = map tool_name ts"
  proof -
    obtain signed where g: "signature_gate S m require_signature = Inr signed"
      using assms by (auto simp: load_plugin_def split: sum.splits)
    obtain front sp where d: "with_dir dir (sys_path w) = (front, sp)" by fastforce
    obtain members where i: "imp sp (pm_entrypoint m) = Module members"
      using assms g d by (auto simp: load_plugin_def Let_def split: import_result.splits)
    obtain r rr where r: "register_entries render members (pm_name m) (pm_tools m) (tools w) = (r, rr)" by fastforce
    note f = register_entries_fold [of render members "pm_name m" "pm_tools m" "tools w", unfolded r prod.case]
    show ?thesis using that assms g d i r f by (cases r) (auto simp: load_plugin_def Let_def)
  qed
  obtain k r' where u: "unregister_all (lr_tools res) (tools w1) = (k, r')" by fastforce
  note f = unregister_all_facts [of "lr_tools res" "tools w1", unfolded u prod.case]
  have "{n \<in> set (lr_tools res). dict_get (reg_tools (tools w1)) n \<noteq> None} = set (lr_tools res)"
    using fold_register_get [of _ ts "tools w"] ts by auto
  moreover have "dict_get (reg_tools (tools w1)) n = dict_get (reg_tools (tools w)) n" if "n \<notin> set (lr_tools res)"
    using that ts by (simp add: fold_register_other)
  ultimately show ?thesis using f u by (simp add: unload_plugin_def)
qed

text \<open>A manifest signed with a private key verifies.\<close>

theorem signed_manifest_verifies:
  assumes "key_pair S priv pub" and "public_of priv = Some pub"
  shows "\<exists>sb. sign_manifest S public_of m priv = Some sb \<and> verify_signature S (m\<lparr>pm_signature := Some sb\<rparr>) = Inr True"
proof -
  obtain sig where "sign_with S priv (canonical_payload S m) = Some sig" "check_with S pub (canonical_payload S m) sig = Some True"
    using assms(1) by (metis key_pair_def)
  moreover have "canonical_payload S (m\<lparr>pm_signature := x\<rparr>) = canonical_payload S m" for x
    by (simp add: canonical_payload_def)
  ultimately show ?thesis using assms(2)
    by (simp add: sign_manifest_def verify_signature_def decoded_def b64_text_round_trip)
qed


section \<open>Concrete loads\<close>

definition demo_scheme :: scheme where
  "demo_scheme = \<lparr>sign_with = (\<lambda>k m. Some (k @ m)), check_with = (\<lambda>k m s. Some (s = k @ m)), canonical = (\<lambda>v. ''c'')\<rparr>"

definition demo_manifest :: "py_str \<Rightarrow> py_str list \<Rightarrow> PluginManifest" where
  "demo_manifest plugin ts =
     \<lparr>pm_name = PyStr plugin, pm_version = PyStr ''1'', pm_entrypoint = PyStr ''weather'', pm_author = PyStr [],
      pm_description = PyStr [], pm_capabilities = [''net.fetch''],
      pm_tools = map (\<lambda>t. \<lparr>te_name = PyStr t, te_attr = PyStr t, te_permission = PyStr ''read_only'',
                            te_description = PyStr [], te_parameters = default_parameters\<rparr>) ts,
      pm_signature = None\<rparr>"

definition demo_import :: "py_str list \<Rightarrow> py_value \<Rightarrow> import_result" where
  "demo_import sp entry =
     (if sp = [] then ImportFailed
      else Module (\<lambda>a. if a = ''gone'' then None else Some (Function (\<lambda>args ctx. Inr (PyStr ''sunny'')))))"

abbreviation (input) load_demo :: "py_str \<Rightarrow> py_str list \<Rightarrow> process \<Rightarrow> (plugin_error, LoadResult) py_result \<times> process" where
  "load_demo plugin ts w \<equiv> load_plugin (\<lambda>v. []) demo_scheme demo_import (demo_manifest plugin ts) (Some ''/p'') False w"

abbreviation (input) no_tools :: process where
  "no_tools \<equiv> \<lparr>sys_path = [], tools = empty_registry\<rparr>"

lemma demo_permission: "parse_permission (NameText ''read_only'') = Inr READ_ONLY"
  by code_simp

lemma demo_load:
  "\<exists>w'. load_demo plugin [a] w = (Inr \<lparr>lr_plugin = PyStr plugin, lr_tools = [''plugin_'' @ plugin @ ''__'' @ a], lr_capabilities = [''net.fetch''], lr_signed = False\<rparr>, w')" if "a \<noteq> ''gone''"
  using that
  by (simp add: load_plugin_def signature_gate_def demo_manifest_def with_dir_def demo_import_def Let_def resolve_entry_def
      attr_to_tool_def demo_permission plugin_tool_name_def del: parse_permission.simps)


theorem unload_undoes_load_witness:
  "\<exists>res w1. load_demo ''weather'' [''now''] no_tools = (Inr res, w1) \<and>
     fst (unload_plugin res w1) = 1 \<and> dict_get (reg_tools (tools (snd (unload_plugin res w1)))) ''plugin_weather__now'' = None"
proof -
  obtain w1 where l: "load_demo ''weather'' [''now''] no_tools =
      (Inr \<lparr>lr_plugin = PyStr ''weather'', lr_tools = [''plugin_weather__now''], lr_capabilities = [''net.fetch''], lr_signed = False\<rparr>, w1)"
    using demo_load [of "''now''" "''weather''" no_tools] by auto
  show ?thesis
    using unload_undoes_load [OF l, where n = "''plugin_weather__now''"] l by (auto split: prod.splits)
qed

theorem signed_manifest_verifies_witness:
  "\<exists>sb. sign_manifest demo_scheme (\<lambda>k. Some k) (demo_manifest ''weather'' []) ''k'' = Some sb \<and>
     verify_signature demo_scheme ((demo_manifest ''weather'' [])\<lparr>pm_signature := Some sb\<rparr>) = Inr True"
  by (rule signed_manifest_verifies [of _ _ "''k''"]) (simp_all add: key_pair_def demo_scheme_def)


section \<open>What the loader does not promise\<close>

text \<open>Tools before the entry that failed stay registered.\<close>

lemma failed_load_leaves_tools:
  "case load_demo ''weather'' [''now'', ''gone''] no_tools of (res, w') \<Rightarrow>
     (\<exists>e. res = Inl e) \<and> dict_keys (reg_tools (tools w')) = [''plugin_weather__now'']"
  by (simp add: load_plugin_def signature_gate_def demo_manifest_def with_dir_def demo_import_def Let_def resolve_entry_def
      attr_to_tool_def demo_permission plugin_tool_name_def rollback_def register_def empty_registry_def
      del: parse_permission.simps)

text \<open>What a manifest claims has no effect on what it registers.\<close>

lemma capabilities_not_enforced:
  "snd (load_plugin render S imp (m\<lparr>pm_signature := None, pm_capabilities := caps\<rparr>) dir False w) =
   snd (load_plugin render S imp (m\<lparr>pm_signature := None, pm_capabilities := caps'\<rparr>) dir False w)"
  by (auto simp: load_plugin_def signature_gate_def Let_def split: prod.splits import_result.splits sum.splits)

text \<open>Two plugins can hold the same tool name, so that one replaces the tool of the other.\<close>

lemma tool_names_clash:
  "plugin_tool_name render (PyStr ''a'') (e\<lparr>te_name := PyStr ''b__c''\<rparr>) =
   plugin_tool_name render (PyStr ''a__b'') (e\<lparr>te_name := PyStr ''c''\<rparr>)"
  by (simp add: plugin_tool_name_def)

text \<open>A null permission reads as the text \<open>None\<close>, which is the lowest tier.\<close>

lemma null_permission_is_none: "parse_permission (permission_spec render PyNone) = Inr NONE"
proof -
  have "parse_permission (NameText ''None'') = Inr NONE" by code_simp
  then show ?thesis by (simp del: parse_permission.simps)
qed

end
