(* ===== verification/Token_Juice.thy ===== *)
theory Token_Juice
  imports Agent_Loop
begin

text \<open>
  The rule-based shortener of tool outputs (\<open>sera/context/tokenjuice.py\<close>), the function the
  agent loop applies to long outputs. The tokenizer of \<open>html.parser\<close> is an argument: it gives
  the events of a text, or raises. The summariser behind the fallback is an argument.
\<close>


section \<open>Escapes\<close>

definition ESC :: char where
  "ESC = CHR 0x1B"

definition ANSI_RE :: re where
  "ANSI_RE =
     Seqs [Lit ESC, Lit CHR ''['', Star (Ch [Range CHR ''0'' CHR ''9'', One CHR '';'', One CHR ''?'']),
       Ch [Range CHR ''a'' CHR ''z'', Range CHR ''A'' CHR ''Z'']]"

definition strip_ansi :: "py_str \<Rightarrow> py_str" where
  "strip_ansi text = re_sub no_flags ANSI_RE [] text"


section \<open>HTML\<close>

datatype html_event =
    StartTag py_str "(py_str \<times> py_str option) list"
  | EndTag py_str
  | HtmlText py_str

definition SKIP_TAGS :: "py_str list" where
  "SKIP_TAGS = [''script'', ''style'', ''noscript'', ''svg'', ''head'']"

definition BLOCK_TAGS :: "py_str list" where
  "BLOCK_TAGS = [''p'', ''div'', ''section'', ''article'', ''header'', ''footer'', ''main'']"

definition HEADINGS :: "(py_str, py_str) py_dict" where
  "HEADINGS = [(''h1'', ''#''), (''h2'', ''##''), (''h3'', ''###''), (''h4'', ''####''), (''h5'', ''#####''), (''h6'', ''######'')]"

abbreviation nl :: py_str where "nl \<equiv> [CHR 0x0A]"

definition backtick :: py_str where
  "backtick = [CHR 0x60]"

definition code_fence :: py_str where
  "code_fence = nl @ backtick @ backtick @ backtick @ nl"

record html_state =
  hs_out :: py_str
  skip_depth :: nat
  in_pre :: nat
  href_stack :: "py_str option list"
  list_stack :: "py_str list"

definition html_init :: html_state where
  "html_init = \<lparr>hs_out = [], skip_depth = 0, in_pre = 0, href_stack = [], list_stack = []\<rparr>"

definition emit_html :: "py_str \<Rightarrow> html_state \<Rightarrow> html_state" where
  "emit_html t s = s\<lparr>hs_out := hs_out s @ t\<rparr>"

text \<open>The stacks have their top in front. An attribute without a value is \<open>None\<close>, as \<open>href\<close>s may be.\<close>

definition handle_starttag :: "py_str \<Rightarrow> (py_str \<times> py_str option) list \<Rightarrow> html_state \<Rightarrow> html_state" where
  "handle_starttag tag attrs s =
     (if tag \<in> set SKIP_TAGS then s\<lparr>skip_depth := skip_depth s + 1\<rparr>
      else if skip_depth s \<noteq> 0 then s
      else if tag = ''br'' then emit_html nl s
      else if tag = ''hr'' then emit_html (nl @ nl @ ''---'' @ nl @ nl) s
      else case dict_get HEADINGS tag of
             Some h \<Rightarrow> emit_html (nl @ nl @ h @ '' '') s
           | None \<Rightarrow>
               if tag \<in> set BLOCK_TAGS then emit_html (nl @ nl) s
               else if tag \<in> {''strong'', ''b''} then emit_html ''**'' s
               else if tag \<in> {''em'', ''i''} then emit_html ''*'' s
               else if tag = ''code'' \<and> in_pre s = 0 then emit_html backtick s
               else if tag = ''pre'' then emit_html code_fence (s\<lparr>in_pre := in_pre s + 1\<rparr>)
               else if tag \<in> {''ul'', ''ol''} then emit_html nl (s\<lparr>list_stack := tag # list_stack s\<rparr>)
               else if tag = ''li'' then
                 emit_html (nl @ (case list_stack s of t # _ \<Rightarrow> if t = ''ul'' then ''- '' else ''1. '' | [] \<Rightarrow> ''1. '')) s
               else if tag = ''a'' then
                 emit_html ''['' (s\<lparr>href_stack := (case map_of (rev attrs) ''href'' of None \<Rightarrow> Some [] | Some v \<Rightarrow> v) # href_stack s\<rparr>)
               else s)"

definition handle_endtag :: "py_str \<Rightarrow> html_state \<Rightarrow> html_state" where
  "handle_endtag tag s =
     (if tag \<in> set SKIP_TAGS then s\<lparr>skip_depth := skip_depth s - 1\<rparr>
      else if skip_depth s \<noteq> 0 then s
      else if dict_get HEADINGS tag \<noteq> None \<or> tag \<in> set BLOCK_TAGS then emit_html nl s
      else if tag \<in> {''strong'', ''b''} then emit_html ''**'' s
      else if tag \<in> {''em'', ''i''} then emit_html ''*'' s
      else if tag = ''code'' \<and> in_pre s = 0 then emit_html backtick s
      else if tag = ''pre'' then emit_html code_fence (s\<lparr>in_pre := in_pre s - 1\<rparr>)
      else if tag \<in> {''ul'', ''ol''} \<and> list_stack s \<noteq> [] then emit_html nl (s\<lparr>list_stack := tl (list_stack s)\<rparr>)
      else if tag = ''a'' \<and> href_stack s \<noteq> [] then
        emit_html (case hd (href_stack s) of Some (c # h) \<Rightarrow> ''](''  @ (c # h) @ '')'' | _ \<Rightarrow> '']'')
          (s\<lparr>href_stack := tl (href_stack s)\<rparr>)
      else s)"

definition handle_data :: "py_str \<Rightarrow> html_state \<Rightarrow> html_state" where
  "handle_data d s = (if skip_depth s \<noteq> 0 then s else emit_html d s)"

fun on_event :: "html_event \<Rightarrow> html_state \<Rightarrow> html_state" where
  "on_event (StartTag tag attrs) s = handle_starttag tag attrs s"
| "on_event (EndTag tag) s = handle_endtag tag s"
| "on_event (HtmlText d) s = handle_data d s"

definition HTML_SNIFF :: re where
  "HTML_SNIFF =
     Seqs [Lit CHR ''<'',
       Alts [Lits ''html'', Lits ''body'', Lits ''div'', Lits ''p'', Lits ''a'', Seq (Lit CHR ''h'') (Ch [Range CHR ''1'' CHR ''6'']),
             Lits ''table'', Lits ''ul'', Lits ''ol'', Lits ''article''],
       WordBound]"

definition looks_like_html :: "py_str \<Rightarrow> bool" where
  "looks_like_html text = re_search flag_i HTML_SNIFF (py_take 4096 text)"

definition html_to_markdown :: "(py_str \<Rightarrow> html_event list option) \<Rightarrow> py_str \<Rightarrow> py_str" where
  "html_to_markdown parse text =
     (if \<not> looks_like_html text then text
      else case parse text of
             None \<Rightarrow> text
           | Some evs \<Rightarrow> hs_out (fold on_event evs html_init))"


section \<open>URLs\<close>

definition DEFAULT_URL_THRESHOLD :: nat where
  "DEFAULT_URL_THRESHOLD = 60"

definition URL_RE :: re where
  "URL_RE =
     Seqs [Lits ''http'', Opt (Lit CHR ''s''), Lits ''://'',
       Plus (NotCh (Space # map One [CHR ''<'', CHR ''>'', CHR 0x22, CHR 0x27, CHR '')'']))]"

definition HOST_RE :: re where
  "HOST_RE = Seqs [Bol, Lits ''http'', Opt (Lit CHR ''s''), Lits ''://'', Grp (Plus (NotCh [One CHR ''/'']))]"

text \<open>\<open>pattern.sub(f, s)\<close> for a function of the matched text.\<close>

fun sub_each :: "(py_str \<Rightarrow> py_str) \<Rightarrow> py_str \<Rightarrow> nat \<Rightarrow> (nat \<times> re_state) list \<Rightarrow> py_str" where
  "sub_each f s cur [] = drop cur s"
| "sub_each f s cur ((i, j, g) # ms) = take (i - cur) (drop cur s) @ f (take (j - i) (drop i s)) @ sub_each f s j ms"

definition ellipsis :: py_str where
  "ellipsis = [CHR 0xE2, CHR 0x80, CHR 0xA6]"

definition url_host :: "py_str \<Rightarrow> py_str" where
  "url_host url =
     (case match_at no_flags HOST_RE url 0 of Some (_, Some (a, b)) \<Rightarrow> take (b - a) (drop a url) | _ \<Rightarrow> ''?'')"

definition short_url :: "nat \<Rightarrow> py_str \<Rightarrow> py_str" where
  "short_url threshold url =
     (if py_len url \<le> threshold then url
      else ''<'' @ url_host url @ ''/'' @ ellipsis @ '' ('' @ show_nat (py_len url) @ ''c)>'')"

definition shorten_urls :: "nat \<Rightarrow> py_str \<Rightarrow> py_str" where
  "shorten_urls threshold text = sub_each (short_url threshold) text 0 (re_finditer flag_i URL_RE text)"


section \<open>Repeated lines\<close>

fun split_on :: "char \<Rightarrow> py_str \<Rightarrow> py_str \<Rightarrow> py_str list" where
  "split_on d cur [] = [cur]"
| "split_on d cur (c # cs) = (if c = d then cur # split_on d [] cs else split_on d (cur @ [c]) cs)"

abbreviation split_nl :: "py_str \<Rightarrow> py_str list" where
  "split_nl text \<equiv> split_on CHR 0x0A [] text"

definition run_line :: "py_str \<Rightarrow> nat \<Rightarrow> py_str" where
  "run_line line n = (if 1 < n then line @ ''  '' @ ellipsis @ '' (x'' @ show_nat n @ '')'' else line)"

text \<open>The loop: \<open>prev\<close> with its count, then what is left.\<close>

fun dedup_loop :: "py_str option \<Rightarrow> nat \<Rightarrow> py_str list \<Rightarrow> py_str list" where
  "dedup_loop prev n [] = (case prev of None \<Rightarrow> [] | Some p \<Rightarrow> [run_line p n])"
| "dedup_loop prev n (l # ls) =
     (if prev = Some l then dedup_loop prev (n + 1) ls
      else (case prev of None \<Rightarrow> [] | Some p \<Rightarrow> [run_line p n]) @ dedup_loop (Some l) 1 ls)"

definition dedup_lines :: "py_str \<Rightarrow> py_str" where
  "dedup_lines text = (if CHR 0x0A \<notin> set text then text else join nl (dedup_loop None 0 (split_nl text)))"


section \<open>White space\<close>

definition BLANK_RUN :: re where
  "BLANK_RUN = AtLeast 3 (Lit CHR 0x0A)"

definition TRAILING_WS :: re where
  "TRAILING_WS = Seq (Plus (Ch [One CHR '' '', One CHR 0x09])) (Lit CHR 0x0A)"

definition normalize_whitespace :: "py_str \<Rightarrow> py_str" where
  "normalize_whitespace text =
     str_strip (re_sub no_flags BLANK_RUN [Text (nl @ nl)] (re_sub no_flags TRAILING_WS [Text nl] text))"


section \<open>Tables\<close>

definition TABLE_LINE_RE :: re where
  "TABLE_LINE_RE = Seqs [Bol, Star (Ch [Space]), Lit CHR ''|'', Plus Dot, Lit CHR ''|'', Star (Ch [Space]), Eol]"

definition table_line :: "py_str \<Rightarrow> bool" where
  "table_line l = (match_at no_flags TABLE_LINE_RE l 0 \<noteq> None)"

definition EMPTY_CELL_VALUES :: "py_str list" where
  "EMPTY_CELL_VALUES = [[], ''-'', [CHR 0xE2, CHR 0x80, CHR 0x94], ''n/a'', ''na'', ''null'', ''none'']"

definition SEPARATOR_RE :: re where
  "SEPARATOR_RE = Seqs [Bol, Plus (Ch [One CHR ''-'', One CHR '':'']), Eol]"

definition separator :: "py_str \<Rightarrow> bool" where
  "separator v = (match_at no_flags SEPARATOR_RE v 0 \<noteq> None)"

definition is_table_block :: "py_str list \<Rightarrow> nat" where
  "is_table_block ls = (let n = length (takeWhile table_line ls) in if 2 \<le> n then n else 0)"

definition split_row :: "py_str \<Rightarrow> py_str list" where
  "split_row row =
     (let s = str_strip row;
          a = (if starts_with s ''|'' then drop 1 s else s);
          b = (if a \<noteq> [] \<and> List.last a = CHR ''|'' then butlast a else a)
      in map str_strip (split_on CHR ''|'' [] b))"

definition join_row :: "py_str list \<Rightarrow> py_str" where
  "join_row cells = ''| '' @ join '' | '' cells @ '' |''"

definition pad_row :: "nat \<Rightarrow> py_str list \<Rightarrow> py_str list" where
  "pad_row width r = r @ replicate (width - length r) []"

text \<open>The first column, and every column with something in a row below the first.\<close>

definition keep_column :: "py_str list list \<Rightarrow> nat \<Rightarrow> bool" where
  "keep_column rws col \<longleftrightarrow>
     list_ex (\<lambda>v. v \<notin> set EMPTY_CELL_VALUES)
       (filter (\<lambda>v. \<not> separator v) (tl (map (\<lambda>r. str_lower (str_strip (r ! col))) rws))) \<or> col = 0"

definition header_count :: "py_str list list \<Rightarrow> nat" where
  "header_count rws =
     (if 2 < length rws \<and> list_all (\<lambda>c. separator (str_strip c)) (filter (\<lambda>c. str_strip c \<noteq> []) (rws ! 1)) then 2 else 1)"

definition clip_rows :: "nat \<Rightarrow> nat \<Rightarrow> py_str list list \<Rightarrow> py_str list list" where
  "clip_rows row_limit width body =
     (if row_limit < length body
      then take row_limit body @
        [(ellipsis @ '' ('' @ show_nat (length body - row_limit) @ '' more rows)'') # replicate (width - 1) []]
      else body)"

definition render_block :: "nat \<Rightarrow> py_str list \<Rightarrow> py_str list" where
  "render_block row_limit block =
     (let rows0 = map split_row block;
          width = foldr max (map length rows0) 0;
          rows1 = map (pad_row width) rows0;
          cols = filter (keep_column rows1) [0..<width];
          rows2 = map (\<lambda>r. map ((!) r) cols) rows1;
          k = header_count rows2
      in map join_row (take k rows2 @ clip_rows row_limit (length cols) (drop k rows2)))"

function debloat_loop :: "nat \<Rightarrow> py_str list \<Rightarrow> py_str list" where
  "debloat_loop row_limit [] = []"
| "debloat_loop row_limit (l # ls) =
     (let n = is_table_block (l # ls)
      in if n = 0 then l # debloat_loop row_limit ls
         else render_block row_limit (take n (l # ls)) @ debloat_loop row_limit (drop n (l # ls)))"
  by pat_completeness auto
termination
  by (relation "measure (\<lambda>(row_limit, ls). length ls)") (auto simp: is_table_block_def Let_def)

declare debloat_loop.simps(2) [simp del]

definition DEFAULT_TABLE_ROW_LIMIT :: nat where
  "DEFAULT_TABLE_ROW_LIMIT = 50"

definition debloat_table :: "nat \<Rightarrow> py_str \<Rightarrow> py_str" where
  "debloat_table row_limit text =
     (if CHR ''|'' \<notin> set text then text else join nl (debloat_loop row_limit (split_nl text)))"


section \<open>The pipeline\<close>

record CompressionResult =
  cr_text :: py_str
  original_chars :: nat
  final_chars :: nat
  rules_applied :: "py_str list"
  llm_fallback_used :: bool

definition shrink_ratio :: "CompressionResult \<Rightarrow> py_float" where
  "shrink_ratio r = (if original_chars r = 0 then 0 else 1 - real (final_chars r) / real (original_chars r))"

definition rules :: "(py_str \<Rightarrow> html_event list option) \<Rightarrow> nat \<Rightarrow> (py_str \<times> (py_str \<Rightarrow> py_str)) list" where
  "rules parse threshold =
     [(''ansi'', strip_ansi), (''html'', html_to_markdown parse), (''urls'', shorten_urls threshold),
      (''table'', debloat_table DEFAULT_TABLE_ROW_LIMIT), (''dedup'', dedup_lines), (''ws'', normalize_whitespace),
      (''redact'', redact)]"

text \<open>One rule after the other, with the names of those that changed the text.\<close>

fun apply_rules :: "(py_str \<times> (py_str \<Rightarrow> py_str)) list \<Rightarrow> py_str \<Rightarrow> py_str \<times> py_str list" where
  "apply_rules [] text = (text, [])"
| "apply_rules ((name, f) # rs) text =
     (case apply_rules rs (f text) of (res, names) \<Rightarrow> (res, (if f text \<noteq> text then [name] else []) @ names))"

definition compress_sync :: "(py_str \<Rightarrow> html_event list option) \<Rightarrow> nat \<Rightarrow> py_str \<Rightarrow> CompressionResult" where
  "compress_sync parse threshold text =
     (if text = [] then \<lparr>cr_text = [], original_chars = 0, final_chars = 0, rules_applied = [], llm_fallback_used = False\<rparr>
      else case apply_rules (rules parse threshold) text of
             (res, names) \<Rightarrow>
               \<lparr>cr_text = res, original_chars = py_len text, final_chars = py_len res, rules_applied = names, llm_fallback_used = False\<rparr>)"

definition compress ::
  "(py_str \<Rightarrow> html_event list option) \<Rightarrow> (py_str \<Rightarrow> nat) option \<Rightarrow> nat \<Rightarrow> nat option \<Rightarrow> (py_str \<Rightarrow> py_str) option \<Rightarrow> py_str
    \<Rightarrow> CompressionResult"
where
  "compress parse enc threshold max_tokens llm_fallback text =
     (let base = compress_sync parse threshold text
      in case (max_tokens, llm_fallback) of
           (Some m, Some f) \<Rightarrow>
             if estimate enc (cr_text base) \<le> m then base
             else let summary = f (cr_text base)
                  in \<lparr>cr_text = summary, original_chars = original_chars base, final_chars = py_len summary,
                      rules_applied = rules_applied base @ [''llm-fallback''], llm_fallback_used = True\<rparr>
         | _ \<Rightarrow> base)"


section \<open>Repeated lines: runs\<close>

text \<open>The specification: the maximal runs of equal adjacent lines.\<close>

fun runs :: "py_str list \<Rightarrow> (py_str \<times> nat) list" where
  "runs [] = []"
| "runs (l # ls) =
     (case runs ls of
        (m, n) # rs \<Rightarrow> if m = l then (l, n + 1) # rs else (l, 1) # (m, n) # rs
      | [] \<Rightarrow> [(l, 1)])"

definition unfold_runs :: "(py_str \<times> nat) list \<Rightarrow> py_str list" where
  "unfold_runs rs = concat (map (\<lambda>(l, n). replicate n l) rs)"

lemma runs_unfold: "unfold_runs (runs ls) = ls"
  by (induction ls) (auto simp: unfold_runs_def split: list.splits prod.splits)

lemma runs_positive: "list_all (\<lambda>r. 1 \<le> snd r) (runs ls)"
  by (induction ls) (auto split: list.splits prod.splits)

lemma runs_maximal: "successively (\<lambda>x y. fst x \<noteq> fst y) (runs ls)"
proof (induction ls)
  case (Cons l ls)
  then show ?case by (cases "runs ls"; cases "tl (runs ls)") (auto split: prod.splits)
qed simp

lemma dedup_loop_runs:
  "dedup_loop (Some p) n ls =
     (case runs ls of
        (m, k) # rs \<Rightarrow> if m = p then map (\<lambda>(l, k). run_line l k) ((p, n + k) # rs)
                      else map (\<lambda>(l, k). run_line l k) ((p, n) # (m, k) # rs)
      | [] \<Rightarrow> [run_line p n])"
proof (induction ls arbitrary: p n)
  case (Cons l ls)
  show ?case
  proof (cases "runs ls")
    case Nil
    then have "ls = []" using runs_unfold [of ls] by (simp add: unfold_runs_def)
    then show ?thesis by simp
  next
    case (Cons r rs)
    obtain m k where r: "r = (m, k)" by (cases r)
    show ?thesis using Cons.IH [of p "n + 1"] Cons.IH [of l 1] Cons r by auto
  qed
qed simp

lemma dedup_none: "dedup_loop None 0 ls = map (\<lambda>(l, n). run_line l n) (runs ls)"
proof (cases ls)
  case (Cons l ks)
  then show ?thesis using dedup_loop_runs [of l 1 ks] by (auto split: list.splits prod.splits)
qed simp

text \<open>
  C16: Deduplication shows each maximal run of equal adjacent lines once, with its length when it
  is longer than one, and nothing else; the runs put together are the lines of the text.
\<close>

theorem dedup_shows_runs:
  "\<exists>rs. unfold_runs rs = split_nl text \<and> list_all (\<lambda>r. 1 \<le> snd r) rs \<and> successively (\<lambda>x y. fst x \<noteq> fst y) rs \<and>
     dedup_lines text =
       join nl (map (\<lambda>(l, n). if 1 < n then l @ ''  '' @ ellipsis @ '' (x'' @ show_nat n @ '')'' else l) rs)"
proof -
  have "dedup_lines text = join nl (map (\<lambda>(l, n). run_line l n) (runs (split_nl text)))"
  proof (cases "CHR 0x0A \<in> set text")
    case False
    have "CHR 0x0A \<notin> set s \<Longrightarrow> split_on CHR 0x0A cur s = [cur @ s]" for cur s :: py_str
      by (induction s arbitrary: cur) auto
    then have "split_nl text = [text]" using False by simp
    then show ?thesis using False by (simp add: dedup_lines_def run_line_def)
  qed (simp add: dedup_lines_def dedup_none)
  then show ?thesis unfolding run_line_def using runs_unfold runs_positive runs_maximal by blast
qed


section \<open>HTML: what is skipped\<close>

text \<open>Events that differ in nothing but the text and the tags inside skipped elements.\<close>

fun same_outside :: "nat \<Rightarrow> html_event list \<Rightarrow> html_event list \<Rightarrow> bool" where
  "same_outside d [] [] = True"
| "same_outside d (e # es) (e' # es') =
     (case (e, e') of
        (HtmlText t, HtmlText t') \<Rightarrow> (d \<noteq> 0 \<or> t = t') \<and> same_outside d es es'
      | (StartTag tag attrs, StartTag tag' attrs') \<Rightarrow>
          if tag \<in> set SKIP_TAGS \<or> tag' \<in> set SKIP_TAGS then tag = tag' \<and> same_outside (d + 1) es es'
          else (d \<noteq> 0 \<or> (tag = tag' \<and> attrs = attrs')) \<and> same_outside d es es'
      | (EndTag tag, EndTag tag') \<Rightarrow>
          if tag \<in> set SKIP_TAGS \<or> tag' \<in> set SKIP_TAGS then tag = tag' \<and> same_outside (d - 1) es es'
          else (d \<noteq> 0 \<or> tag = tag') \<and> same_outside d es es'
      | _ \<Rightarrow> False)"
| "same_outside d _ _ = False"

lemma handle_depth:
  "skip_depth (handle_starttag tag attrs s) = (if tag \<in> set SKIP_TAGS then skip_depth s + 1 else skip_depth s)"
  "skip_depth (handle_endtag tag s) = (if tag \<in> set SKIP_TAGS then skip_depth s - 1 else skip_depth s)"
  "skip_depth (handle_data t s) = skip_depth s"
  by (simp_all add: handle_starttag_def handle_endtag_def handle_data_def emit_html_def if_distrib [of skip_depth]
      option.case_distrib [of skip_depth] option.case_eq_if cong: if_cong option.case_cong)

lemma handle_skipped:
  "skip_depth s \<noteq> 0 \<Longrightarrow> tag \<notin> set SKIP_TAGS \<Longrightarrow> handle_starttag tag attrs s = s \<and> handle_endtag tag s = s"
  "skip_depth s \<noteq> 0 \<Longrightarrow> handle_data t s = s"
  by (simp_all add: handle_starttag_def handle_endtag_def handle_data_def)

lemma skipped_invisible:
  "same_outside (skip_depth s) es es' \<Longrightarrow> fold on_event es s = fold on_event es' s"
proof (induction es arbitrary: es' s)
  case Nil
  then show ?case by (cases es') simp_all
next
  case (Cons e es)
  from Cons.prems obtain e' ks where es': "es' = e' # ks" by (cases es') simp_all
  have "on_event e s = on_event e' s \<and> same_outside (skip_depth (on_event e' s)) es ks"
  proof (cases e)
    case (HtmlText t)
    then obtain t' where t: "e' = HtmlText t'" "skip_depth s \<noteq> 0 \<or> t = t'" "same_outside (skip_depth s) es ks"
      using Cons.prems es' by (cases e') auto
    have "handle_data t s = handle_data t' s" using t(2) handle_skipped(2) by metis
    then show ?thesis using t HtmlText by (simp add: handle_depth)
  next
    case (StartTag tag attrs)
    then obtain tag' attrs' where t: "e' = StartTag tag' attrs'" using Cons.prems es' by (cases e') auto
    show ?thesis
    proof (cases "tag \<in> set SKIP_TAGS \<or> tag' \<in> set SKIP_TAGS")
      case True
      then have "tag = tag'" "same_outside (skip_depth s + 1) es ks" using Cons.prems es' t StartTag by auto
      then show ?thesis using True t StartTag by (simp add: handle_depth) (simp add: handle_starttag_def)
    next
      case False
      then have "skip_depth s \<noteq> 0 \<or> (tag = tag' \<and> attrs = attrs')" "same_outside (skip_depth s) es ks"
        using Cons.prems es' t StartTag by auto
      moreover from this(1) have "handle_starttag tag attrs s = handle_starttag tag' attrs' s"
        using handle_skipped(1) False by metis
      ultimately show ?thesis using False t StartTag by (simp add: handle_depth)
    qed
  next
    case (EndTag tag)
    then obtain tag' where t: "e' = EndTag tag'" using Cons.prems es' by (cases e') auto
    show ?thesis
    proof (cases "tag \<in> set SKIP_TAGS \<or> tag' \<in> set SKIP_TAGS")
      case True
      then have "tag = tag'" "same_outside (skip_depth s - 1) es ks" using Cons.prems es' t EndTag by auto
      then show ?thesis using True t EndTag by (simp add: handle_depth)
    next
      case False
      then have "skip_depth s \<noteq> 0 \<or> tag = tag'" "same_outside (skip_depth s) es ks"
        using Cons.prems es' t EndTag by auto
      moreover from this(1) have "handle_endtag tag s = handle_endtag tag' s" using handle_skipped(1) False by metis
      ultimately show ?thesis using False t EndTag by (simp add: handle_depth)
    qed
  qed
  then show ?case using Cons.IH es' by simp
qed


definition demo_page :: "py_str \<Rightarrow> html_event list" where
  "demo_page hidden =
     [StartTag ''p'' [], HtmlText ''shown'', StartTag ''script'' [], HtmlText hidden, EndTag ''script'', EndTag ''p'']"


text \<open>A head that is not closed, as HTML allows, hides the whole page.\<close>

lemma open_head_hides_page:
  "hs_out (fold on_event [StartTag ''head'' [], StartTag ''body'' [], StartTag ''p'' [], HtmlText t, EndTag ''p'', EndTag ''body''] html_init) = []"
  by (simp add: handle_starttag_def handle_endtag_def handle_data_def html_init_def SKIP_TAGS_def)


section \<open>Tables: the text around them\<close>

abbreviation one_line :: "py_str \<Rightarrow> bool" where
  "one_line l \<equiv> CHR 0x0A \<notin> set l"

lemma spans_dots:
  assumes "i \<le> k" "k \<le> length s" "\<forall>m. i \<le> m \<longrightarrow> m < k \<longrightarrow> s ! m \<noteq> CHR 0x0A"
  shows "spans no_flags s (Star Dot) i k"
  using assms
proof (induction "k - i" arbitrary: i)
  case 0
  then show ?case by (simp add: star0)
next
  case (Suc n)
  then have "i < k" by simp
  moreover from this Suc have "spans no_flags s (Star Dot) (Suc i) k" by simp
  moreover from \<open>i < k\<close> Suc have "spans no_flags s Dot i (Suc i)" by auto
  ultimately show ?case by (blast intro: star1)
qed

lemma table_line_bars:
  assumes "one_line x" and "x \<noteq> []"
  shows "table_line (''|'' @ x @ ''|'')"
proof -
  let ?s = "''|'' @ x @ ''|''" and ?n = "length x"
  have c: "?s ! m \<noteq> CHR 0x0A" if "m < Suc ?n" for m
    using assms(1) that by (cases m) (auto simp: nth_append dest: nth_mem)
  have l: "length ?s = Suc (Suc ?n)" "1 \<le> ?n" using assms(2) by (simp_all add: Suc_le_eq)
  have "spans no_flags ?s Dot 1 (Suc 1)" by (rule spans.dot) (use c [of 1] l assms(2) in simp_all)
  moreover have "spans no_flags ?s (Star Dot) (Suc 1) (Suc ?n)"
    by (rule spans_dots) (use l in simp, use l in simp, use c in blast)
  ultimately have "spans no_flags ?s (Plus Dot) 1 (Suc ?n)" by (rule spans.seq)
  moreover have "spans no_flags ?s (Lit CHR ''|'') 0 1" by (simp add: lit_has_def)
  moreover have "spans no_flags ?s (Lit CHR ''|'') (Suc ?n) (Suc (Suc ?n))" by (simp add: lit_has_def nth_append)
  moreover have "spans no_flags ?s Eol (Suc (Suc ?n)) (Suc (Suc ?n))" by (simp add: line_end_def)
  moreover have "spans no_flags ?s Bol 0 0" by (simp add: line_start_def)
  ultimately have "spans no_flags ?s TABLE_LINE_RE 0 (Suc (Suc ?n))"
    unfolding TABLE_LINE_RE_def Seqs.simps by (blast intro: spans.seq star0)
  then show ?thesis unfolding table_line_def match_at_iff by blast
qed

lemma one_line_join: "one_line sep \<Longrightarrow> list_all one_line xs \<Longrightarrow> one_line (join sep xs)"
  by (induction sep xs rule: join.induct) auto

lemma table_line_row: "list_all one_line cells \<Longrightarrow> table_line (join_row cells)"
  using table_line_bars [of "'' '' @ join '' | '' cells @ '' ''"] one_line_join [of "'' | ''" cells]
  by (simp add: join_row_def)

lemma one_line_row: "list_all one_line cells \<Longrightarrow> one_line (join_row cells)"
  using one_line_join [of "'' | ''" cells] by (simp add: join_row_def)

lemma split_on_chars: "list_all (\<lambda>p. set p \<subseteq> set cur \<union> set s) (split_on d cur s)"
proof (induction s arbitrary: cur)
  case (Cons c s)
  then show ?case using Cons [of "[]"] Cons [of "cur @ [c]"] by (fastforce simp: list_all_iff)
qed simp

lemma strip_chars: "set (str_strip s) \<subseteq> set s"
  by (auto simp: str_strip_def dest!: set_dropWhileD)

lemma split_row_chars: "one_line l \<Longrightarrow> list_all one_line (split_row l)"
proof -
  assume l: "one_line l"
  define a where "a = (if starts_with (str_strip l) ''|'' then drop 1 (str_strip l) else str_strip l)"
  define b where "b = (if a \<noteq> [] \<and> List.last a = CHR ''|'' then butlast a else a)"
  have "set a \<subseteq> set l" using strip_chars [of l] by (auto simp: a_def dest: in_set_dropD)
  then have "set b \<subseteq> set l" by (auto simp: b_def dest: in_set_butlastD)
  then have "one_line (str_strip p)" if "p \<in> set (split_on CHR ''|'' [] b)" for p
    using that l strip_chars [of p] split_on_chars [of "[]" b "CHR ''|''"] by (auto simp: list_all_iff)
  moreover have "split_row l = map str_strip (split_on CHR ''|'' [] b)" by (simp add: split_row_def Let_def a_def b_def)
  ultimately show ?thesis by (simp add: list_all_iff)
qed

lemma one_line_digits: "one_line (show_nat n)"
proof (induction n rule: show_nat.induct)
  case (1 n)
  have d: "char_of (48 + k) \<noteq> CHR 0x0A" if "k < 10" for k :: nat
  proof -
    have "code (char_of (48 + k)) = 48 + k" using that by (simp add: code_def)
    moreover have "code CHR 0x0A = 10" by (simp add: code_def)
    ultimately have "code (char_of (48 + k)) \<noteq> code CHR 0x0A" by simp
    then show ?thesis by metis
  qed
  show ?case using 1 d [of n] d [of "n mod 10"] by (subst show_nat.simps) auto
qed

text \<open>A rendered table: its rows are table lines, and it has a row for the header, at most a row limit and two more.\<close>

lemma render_block_rows:
  assumes "list_all one_line block" and "2 \<le> length block"
  shows "list_all (\<lambda>l. table_line l \<and> one_line l) (render_block limit block) \<and>
    0 < length (render_block limit block) \<and> length (render_block limit block) \<le> limit + 3"
proof -
  define rows0 where "rows0 = map split_row block"
  define width where "width = foldr max (map length rows0) 0"
  define rows1 where "rows1 = map (pad_row width) rows0"
  define cols where "cols = filter (keep_column rows1) [0..<width]"
  define rows2 where "rows2 = map (\<lambda>r. map ((!) r) cols) rows1"
  have wide: "length r = width" if r: "r \<in> set rows1" for r
  proof -
    obtain q where q: "q \<in> set rows0" "r = pad_row width q" using r by (auto simp: rows1_def)
    have "length q \<le> foldr max (map length qs) 0" if "q \<in> set qs" for qs :: "py_str list list"
      using that by (induction qs) auto
    then have "length q \<le> width" using q(1) unfolding width_def by blast
    then show ?thesis using q(2) by (simp add: pad_row_def)
  qed
  have cells1: "list_all one_line r" if "r \<in> set rows1" for r
    using that assms(1) split_row_chars by (fastforce simp: rows1_def rows0_def pad_row_def list_all_iff)
  have cells2: "list_all one_line r" if r: "r \<in> set rows2" for r
  proof -
    obtain q where q: "q \<in> set rows1" "r = map ((!) q) cols" using r by (auto simp: rows2_def)
    have "one_line (q ! c)" if "c \<in> set cols" for c
      using that cells1 [OF q(1)] wide [OF q(1)] by (auto simp: cols_def list_all_length)
    then show ?thesis using q(2) by (auto simp: list_all_iff)
  qed
  let ?k = "header_count rows2"
  have k: "?k = 1 \<or> ?k = 2" by (auto simp: header_count_def)
  have n: "length rows2 = length block" by (simp add: rows2_def rows1_def rows0_def)
  have "one_line ellipsis" by (simp add: ellipsis_def)
  then have clipped: "list_all (list_all one_line) (clip_rows limit (length cols) (drop ?k rows2))"
    using cells2 one_line_digits
    by (auto simp: clip_rows_def list_all_iff dest!: in_set_takeD in_set_dropD)
  have "list_all (list_all one_line) (take ?k rows2)" using cells2 by (auto simp: list_all_iff dest: in_set_takeD)
  moreover have r: "render_block limit block = map join_row (take ?k rows2 @ clip_rows limit (length cols) (drop ?k rows2))"
    unfolding render_block_def Let_def rows2_def cols_def rows1_def width_def rows0_def by (rule refl)
  moreover have "length (clip_rows limit (length cols) xs) \<le> limit + 1" for xs by (simp add: clip_rows_def)
  then have "length (take ?k rows2) + length (clip_rows limit (length cols) (drop ?k rows2)) \<le> 2 + (limit + 1)"
    using k by (intro add_mono) auto
  moreover have "0 < length (take ?k rows2)" using k n assms(2) by auto
  ultimately show ?thesis using clipped table_line_row one_line_row by (auto simp: list_all_iff)
qed

lemma debloat_loop_facts:
  assumes "list_all one_line ls"
  shows "filter (\<lambda>l. \<not> table_line l) (debloat_loop limit ls) = filter (\<lambda>l. \<not> table_line l) ls \<and>
    list_all one_line (debloat_loop limit ls) \<and> (ls = [] \<or> debloat_loop limit ls \<noteq> [])"
  using assms
proof (induction limit ls rule: debloat_loop.induct)
  case (2 limit l ls)
  let ?n = "is_table_block (l # ls)"
  show ?case
  proof (cases "?n = 0")
    case True
    then show ?thesis using 2 by (simp add: debloat_loop.simps(2))
  next
    case False
    let ?block = "take ?n (l # ls)" and ?rest = "drop ?n (l # ls)"
    have n: "?n = length (takeWhile table_line (l # ls))" "2 \<le> ?n" using False by (auto simp: is_table_block_def Let_def split: if_splits)
    then have block: "?block = takeWhile table_line (l # ls)" by (metis takeWhile_eq_take)
    have split: "?block @ ?rest = l # ls" by (rule append_take_drop_id)
    have "list_all one_line (?block @ ?rest)" using 2(3) split by simp
    then have ol: "list_all one_line ?block" "list_all one_line ?rest" by (simp_all only: list_all_append)
    have "length ?block = ?n" using n(1) block by simp
    then have r: "list_all (\<lambda>l. table_line l \<and> one_line l) (render_block limit ?block)" "render_block limit ?block \<noteq> []"
      using render_block_rows [OF ol(1), of limit] n(2) by auto
    have d: "debloat_loop limit (l # ls) = render_block limit ?block @ debloat_loop limit ?rest"
      using False by (subst debloat_loop.simps) (simp add: Let_def)
    have "filter (\<lambda>l. \<not> table_line l) (l # ls) = filter (\<lambda>l. \<not> table_line l) ?block @ filter (\<lambda>l. \<not> table_line l) ?rest"
      by (subst split [symmetric]) (rule filter_append)
    moreover have "filter (\<lambda>l. \<not> table_line l) ?block = []"
      unfolding block by (auto simp: filter_empty_conv dest: set_takeWhileD)
    moreover have "filter (\<lambda>l. \<not> table_line l) (render_block limit ?block) = []" using r(1) by (auto simp: filter_empty_conv list_all_iff)
    ultimately show ?thesis using 2(2) [OF refl False ol(2)] r unfolding d by (auto simp: list_all_iff)
  qed
qed simp

lemma split_nl_lines: "one_line cur \<Longrightarrow> list_all one_line (split_on CHR 0x0A cur s) \<and> split_on CHR 0x0A cur s \<noteq> []"
  by (induction s arbitrary: cur) auto

lemma split_one: "one_line l \<Longrightarrow> split_on CHR 0x0A cur l = [cur @ l]"
  by (induction l arbitrary: cur) auto

lemma split_first: "one_line l \<Longrightarrow> split_on CHR 0x0A cur (l @ nl @ s) = (cur @ l) # split_nl s"
  by (induction l arbitrary: cur) auto

lemma split_nl_of_join: "list_all one_line ls \<Longrightarrow> ls \<noteq> [] \<Longrightarrow> split_nl (join nl ls) = ls"
proof (induction ls rule: induct_list012)
  case (2 l)
  then show ?case by (simp add: split_one)
next
  case (3 l k ls)
  then show ?case using split_first [of l "[]" "join nl (k # ls)"] by simp
qed simp

text \<open>
  Shortening tables leaves every line outside them as it was and where it was, and a table
  comes out with at most the row limit and three rows, which are table lines again.
\<close>

theorem text_around_tables_kept:
  "filter (\<lambda>l. \<not> table_line l) (split_nl (debloat_table limit text)) = filter (\<lambda>l. \<not> table_line l) (split_nl text)"
proof (cases "CHR ''|'' \<in> set text")
  case True
  have "list_all one_line (split_nl text)" "split_nl text \<noteq> []" using split_nl_lines [where cur = "[]" and s = "text"] by auto
  then show ?thesis
    using debloat_loop_facts [of "split_nl text" limit] True by (auto simp: debloat_table_def split_nl_of_join)
qed (simp add: debloat_table_def)

text \<open>A table without a body loses the headers of all columns but the first.\<close>

lemma header_only_table_loses_columns:
  "debloat_table 50 (''| name | size |'' @ nl @ ''|---|---|'') = ''| name |'' @ nl @ ''| --- |''"
  by code_simp


section \<open>A defused fence comes back\<close>

text \<open>Characters every match of a pattern contains.\<close>

fun must :: "re \<Rightarrow> char \<Rightarrow> bool" where
  "must (Lit a) c = (a = c)"
| "must (Seq a b) c = (must a c \<or> must b c)"
| "must (Alt a b) c = (must a c \<and> must b c)"
| "must (Grp r) c = must r c"
| "must _ c = False"

lemma must_occurs: "spans f s r i j \<Longrightarrow> must r c \<Longrightarrow> \<exists>d \<in> set s. lit_has f c d"
  by (induction rule: spans.induct) auto

lemma no_match_without:
  assumes "must r c" and "list_all (\<lambda>d. \<not> lit_has f c d) s"
  shows "\<not> re_search f r s"
  using assms must_occurs by (fastforce simp: re_search_iff list_all_iff)

lemma no_secret_in:
  assumes "set s \<subseteq> set allowed"
    and "list_all (\<lambda>(f, p, rp). list_ex (\<lambda>c. must p c \<and> list_all (\<lambda>d. \<not> lit_has f c d) allowed) cs) PATTERNS"
  shows "redact s = s"
proof -
  have "\<not> re_search f p s" if pat: "(f, p, rp) \<in> set PATTERNS" for f p rp
  proof -
    obtain c where c: "must p c" "list_all (\<lambda>d. \<not> lit_has f c d) allowed"
      using pat assms(2) by (fastforce simp: list_all_iff list_ex_iff)
    then have "list_all (\<lambda>d. \<not> lit_has f c d) s" using assms(1) by (auto simp: list_all_iff)
    then show ?thesis by (rule no_match_without [OF c(1)])
  qed
  then have "\<not> has_secret s" by (auto simp: has_secret_def list_ex_iff)
  then show ?thesis by (rule redact_clean)
qed

lemma find_from_skip:
  "\<forall>k. i \<le> k \<longrightarrow> k < j \<longrightarrow> match_at f r s k = None \<Longrightarrow> i \<le> j \<Longrightarrow> j \<le> Suc (length s) \<Longrightarrow> find_from f r s i = find_from f r s j"
proof (induction "j - i" arbitrary: i)
  case (Suc n)
  then have "i < j" by simp
  then have "find_from f r s i = find_from f r s (Suc i)"
    using Suc.prems by (subst find_from.simps) auto
  also have "\<dots> = find_from f r s j" using Suc \<open>i < j\<close> by simp
  finally show ?case .
qed simp

lemma star_class_chars: "spans f s (Star (Ch is)) i j \<Longrightarrow> i \<le> k \<Longrightarrow> k < j \<Longrightarrow> items_have f is (s ! k)"
proof (induction "Star (Ch is)" i j arbitrary: k rule: spans.induct)
  case (star1 i j m)
  then have "j = Suc i" "items_have f is (s ! i)" by auto
  then show ?case using star1 by (cases "k = i") auto
qed auto

lemma ansi_at: "match_at no_flags ANSI_RE s k \<noteq> None \<Longrightarrow> k < length s \<and> s ! k = ESC"
  by (auto simp: match_at_iff ANSI_RE_def lit_has_def no_flags_def simp del: not_None_eq)

lemma strip_ansi_one:
  assumes "ESC \<notin> set pre" and "ESC \<notin> set post"
  shows "strip_ansi (pre @ ESC # ''[0m'' @ post) = pre @ post"
proof -
  let ?s = "pre @ ESC # ''[0m'' @ post" and ?p = "length pre"
  have nth: "?s ! ?p = ESC" "?s ! (?p + 1) = CHR ''[''" "?s ! (?p + 2) = CHR ''0''" "?s ! (?p + 3) = CHR ''m''"
    by (simp_all add: nth_append)
  have len: "?p + 4 \<le> length ?s" by simp
  let ?digit = "[Range CHR ''0'' CHR ''9'', One CHR '';'', One CHR ''?'']" and ?letter = "[Range CHR ''a'' CHR ''z'', Range CHR ''A'' CHR ''Z'']"
  have cls: "items_have no_flags ?digit CHR ''0''" "\<not> items_have no_flags ?digit CHR ''m''"
    "items_have no_flags ?letter CHR ''m''" "\<not> items_have no_flags ?letter CHR ''0''"
    by (simp_all add: items_have_def no_flags_def code_def)
  have body: "spans no_flags ?s ANSI_RE ?p j \<longleftrightarrow> j = ?p + 4" for j
  proof
    assume "spans no_flags ?s ANSI_RE ?p j"
    then obtain k where k: "spans no_flags ?s (Star (Ch ?digit)) (?p + 2) k" "items_have no_flags ?letter (?s ! k)" "j = Suc k"
      by (auto simp: ANSI_RE_def)
    have "?p + 2 \<le> k" using spans_le [OF k(1)] by simp
    moreover have "k \<noteq> ?p + 2" using k(2) nth(3) cls(4) by metis
    moreover have "\<not> ?p + 3 < k" using star_class_chars [OF k(1), of "?p + 3"] nth(4) cls(2) by auto
    ultimately show "j = ?p + 4" using k(3) by linarith
  next
    assume j: "j = ?p + 4"
    have "spans no_flags ?s (Star (Ch ?digit)) (?p + 2) (?p + 3)"
    proof (rule spans_run)
      show "\<forall>m. ?p + 2 \<le> m \<longrightarrow> m < ?p + 3 \<longrightarrow> items_have no_flags ?digit (?s ! m) \<noteq> False"
      proof (intro allI impI)
        fix m assume "?p + 2 \<le> m" "m < ?p + 3"
        then have "m = ?p + 2" by simp
        then show "items_have no_flags ?digit (?s ! m) \<noteq> False" using nth(3) cls(1) by metis
      qed
    qed simp_all
    moreover have "spans no_flags ?s (Ch ?letter) (?p + 3) (?p + 4)"
      using spans.cls [of "?p + 3" ?s no_flags ?letter False] nth(4) cls(3) by simp
    ultimately have "spans no_flags ?s (Seq (Star (Ch ?digit)) (Ch ?letter)) (?p + 2) (?p + 4)" by (rule spans.seq)
    moreover have "spans no_flags ?s (Lit CHR ''['') (?p + 1) (?p + 2)" using nth(2) by (simp add: lit_has_def)
    ultimately have "spans no_flags ?s (Seq (Lit CHR ''['') (Seq (Star (Ch ?digit)) (Ch ?letter))) (?p + 1) (?p + 4)"
      by (rule spans.seq [rotated])
    moreover have "spans no_flags ?s (Lit ESC) ?p (?p + 1)" using nth(1) by (simp add: lit_has_def)
    ultimately show "spans no_flags ?s ANSI_RE ?p j"
      unfolding ANSI_RE_def Seqs.simps j by (rule spans.seq [rotated])
  qed
  obtain g where m: "match_at no_flags ANSI_RE ?s ?p = Some (?p + 4, g)"
    using body match_at_iff [of no_flags ANSI_RE ?s ?p] match_at_spans by (metis not_None_eq surj_pair)
  have none: "match_at no_flags ANSI_RE ?s k = None" if "k < ?p \<or> ?p + 4 \<le> k" for k
  proof (rule ccontr)
    assume "match_at no_flags ANSI_RE ?s k \<noteq> None"
    then have k: "k < length ?s" "?s ! k = ESC" using ansi_at by blast+
    have "?s ! k \<in> set pre \<union> set post" using that k(1) by (auto simp: nth_append nth_Cons' numeral_eq_Suc)
    then show False using k(2) assms by auto
  qed
  have "find_from no_flags ANSI_RE ?s 0 = find_from no_flags ANSI_RE ?s ?p"
    using none by (intro find_from_skip) auto
  also have "\<dots> = (?p, ?p + 4, g) # find_from no_flags ANSI_RE ?s (?p + 4)"
    using m by (subst find_from.simps) simp
  also have "find_from no_flags ANSI_RE ?s (?p + 4) = []" using none by (simp add: find_from_Nil_iff)
  finally show ?thesis by (simp add: strip_ansi_def re_sub_def re_finditer_def)
qed

definition split_fence :: py_str where
  "split_fence = ''[CONTEXT '' @ ESC # ''[0m'' @ drop 9 FENCE @ replicate 500 CHR '' ''"

definition fence_chars :: py_str where
  "fence_chars = ESC # ''0m '' @ FENCE"

lemma fence_facts:
  "ESC \<notin> set FENCE" "take 9 FENCE = ''[CONTEXT ''" "CHR ''<'' \<notin> set fence_chars" "CHR '':'' \<notin> set fence_chars"
  "CHR ''|'' \<notin> set fence_chars" "CHR 0x0A \<notin> set fence_chars"
  by (simp_all add: FENCE_def ESC_def fence_chars_def)

lemma fence_no_secret: "set s \<subseteq> set fence_chars \<Longrightarrow> redact s = s"
  by (rule no_secret_in [where allowed = fence_chars and cs = "''sgxKSb:_-J''"]) (assumption, code_simp)

lemma lit_has_symbol: "\<not> is_lower c \<Longrightarrow> \<not> is_upper c \<Longrightarrow> lit_has f c d \<longleftrightarrow> d = c"
proof -
  assume c: "\<not> is_lower c" "\<not> is_upper c"
  have "is_lower (to_lower d)" if d: "is_upper d"
  proof -
    have "code (to_lower d) = code d + 32" using d by (simp add: to_lower_def is_upper_def code_def)
    then show ?thesis using d by (simp add: is_lower_def is_upper_def)
  qed
  then have "to_lower d = c \<longleftrightarrow> d = c" using c by (metis to_lower_def)
  then show ?thesis using c by (auto simp: lit_has_def to_lower_def)
qed

lemma no_symbol_no_match:
  assumes "must r c" and "c \<notin> set s" and "\<not> is_lower c" and "\<not> is_upper c"
  shows "\<not> re_search f r s"
  using no_match_without [OF assms(1)] assms(2) by (auto simp: list_all_iff lit_has_symbol [OF assms(3,4)])

lemma must_not_html: "CHR ''<'' \<notin> set s \<Longrightarrow> \<not> looks_like_html s"
proof -
  assume s: "CHR ''<'' \<notin> set s"
  have "set (py_take n t) \<subseteq> set t" for n t by (induction n t rule: py_take.induct) (auto split: nat.splits)
  then have "CHR ''<'' \<notin> set (py_take 4096 s)" using s by blast
  then show ?thesis unfolding looks_like_html_def
    by (rule no_symbol_no_match [rotated]) (simp_all add: HTML_SNIFF_def is_lower_def is_upper_def code_def)
qed

text \<open>A text without any of these characters is only stripped by the rules after the first.\<close>

lemma plain_text_rules:
  assumes "t \<noteq> []" and "set (strip_ansi t) \<subseteq> set fence_chars"
  shows "cr_text (compress_sync parse threshold t) = redact (str_strip (strip_ansi t))"
proof -
  let ?u = "strip_ansi t"
  have n: "CHR ''<'' \<notin> set ?u" "CHR '':'' \<notin> set ?u" "CHR ''|'' \<notin> set ?u" "CHR 0x0A \<notin> set ?u"
    using assms(2) fence_facts by blast+
  have html: "html_to_markdown parse ?u = ?u" using must_not_html [OF n(1)] by (simp add: html_to_markdown_def)
  have "\<not> re_search flag_i URL_RE ?u"
    by (rule no_symbol_no_match [where c = "CHR '':''"]) (use n(2) in \<open>simp_all add: URL_RE_def is_lower_def is_upper_def code_def\<close>)
  then have urls: "shorten_urls threshold ?u = ?u"
    by (simp add: shorten_urls_def finditer_Nil_iff [THEN iffD2])
  have "\<not> re_search no_flags TRAILING_WS ?u" "\<not> re_search no_flags BLANK_RUN ?u"
    by (rule no_symbol_no_match [where c = "CHR 0x0A"];
        use n(4) in \<open>simp add: TRAILING_WS_def BLANK_RUN_def AtLeast_def numeral_3_eq_3 is_lower_def is_upper_def code_def\<close>)+
  then have ws: "normalize_whitespace ?u = str_strip ?u" by (simp add: normalize_whitespace_def re_sub_clean)
  show ?thesis using html urls ws n assms(1)
    by (simp add: compress_sync_def rules_def debloat_table_def dedup_lines_def split: prod.split)
qed

text \<open>
  The loop defuses a compaction fence before it shortens an output. An escape sequence inside
  the fence gets it past that step, and the first rule of the shortener takes the escape out:
  what is kept is the fence itself.
\<close>

lemma forged_fence_survives:
  "sanitize_tool_output (\<lambda>t. cr_text (compress_sync parse threshold t)) split_fence = FENCE"
proof -
  let ?post = "drop 9 FENCE @ replicate 500 CHR '' ''"
  have chars: "set split_fence \<subseteq> set fence_chars"
    by (auto simp: split_fence_def fence_chars_def FENCE_def)
  have post: "ESC \<notin> set ?post" using fence_facts(1) by (auto simp: ESC_def dest: in_set_dropD)
  have "strip_ansi split_fence = ''[CONTEXT '' @ ?post"
    unfolding split_fence_def using strip_ansi_one [OF _ post, of "''[CONTEXT ''"] by (simp add: ESC_def)
  then have stripped: "strip_ansi split_fence = FENCE @ replicate 500 CHR '' ''"
    by (metis append_assoc append_take_drop_id fence_facts(2))
  have "dropWhile is_space (FENCE @ replicate 500 CHR '' '') = FENCE @ replicate 500 CHR '' ''"
    by (simp add: FENCE_def is_space_def code_def)
  moreover have "dropWhile is_space (replicate 500 CHR '' '' @ rev FENCE) = dropWhile is_space (rev FENCE)"
    by (rule dropWhile_append2) (auto simp: is_space_def code_def)
  moreover have "dropWhile is_space (rev FENCE) = rev FENCE" by (simp add: FENCE_def is_space_def code_def)
  ultimately have "str_strip (FENCE @ replicate 500 CHR '' '') = FENCE" by (simp add: str_strip_def)
  moreover have "set (strip_ansi split_fence) \<subseteq> set fence_chars" unfolding stripped by (auto simp: fence_chars_def)
  moreover have "redact FENCE = FENCE" by (rule fence_no_secret) (auto simp: fence_chars_def)
  ultimately have juiced: "cr_text (compress_sync parse threshold split_fence) = FENCE"
    using plain_text_rules [of split_fence] stripped by (simp add: split_fence_def)
  have "scrub split_fence = split_fence" using chars fence_facts(3) by (intro scrub_plain) blast
  moreover have "redact split_fence = split_fence" by (rule fence_no_secret [OF chars])
  moreover have "\<not> str_contains split_fence FENCE" by code_simp
  moreover have "DEFAULT_COMPRESS_THRESHOLD \<le> py_len split_fence"
    by (simp add: py_len_def split_fence_def DEFAULT_COMPRESS_THRESHOLD_def)
  moreover have "split_fence \<noteq> []" by (simp add: split_fence_def)
  ultimately show ?thesis using juiced by (simp add: sanitize_tool_output_def Let_def)
qed

end
