(* ===== verification/Spec2Isabelle.thy ===== *)
theory Spec2Isabelle
  imports Crdt_Relay Audit_Log Skill_Verification Approval_Gate Council Declassify Hybrid_Search Gateway_Server
    Memory_Graph Rpc_Supervisor Local_Adapters
    Memory_Chunker Memory_Migrations Memory_Vault Memory_Embedder Federation Marketplace Plugin_Manifest Injection_Filter Token_Juice
begin

text \<open>
  Verification library of the Sera agent (\<open>sera/\<close>).

  The program. One turn of the agent (\<open>run_turn\<close> in \<open>sera/agent/loop.py\<close>) admits iterations
  against a shared budget, builds a compacted view of the session, streams a reply through the
  context scrubber, accounts its cost, persists it, and sends its tool calls through the
  approval gate and the dispatcher. Around the turn stand stores with their own contracts:
  sessions and response caches, the encrypted vault, the audit log, call statistics and the
  skill lifecycle; replicas of the memory synchronise through CRDT documents and a relay.

  The theories, in the order they depend on each other.

  \<^item> \<open>Sera_Prelude\<close>: Python values, insertion-ordered dicts, string methods, results that may
    raise, and the locale of keyed stores. \<open>Py_Regex\<close>: the regular expressions the sources use,
    with a backtracking engine shown sound and complete for their declarative meaning.
  \<^item> \<open>Agent_Budget\<close>: \<open>agent/budget.py\<close>, \<open>agent/interrupt.py\<close>; a step relation of interleaved
    agents with its ledger invariant.
  \<^item> \<open>Context_Scrubber\<close>: \<open>context/scrubber.py\<close>; the stream refines span removal on the whole text.
  \<^item> \<open>Secret_Redaction\<close>, \<open>Tool_Layer\<close>, \<open>Shell_Policy\<close>: \<open>safety/redact.py\<close>, \<open>tools/base.py\<close>,
    \<open>tools/registry.py\<close>, \<open>tools/dispatcher.py\<close>, \<open>tools/impl/shell_run.py\<close>.
  \<^item> \<open>Call_Stats\<close>, \<open>Cost_Budget\<close>: \<open>llm/router_stats.py\<close>, \<open>tools/stats.py\<close>, \<open>llm/budget.py\<close>.
  \<^item> \<open>Crdt_Sync\<close>, \<open>Crdt_Relay\<close>: \<open>sync/crdt.py\<close>, \<open>sync/relay.py\<close>; the locale \<open>join_replica\<close>
    carries the order-blindness of merging and is interpreted on the documents.
  \<^item> \<open>Audit_Log\<close>, \<open>Secret_Vault\<close>, \<open>Approval_Gate\<close>: \<open>safety/audit.py\<close>, \<open>safety/vault.py\<close>,
    \<open>safety/approval.py\<close>, \<open>os_hooks/\<close>.
  \<^item> \<open>Session_Store\<close>, \<open>Context_Compaction\<close>: \<open>memory/session.py\<close>, \<open>llm/cache.py\<close>,
    \<open>llm/distill_cache.py\<close>, \<open>context/tokens.py\<close>, \<open>context/compressor.py\<close>.
  \<^item> \<open>Agent_Loop\<close>: \<open>agent/loop.py\<close>, composed of the above; total, with a measure on the budget.
  \<^item> \<open>Skill_Lifecycle\<close>, \<open>Skill_Registry\<close>, \<open>Skill_Verification\<close>: \<open>skills/lifecycle.py\<close>,
    \<open>skills/scoring.py\<close>, \<open>skills/loader.py\<close>, \<open>skills/verify.py\<close>, \<open>skills/ab.py\<close>.
  \<^item> \<open>Council\<close>: \<open>council/\<close> and \<open>skills/manifest.py\<close>; members answer, rank each other, a chairman
    counts and synthesises.
  \<^item> \<open>Llm_Routing\<close>: \<open>llm/failover.py\<close>, \<open>llm/bandit.py\<close>; the chain as an adapter of adapters, the
    bandit's beliefs as counts of recorded calls.
  \<^item> \<open>Llm_Adapters\<close>, \<open>Local_Adapters\<close>: \<open>llm/adapters/\<close>, \<open>llm/cache.py\<close>; requests and cache
    markers, and the assembly of tool calls from interleaved fragments, shown to reach the loop;
    the locale \<open>indexed_assembly\<close> is interpreted on both cloud adapters.
  \<^item> \<open>Memory_Privacy\<close>, \<open>Declassify\<close>: \<open>memory/privacy.py\<close>, \<open>safety/declassify.py\<close>; detection of
    personal data, redaction as replacing matches between unchanged gaps, and its lifting to
    the lines and values of a log.
  \<^item> \<open>Memory_Tree\<close>, \<open>Hybrid_Search\<close>: \<open>memory/tree.py\<close>, \<open>memory/search.py\<close>; the tables with
    their invariant, the consent gate as non-interference, freshness, and rank fusion against
    the sum it stands for.
  \<^item> \<open>Memory_Chunker\<close>, \<open>Memory_Migrations\<close>: \<open>memory/chunker.py\<close>, \<open>memory/migrations/runner.py\<close>;
    every line of a document lands in a chunk under its headings, by an invariant of the loop,
    and every pending migration runs once, in order, in stages or at once.
  \<^item> \<open>Memory_Vault\<close>, \<open>Memory_Embedder\<close>: \<open>memory/vault.py\<close>, \<open>memory/embedder.py\<close>; chunks as
    files and back, the watcher's view of one file, and the vectors of the stub.
  \<^item> \<open>Memory_Graph\<close>: \<open>memory/graph.py\<close>; extraction confined to what the consent gate shows, and
    the causal walk as reachability in the relation of stored causes.
  \<^item> \<open>Rpc_Supervisor\<close>: \<open>rpc/supervisor.py\<close>; a step relation of the loop with crashes and signals.
  \<^item> \<open>Identity_Store\<close>, \<open>Gateway_Router\<close>, \<open>Gateway_Server\<close>: \<open>gateway/identity.py\<close>,
    \<open>gateway/router.py\<close>, \<open>gateway/server.py\<close>; from a webhook request to a turn of the loop on
    the session of the person who sent it.
  \<^item> \<open>Federation\<close>: \<open>federation/protocol.py\<close>, \<open>federation/node.py\<close>; signed questions behind a
    consent gate, with the memory as a secret that only approved answers may depend on.
  \<^item> \<open>Skill_Pack\<close>, \<open>Red_Pack\<close>, \<open>Marketplace\<close>, \<open>Plugin_Manifest\<close> (over \<open>Py_Base64\<close>): \<open>skills/pack.py\<close>,
    \<open>redteam/pack.py\<close>, \<open>marketplace/\<close>, \<open>plugins/manifest.py\<close>; what a signature binds, stated once
    in the locale \<open>signed_bundle\<close> and interpreted on both kinds of pack, up to the installation
    from the catalogue and the registration of a plugin's tools.
  \<^item> \<open>Injection_Filter\<close>: \<open>safety/injection.py\<close>, \<open>redteam/blue.py\<close>, \<open>redteam/red.py\<close>; the signal
    table, and what is planted set against what is caught.
  \<^item> \<open>Token_Juice\<close>: \<open>context/tokenjuice.py\<close>; deduplication as runs of lines, what HTML hides, tables and
    the text around them, and the pipeline behind the sanitiser of the loop.

  Conventions. A SQLite table is a list of rows, or a dict when its key is the only access
  path. Exceptions are the left side of a sum. Clocks, hashes, ciphers, the tokenizer, the
  model provider, tool handlers and the file system are arguments; what is assumed of them is
  a named hypothesis of the theorem that needs it. Floats are exact reals. Asynchronous code
  is modelled at its await points as steps in sequence.

  Bounds and fuel. Every definition is total. The loop terminates by the measure of its budget;
  the regular-expression engine takes the remaining length of the text as fuel for a
  repetition, which its completeness lemma shows to be enough.

  Not modelled: network and process I/O (gateway platforms, provider SDKs, sandbox, browser,
  voice, installer), the command line, the embedding service of
  the memory tree, its optional vss index, and the background jobs that only
  prompt a model.
\<close>

end
